(* ===== verification/Prelude.thy ===== *)
theory Prelude
  imports Main "HOL-Library.Word"
begin

text \<open>
  The shared vocabulary of the development: the C types the sources use, the outcomes a C
  call can have, and the generic facts on lists and words the component theories rest on.

  \<^item> Fixed-width C integers that the code shifts, masks or lets wrap around are words
    (\<open>u8\<close>, \<open>u32\<close>, \<open>u64\<close>); a \<open>size_t\<close> that counts bytes of live memory is a \<open>nat\<close>, and
    where a caller-supplied \<open>size_t\<close> is added before it is checked the wrap-around at
    \<open>SIZE_MOD\<close> is written out.
  \<^item> An \<open>'a outcome\<close> is what a call can do: return a value, stop in a failed
    \<open>rd_assert\<close> (always compiled in), or run into undefined behaviour (a dereferenced NULL,
    a read past an array, a shift by the width or more). \<open>rd_dassert\<close> is compiled out
    unless ENABLE_DEVEL is set and is not modelled.
  \<^item> A loop that may fail to terminate returns an \<open>option\<close>, with None for divergence.
\<close>

unbundle bit_operations_syntax

subsection \<open>C types\<close>

type_synonym u8 = "8 word"
type_synonym u16 = "16 word"
type_synonym u32 = "32 word"
type_synonym u64 = "64 word"

type_synonym byte = u8

text \<open>\<open>size_t\<close> arithmetic is modulo this value (LP64).\<close>

abbreviation SIZE_MOD :: nat where
  "SIZE_MOD \<equiv> 2 ^ 64"

definition size_add :: "nat \<Rightarrow> nat \<Rightarrow> nat" where
  "size_add a b = (a + b) mod SIZE_MOD"

definition size_sub :: "nat \<Rightarrow> nat \<Rightarrow> nat" where
  "size_sub a b = (a + SIZE_MOD - b) mod SIZE_MOD"

subsection \<open>Outcomes of a C call\<close>

datatype 'a outcome = Return 'a | Assert_Failed | Undefined

fun obind :: "'a outcome \<Rightarrow> ('a \<Rightarrow> 'b outcome) \<Rightarrow> 'b outcome" where
  "obind (Return x) f = f x"
| "obind Assert_Failed f = Assert_Failed"
| "obind Undefined f = Undefined"

definition rd_assert :: "bool \<Rightarrow> unit outcome" where
  "rd_assert P = (if P then Return () else Assert_Failed)"

lemma obind_Return [simp]: "obind m Return = m"
  by (cases m) auto

lemma obind_assoc: "obind (obind m f) g = obind m (\<lambda>x. obind (f x) g)"
  by (cases m) auto

lemma obind_cong: "m = m' \<Longrightarrow> (\<And>x. m' = Return x \<Longrightarrow> f x = g x) \<Longrightarrow> obind m f = obind m' g"
  by (cases m') auto

lemma obind_eq_Return:
  "obind m f = Return y \<longleftrightarrow> (\<exists>x. m = Return x \<and> f x = Return y)"
  by (cases m) auto

lemma rd_assert_Return [simp]: "rd_assert P = Return u \<longleftrightarrow> P"
  by (simp add: rd_assert_def)

lemma obind_rd_assert [simp]: "obind (rd_assert P) f = (if P then f () else Assert_Failed)"
  by (simp add: rd_assert_def)

text \<open>Sequencing calls of which each may also run for ever.\<close>

definition xbind :: "'a outcome option \<Rightarrow> ('a \<Rightarrow> 'b outcome option) \<Rightarrow> 'b outcome option" where
  "xbind m f =
     (case m of
        None \<Rightarrow> None
      | Some r \<Rightarrow>
          (case r of
             Return x \<Rightarrow> f x
           | Assert_Failed \<Rightarrow> Some Assert_Failed
           | Undefined \<Rightarrow> Some Undefined))"

lemma xbind_simps [simp]:
  "xbind (Some (Return x)) f = f x"
  "xbind (Some Assert_Failed) f = Some Assert_Failed"
  "xbind (Some Undefined) f = Some Undefined"
  "xbind None f = None"
  by (simp_all add: xbind_def)

lemma xbind_eq_Return:
  "xbind m f = Some (Return y) \<longleftrightarrow> (\<exists>x. m = Some (Return x) \<and> f x = Some (Return y))"
  by (auto simp: xbind_def split: option.splits outcome.splits)

subsection \<open>Collections\<close>

named_theorems timer_defs \<open>the operations of the timer engine\<close>
named_theorems idemp_defs \<open>the operations of the idempotent producer\<close>

subsection \<open>Lists\<close>

lemma size_add_less [simp]: "a + b < SIZE_MOD \<Longrightarrow> size_add a b = a + b"
  by (simp add: size_add_def)

lemma size_sub_le [simp]:
  assumes "b \<le> a" "a < SIZE_MOD"
  shows "size_sub a b = a - b"
proof -
  have "a + SIZE_MOD - b = (a - b) + SIZE_MOD" using assms(1) by linarith
  moreover have "a - b < SIZE_MOD" using assms(2) by linarith
  ultimately show ?thesis by (simp only: size_sub_def mod_add_self2 mod_less)
qed

text \<open>Overwriting a stretch of a list, as \<open>memcpy\<close> into the middle of an array does.\<close>

definition overwrite :: "nat \<Rightarrow> 'a list \<Rightarrow> 'a list \<Rightarrow> 'a list" where
  "overwrite i xs ys = take i ys @ xs @ drop (i + length xs) ys"

lemma length_overwrite [simp]:
  "i + length xs \<le> length ys \<Longrightarrow> length (overwrite i xs ys) = length ys"
  by (simp add: overwrite_def)

lemma overwrite_Nil [simp]: "overwrite i [] ys = ys"
  by (simp add: overwrite_def)

lemma take_overwrite [simp]:
  "i \<le> length ys \<Longrightarrow> n \<le> i \<Longrightarrow> take n (overwrite i xs ys) = take n ys"
  by (simp add: overwrite_def min_def)

lemma take_overwrite_end:
  "i \<le> length ys \<Longrightarrow> take (i + length xs) (overwrite i xs ys) = take i ys @ xs"
  by (simp add: overwrite_def)

lemma overwrite_append_left:
  "i + length xs \<le> length ys \<Longrightarrow> overwrite i xs (ys @ zs) = overwrite i xs ys @ zs"
  by (simp add: overwrite_def)

lemma overwrite_append_right:
  "length ys \<le> i \<Longrightarrow> overwrite i xs (ys @ zs) = ys @ overwrite (i - length ys) xs zs"
  by (simp add: overwrite_def)

lemma overwrite_append_split:
  assumes "i + length xs = length ys"
  shows "overwrite i (xs @ us) (ys @ zs) = overwrite i xs ys @ overwrite 0 us zs"
proof -
  have "i + (length xs + length us) - length ys = length us"
    using assms by simp
  then show ?thesis using assms by (simp add: overwrite_def)
qed

lemma list_update_take_drop:
  "i < length xs \<Longrightarrow> xs[i := x] = take i xs @ x # drop (Suc i) xs"
  by (simp add: upd_conv_take_nth_drop)

lemma sum_list_take_Suc:
  "i < length xs \<Longrightarrow> sum_list (take (Suc i) xs) = sum_list (take i xs) + (xs ! i :: nat)"
  by (simp add: take_Suc_conv_app_nth)

lemma sum_list_take_le: "sum_list (take i xs) \<le> sum_list (xs :: nat list)"
  by (metis append_take_drop_id le_add1 sum_list_append)

text \<open>Two ways to split one list: the shorter first part is a prefix of the longer.\<close>

lemma append_prefix_cases:
  assumes eq: "pre @ xs = pre' @ ys"
  shows "length pre \<le> length pre' \<Longrightarrow> \<exists>mid. pre' = pre @ mid \<and> xs = mid @ ys"
    and "length pre' \<le> length pre \<Longrightarrow> \<exists>mid. pre = pre' @ mid \<and> ys = mid @ xs"
proof -
  obtain us where "pre = pre' @ us \<and> us @ xs = ys \<or> pre @ us = pre' \<and> xs = us @ ys"
    using eq unfolding append_eq_append_conv2 by blast
  then show "length pre \<le> length pre' \<Longrightarrow> \<exists>mid. pre' = pre @ mid \<and> xs = mid @ ys"
    and "length pre' \<le> length pre \<Longrightarrow> \<exists>mid. pre = pre' @ mid \<and> ys = mid @ xs"
    by auto
qed

end
