(* ===== verification/Rdlist.thy ===== *)
theory Rdlist
  imports Prelude "HOL-Library.Multiset"
begin

text \<open>
  The growable pointer array of \<open>rdlist.h\<close> and \<open>rdlist.c\<close>.

  A pointer is an \<open>'p option\<close> with None for NULL; \<open>'p\<close> is any type of addresses. The array
  \<open>rl_elems\<close> has \<open>rl_size\<close> cells, of which \<open>rl_cnt\<close> are used. What newly allocated cells show is
  not determined: \<open>rl_fill\<close> gives it. Elements that are allocated with the array have the
  address \<open>slot i\<close>, and what they hold is in an explicit store from addresses to values.
  Indexes are not negative. \<open>qsort\<close> and \<open>bsearch\<close> of the C library are an insertion sort and a
  binary search. The standard leaves the order of elements that compare equal open; the
  insertion sort keeps the order they came in, one of the orders allowed and the one glibc's
  merge sort gives.
\<close>

section \<open>The code\<close>

declare obind_cong [fundef_cong]

record 'p rd_list =
  rl_size :: nat
  rl_cnt :: nat
  rl_elems :: "'p option list"
  rl_has_free_cb :: bool
  rl_allocated :: bool
  rl_sorted :: bool
  rl_fixed_size :: bool
  rl_elemsize :: nat
  rl_p :: "(nat \<Rightarrow> 'p) option"
  rl_fill :: "nat \<Rightarrow> 'p option"

definition rd_list_grow :: "'p rd_list \<Rightarrow> nat \<Rightarrow> 'p rd_list outcome" where
  "rd_list_grow rl sz =
     obind (rd_assert (\<not> rl_fixed_size rl)) (\<lambda>_.
       Return (rl\<lparr>rl_size := rl_size rl + sz,
                  rl_elems := rl_elems rl @ map (rl_fill rl) [rl_size rl..<rl_size rl + sz]\<rparr>))"

definition rd_list_init :: "(nat \<Rightarrow> 'p option) \<Rightarrow> nat \<Rightarrow> bool \<Rightarrow> 'p rd_list outcome" where
  "rd_list_init fill initial_size free_cb =
     (let rl = \<lparr>rl_size = 0, rl_cnt = 0, rl_elems = [], rl_has_free_cb = False,
                rl_allocated = False, rl_sorted = False, rl_fixed_size = False,
                rl_elemsize = 0, rl_p = None, rl_fill = fill\<rparr>
      in obind (if 0 < initial_size then rd_list_grow rl initial_size else Return rl)
           (\<lambda>rl1. Return (rl1\<lparr>rl_has_free_cb := free_cb\<rparr>)))"

definition rd_list_cnt :: "'p rd_list \<Rightarrow> nat" where
  "rd_list_cnt rl = rl_cnt rl"

definition rd_list_empty :: "'p rd_list \<Rightarrow> bool" where
  "rd_list_empty rl \<longleftrightarrow> rd_list_cnt rl = 0"

text \<open>\<open>slot i\<close> is the address of the \<open>i\<close>-th element in the new allocation.\<close>

definition rd_list_prealloc_elems ::
  "(nat \<Rightarrow> 'p) \<Rightarrow> 'p rd_list \<Rightarrow> nat \<Rightarrow> nat \<Rightarrow> 'p rd_list outcome" where
  "rd_list_prealloc_elems slot rl elemsize cnt =
     obind (rd_assert (rl_elems rl = [])) (\<lambda>_.
       Return (rl\<lparr>rl_elems := map (\<lambda>i. if 0 < elemsize then Some (slot i) else None) [0..<cnt],
                  rl_p := (if 0 < elemsize then Some slot else None),
                  rl_size := cnt,
                  rl_cnt := 0,
                  rl_fixed_size := True,
                  rl_elemsize := elemsize\<rparr>))"

definition rd_list_init_copy :: "(nat \<Rightarrow> 'p) \<Rightarrow> 'p rd_list \<Rightarrow> 'p rd_list outcome" where
  "rd_list_init_copy slot src =
     (if rl_fixed_size src
      then obind (rd_list_init (rl_fill src) 0 (rl_has_free_cb src)) (\<lambda>dst.
             rd_list_prealloc_elems slot dst (rl_elemsize src) (rl_size src))
      else rd_list_init (rl_fill src) (rd_list_cnt src) (rl_has_free_cb src))"

definition rd_list_new :: "(nat \<Rightarrow> 'p option) \<Rightarrow> nat \<Rightarrow> bool \<Rightarrow> 'p rd_list outcome" where
  "rd_list_new fill initial_size free_cb =
     obind (rd_list_init fill initial_size free_cb) (\<lambda>rl. Return (rl\<lparr>rl_allocated := True\<rparr>))"

definition rd_list_set_cnt :: "'p rd_list \<Rightarrow> nat \<Rightarrow> 'p rd_list outcome" where
  "rd_list_set_cnt rl cnt =
     obind (rd_assert (rl_fixed_size rl)) (\<lambda>_.
     obind (rd_assert (cnt \<le> rl_size rl)) (\<lambda>_. Return (rl\<lparr>rl_cnt := cnt\<rparr>)))"

text \<open>The pointers passed to the free callback.\<close>

definition rd_list_free_cb :: "'p rd_list \<Rightarrow> 'p option \<Rightarrow> 'p list" where
  "rd_list_free_cb rl ptr =
     (case ptr of Some p \<Rightarrow> if rl_has_free_cb rl then [p] else [] | None \<Rightarrow> [])"

definition rd_list_add :: "'p rd_list \<Rightarrow> 'p option \<Rightarrow> ('p rd_list \<times> 'p option) outcome" where
  "rd_list_add rl elem =
     obind (if rl_cnt rl = rl_size rl
            then rd_list_grow rl (if rl_size rl \<noteq> 0 then rl_size rl * 2 else 16)
            else Return rl) (\<lambda>rl1.
       let elems = (case elem of
                      None \<Rightarrow> rl_elems rl1
                    | Some p \<Rightarrow> (rl_elems rl1)[rl_cnt rl1 := Some p])
       in Return (rl1\<lparr>rl_sorted := False, rl_elems := elems, rl_cnt := rl_cnt rl1 + 1\<rparr>,
                  elems ! rl_cnt rl1))"

definition rd_list_set :: "'p rd_list \<Rightarrow> nat \<Rightarrow> 'p option \<Rightarrow> 'p rd_list outcome" where
  "rd_list_set rl idx ptr =
     obind (if rl_size rl \<le> idx then rd_list_grow rl (idx + 1) else Return rl) (\<lambda>rl1.
     obind (if rl_cnt rl1 \<le> idx
            then Return (rl1\<lparr>rl_elems := overwrite (rl_cnt rl1)
                                (replicate (idx - rl_cnt rl1) None) (rl_elems rl1),
                             rl_cnt := idx + 1\<rparr>)
            else obind (rd_assert (rl_elems rl1 ! idx = None)) (\<lambda>_. Return rl1)) (\<lambda>rl2.
       Return (rl2\<lparr>rl_elems := (rl_elems rl2)[idx := ptr]\<rparr>)))"

text \<open>\<open>memmove\<close> shifts the used cells behind \<open>idx\<close> down; the last used cell keeps its value.\<close>

definition rd_list_remove_elem :: "'p rd_list \<Rightarrow> nat \<Rightarrow> 'p rd_list outcome" where
  "rd_list_remove_elem rl idx =
     obind (rd_assert (idx < rl_cnt rl)) (\<lambda>_.
       Return (rl\<lparr>rl_elems :=
                    (if idx + 1 < rl_cnt rl
                     then overwrite idx
                            (take (rl_cnt rl - (idx + 1)) (drop (idx + 1) (rl_elems rl))) (rl_elems rl)
                     else rl_elems rl),
                  rl_cnt := rl_cnt rl - 1\<rparr>))"

definition rd_list_elem :: "'p rd_list \<Rightarrow> nat \<Rightarrow> 'p option" where
  "rd_list_elem rl idx = (if idx < rl_cnt rl then rl_elems rl ! idx else None)"

text \<open>
  \<open>RD_LIST_FOREACH\<close> ends at the first index whose element is NULL. The search loops return the
  index of the first element that matches.
\<close>

function rd_list_search :: "'p rd_list \<Rightarrow> ('p \<Rightarrow> bool) \<Rightarrow> nat \<Rightarrow> (nat \<times> 'p) option" where
  "rd_list_search rl P i =
     (if i < rl_cnt rl then
        case rl_elems rl ! i of
          None \<Rightarrow> None
        | Some p \<Rightarrow> if P p then Some (i, p) else rd_list_search rl P (i + 1)
      else None)"
  by pat_completeness auto
termination
  by (relation "measure (\<lambda>(rl, P, i). rl_cnt rl - i)") auto

declare rd_list_search.simps [simp del]

definition rd_list_remove_first :: "'p rd_list \<Rightarrow> ('p \<Rightarrow> bool) \<Rightarrow> ('p rd_list \<times> 'p option) outcome" where
  "rd_list_remove_first rl P =
     (case rd_list_search rl P 0 of
        None \<Rightarrow> Return (rl, None)
      | Some (i, p) \<Rightarrow> obind (rd_list_remove_elem rl i) (\<lambda>rl1. Return (rl1, Some p)))"

definition rd_list_remove :: "'p rd_list \<Rightarrow> 'p option \<Rightarrow> ('p rd_list \<times> 'p option) outcome" where
  "rd_list_remove rl match_elem = rd_list_remove_first rl (\<lambda>p. Some p = match_elem)"

definition rd_list_remove_cmp ::
  "'p rd_list \<Rightarrow> 'p option \<Rightarrow> ('p \<Rightarrow> 'p option \<Rightarrow> int) \<Rightarrow> ('p rd_list \<times> 'p option) outcome" where
  "rd_list_remove_cmp rl match_elem cmp =
     rd_list_remove_first rl (\<lambda>p. Some p = match_elem \<or> cmp p match_elem = 0)"

text \<open>
  The backward scan of \<open>rd_list_remove_multi_cmp\<close> from index \<open>n - 1\<close> down. The code compares
  \<open>match_elem\<close> with the address of the comparator, not with the element: \<open>is_cmp\<close> is that
  comparison.
\<close>

fun rd_list_remove_multi_from ::
  "bool \<Rightarrow> 'p rd_list \<Rightarrow> 'p option \<Rightarrow> ('p \<Rightarrow> 'p option \<Rightarrow> int) \<Rightarrow> nat \<Rightarrow> nat \<Rightarrow>
   ('p rd_list \<times> nat) outcome" where
  "rd_list_remove_multi_from is_cmp rl match_elem cmp 0 cnt = Return (rl, cnt)"
| "rd_list_remove_multi_from is_cmp rl match_elem cmp (Suc i) cnt =
     (case rd_list_elem rl i of
        None \<Rightarrow> Return (rl, cnt)
      | Some elem \<Rightarrow>
          if is_cmp \<or> cmp elem match_elem = 0
          then obind (rd_list_remove_elem rl i) (\<lambda>rl1.
                 rd_list_remove_multi_from is_cmp rl1 match_elem cmp i (cnt + 1))
          else rd_list_remove_multi_from is_cmp rl match_elem cmp i cnt)"

definition rd_list_remove_multi_cmp ::
  "bool \<Rightarrow> 'p rd_list \<Rightarrow> 'p option \<Rightarrow> ('p \<Rightarrow> 'p option \<Rightarrow> int) \<Rightarrow> ('p rd_list \<times> nat) outcome" where
  "rd_list_remove_multi_cmp is_cmp rl match_elem cmp =
     rd_list_remove_multi_from is_cmp rl match_elem cmp (rl_cnt rl) 0"

subsection \<open>Sorting and searching\<close>

fun qsort_insert :: "('a \<Rightarrow> 'a \<Rightarrow> int) \<Rightarrow> 'a \<Rightarrow> 'a list \<Rightarrow> 'a list" where
  "qsort_insert cmp x [] = [x]"
| "qsort_insert cmp x (y # ys) = (if cmp x y \<le> 0 then x # y # ys else y # qsort_insert cmp x ys)"

definition qsort :: "('a \<Rightarrow> 'a \<Rightarrow> int) \<Rightarrow> 'a list \<Rightarrow> 'a list" where
  "qsort cmp xs = foldr (qsort_insert cmp) xs []"

text \<open>The index of a cell in \<open>lo\<close> to \<open>hi\<close> that compares equal to the key.\<close>

function bsearch :: "('a \<Rightarrow> 'a \<Rightarrow> int) \<Rightarrow> 'a \<Rightarrow> 'a list \<Rightarrow> nat \<Rightarrow> nat \<Rightarrow> nat option" where
  "bsearch cmp key xs lo hi =
     (if lo < hi then
        let mid = (lo + hi) div 2; c = cmp key (xs ! mid)
        in if c = 0 then Some mid
           else if c < 0 then bsearch cmp key xs lo mid
           else bsearch cmp key xs (mid + 1) hi
      else None)"
  by pat_completeness auto
termination
  by (relation "measure (\<lambda>(cmp, key, xs, lo, hi). hi - lo)") auto

declare bsearch.simps [simp del]

definition rd_list_sort :: "'p rd_list \<Rightarrow> ('p option \<Rightarrow> 'p option \<Rightarrow> int) \<Rightarrow> 'p rd_list" where
  "rd_list_sort rl cmp =
     rl\<lparr>rl_elems := overwrite 0 (qsort cmp (take (rl_cnt rl) (rl_elems rl))) (rl_elems rl),
        rl_sorted := True\<rparr>"

definition rd_list_clear :: "'p rd_list \<Rightarrow> 'p rd_list" where
  "rd_list_clear rl = rl\<lparr>rl_cnt := 0, rl_sorted := False\<rparr>"

text \<open>What is freed: elements through the callback, the array, the list itself.\<close>

datatype 'p list_free = Free_Elem 'p | Free_Elems | Free_List

definition rd_list_destroy :: "'p rd_list \<Rightarrow> 'p list_free list" where
  "rd_list_destroy rl =
     (if rl_elems rl \<noteq> []
      then (if rl_has_free_cb rl
            then concat (map (\<lambda>e. case e of None \<Rightarrow> [] | Some p \<Rightarrow> [Free_Elem p])
                           (take (rl_cnt rl) (rl_elems rl)))
            else []) @ [Free_Elems]
      else []) @ (if rl_allocated rl then [Free_List] else [])"

definition rd_list_index :: "'p rd_list \<Rightarrow> 'p option \<Rightarrow> ('p option \<Rightarrow> 'p option \<Rightarrow> int) \<Rightarrow> nat option" where
  "rd_list_index rl match cmp =
     map_option fst (rd_list_search rl (\<lambda>p. cmp match (Some p) = 0) 0)"

definition rd_list_find :: "'p rd_list \<Rightarrow> 'p option \<Rightarrow> ('p option \<Rightarrow> 'p option \<Rightarrow> int) \<Rightarrow> 'p option" where
  "rd_list_find rl match cmp =
     (if rl_sorted rl
      then case bsearch cmp match (rl_elems rl) 0 (rl_cnt rl) of
             Some i \<Rightarrow> rl_elems rl ! i
           | None \<Rightarrow> None
      else map_option snd (rd_list_search rl (\<lambda>p. cmp match (Some p) = 0) 0))"

function rd_list_cmp_from ::
  "'p rd_list \<Rightarrow> 'p rd_list \<Rightarrow> ('p option \<Rightarrow> 'p option \<Rightarrow> int) \<Rightarrow> nat \<Rightarrow> int" where
  "rd_list_cmp_from a b cmp i =
     (if i < rl_cnt a then
        let r = cmp (rl_elems a ! i) (rl_elems b ! i)
        in if r \<noteq> 0 then r else rd_list_cmp_from a b cmp (i + 1)
      else 0)"
  by pat_completeness auto
termination
  by (relation "measure (\<lambda>(a, b, cmp, i). rl_cnt a - i)") auto

declare rd_list_cmp_from.simps [simp del]

definition rd_list_cmp :: "'p rd_list \<Rightarrow> 'p rd_list \<Rightarrow> ('p option \<Rightarrow> 'p option \<Rightarrow> int) \<Rightarrow> int" where
  "rd_list_cmp a b cmp =
     (let i = int (rl_cnt a) - int (rl_cnt b)
      in if i \<noteq> 0 then i else rd_list_cmp_from a b cmp 0)"

definition rd_list_cmp_ptr :: "'p::linorder \<Rightarrow> 'p \<Rightarrow> int" where
  "rd_list_cmp_ptr a b = (if a < b then - 1 else if b < a then 1 else 0)"

text \<open>\<open>rd_list_apply\<close>: an element for which the callback returns 0 is removed.\<close>

function rd_list_apply_from :: "'p rd_list \<Rightarrow> ('p \<Rightarrow> bool) \<Rightarrow> nat \<Rightarrow> 'p rd_list outcome" where
  "rd_list_apply_from rl cb i =
     (case rd_list_elem rl i of
        None \<Rightarrow> Return rl
      | Some elem \<Rightarrow>
          if cb elem then rd_list_apply_from rl cb (i + 1)
          else obind (rd_list_remove_elem rl i) (\<lambda>rl1.
                 rd_list_apply_from rl1 cb i))"
  by pat_completeness auto
termination
  by (relation "measure (\<lambda>(rl, cb, i). rl_cnt rl - i)")
    (auto simp: rd_list_elem_def rd_list_remove_elem_def split: if_splits)

declare rd_list_apply_from.simps [simp del]

definition rd_list_apply :: "'p rd_list \<Rightarrow> ('p \<Rightarrow> bool) \<Rightarrow> 'p rd_list outcome" where
  "rd_list_apply rl cb = rd_list_apply_from rl cb 0"

subsection \<open>Copies\<close>

definition rd_list_nocopy_ptr :: "'p \<Rightarrow> 'p option" where
  "rd_list_nocopy_ptr elem = Some elem"

text \<open>The source is a different list (\<open>dst != src\<close> is asserted on the addresses).\<close>

function rd_list_copy_from ::
  "'p rd_list \<Rightarrow> 'p rd_list \<Rightarrow> ('p \<Rightarrow> 'p option) \<Rightarrow> nat \<Rightarrow> 'p rd_list outcome" where
  "rd_list_copy_from dst src copy_cb i =
     (if i < rl_cnt src then
        case rl_elems src ! i of
          None \<Rightarrow> Return dst
        | Some elem \<Rightarrow>
            (case copy_cb elem of
               None \<Rightarrow> rd_list_copy_from dst src copy_cb (i + 1)
             | Some celem \<Rightarrow>
                 obind (rd_list_add dst (Some celem)) (\<lambda>(dst1, _).
                   rd_list_copy_from dst1 src copy_cb (i + 1)))
      else Return dst)"
  by pat_completeness auto
termination
  by (relation "measure (\<lambda>(dst, src, copy_cb, i). rl_cnt src - i)") auto

declare rd_list_copy_from.simps [simp del]

definition rd_list_copy_to ::
  "'p rd_list \<Rightarrow> 'p rd_list \<Rightarrow> ('p \<Rightarrow> 'p option) option \<Rightarrow> 'p rd_list outcome" where
  "rd_list_copy_to dst src copy_cb =
     rd_list_copy_from dst src
       (case copy_cb of None \<Rightarrow> rd_list_nocopy_ptr | Some cb \<Rightarrow> cb) 0"

definition rd_list_copy :: "'p rd_list \<Rightarrow> ('p \<Rightarrow> 'p option) option \<Rightarrow> 'p rd_list outcome" where
  "rd_list_copy src copy_cb =
     obind (rd_list_new (rl_fill src) (rl_cnt src) (rl_has_free_cb src)) (\<lambda>dst.
       rd_list_copy_to dst src copy_cb)"

text \<open>
  The store after \<open>memcpy\<close> of \<open>n\<close> elements; copying from or to a NULL element area is undefined
  unless nothing is copied.
\<close>

definition copy_slots ::
  "('p \<Rightarrow> 'v) \<Rightarrow> (nat \<Rightarrow> 'p) option \<Rightarrow> (nat \<Rightarrow> 'p) option \<Rightarrow> nat \<Rightarrow> ('p \<Rightarrow> 'v) outcome" where
  "copy_slots st dst src n =
     (if n = 0 then Return st
      else case (dst, src) of
        (Some d, Some s) \<Rightarrow> Return (fold (\<lambda>i st'. st'(d i := st (s i))) [0..<n] st)
      | _ \<Rightarrow> Undefined)"

definition rd_list_copy_preallocated0 ::
  "('p \<Rightarrow> 'v) \<Rightarrow> (nat \<Rightarrow> 'p) \<Rightarrow> 'p rd_list \<Rightarrow> 'p rd_list \<Rightarrow> ('p rd_list \<times> ('p \<Rightarrow> 'v)) outcome" where
  "rd_list_copy_preallocated0 st slot dst src =
     obind (rd_list_init_copy slot src) (\<lambda>dst1.
       let dst2 = dst1\<lparr>rl_allocated := rl_allocated dst1 \<or> rl_allocated dst\<rparr>
       in obind (rd_assert (rl_fixed_size dst2)) (\<lambda>_.
          obind (rd_assert (rl_fixed_size src)) (\<lambda>_.
          obind (rd_assert (rl_elemsize dst2 = rl_elemsize src \<and> rl_size dst2 = rl_size src)) (\<lambda>_.
          obind (copy_slots st (rl_p dst2) (rl_p src)
                   (if rl_elemsize src = 0 then 0 else rl_size src)) (\<lambda>st1.
            Return (dst2\<lparr>rl_cnt := rl_cnt src\<rparr>, st1))))))"

definition rd_list_copy_preallocated ::
  "('p \<Rightarrow> 'v) \<Rightarrow> (nat \<Rightarrow> 'p) \<Rightarrow> 'p rd_list \<Rightarrow> ('p rd_list \<times> ('p \<Rightarrow> 'v)) outcome" where
  "rd_list_copy_preallocated st slot elem =
     obind (rd_list_new (rl_fill elem) 0 False) (\<lambda>dst. rd_list_copy_preallocated0 st slot dst elem)"

subsection \<open>Lists of 32-bit integers\<close>

definition rd_list_init_int32 :: "(nat \<Rightarrow> 'p) \<Rightarrow> 'p rd_list \<Rightarrow> nat \<Rightarrow> 'p rd_list outcome" where
  "rd_list_init_int32 slot rl max_size =
     obind (rd_list_init (rl_fill rl) 0 False) (\<lambda>rl1.
       rd_list_prealloc_elems slot (rl1\<lparr>rl_allocated := rl_allocated rl\<rparr>) 4 max_size)"

definition rd_list_set_int32 ::
  "('p \<Rightarrow> u32) \<Rightarrow> 'p rd_list \<Rightarrow> nat \<Rightarrow> u32 \<Rightarrow> ('p rd_list \<times> ('p \<Rightarrow> u32)) outcome" where
  "rd_list_set_int32 st rl idx val =
     obind (rd_assert (rl_fixed_size rl \<and> rl_elemsize rl = 4)) (\<lambda>_.
     obind (rd_assert (idx < rl_size rl)) (\<lambda>_.
       case rl_elems rl ! idx of
         None \<Rightarrow> Undefined
       | Some p \<Rightarrow>
           Return (if rl_cnt rl \<le> idx then rl\<lparr>rl_cnt := idx + 1\<rparr> else rl, st(p := val))))"

definition rd_list_get_int32 :: "('p \<Rightarrow> u32) \<Rightarrow> 'p rd_list \<Rightarrow> nat \<Rightarrow> u32 outcome" where
  "rd_list_get_int32 st rl idx =
     obind (rd_assert (rl_fixed_size rl \<and> rl_elemsize rl = 4 \<and> idx < rl_cnt rl)) (\<lambda>_.
       case rl_elems rl ! idx of None \<Rightarrow> Undefined | Some p \<Rightarrow> Return (st p))"

section \<open>Contents and invariant\<close>

definition list_inv :: "'p rd_list \<Rightarrow> bool" where
  "list_inv rl \<longleftrightarrow> length (rl_elems rl) = rl_size rl \<and> rl_cnt rl \<le> rl_size rl"

definition list_abs :: "'p rd_list \<Rightarrow> 'p option list" where
  "list_abs rl = take (rl_cnt rl) (rl_elems rl)"

text \<open>A list that can grow and whose elements are all there (no NULL).\<close>

definition list_dyn :: "'p rd_list \<Rightarrow> bool" where
  "list_dyn rl \<longleftrightarrow> list_inv rl \<and> \<not> rl_fixed_size rl"

definition no_null :: "'p rd_list \<Rightarrow> bool" where
  "no_null rl \<longleftrightarrow> None \<notin> set (list_abs rl)"

lemma length_list_abs [simp]: "list_inv rl \<Longrightarrow> length (list_abs rl) = rl_cnt rl"
  by (simp add: list_inv_def list_abs_def)

lemma list_elem_abs:
  "list_inv rl \<Longrightarrow> rd_list_elem rl i = (if i < length (list_abs rl) then list_abs rl ! i else None)"
  by (simp add: rd_list_elem_def list_abs_def list_inv_def)

lemma rd_list_new_spec:
  "\<exists>rl. rd_list_new fill n cb = Return rl \<and> list_dyn rl \<and> list_abs rl = [] \<and> \<not> rl_sorted rl"
  by (auto simp: rd_list_new_def rd_list_init_def rd_list_grow_def list_dyn_def list_inv_def
      list_abs_def Let_def)

lemma rd_list_add_spec:
  assumes "list_dyn rl"
  shows "\<exists>rl'. rd_list_add rl (Some p) = Return (rl', Some p) \<and> list_dyn rl' \<and>
    list_abs rl' = list_abs rl @ [Some p] \<and> \<not> rl_sorted rl'"
proof -
  obtain rl1 where rl1: "(if rl_cnt rl = rl_size rl
      then rd_list_grow rl (if rl_size rl \<noteq> 0 then rl_size rl * 2 else 16) else Return rl) = Return rl1"
    "list_dyn rl1" "list_abs rl1 = list_abs rl" "rl_cnt rl1 < rl_size rl1"
  proof (cases "rl_cnt rl = rl_size rl")
    case True
    define k where "k = (if rl_size rl \<noteq> 0 then rl_size rl * 2 else 16)"
    let ?rl = "rl\<lparr>rl_size := rl_size rl + k,
      rl_elems := rl_elems rl @ map (rl_fill rl) [rl_size rl..<rl_size rl + k]\<rparr>"
    show ?thesis using assms True
      by (intro that [of ?rl])
        (simp_all add: rd_list_grow_def k_def list_dyn_def list_inv_def list_abs_def)
  next
    case False
    then show ?thesis using assms by (intro that [of rl]) (auto simp: list_dyn_def list_inv_def)
  qed
  have len: "rl_cnt rl1 < length (rl_elems rl1)" using rl1 by (simp add: list_dyn_def list_inv_def)
  let ?rl = "rl1\<lparr>rl_sorted := False, rl_elems := (rl_elems rl1)[rl_cnt rl1 := Some p],
    rl_cnt := rl_cnt rl1 + 1\<rparr>"
  have "rd_list_add rl (Some p) = Return (?rl, Some p)"
    using rl1(1) len by (simp add: rd_list_add_def)
  moreover have "list_dyn ?rl" using rl1(2,4) by (simp add: list_dyn_def list_inv_def)
  moreover have "list_abs ?rl = list_abs rl @ [Some p]"
    using len rl1(3) by (simp add: list_abs_def take_Suc_conv_app_nth)
  ultimately show ?thesis by auto
qed

lemma rd_list_remove_elem_spec:
  assumes "list_inv rl" "i < rl_cnt rl"
  shows "\<exists>rl'. rd_list_remove_elem rl i = Return rl' \<and> list_inv rl' \<and>
    list_abs rl' = take i (list_abs rl) @ drop (Suc i) (list_abs rl) \<and>
    rl_fixed_size rl' = rl_fixed_size rl \<and> rl_sorted rl' = rl_sorted rl \<and> rl_cnt rl' = rl_cnt rl - 1"
proof -
  let ?xs = "rl_elems rl" and ?n = "rl_cnt rl"
  have len: "?n \<le> length ?xs" using assms(1) by (simp add: list_inv_def)
  have mid: "length (take (?n - Suc i) (drop (Suc i) ?xs)) = ?n - Suc i" using len assms(2) by simp
  define ys where "ys = overwrite i (take (?n - (i + 1)) (drop (i + 1) ?xs)) ?xs"
  have "take (?n - 1) ys = take i ?xs @ take (?n - Suc i) (drop (Suc i) ?xs)"
    using mid assms(2) len by (simp add: ys_def overwrite_def)
  also have "\<dots> = take i (take ?n ?xs) @ drop (Suc i) (take ?n ?xs)"
    using assms(2) by (simp add: drop_take min_def)
  finally have ys: "take (?n - 1) ys = take i (take ?n ?xs) @ drop (Suc i) (take ?n ?xs)"
    "length ys = length ?xs" using mid assms(2) len by (simp_all add: ys_def)
  show ?thesis
  proof (cases "i + 1 < ?n")
    case True
    then show ?thesis using ys assms len diff_le_self [of ?n 1]
      by (auto simp: rd_list_remove_elem_def list_inv_def list_abs_def ys_def [symmetric, unfolded Suc_eq_plus1 [symmetric]])
  next
    case False
    then have "?n = Suc i" using assms(2) by simp
    then show ?thesis using assms by (simp add: rd_list_remove_elem_def list_inv_def list_abs_def)
  qed
qed

section \<open>The interface of a growable array\<close>

text \<open>
  What code that fills and reads such a list relies on: an element added is found behind the
  ones before it, and indexes outside the list give NULL.
\<close>

primrec add_all :: "('l \<Rightarrow> 'p option \<Rightarrow> ('l \<times> 'p option) outcome) \<Rightarrow> 'l \<Rightarrow> 'p list \<Rightarrow> 'l outcome" where
  "add_all add l [] = Return l"
| "add_all add l (p # ps) = obind (add l (Some p)) (\<lambda>(l1, _). add_all add l1 ps)"

locale pointer_array =
  fixes arr_inv :: "'l \<Rightarrow> bool"
    and arr_abs :: "'l \<Rightarrow> 'p option list"
    and arr_add :: "'l \<Rightarrow> 'p option \<Rightarrow> ('l \<times> 'p option) outcome"
    and arr_elem :: "'l \<Rightarrow> nat \<Rightarrow> 'p option"
  assumes add_law: "arr_inv l \<Longrightarrow> \<exists>l'. arr_add l (Some p) = Return (l', Some p) \<and> arr_inv l' \<and>
      arr_abs l' = arr_abs l @ [Some p]"
    and elem_law: "arr_inv l \<Longrightarrow>
      arr_elem l i = (if i < length (arr_abs l) then arr_abs l ! i else None)"
begin

lemma add_all_spec:
  "arr_inv l \<Longrightarrow> \<exists>l'. add_all arr_add l ps = Return l' \<and> arr_inv l' \<and>
     arr_abs l' = arr_abs l @ map Some ps"
proof (induction ps arbitrary: l)
  case (Cons p ps)
  obtain l1 where l1: "arr_add l (Some p) = Return (l1, Some p)" "arr_inv l1"
    "arr_abs l1 = arr_abs l @ [Some p]" using add_law [OF Cons.prems] by blast
  then show ?case using Cons.IH [OF l1(2)] by auto
qed simp

lemma elem_after_adds:
  assumes "arr_inv l" "add_all arr_add l ps = Return l'" "i < length ps"
  shows "arr_elem l' (length (arr_abs l) + i) = Some (ps ! i)"
  using add_all_spec [OF assms(1), of ps] assms elem_law [of l'] by (auto simp: nth_append)

end

interpretation rl: pointer_array list_dyn list_abs rd_list_add rd_list_elem
proof
  show "\<exists>rl'. rd_list_add rl (Some p) = Return (rl', Some p) \<and> list_dyn rl' \<and>
    list_abs rl' = list_abs rl @ [Some p]" if "list_dyn rl" for rl :: "'a rd_list" and p
    using rd_list_add_spec [OF that] by blast
  show "rd_list_elem rl i = (if i < length (list_abs rl) then list_abs rl ! i else None)"
    if "list_dyn rl" for rl :: "'a rd_list" and i
    using that by (simp add: list_dyn_def list_elem_abs)
qed

section \<open>Searching, removing, copying\<close>

lemma list_abs_nth: "list_inv rl \<Longrightarrow> i < rl_cnt rl \<Longrightarrow> list_abs rl ! i = rl_elems rl ! i"
  by (simp add: list_abs_def)

lemma no_null_nth: "list_inv rl \<Longrightarrow> no_null rl \<Longrightarrow> i < rl_cnt rl \<Longrightarrow> \<exists>p. rl_elems rl ! i = Some p"
  by (metis length_list_abs list_abs_nth no_null_def not_None_eq nth_mem)

text \<open>The elements from index \<open>i\<close> on that the copy loop adds.\<close>

lemma copy_from_add_all:
  assumes "list_inv src" "no_null src"
  shows "rd_list_copy_from dst src cb i
    = add_all rd_list_add dst (List.map_filter (\<lambda>e. Option.bind e cb) (drop i (list_abs src)))"
proof (induction "rl_cnt src - i" arbitrary: dst i)
  case 0
  then show ?case using assms(1)
    by (simp add: rd_list_copy_from.simps [of dst src cb i] map_filter_simps)
next
  case (Suc n)
  then have i: "i < rl_cnt src" by simp
  obtain p where p: "rl_elems src ! i = Some p" using no_null_nth [OF assms i] by blast
  then have d: "drop i (list_abs src) = Some p # drop (Suc i) (list_abs src)"
    using i assms(1) by (metis Cons_nth_drop_Suc length_list_abs list_abs_nth)
  have IH: "rd_list_copy_from dst' src cb (Suc i)
    = add_all rd_list_add dst' (List.map_filter (\<lambda>e. Option.bind e cb) (drop (Suc i) (list_abs src)))"
    for dst' using Suc.hyps(2) by (intro Suc.hyps(1)) simp
  show ?case using i p d IH
    by (simp add: rd_list_copy_from.simps [of dst src cb i] map_filter_simps split: option.split)
qed

text \<open>Removing backwards: the elements below \<open>n\<close> are still to be looked at.\<close>

lemma remove_multi_from_spec:
  assumes "list_inv rl" "no_null rl" "n \<le> rl_cnt rl"
  shows "\<exists>rl'. rd_list_remove_multi_from False rl m cmp n k = Return (rl',
      k + length (filter (\<lambda>e. cmp (the e) m = 0) (take n (list_abs rl)))) \<and> list_inv rl' \<and>
    list_abs rl' = filter (\<lambda>e. cmp (the e) m \<noteq> 0) (take n (list_abs rl)) @ drop n (list_abs rl)"
  using assms
proof (induction n arbitrary: rl k)
  case (Suc i)
  then have i: "i < rl_cnt rl" by simp
  obtain p where p: "rl_elems rl ! i = Some p" using no_null_nth [OF Suc.prems(1,2) i] by blast
  have nth: "list_abs rl ! i = Some p" using p i Suc.prems(1) by (simp add: list_abs_nth)
  have elem: "rd_list_elem rl i = Some p" using p i by (simp add: rd_list_elem_def)
  have tk: "take (Suc i) (list_abs rl) = take i (list_abs rl) @ [Some p]"
    using i Suc.prems(1) nth by (simp add: take_Suc_conv_app_nth)
  have dr: "drop i (list_abs rl) = Some p # drop (Suc i) (list_abs rl)"
    using i Suc.prems(1) nth by (metis Cons_nth_drop_Suc length_list_abs)
  show ?case
  proof (cases "cmp p m = 0")
    case True
    obtain rl1 where rl1: "rd_list_remove_elem rl i = Return rl1" "list_inv rl1"
      "list_abs rl1 = take i (list_abs rl) @ drop (Suc i) (list_abs rl)" "rl_cnt rl1 = rl_cnt rl - 1"
      using rd_list_remove_elem_spec [OF Suc.prems(1) i] by blast
    have "no_null rl1" using Suc.prems(2) rl1(3)
      by (auto simp: no_null_def dest: in_set_takeD in_set_dropD)
    moreover have "take i (list_abs rl1) = take i (list_abs rl)"
      "drop i (list_abs rl1) = drop (Suc i) (list_abs rl)"
      using rl1(3) i Suc.prems(1) by simp_all
    ultimately show ?thesis using Suc.IH [of rl1 "k + 1"] rl1 i elem True tk by auto
  next
    case False
    then show ?thesis using Suc.IH [OF Suc.prems(1,2), of k] i elem tk dr by auto
  qed
qed simp

lemma search_spec:
  assumes "list_inv rl" "no_null rl"
  shows "rd_list_search rl P i =
    (case List.find (\<lambda>j. P (the (list_abs rl ! j))) [i..<rl_cnt rl] of
       None \<Rightarrow> None | Some j \<Rightarrow> Some (j, the (list_abs rl ! j)))"
proof (induction "rl_cnt rl - i" arbitrary: i)
  case 0
  then show ?case by (simp add: rd_list_search.simps [of rl P i])
next
  case (Suc n)
  then have i: "i < rl_cnt rl" by simp
  obtain p where p: "rl_elems rl ! i = Some p" using no_null_nth [OF assms i] by blast
  have u: "[i..<rl_cnt rl] = i # [Suc i..<rl_cnt rl]" using i by (simp add: upt_conv_Cons)
  have "rd_list_search rl P (Suc i) = (case List.find (\<lambda>j. P (the (list_abs rl ! j))) [Suc i..<rl_cnt rl] of
       None \<Rightarrow> None | Some j \<Rightarrow> Some (j, the (list_abs rl ! j)))"
    using Suc.hyps(2) by (intro Suc.hyps(1)) simp
  then show ?case using i p assms(1) u
    by (simp add: rd_list_search.simps [of rl P i] list_abs_nth)
qed

subsection \<open>Sorting\<close>

text \<open>What \<open>qsort\<close> and \<open>bsearch\<close> require of a comparator.\<close>

definition cmp_ok :: "('a \<Rightarrow> 'a \<Rightarrow> int) \<Rightarrow> bool" where
  "cmp_ok cmp \<longleftrightarrow> (\<forall>a b. cmp a b \<le> 0 \<longleftrightarrow> 0 \<le> cmp b a) \<and>
     (\<forall>a b c. cmp a b \<le> 0 \<longrightarrow> cmp b c \<le> 0 \<longrightarrow> cmp a c \<le> 0)"

lemma mset_qsort: "mset (qsort cmp xs) = mset xs"
proof -
  have "mset (qsort_insert cmp x ys) = add_mset x (mset ys)" for x ys
    by (induction ys) auto
  then show ?thesis by (induction xs) (simp_all add: qsort_def)
qed

lemma set_qsort_insert: "set (qsort_insert cmp x ys) = insert x (set ys)"
  by (induction ys) auto

lemma sorted_qsort:
  assumes "cmp_ok cmp"
  shows "sorted_wrt (\<lambda>a b. cmp a b \<le> 0) (qsort cmp xs)"
proof -
  have trans: "cmp a b \<le> 0 \<Longrightarrow> cmp b c \<le> 0 \<Longrightarrow> cmp a c \<le> 0" for a b c
    using assms unfolding cmp_ok_def by blast
  have linear: "cmp b a \<le> 0" if "\<not> cmp a b \<le> 0" for a b
  proof -
    have "0 \<le> cmp a b" using that by simp
    then show ?thesis using assms unfolding cmp_ok_def by blast
  qed
  have "sorted_wrt (\<lambda>a b. cmp a b \<le> 0) ys \<Longrightarrow> sorted_wrt (\<lambda>a b. cmp a b \<le> 0) (qsort_insert cmp x ys)"
    for x ys
    by (induction ys) (auto simp: set_qsort_insert intro: trans linear)
  then show ?thesis by (induction xs) (simp_all add: qsort_def)
qed

text \<open>Only what the comparator says of the elements at hand matters.\<close>

lemma qsort_cong:
  assumes "\<And>a b. a \<in> set xs \<Longrightarrow> b \<in> set xs \<Longrightarrow> cmp a b = cmp' a b"
  shows "qsort cmp xs = qsort cmp' xs"
proof -
  have insert: "qsort_insert cmp x ys = qsort_insert cmp' x ys" if "\<And>y. y \<in> set ys \<Longrightarrow> cmp x y = cmp' x y" for x ys
    using that by (induction ys) auto
  have "set (foldr (qsort_insert cmp') ys []) = set ys" for ys
    by (induction ys) (simp_all add: set_qsort_insert)
  then show ?thesis unfolding qsort_def using assms
    by (induction xs) (simp_all, intro insert, simp)
qed

lemma bsearch_cong:
  assumes "\<And>x. x \<in> set xs \<Longrightarrow> cmp key x = cmp' key x"
  shows "hi \<le> length xs \<Longrightarrow> bsearch cmp key xs lo hi = bsearch cmp' key xs lo hi"
proof (induction "hi - lo" arbitrary: lo hi rule: less_induct)
  case less
  show ?case
  proof (cases "lo < hi")
    case True
    define mid where "mid = (lo + hi) div 2"
    have mid: "lo \<le> mid" "mid < hi" using True by (auto simp: mid_def)
    then have "cmp key (xs ! mid) = cmp' key (xs ! mid)" using less.prems by (intro assms) simp
    moreover have "bsearch cmp key xs lo mid = bsearch cmp' key xs lo mid"
      "bsearch cmp key xs (mid + 1) hi = bsearch cmp' key xs (mid + 1) hi"
      using less.hyps [of mid lo] less.hyps [of hi "mid + 1"] less.prems mid by auto
    ultimately show ?thesis using True
      by (simp add: bsearch.simps [of _ _ _ lo hi] Let_def flip: mid_def)
  qed (simp add: bsearch.simps)
qed

text \<open>In a sorted array binary search finds an equal element if there is one.\<close>

lemma cmp_okD:
  assumes "cmp_ok cmp"
  shows "cmp a b \<le> 0 \<longleftrightarrow> 0 \<le> cmp b a" "cmp a b \<le> 0 \<Longrightarrow> cmp b c \<le> 0 \<Longrightarrow> cmp a c \<le> 0" "cmp a a \<le> 0"
proof -
  show flip: "cmp a b \<le> 0 \<longleftrightarrow> 0 \<le> cmp b a" for a b using assms unfolding cmp_ok_def by blast
  show "cmp a b \<le> 0 \<Longrightarrow> cmp b c \<le> 0 \<Longrightarrow> cmp a c \<le> 0" using assms unfolding cmp_ok_def by blast
  show "cmp a a \<le> 0" using flip [of a a] by linarith
qed

lemma bsearch_outside:
  assumes cmp: "cmp_ok cmp" and ord: "cmp (xs ! i) (xs ! j) \<le> 0"
  shows "cmp key (xs ! i) < 0 \<Longrightarrow> cmp key (xs ! j) \<noteq> 0" "0 < cmp key (xs ! j) \<Longrightarrow> cmp key (xs ! i) \<noteq> 0"
  using cmp_okD(1) [OF cmp, of "xs ! i" key] cmp_okD(1) [OF cmp, of "xs ! j" key] cmp_okD(2) [OF cmp ord, of key]
    cmp_okD(2) [OF cmp _ ord, of key] by linarith+

lemma bsearch_spec:
  assumes cmp: "cmp_ok cmp" and srt: "sorted_wrt (\<lambda>a b. cmp a b \<le> 0) (take n xs)"
    and n: "n \<le> length xs"
  shows "hi \<le> n \<Longrightarrow> (case bsearch cmp key xs lo hi of
      Some i \<Rightarrow> lo \<le> i \<and> i < hi \<and> cmp key (xs ! i) = 0
    | None \<Rightarrow> \<forall>i. lo \<le> i \<longrightarrow> i < hi \<longrightarrow> cmp key (xs ! i) \<noteq> 0)"
proof (induction "hi - lo" arbitrary: lo hi rule: less_induct)
  case less
  have ord: "cmp (xs ! i) (xs ! j) \<le> 0" if "i \<le> j" "j < hi" for i j
    using srt that less.prems n cmp_okD(3) [OF cmp] by (cases "i = j") (auto simp: sorted_wrt_iff_nth_less)
  show ?case
  proof (cases "lo < hi")
    case False
    then show ?thesis by (simp add: bsearch.simps [of cmp key xs lo hi])
  next
    case True
    define mid where "mid = (lo + hi) div 2"
    have mid: "lo \<le> mid" "mid < hi" using True by (auto simp: mid_def)
    have eq: "bsearch cmp key xs lo hi =
      (if cmp key (xs ! mid) = 0 then Some mid
       else if cmp key (xs ! mid) < 0 then bsearch cmp key xs lo mid
       else bsearch cmp key xs (mid + 1) hi)"
      using True by (simp add: bsearch.simps [of cmp key xs lo hi] mid_def Let_def)
    consider "cmp key (xs ! mid) = 0" | (below) "cmp key (xs ! mid) < 0" | (above) "cmp key (xs ! mid) > 0" by linarith
    then show ?thesis
    proof cases
      case 1
      then show ?thesis using eq mid by simp
    next
      case below
      have out: "cmp key (xs ! i) \<noteq> 0" if "mid \<le> i" "i < hi" for i using bsearch_outside(1) [OF cmp ord [OF that] below] .
      have "bsearch cmp key xs lo hi = bsearch cmp key xs lo mid" using eq below by simp
      moreover have "mid - lo < hi - lo" "mid \<le> n" using mid less.prems by auto
      ultimately show ?thesis using less.hyps [of mid lo] out mid by (force split: option.splits)
    next
      case above
      have out: "cmp key (xs ! i) \<noteq> 0" if "\<not> mid + 1 \<le> i" for i
        using bsearch_outside(2) [OF cmp ord [of i mid] above] that mid(2) by simp
      have "bsearch cmp key xs lo hi = bsearch cmp key xs (mid + 1) hi" using eq above by simp
      moreover have "hi - (mid + 1) < hi - lo" using mid by auto
      ultimately show ?thesis
        using less.hyps [of hi "mid + 1"] less.prems out mid by (cases "bsearch cmp key xs (mid + 1) hi") (simp_all, blast)
    qed
  qed
qed

section \<open>Properties\<close>

text \<open>
  A copy of a list made with \<open>rd_list_copy\<close> holds, in order, exactly what the copy callback
  returned for the elements of the source, leaving out the NULLs it returned; the elements are
  found at the indexes they were added at, however often the array had to grow.
\<close>

lemma rd_list_copy_elements:
  assumes "list_inv src" "no_null src" "copies = List.map_filter (\<lambda>e. Option.bind e cb) (list_abs src)"
  shows "\<exists>dst. rd_list_copy src (Some cb) = Return dst \<and> list_inv dst \<and>
    rd_list_cnt dst = length copies \<and> (\<forall>i < length copies. rd_list_elem dst i = Some (copies ! i))"
proof -
  obtain d0 where d0: "rd_list_new (rl_fill src) (rl_cnt src) (rl_has_free_cb src) = Return d0"
    "list_dyn d0" "list_abs d0 = []" using rd_list_new_spec by blast
  obtain dst where dst: "add_all rd_list_add d0 copies = Return dst" "list_dyn dst"
    "list_abs dst = map Some copies"
    using rl.add_all_spec [OF d0(2), of copies] d0(3) by auto
  have "rd_list_copy src (Some cb) = Return dst"
    using d0(1) dst(1) copy_from_add_all [OF assms(1,2), of d0 cb 0] assms(3)
    by (simp add: rd_list_copy_def rd_list_copy_to_def)
  moreover have "\<forall>i < length copies. rd_list_elem dst i = Some (copies ! i)"
    using rl.elem_after_adds [OF d0(2) dst(1)] d0(3) by simp
  moreover have "rd_list_cnt dst = length copies"
    using dst(2,3) length_list_abs [of dst] by (simp add: list_dyn_def rd_list_cnt_def)
  ultimately show ?thesis using dst(2) by (auto simp: list_dyn_def)
qed

definition example_list :: "nat rd_list" where
  "example_list =
     \<lparr>rl_size = 4, rl_cnt = 3, rl_elems = [Some 5, Some 2, Some 9, None], rl_has_free_cb = False,
      rl_allocated = False, rl_sorted = False, rl_fixed_size = False, rl_elemsize = 0,
      rl_p = None, rl_fill = (\<lambda>_. None)\<rparr>"

lemma example_list_inv: "list_inv example_list" "no_null example_list"
  "list_abs example_list = [Some 5, Some 2, Some 9]"
  by (simp_all add: example_list_def list_inv_def no_null_def list_abs_def)

text \<open>
  \<open>rd_list_remove_multi_cmp\<close> removes exactly the elements the comparator calls equal to the
  given one, keeps the others in order and returns how many it removed.
\<close>

lemma rd_list_remove_multi_filters:
  assumes "list_inv rl" "no_null rl"
  shows "\<exists>rl'. rd_list_remove_multi_cmp False rl m cmp
      = Return (rl', length (filter (\<lambda>e. cmp (the e) m = 0) (list_abs rl))) \<and>
    list_inv rl' \<and> list_abs rl' = filter (\<lambda>e. cmp (the e) m \<noteq> 0) (list_abs rl)"
  using remove_multi_from_spec [OF assms, of "rl_cnt rl" m cmp 0] assms(1)
  by (simp add: rd_list_remove_multi_cmp_def)

text \<open>
  C28. After \<open>rd_list_sort\<close> with a proper comparator the list is a sorted permutation of what it
  was, and \<open>rd_list_find\<close>, which then searches by bisection, returns an element equal to the
  key exactly if the list holds one.
\<close>

theorem rd_list_sort_find:
  assumes inv: "list_inv rl" "no_null rl" and cmp: "cmp_ok cmp"
  shows "sorted_wrt (\<lambda>a b. cmp a b \<le> 0) (list_abs (rd_list_sort rl cmp)) \<and>
    mset (list_abs (rd_list_sort rl cmp)) = mset (list_abs rl) \<and>
    (case rd_list_find (rd_list_sort rl cmp) key cmp of
       Some p \<Rightarrow> Some p \<in> set (list_abs rl) \<and> cmp key (Some p) = 0
     | None \<Rightarrow> (\<forall>e \<in> set (list_abs rl). cmp key e \<noteq> 0))"
proof -
  let ?q = "qsort cmp (list_abs rl)" and ?s = "rd_list_sort rl cmp"
  have m: "mset ?q = mset (list_abs rl)" by (rule mset_qsort)
  then have len: "length ?q = rl_cnt rl" using inv(1) by (metis length_list_abs size_mset)
  have elems: "rl_elems ?s = ?q @ drop (rl_cnt rl) (rl_elems rl)"
    using len by (simp add: rd_list_sort_def overwrite_def list_abs_def)
  have cnt: "rl_cnt ?s = rl_cnt rl" "rl_sorted ?s" by (simp_all add: rd_list_sort_def)
  have abs: "list_abs ?s = ?q" using elems cnt len by (simp add: list_abs_def)
  have srt: "sorted_wrt (\<lambda>a b. cmp a b \<le> 0) ?q" by (rule sorted_qsort [OF cmp])
  have set: "set ?q = set (list_abs rl)" using m by (rule mset_eq_setD)
  have nth: "rl_elems ?s ! i = ?q ! i" if "i < rl_cnt rl" for i
    using that elems len by (simp add: nth_append)
  have find: "case bsearch cmp key (rl_elems ?s) 0 (rl_cnt rl) of
      Some i \<Rightarrow> 0 \<le> i \<and> i < rl_cnt rl \<and> cmp key (rl_elems ?s ! i) = 0
    | None \<Rightarrow> \<forall>i. 0 \<le> i \<longrightarrow> i < rl_cnt rl \<longrightarrow> cmp key (rl_elems ?s ! i) \<noteq> 0"
    by (rule bsearch_spec [OF cmp, of "rl_cnt rl"]) (use srt elems len in simp_all)
  have "case rd_list_find ?s key cmp of
       Some p \<Rightarrow> Some p \<in> set (list_abs rl) \<and> cmp key (Some p) = 0
     | None \<Rightarrow> (\<forall>e \<in> set (list_abs rl). cmp key e \<noteq> 0)"
  proof (cases "bsearch cmp key (rl_elems ?s) 0 (rl_cnt rl)")
    case None
    then show ?thesis using find cnt nth len set
      by (auto simp: rd_list_find_def in_set_conv_nth simp flip: set)
  next
    case (Some i)
    then have i: "i < rl_cnt rl" "cmp key (?q ! i) = 0" using find nth by auto
    then have "?q ! i \<in> set (list_abs rl)" using len set nth_mem by metis
    moreover from this have "?q ! i \<noteq> None" using inv(2) unfolding no_null_def by metis
    then obtain p where "?q ! i = Some p" by blast
    ultimately show ?thesis using Some i nth cnt by (simp add: rd_list_find_def)
  qed
  then show ?thesis using abs srt m by simp
qed

definition example_cmp :: "nat option \<Rightarrow> nat option \<Rightarrow> int" where
  "example_cmp a b = (case (a, b) of
     (Some x, Some y) \<Rightarrow> int x - int y | (None, None) \<Rightarrow> 0 | (None, _) \<Rightarrow> - 1 | _ \<Rightarrow> 1)"

theorem rd_list_sort_find_witness:
  "rd_list_find (rd_list_sort example_list example_cmp) (Some 9) example_cmp \<noteq> None \<and>
   rd_list_find (rd_list_sort example_list example_cmp) (Some 4) example_cmp = None"
proof -
  have "cmp_ok example_cmp" by (auto simp: cmp_ok_def example_cmp_def split: option.splits)
  note find = rd_list_sort_find [OF example_list_inv(1,2) this]
  show ?thesis using find [of "Some 9"] find [of "Some 4"]
    by (auto simp: example_list_inv(3) example_cmp_def split: option.splits)
qed

text \<open>
  \<open>rd_list_set\<close> changes a list without clearing the flag \<open>RD_LIST_F_SORTED\<close>, which the
  header says any mutation clears: after a sort, an element set behind the others may not be
  found although it is in the list.
\<close>

lemma rd_list_set_keeps_sorted:
  assumes "rd_list_set rl idx ptr = Return rl'"
  shows "rl_sorted rl' = rl_sorted rl"
  using assms by (auto simp: rd_list_set_def rd_list_grow_def obind_eq_Return split: if_splits)

end
