(* ===== verification/Rdbuf.thy ===== *)
theory Rdbuf
  imports Prelude
begin

text \<open>
  The segmented byte buffer of \<open>rdbuf.h\<close> and \<open>rdbuf.c\<close>: a list of segments, each with
  its backing memory, a relative write offset and an absolute offset, and a write position
  that points to one of them. Every protocol message librdkafka sends or receives is built
  in and read from such a buffer.

  Modelling decisions.
  \<^item> The TAILQ of segments is a list, a segment pointer is an index into it. Segments are
    only ever appended, or destroyed from the tail, so an index stays valid exactly as long
    as the pointer does.
  \<^item> A segment's memory is the list \<open>seg_p\<close> of its \<open>seg_size\<close> cells. What fresh memory
    shows is not determined: \<open>rbuf_fill\<close> gives it, and every theorem holds for all of them.
  \<^item> Allocation does not fail (\<open>rd_malloc\<close> asserts); \<open>seg_home\<close> records whether the
    segment header lies in the buffer's pre-allocated extra memory, which decides whether
    it may be passed to \<open>rd_free\<close>.
  \<^item> \<open>rd_buf_write\<close> loops until everything is written. The loop is a
    \<^theory_text>\<open>partial_function\<close>: None is a run that never ends.
\<close>

section \<open>Data\<close>

datatype seg_home = In_Extra | Malloced

datatype free_fn = Rd_Free | Caller_Free

record rd_segment =
  seg_p :: "byte list"
  seg_of :: nat
  seg_size :: nat
  seg_absof :: nat
  seg_free :: "free_fn option"
  seg_rdonly :: bool
  seg_f_free :: bool
  seg_header :: seg_home

record rd_buf =
  rbuf_segments :: "rd_segment list"
  rbuf_segment_cnt :: nat
  rbuf_wpos :: "nat option"
  rbuf_len :: nat
  rbuf_size :: nat
  rbuf_extra_len :: nat
  rbuf_extra_size :: nat
  rbuf_fill :: "nat \<Rightarrow> byte"

text \<open>\<open>sizeof(rd_segment_t)\<close> on LP64: two list links, five 8-byte fields, the flags.\<close>

definition SIZEOF_SEGMENT :: nat where
  "SIZEOF_SEGMENT = 64"

text \<open>\<open>X & ~Y\<close> on unsigned values clears in X the bits that are set in Y.\<close>

definition RD_ROUNDUP :: "nat \<Rightarrow> nat \<Rightarrow> nat" where
  "RD_ROUNDUP x stride = (x + (stride - 1)) - ((x + (stride - 1)) AND (stride - 1))"

section \<open>Segments\<close>

datatype free_event = Free_Payload free_fn | Free_Header | Free_Extra

text \<open>
  \<open>seg_p\<close> is the memory that is pointed to, so that the test for \<open>NULL\<close> is that for no memory: of a
  pushed payload of length 0 the model does not record whether its pointer is \<open>NULL\<close>, and it
  shows no call of the free function for it. The theorems make no claim about what is freed.
\<close>

definition rd_segment_destroy :: "rd_segment \<Rightarrow> free_event list" where
  "rd_segment_destroy seg =
     (case seg_free seg of
        Some f \<Rightarrow> if seg_p seg \<noteq> [] then [Free_Payload f] else []
      | None \<Rightarrow> []) @
     (if seg_f_free seg then [Free_Header] else [])"

definition rd_segment_init :: "byte list \<Rightarrow> nat \<Rightarrow> seg_home \<Rightarrow> rd_segment" where
  "rd_segment_init mem sz home =
     \<lparr>seg_p = mem, seg_of = 0, seg_size = sz, seg_absof = 0, seg_free = None,
      seg_rdonly = False, seg_f_free = False, seg_header = home\<rparr>"

definition rd_segment_write_remains :: "rd_segment \<Rightarrow> nat" where
  "rd_segment_write_remains seg = (if seg_rdonly seg then 0 else seg_size seg - seg_of seg)"

section \<open>Writing\<close>

subsection \<open>Buffer state\<close>

definition rd_buf_init :: "nat \<Rightarrow> nat \<Rightarrow> (nat \<Rightarrow> byte) \<Rightarrow> rd_buf outcome" where
  "rd_buf_init fixed_seg_cnt buf_size fill =
     (let b = \<lparr>rbuf_segments = [], rbuf_segment_cnt = 0, rbuf_wpos = None, rbuf_len = 0,
               rbuf_size = 0, rbuf_extra_len = 0, rbuf_extra_size = 0, rbuf_fill = fill\<rparr>
      in if fixed_seg_cnt = 0
         then obind (rd_assert (buf_size = 0)) (\<lambda>_. Return b)
         else Return (b\<lparr>rbuf_extra_size :=
                RD_ROUNDUP SIZEOF_SEGMENT 8 * fixed_seg_cnt + buf_size\<rparr>))"

definition rd_buf_write_pos :: "rd_buf \<Rightarrow> nat" where
  "rd_buf_write_pos b =
     (case rbuf_wpos b of
        None \<Rightarrow> 0
      | Some w \<Rightarrow> seg_absof (rbuf_segments b ! w) + seg_of (rbuf_segments b ! w))"

definition rd_buf_write_remains :: "rd_buf \<Rightarrow> nat" where
  "rd_buf_write_remains b = rbuf_size b - rbuf_len b"

definition rd_buf_last :: "rd_buf \<Rightarrow> nat option" where
  "rd_buf_last b =
     (if rbuf_segments b = [] then None else Some (length (rbuf_segments b) - 1))"

subsection \<open>The next writable segment\<close>

text \<open>
  The scan of \<open>rd_buf_get_writable0\<close> from segment \<open>i\<close>: it moves the write position along,
  stops at the first segment with room, and corrects that segment's absolute offset. The
  segment handed out through \<open>segp\<close> is the one the write position is left at.
\<close>

function rd_buf_get_writable_from :: "rd_buf \<Rightarrow> nat \<Rightarrow> rd_buf \<times> nat" where
  "rd_buf_get_writable_from b i =
     (if i < length (rbuf_segments b) then
        let seg = rbuf_segments b ! i;
            len = rd_segment_write_remains seg;
            b1 = b\<lparr>rbuf_wpos := Some i\<rparr>
        in if len = 0 then rd_buf_get_writable_from b1 (i + 1)
           else if seg_of seg = 0 \<and> seg_absof seg < rbuf_len b
             then (b1\<lparr>rbuf_segments := (rbuf_segments b)[i := seg\<lparr>seg_absof := rbuf_len b\<rparr>]\<rparr>, len)
             else (b1, len)
      else (b, 0))"
  by pat_completeness auto
termination
  by (relation "measure (\<lambda>(b, i). length (rbuf_segments b) - i)") auto

declare rd_buf_get_writable_from.simps [simp del]

definition rd_buf_get_writable0 :: "rd_buf \<Rightarrow> rd_buf \<times> nat" where
  "rd_buf_get_writable0 b =
     (case rbuf_wpos b of None \<Rightarrow> (b, 0) | Some w \<Rightarrow> rd_buf_get_writable_from b w)"

text \<open>
  \<open>rd_buf_get_writable\<close>: besides the buffer, the pointer (segment and offset; the C code
  leaves it unset when there is no room) and the length.
\<close>

definition rd_buf_get_writable :: "rd_buf \<Rightarrow> rd_buf \<times> (nat \<times> nat) option \<times> nat" where
  "rd_buf_get_writable b =
     (let (b1, len) = rd_buf_get_writable0 b
      in (b1,
          (case rbuf_wpos b1 of
             Some w \<Rightarrow> if len = 0 then None else Some (w, seg_of (rbuf_segments b1 ! w))
           | None \<Rightarrow> None),
          len))"

subsection \<open>Allocating segments\<close>

definition rd_buf_append_segment :: "rd_buf \<Rightarrow> rd_segment \<Rightarrow> rd_buf" where
  "rd_buf_append_segment b seg =
     (let n = length (rbuf_segments b);
          b1 = b\<lparr>rbuf_segments := rbuf_segments b @ [seg\<lparr>seg_absof := rbuf_len b\<rparr>],
                 rbuf_segment_cnt := rbuf_segment_cnt b + 1,
                 rbuf_len := rbuf_len b + seg_of seg,
                 rbuf_size := rbuf_size b + seg_size seg\<rparr>
      in if rbuf_wpos b = None then b1\<lparr>rbuf_wpos := Some n\<rparr>
         else fst (rd_buf_get_writable0 b1))"

text \<open>\<open>extra_alloc\<close>: whether the request fits, and the buffer with the memory taken.\<close>

definition extra_alloc :: "rd_buf \<Rightarrow> nat \<Rightarrow> bool \<times> rd_buf" where
  "extra_alloc b sz =
     (let off = RD_ROUNDUP (rbuf_extra_len b) 8
      in if rbuf_extra_size b < off + sz then (False, b)
         else (True, b\<lparr>rbuf_extra_len := off + sz\<rparr>))"

definition fresh_mem :: "rd_buf \<Rightarrow> nat \<Rightarrow> byte list" where
  "fresh_mem b sz = map (rbuf_fill b) [0..<sz]"

definition rd_buf_alloc_segment0 :: "rd_buf \<Rightarrow> nat \<Rightarrow> rd_segment \<times> rd_buf" where
  "rd_buf_alloc_segment0 b sz =
     (case extra_alloc b (SIZEOF_SEGMENT + sz) of
        (True, b1) \<Rightarrow> (rd_segment_init (fresh_mem b sz) sz In_Extra, b1)
      | (False, _) \<Rightarrow>
          (case extra_alloc b SIZEOF_SEGMENT of
             (True, b1) \<Rightarrow>
               ((rd_segment_init (fresh_mem b sz) sz In_Extra)
                  \<lparr>seg_free := (if 0 < sz then Some Rd_Free else None)\<rparr>, b1)
           | (False, _) \<Rightarrow>
               ((rd_segment_init (fresh_mem b sz) sz Malloced)\<lparr>seg_f_free := True\<rparr>, b)))"

text \<open>The size \<open>rd_buf_alloc_segment\<close> settles on: it over-allocates unless told not to.\<close>

definition rd_buf_alloc_size :: "rd_buf \<Rightarrow> nat \<Rightarrow> nat \<Rightarrow> nat" where
  "rd_buf_alloc_size b min_size max_size =
     (if min_size \<noteq> max_size \<or> max_size = 0
      then max (SIZEOF_SEGMENT * 4) (max (min_size * 2) (rbuf_size b div 2))
      else max_size)"

definition rd_buf_alloc_segment :: "rd_buf \<Rightarrow> nat \<Rightarrow> nat \<Rightarrow> rd_buf" where
  "rd_buf_alloc_segment b min_size max_size =
     (let (seg, b1) = rd_buf_alloc_segment0 b (rd_buf_alloc_size b min_size max_size)
      in rd_buf_append_segment b1 seg)"

definition rd_buf_write_ensure_contig :: "rd_buf \<Rightarrow> nat \<Rightarrow> rd_buf" where
  "rd_buf_write_ensure_contig b sz =
     (let grown = (let b1 = rd_buf_alloc_segment b sz sz in b1\<lparr>rbuf_wpos := rd_buf_last b1\<rparr>)
      in case rbuf_wpos b of
           None \<Rightarrow> grown
         | Some w \<Rightarrow>
             if sz \<le> rd_segment_write_remains (rbuf_segments b ! w) then b else grown)"

subsection \<open>Frame facts of allocation\<close>

lemma get_writable_from_frame [simp]:
  "rbuf_len (fst (rd_buf_get_writable_from b i)) = rbuf_len b"
  "rbuf_size (fst (rd_buf_get_writable_from b i)) = rbuf_size b"
  "rbuf_segment_cnt (fst (rd_buf_get_writable_from b i)) = rbuf_segment_cnt b"
  "rbuf_extra_len (fst (rd_buf_get_writable_from b i)) = rbuf_extra_len b"
  "rbuf_extra_size (fst (rd_buf_get_writable_from b i)) = rbuf_extra_size b"
  "rbuf_fill (fst (rd_buf_get_writable_from b i)) = rbuf_fill b"
  by (induction b i rule: rd_buf_get_writable_from.induct;
      subst rd_buf_get_writable_from.simps; simp add: Let_def)+

lemma get_writable0_frame [simp]:
  "rbuf_len (fst (rd_buf_get_writable0 b)) = rbuf_len b"
  "rbuf_size (fst (rd_buf_get_writable0 b)) = rbuf_size b"
  "rbuf_segment_cnt (fst (rd_buf_get_writable0 b)) = rbuf_segment_cnt b"
  "rbuf_extra_len (fst (rd_buf_get_writable0 b)) = rbuf_extra_len b"
  "rbuf_extra_size (fst (rd_buf_get_writable0 b)) = rbuf_extra_size b"
  "rbuf_fill (fst (rd_buf_get_writable0 b)) = rbuf_fill b"
  by (simp_all add: rd_buf_get_writable0_def split: option.split)

lemma append_segment_frame [simp]:
  "rbuf_len (rd_buf_append_segment b seg) = rbuf_len b + seg_of seg"
  "rbuf_size (rd_buf_append_segment b seg) = rbuf_size b + seg_size seg"
  "rbuf_segment_cnt (rd_buf_append_segment b seg) = rbuf_segment_cnt b + 1"
  by (simp_all add: rd_buf_append_segment_def Let_def)

lemma extra_alloc_cases:
  obtains (room) "extra_alloc b sz = (True, b\<lparr>rbuf_extra_len := RD_ROUNDUP (rbuf_extra_len b) 8 + sz\<rparr>)"
      "RD_ROUNDUP (rbuf_extra_len b) 8 + sz \<le> rbuf_extra_size b"
    | (full) "extra_alloc b sz = (False, b)"
      "rbuf_extra_size b < RD_ROUNDUP (rbuf_extra_len b) 8 + sz"
  by (cases "rbuf_extra_size b < RD_ROUNDUP (rbuf_extra_len b) 8 + sz")
    (auto simp: extra_alloc_def Let_def)

lemma RD_ROUNDUP_8: "RD_ROUNDUP x 8 = (x + 7) div 8 * 8"
proof -
  have "(x + 7) AND 7 = (x + 7) mod 8"
    using take_bit_eq_mask [of 3 "x + 7"] by (simp add: take_bit_eq_mod mask_eq_exp_minus_1)
  then show ?thesis by (simp add: RD_ROUNDUP_def minus_mod_eq_div_mult)
qed

lemma length_fresh_mem [simp]: "length (fresh_mem b sz) = sz"
  by (simp add: fresh_mem_def)

text \<open>
  A new segment is empty and writable, its header may be freed exactly if it was not taken
  from the extra memory, and nothing but the use of the extra memory changes.
\<close>

definition fresh_segment :: "rd_buf \<Rightarrow> nat \<Rightarrow> rd_segment \<Rightarrow> bool" where
  "fresh_segment b sz seg \<longleftrightarrow>
     seg_p seg = fresh_mem b sz \<and> seg_of seg = 0 \<and> seg_size seg = sz \<and> \<not> seg_rdonly seg \<and>
     (seg_f_free seg \<longleftrightarrow> seg_header seg = Malloced)"

lemma alloc_segment0_cases:
  obtains seg n where "rd_buf_alloc_segment0 b sz = (seg, b\<lparr>rbuf_extra_len := n\<rparr>)"
    "fresh_segment b sz seg" "rbuf_extra_len b \<le> n"
    "seg_header seg = Malloced \<Longrightarrow>
       n = rbuf_extra_len b \<and> rbuf_extra_size b < RD_ROUNDUP n 8 + SIZEOF_SEGMENT"
proof -
  have up: "rbuf_extra_len b \<le> RD_ROUNDUP (rbuf_extra_len b) 8 + k" for k
    unfolding RD_ROUNDUP_8 by linarith
  show thesis
  proof (rule extra_alloc_cases [of b "SIZEOF_SEGMENT + sz"])
    assume "extra_alloc b (SIZEOF_SEGMENT + sz) =
      (True, b\<lparr>rbuf_extra_len := RD_ROUNDUP (rbuf_extra_len b) 8 + (SIZEOF_SEGMENT + sz)\<rparr>)"
    then show thesis using up
      by (intro that) (auto simp: rd_buf_alloc_segment0_def fresh_segment_def rd_segment_init_def)
  next
    assume no: "extra_alloc b (SIZEOF_SEGMENT + sz) = (False, b)"
    show thesis
    proof (rule extra_alloc_cases [of b SIZEOF_SEGMENT])
      assume "extra_alloc b SIZEOF_SEGMENT =
        (True, b\<lparr>rbuf_extra_len := RD_ROUNDUP (rbuf_extra_len b) 8 + SIZEOF_SEGMENT\<rparr>)"
      then show thesis using no up
        by (intro that) (auto simp: rd_buf_alloc_segment0_def fresh_segment_def rd_segment_init_def)
    next
      assume "extra_alloc b SIZEOF_SEGMENT = (False, b)"
        "rbuf_extra_size b < RD_ROUNDUP (rbuf_extra_len b) 8 + SIZEOF_SEGMENT"
      then show thesis using no
        by (intro that [of _ "rbuf_extra_len b"])
          (auto simp: rd_buf_alloc_segment0_def fresh_segment_def rd_segment_init_def)
    qed
  qed
qed

lemma alloc_size_ge: "min_size \<le> rd_buf_alloc_size b min_size max_size"
  by (auto simp: rd_buf_alloc_size_def)

lemma alloc_segment_frame [simp]:
  "rbuf_len (rd_buf_alloc_segment b min_size max_size) = rbuf_len b"
  "rbuf_size (rd_buf_alloc_segment b min_size max_size)
     = rbuf_size b + rd_buf_alloc_size b min_size max_size"
  by (rule alloc_segment0_cases [of b "rd_buf_alloc_size b min_size max_size"];
      simp add: rd_buf_alloc_segment_def fresh_segment_def)+

subsection \<open>Ensuring space\<close>

function rd_buf_write_ensure :: "rd_buf \<Rightarrow> nat \<Rightarrow> nat \<Rightarrow> rd_buf" where
  "rd_buf_write_ensure b min_size max_size =
     (let remains = rd_buf_write_remains b
      in if remains < min_size
         then rd_buf_write_ensure
                (rd_buf_alloc_segment b (min_size - remains)
                   (if max_size \<noteq> 0 then max_size - remains else 0))
                min_size max_size
         else b)"
  by pat_completeness auto
termination
proof (relation "measure (\<lambda>(b, min_size, max_size). min_size + rbuf_len b - rbuf_size b)", simp)
  fix b :: rd_buf and min_size max_size remains :: nat
  let ?max = "if max_size \<noteq> 0 then max_size - remains else 0"
  assume "remains = rd_buf_write_remains b" and less: "remains < min_size"
  then have "rbuf_size b < min_size + rbuf_len b" by (auto simp: rd_buf_write_remains_def)
  moreover have "0 < rd_buf_alloc_size b (min_size - remains) ?max"
    using alloc_size_ge [of "min_size - remains" b ?max] less by linarith
  ultimately show "((rd_buf_alloc_segment b (min_size - remains) ?max, min_size, max_size),
      b, min_size, max_size) \<in> measure (\<lambda>(b, min_size, max_size). min_size + rbuf_len b - rbuf_size b)"
    by (simp only: in_measure prod.case alloc_segment_frame)
qed

declare rd_buf_write_ensure.simps [simp del]

subsection \<open>Write, update, push, seek\<close>

text \<open>
  The write loop. \<open>payload\<close> is the source memory still to be copied, None for a write that
  only advances the position.
\<close>

definition rd_segment_fill :: "rd_segment \<Rightarrow> byte list option \<Rightarrow> nat \<Rightarrow> rd_segment" where
  "rd_segment_fill seg payload wlen =
     seg\<lparr>seg_p := (case payload of
                     None \<Rightarrow> seg_p seg
                   | Some src \<Rightarrow> overwrite (seg_of seg) (take wlen src) (seg_p seg)),
         seg_of := seg_of seg + wlen\<rparr>"

partial_function (option) rd_buf_write_loop ::
  "rd_buf \<Rightarrow> byte list option \<Rightarrow> nat \<Rightarrow> rd_buf outcome option" where
  "rd_buf_write_loop b payload remains =
     (if remains = 0 then Some (Return b)
      else let (b1, segremains) = rd_buf_get_writable0 b;
               wlen = min remains segremains
           in case rbuf_wpos b1 of
                None \<Rightarrow> Some Undefined
              | Some w \<Rightarrow>
                  rd_buf_write_loop
                    (b1\<lparr>rbuf_segments := (rbuf_segments b1)
                          [w := rd_segment_fill (rbuf_segments b1 ! w) payload wlen],
                        rbuf_len := rbuf_len b1 + wlen\<rparr>)
                    (map_option (drop wlen) payload) (remains - wlen))"

declare rd_buf_write_loop.simps [code]

text \<open>The buffer after the write and the position before it.\<close>

definition rd_buf_write ::
  "rd_buf \<Rightarrow> byte list option \<Rightarrow> nat \<Rightarrow> (rd_buf \<times> nat) outcome option" where
  "rd_buf_write b payload sz =
     map_option (\<lambda>m. obind m (\<lambda>b'. Return (b', rbuf_len b)))
       (rd_buf_write_loop (rd_buf_write_ensure b sz 0) payload sz)"

text \<open>
  \<open>rd_buf_get_segment_at_offset\<close>: the search starts at the hint if that is not beyond the
  offset, else at the first segment; on a buffer without segments the loop body
  dereferences NULL.
\<close>

fun seg_holds :: "nat \<Rightarrow> rd_segment \<Rightarrow> bool" where
  "seg_holds absof seg \<longleftrightarrow> seg_absof seg \<le> absof \<and> absof < seg_absof seg + seg_of seg"

function find_segment_from :: "rd_segment list \<Rightarrow> nat \<Rightarrow> nat \<Rightarrow> nat option" where
  "find_segment_from segs absof i =
     (if i < length segs
      then if seg_holds absof (segs ! i) then Some i else find_segment_from segs absof (i + 1)
      else None)"
  by pat_completeness auto
termination
  by (relation "measure (\<lambda>(segs, absof, i). length segs - i)") auto

declare find_segment_from.simps [simp del]

definition rd_buf_get_segment_at_offset ::
  "rd_buf \<Rightarrow> nat option \<Rightarrow> nat \<Rightarrow> nat option outcome" where
  "rd_buf_get_segment_at_offset b hint absof =
     (if rbuf_len b < absof then Return None
      else let start = (case hint of
                          Some h \<Rightarrow> if absof < seg_absof (rbuf_segments b ! h) then 0 else h
                        | None \<Rightarrow> 0)
           in if rbuf_segments b = [] then Undefined
              else Return (find_segment_from (rbuf_segments b) absof start))"

text \<open>
  An offset before the segment's start makes the unsigned \<open>relof\<close> wrap around to a value
  that the assertion catches.
\<close>

definition rd_segment_write_update ::
  "rd_segment \<Rightarrow> nat \<Rightarrow> byte list \<Rightarrow> (rd_segment \<times> nat) outcome" where
  "rd_segment_write_update seg absof payload =
     (let relof = absof - seg_absof seg
      in obind (rd_assert (seg_absof seg \<le> absof \<and> relof \<le> seg_of seg)) (\<lambda>_.
         let wlen = min (length payload) (seg_of seg - relof)
         in Return (seg\<lparr>seg_p := overwrite relof (take wlen payload) (seg_p seg)\<rparr>, wlen)))"

text \<open>
  The update loop from segment \<open>i\<close> and absolute offset \<open>absof\<close>; running off the last
  segment dereferences NULL.
\<close>

function rd_buf_write_update_loop ::
  "rd_buf \<Rightarrow> nat \<Rightarrow> nat \<Rightarrow> byte list \<Rightarrow> rd_buf outcome" where
  "rd_buf_write_update_loop b i absof payload =
     (if payload = [] then Return b
      else if length (rbuf_segments b) \<le> i then Undefined
      else obind (rd_assert (seg_absof (rbuf_segments b ! i) \<le> rbuf_len b)) (\<lambda>_.
           obind (rd_segment_write_update (rbuf_segments b ! i) absof payload) (\<lambda>(seg, wlen).
             rd_buf_write_update_loop
               (b\<lparr>rbuf_segments := (rbuf_segments b)[i := seg]\<rparr>) (i + 1)
               (absof + wlen) (drop wlen payload))))"
  by pat_completeness auto
termination
  by (relation "measure (\<lambda>(b, i, absof, payload). length (rbuf_segments b) - i)") auto

declare rd_buf_write_update_loop.simps [simp del]

definition rd_buf_write_update :: "rd_buf \<Rightarrow> nat \<Rightarrow> byte list \<Rightarrow> (rd_buf \<times> nat) outcome" where
  "rd_buf_write_update b absof payload =
     obind (rd_buf_get_segment_at_offset b (rbuf_wpos b) absof) (\<lambda>seg.
       case seg of
         None \<Rightarrow> Assert_Failed
       | Some i \<Rightarrow>
           obind (rd_buf_write_update_loop b i absof payload) (\<lambda>b'.
             Return (b', length payload)))"

text \<open>
  \<open>rd_segment_split\<close>: the later part of segment \<open>i\<close> as a new, not yet linked segment. The
  two segments point to disjoint parts of the same memory.
\<close>

definition rd_segment_split :: "rd_buf \<Rightarrow> nat \<Rightarrow> nat \<Rightarrow> (rd_segment \<times> rd_buf) outcome" where
  "rd_segment_split b i absof =
     (let seg = rbuf_segments b ! i
      in obind (rd_assert (rbuf_wpos b = Some i)) (\<lambda>_.
         obind (rd_assert (seg_absof seg \<le> absof \<and> absof \<le> seg_absof seg + seg_of seg)) (\<lambda>_.
         let relof = absof - seg_absof seg;
             (new0, b1) = rd_buf_alloc_segment0 b 0;
             newseg = new0\<lparr>seg_p := drop relof (seg_p seg),
                           seg_of := seg_of seg - relof,
                           seg_size := seg_size seg - relof,
                           seg_absof := SIZE_MOD - 1,
                           seg_rdonly := seg_rdonly new0 \<or> seg_rdonly seg,
                           seg_f_free := seg_f_free new0 \<or> seg_f_free seg\<rparr>;
             seg' = seg\<lparr>seg_p := take relof (seg_p seg), seg_of := relof, seg_size := relof\<rparr>
         in Return (newseg,
              b1\<lparr>rbuf_segments := (rbuf_segments b1)[i := seg'],
                 rbuf_len := rbuf_len b1 - seg_of newseg,
                 rbuf_size := rbuf_size b1 - seg_size newseg\<rparr>))))"

definition rd_buf_push ::
  "rd_buf \<Rightarrow> byte list \<Rightarrow> free_fn option \<Rightarrow> rd_buf outcome" where
  "rd_buf_push b payload free_cb =
     (let split = (case rbuf_wpos b of
                     Some w \<Rightarrow>
                       let prevseg = rbuf_segments b ! w
                       in if 0 < rd_segment_write_remains prevseg
                          then obind (rd_segment_split b w (seg_absof prevseg + seg_of prevseg))
                                 (\<lambda>(tailseg, b1). Return (Some tailseg, b1))
                          else Return (None, b)
                   | None \<Rightarrow> Return (None, b))
      in obind split (\<lambda>(tailseg, b1).
         let (seg0, b2) = rd_buf_alloc_segment0 b1 0;
             seg = seg0\<lparr>seg_p := payload, seg_size := length payload, seg_of := length payload,
                        seg_free := free_cb, seg_rdonly := True\<rparr>;
             b3 = rd_buf_append_segment b2 seg
         in Return (case tailseg of
                      None \<Rightarrow> b3
                    | Some t \<Rightarrow> rd_buf_append_segment b3 t)))"

text \<open>
  \<open>rd_buf_destroy_segment\<close> of the last segment (the only use of it, in
  \<open>rd_buf_write_seek\<close>, walks back from the tail).
\<close>

definition rd_buf_destroy_segment :: "rd_buf \<Rightarrow> nat \<Rightarrow> (rd_buf \<times> free_event list) outcome" where
  "rd_buf_destroy_segment b i =
     (let seg = rbuf_segments b ! i
      in obind (rd_assert (0 < rbuf_segment_cnt b \<and> seg_of seg \<le> rbuf_len b \<and>
                           seg_size seg \<le> rbuf_size b)) (\<lambda>_.
         Return (b\<lparr>rbuf_segments := take i (rbuf_segments b) @ drop (i + 1) (rbuf_segments b),
                   rbuf_segment_cnt := rbuf_segment_cnt b - 1,
                   rbuf_len := rbuf_len b - seg_of seg,
                   rbuf_size := rbuf_size b - seg_size seg,
                   rbuf_wpos := (if rbuf_wpos b = Some i then None else rbuf_wpos b)\<rparr>,
                 rd_segment_destroy seg)))"

text \<open>
  The loop of \<open>rd_buf_write_seek\<close>: destroy the last \<open>n\<close> segments, last one first, and
  collect what is freed.
\<close>

fun rd_buf_destroy_tail :: "rd_buf \<Rightarrow> nat \<Rightarrow> (rd_buf \<times> free_event list) outcome" where
  "rd_buf_destroy_tail b 0 = Return (b, [])"
| "rd_buf_destroy_tail b (Suc n) =
     obind (rd_buf_destroy_segment b (length (rbuf_segments b) - 1)) (\<lambda>(b1, ev1).
     obind (rd_buf_destroy_tail b1 n) (\<lambda>(b2, ev2).
       Return (b2, ev1 @ ev2)))"

text \<open>
  \<open>rd_buf_write_seek\<close>: the buffer, what was freed, and the C return value 0 or -1 as the
  boolean "seek done".
\<close>

definition rd_buf_write_seek :: "rd_buf \<Rightarrow> nat \<Rightarrow> (rd_buf \<times> free_event list \<times> bool) outcome" where
  "rd_buf_write_seek b absof =
     obind (rd_buf_get_segment_at_offset b (rbuf_wpos b) absof) (\<lambda>found.
       case found of
         None \<Rightarrow> Return (b, [], False)
       | Some i \<Rightarrow>
           let seg = rbuf_segments b ! i;
               relof = absof - seg_absof seg
           in if seg_of seg < relof then Return (b, [], False)
              else obind (rd_buf_destroy_tail b (length (rbuf_segments b) - 1 - i)) (\<lambda>(b1, ev).
                let b2 = b1\<lparr>rbuf_segments := (rbuf_segments b1)[i := seg\<lparr>seg_of := relof\<rparr>],
                             rbuf_wpos := Some i,
                             rbuf_len := seg_absof seg + relof\<rparr>
                in obind (rd_assert (rbuf_len b2 = absof)) (\<lambda>_. Return (b2, ev, True))))"

definition rd_buf_destroy :: "rd_buf \<Rightarrow> free_event list" where
  "rd_buf_destroy b =
     concat (map rd_segment_destroy (rbuf_segments b)) @
     (if 0 < rbuf_extra_size b then [Free_Extra] else [])"

subsection \<open>Writable regions\<close>

text \<open>
  The iovecs over the free space from the write position on, at most \<open>iov_max\<close> of them and
  none once \<open>size_max\<close> bytes are collected. An iovec is the pair of segment index and
  length (it starts at the segment's write offset).
\<close>

function rd_buf_get_write_iov_from ::
  "rd_buf \<Rightarrow> nat \<Rightarrow> nat \<Rightarrow> nat \<Rightarrow> nat \<Rightarrow> (nat \<times> nat) list" where
  "rd_buf_get_write_iov_from b i iov_max size_max acc =
     (if i < length (rbuf_segments b) \<and> 0 < iov_max \<and> acc < size_max then
        let len = rd_segment_write_remains (rbuf_segments b ! i)
        in if len = 0 then rd_buf_get_write_iov_from b (i + 1) iov_max size_max acc
           else (i, len) # rd_buf_get_write_iov_from b (i + 1) (iov_max - 1) size_max (acc + len)
      else [])"
  by pat_completeness auto
termination
  by (relation "measure (\<lambda>(b, i, iov_max, size_max, acc). length (rbuf_segments b) - i)") auto

declare rd_buf_get_write_iov_from.simps [simp del]

definition rd_buf_get_write_iov :: "rd_buf \<Rightarrow> nat \<Rightarrow> nat \<Rightarrow> (nat \<times> nat) list \<times> nat" where
  "rd_buf_get_write_iov b iov_max size_max =
     (let iovs = (case rbuf_wpos b of
                    None \<Rightarrow> []
                  | Some w \<Rightarrow> rd_buf_get_write_iov_from b w iov_max size_max 0)
      in (iovs, sum_list (map snd iovs)))"

end
