(* ===== verification/Rdbuf_Inv.thy ===== *)
theory Rdbuf_Inv
  imports Rdbuf
begin

text \<open>
  What the buffer operations of \<open>Rdbuf\<close> do to the bytes the buffer holds: the contents of
  a buffer, the invariant its operations keep, and the functional behaviour of write, push,
  update and seek in terms of the contents alone.
\<close>

section \<open>Contents and invariant\<close>

text \<open>The bytes a segment holds and the bytes of the whole buffer.\<close>

definition seg_bytes :: "rd_segment \<Rightarrow> byte list" where
  "seg_bytes seg = take (seg_of seg) (seg_p seg)"

definition segs_bytes :: "rd_segment list \<Rightarrow> byte list" where
  "segs_bytes segs = concat (map seg_bytes segs)"

definition buf_bytes :: "rd_buf \<Rightarrow> byte list" where
  "buf_bytes b = segs_bytes (rbuf_segments b)"

definition seg_ok :: "rd_segment \<Rightarrow> bool" where
  "seg_ok seg \<longleftrightarrow> length (seg_p seg) = seg_size seg \<and> seg_of seg \<le> seg_size seg"

definition seg_full :: "rd_segment \<Rightarrow> bool" where
  "seg_full seg \<longleftrightarrow> seg_of seg = seg_size seg"

definition seg_unused :: "rd_segment \<Rightarrow> bool" where
  "seg_unused seg \<longleftrightarrow> seg_of seg = 0 \<and> 0 < seg_size seg \<and> \<not> seg_rdonly seg"

text \<open>
  Segments laid out from \<open>base\<close> on: every segment starts where the ones before it end; only
  the absolute offset of a segment nothing has been written to yet may be stale, that is,
  too low.
\<close>

fun segs_ok :: "nat \<Rightarrow> rd_segment list \<Rightarrow> bool" where
  "segs_ok base [] \<longleftrightarrow> True"
| "segs_ok base (seg # segs) \<longleftrightarrow>
     seg_ok seg \<and> seg_absof seg \<le> base \<and> (seg_unused seg \<or> seg_absof seg = base) \<and>
     segs_ok (base + seg_of seg) segs"

text \<open>The write position: everything before it is full, everything after it unused.\<close>

definition wpos_ok :: "rd_segment list \<Rightarrow> nat option \<Rightarrow> bool" where
  "wpos_ok segs wpos \<longleftrightarrow>
     (case wpos of
        None \<Rightarrow> segs = []
      | Some w \<Rightarrow> w < length segs \<and> list_all seg_full (take w segs) \<and>
          (seg_rdonly (segs ! w) \<longrightarrow> seg_full (segs ! w)) \<and>
          list_all seg_unused (drop (Suc w) segs))"

text \<open>
  The write position's segment has its exact absolute offset (the check that
  \<open>rd_buf_write_pos\<close> makes in development builds).
\<close>

definition wpos_exact :: "rd_segment list \<Rightarrow> nat option \<Rightarrow> bool" where
  "wpos_exact segs wpos \<longleftrightarrow>
     (case wpos of
        None \<Rightarrow> True
      | Some w \<Rightarrow> seg_absof (segs ! w) = sum_list (map seg_of (take w segs)))"

definition buf_lay :: "rd_buf \<Rightarrow> bool" where
  "buf_lay b \<longleftrightarrow>
     segs_ok 0 (rbuf_segments b) \<and> wpos_ok (rbuf_segments b) (rbuf_wpos b) \<and>
     rbuf_len b = sum_list (map seg_of (rbuf_segments b)) \<and>
     rbuf_size b = sum_list (map seg_size (rbuf_segments b)) \<and>
     rbuf_segment_cnt b = length (rbuf_segments b)"

definition buf_inv :: "rd_buf \<Rightarrow> bool" where
  "buf_inv b \<longleftrightarrow> buf_lay b \<and> wpos_exact (rbuf_segments b) (rbuf_wpos b)"

section \<open>Layout lemmas\<close>

lemma segs_bytes_simps [simp]:
  "segs_bytes [] = []"
  "segs_bytes (s # ss) = seg_bytes s @ segs_bytes ss"
  "segs_bytes (ss @ ts) = segs_bytes ss @ segs_bytes ts"
  by (simp_all add: segs_bytes_def)

lemma length_seg_bytes [simp]: "seg_ok s \<Longrightarrow> length (seg_bytes s) = seg_of s"
  by (simp add: seg_bytes_def seg_ok_def)

lemma segs_ok_append [simp]:
  "segs_ok base (ss @ ts) \<longleftrightarrow> segs_ok base ss \<and> segs_ok (base + sum_list (map seg_of ss)) ts"
  by (induction ss arbitrary: base) (auto simp: add.assoc)

lemma segs_ok_imp_seg_ok: "segs_ok base ss \<Longrightarrow> s \<in> set ss \<Longrightarrow> seg_ok s"
  by (induction ss arbitrary: base) auto

lemma length_segs_bytes:
  "segs_ok base ss \<Longrightarrow> length (segs_bytes ss) = sum_list (map seg_of ss)"
  by (induction ss arbitrary: base) auto

lemma segs_used_le: "segs_ok base ss \<Longrightarrow> sum_list (map seg_of ss) \<le> sum_list (map seg_size ss)"
  by (induction ss arbitrary: base) (auto simp: seg_ok_def intro!: add_mono)

lemma segs_unused_bytes [simp]:
  "list_all seg_unused ss \<Longrightarrow> segs_bytes ss = []"
  "list_all seg_unused ss \<Longrightarrow> sum_list (map seg_of ss) = 0"
  by (induction ss) (auto simp: seg_unused_def seg_bytes_def)

lemma buf_inv_length: "buf_inv b \<Longrightarrow> length (buf_bytes b) = rbuf_len b"
  by (auto simp: buf_inv_def buf_lay_def buf_bytes_def dest: length_segs_bytes)

lemma buf_inv_len_le: "buf_inv b \<Longrightarrow> rbuf_len b \<le> rbuf_size b"
  by (auto simp: buf_inv_def buf_lay_def dest: segs_used_le)

text \<open>A buffer that meets the invariant, split at its write position.\<close>

lemma buf_lay_wpos_cases:
  assumes "buf_lay b" "rbuf_wpos b = Some w"
  obtains pre s post where "rbuf_segments b = pre @ s # post" "w = length pre"
    "list_all seg_full pre" "list_all seg_unused post" "seg_rdonly s \<longrightarrow> seg_full s"
proof -
  let ?segs = "rbuf_segments b"
  have "w < length ?segs" and *: "list_all seg_full (take w ?segs)"
    "list_all seg_unused (drop (Suc w) ?segs)" "seg_rdonly (?segs ! w) \<longrightarrow> seg_full (?segs ! w)"
    using assms by (auto simp: buf_lay_def wpos_ok_def)
  then show thesis
    by (intro that [of "take w ?segs" "?segs ! w" "drop (Suc w) ?segs"])
      (auto simp: id_take_nth_drop [symmetric])
qed

lemma wpos_exact_at [simp]:
  "wpos_exact (pre @ s # post) (Some (length pre)) \<longleftrightarrow> seg_absof s = sum_list (map seg_of pre)"
  "wpos_exact segs None"
  by (simp_all add: wpos_exact_def)

lemma buf_inv_wpos_cases:
  assumes "buf_inv b" "rbuf_wpos b = Some w"
  obtains pre s post where "rbuf_segments b = pre @ s # post" "w = length pre"
    "list_all seg_full pre" "list_all seg_unused post" "seg_rdonly s \<longrightarrow> seg_full s"
    "seg_absof s = sum_list (map seg_of pre)"
  using assms by (auto simp: buf_inv_def elim!: buf_lay_wpos_cases)

lemma wpos_ok_at [simp]:
  "wpos_ok (pre @ s # post) (Some (length pre)) \<longleftrightarrow>
     list_all seg_full pre \<and> (seg_rdonly s \<longrightarrow> seg_full s) \<and> list_all seg_unused post"
  by (auto simp: wpos_ok_def)

lemma wpos_ok_None [simp]: "wpos_ok segs None \<longleftrightarrow> segs = []"
  by (simp add: wpos_ok_def)

section \<open>The next writable segment\<close>

text \<open>
  What \<open>rd_buf_get_writable0\<close> leaves behind: the write position at a segment with \<open>n\<close>
  free bytes whose next byte has absolute offset \<open>rbuf_len\<close>, or at the last segment when
  there is no room.
\<close>

definition writable_at :: "rd_buf \<Rightarrow> nat \<Rightarrow> bool" where
  "writable_at b n \<longleftrightarrow>
     (\<exists>w. rbuf_wpos b = Some w \<and> w < length (rbuf_segments b) \<and>
        n = rd_segment_write_remains (rbuf_segments b ! w) \<and>
        (n = 0 \<longrightarrow> Suc w = length (rbuf_segments b)) \<and>
        (0 < n \<longrightarrow> seg_absof (rbuf_segments b ! w) + seg_of (rbuf_segments b ! w) = rbuf_len b))"

lemma not_writable_full:
  "rd_segment_write_remains s = 0 \<Longrightarrow> seg_ok s \<Longrightarrow> seg_rdonly s \<longrightarrow> seg_full s \<Longrightarrow> seg_full s"
  by (auto simp: rd_segment_write_remains_def seg_full_def seg_ok_def split: if_splits)

lemma get_writable_from_spec:
  assumes "buf_lay (b\<lparr>rbuf_wpos := Some i\<rparr>)"
    and "wpos_exact (rbuf_segments b) (Some i) \<or> 0 < rd_segment_write_remains (rbuf_segments b ! i)"
  shows "buf_inv (fst (rd_buf_get_writable_from b i)) \<and>
    buf_bytes (fst (rd_buf_get_writable_from b i)) = buf_bytes b \<and>
    writable_at (fst (rd_buf_get_writable_from b i)) (snd (rd_buf_get_writable_from b i))"
  using assms
proof (induction b i rule: rd_buf_get_writable_from.induct)
  case (1 b i)
  let ?b = "b\<lparr>rbuf_wpos := Some i\<rparr>"
  obtain pre s post where segs: "rbuf_segments b = pre @ s # post" and i: "i = length pre"
    and pre: "list_all seg_full pre" and post: "list_all seg_unused post"
    and ro: "seg_rdonly s \<longrightarrow> seg_full s"
    using buf_lay_wpos_cases [OF "1.prems"(1), of i] by auto
  have sok: "seg_ok s" and abs: "seg_absof s \<le> sum_list (map seg_of pre)"
      "0 < seg_of s \<longrightarrow> seg_absof s = sum_list (map seg_of pre)"
    and len: "rbuf_len b = sum_list (map seg_of pre) + seg_of s"
    using "1.prems" segs post by (auto simp: buf_lay_def seg_unused_def)
  have unfold: "rd_buf_get_writable_from b i =
      (if rd_segment_write_remains s = 0 then rd_buf_get_writable_from ?b (i + 1)
       else if seg_of s = 0 \<and> seg_absof s < rbuf_len b
         then (?b\<lparr>rbuf_segments := pre @ s\<lparr>seg_absof := rbuf_len b\<rparr> # post\<rparr>,
               rd_segment_write_remains s)
         else (?b, rd_segment_write_remains s))"
    by (subst rd_buf_get_writable_from.simps) (simp add: segs i Let_def)
  consider (last) "rd_segment_write_remains s = 0" "post = []"
    | (skip) t post' where "rd_segment_write_remains s = 0" "post = t # post'"
    | (room) "rd_segment_write_remains s \<noteq> 0"
    by (cases post) auto
  then show ?case
  proof cases
    case last
    have "rd_buf_get_writable_from ?b (i + 1) = (?b, 0)"
      by (subst rd_buf_get_writable_from.simps) (simp add: segs i last)
    then have "rd_buf_get_writable_from b i = (?b, 0)"
      using unfold last by simp
    then show ?thesis using "1.prems" segs i last
      by (auto simp: buf_inv_def writable_at_def buf_bytes_def)
  next
    case skip
    have "seg_full s" using not_writable_full [OF skip(1) sok ro] .
    then have "buf_lay (?b\<lparr>rbuf_wpos := Some (i + 1)\<rparr>)"
      using "1.prems" segs skip(2) pre post i wpos_ok_at [of "pre @ [s]" t post']
      by (auto simp: buf_lay_def seg_unused_def)
    moreover have room_t: "0 < rd_segment_write_remains (rbuf_segments b ! (i + 1))"
      using segs i skip(2) post by (simp add: nth_append seg_unused_def rd_segment_write_remains_def)
    ultimately have "buf_inv (fst (rd_buf_get_writable_from ?b (i + 1))) \<and>
        buf_bytes (fst (rd_buf_get_writable_from ?b (i + 1))) = buf_bytes ?b \<and>
        writable_at (fst (rd_buf_get_writable_from ?b (i + 1)))
          (snd (rd_buf_get_writable_from ?b (i + 1)))"
      using "1.IH" segs i skip(1) room_t by simp
    then show ?thesis using unfold skip(1) by (simp add: buf_bytes_def)
  next
    case room
    let ?s = "if seg_of s = 0 \<and> seg_absof s < rbuf_len b then s\<lparr>seg_absof := rbuf_len b\<rparr> else s"
    have b': "rd_buf_get_writable_from b i =
        (?b\<lparr>rbuf_segments := pre @ ?s # post\<rparr>, rd_segment_write_remains s)"
      using unfold room segs by simp
    have "seg_absof ?s + seg_of ?s = rbuf_len b" "seg_ok ?s" "seg_bytes ?s = seg_bytes s"
      "rd_segment_write_remains ?s = rd_segment_write_remains s"
      using abs len sok by (auto simp: seg_ok_def seg_bytes_def rd_segment_write_remains_def)
    then show ?thesis unfolding b' using "1.prems" segs i len room
      by (auto simp: buf_inv_def buf_lay_def writable_at_def buf_bytes_def seg_full_def
          split: if_splits)
  qed
qed

lemma get_writable0_spec:
  assumes "buf_inv b" "rbuf_segments b \<noteq> []"
  shows "buf_inv (fst (rd_buf_get_writable0 b)) \<and>
    buf_bytes (fst (rd_buf_get_writable0 b)) = buf_bytes b \<and>
    writable_at (fst (rd_buf_get_writable0 b)) (snd (rd_buf_get_writable0 b))"
proof -
  obtain w where w: "rbuf_wpos b = Some w"
    using assms by (cases "rbuf_wpos b") (auto simp: buf_inv_def buf_lay_def)
  then have "b\<lparr>rbuf_wpos := Some w\<rparr> = b" by (cases b) simp
  with assms(1) have "buf_inv (b\<lparr>rbuf_wpos := Some w\<rparr>)" by (simp only:)
  then show ?thesis
    using w get_writable_from_spec [of w b] by (simp add: rd_buf_get_writable0_def buf_inv_def)
qed

lemma writable_at_wpos: "writable_at b n \<Longrightarrow> \<exists>w. rbuf_wpos b = Some w"
  by (auto simp: writable_at_def)

text \<open>Free space is found whenever the buffer's size exceeds its length.\<close>

lemma writable_at_room:
  assumes "buf_inv b" "writable_at b n" "rbuf_len b < rbuf_size b"
  shows "0 < n"
proof (rule ccontr)
  assume "\<not> 0 < n"
  then obtain w where w: "rbuf_wpos b = Some w" "Suc w = length (rbuf_segments b)"
    and no: "rd_segment_write_remains (rbuf_segments b ! w) = 0"
    using assms(2) by (auto simp: writable_at_def)
  obtain pre s post where "rbuf_segments b = pre @ s # post" "w = length pre"
    "list_all seg_full pre" "seg_rdonly s \<longrightarrow> seg_full s"
    using buf_inv_wpos_cases [OF assms(1) w(1)] .
  then have segs: "rbuf_segments b = pre @ [s]" "w = length pre" "list_all seg_full pre"
    "seg_rdonly s \<longrightarrow> seg_full s" using w(2) by auto
  then have "seg_ok s" using assms(1) by (simp add: buf_inv_def buf_lay_def)
  then have "seg_full s" using not_writable_full [of s] no segs by simp
  then have "map seg_of (rbuf_segments b) = map seg_size (rbuf_segments b)"
    using segs by (simp add: list_all_iff seg_full_def)
  then have "rbuf_len b = rbuf_size b" using assms(1) by (simp only: buf_inv_def buf_lay_def)
  then show False using assms(3) by simp
qed

section \<open>Growing\<close>

lemma append_segment_inv:
  assumes "buf_inv b" "seg_ok seg" "seg_unused seg"
  shows "buf_inv (rd_buf_append_segment b seg)"
    and "buf_bytes (rd_buf_append_segment b seg) = buf_bytes b"
    and "rbuf_segments (rd_buf_append_segment b seg) \<noteq> []"
proof -
  let ?b1 = "b\<lparr>rbuf_segments := rbuf_segments b @ [seg\<lparr>seg_absof := rbuf_len b\<rparr>],
    rbuf_segment_cnt := rbuf_segment_cnt b + 1, rbuf_len := rbuf_len b + seg_of seg,
    rbuf_size := rbuf_size b + seg_size seg\<rparr>"
  have "seg_of seg = 0" using assms(3) by (simp add: seg_unused_def)
  have bytes: "buf_bytes ?b1 = buf_bytes b"
    using \<open>seg_of seg = 0\<close> by (simp add: buf_bytes_def seg_bytes_def)
  have "buf_inv (rd_buf_append_segment b seg) \<and>
    buf_bytes (rd_buf_append_segment b seg) = buf_bytes b \<and>
    rbuf_segments (rd_buf_append_segment b seg) \<noteq> []"
  proof (cases "rbuf_wpos b")
    case None
    then show ?thesis using assms bytes wpos_ok_at [of "[]" "seg\<lparr>seg_absof := 0\<rparr>" "[]"]
      by (auto simp: rd_buf_append_segment_def buf_inv_def buf_lay_def buf_bytes_def seg_bytes_def
          seg_ok_def seg_unused_def wpos_exact_def)
  next
    case (Some w)
    obtain pre s post where "rbuf_segments b = pre @ s # post" "w = length pre"
      "list_all seg_full pre" "list_all seg_unused post" "seg_rdonly s \<longrightarrow> seg_full s"
      using buf_inv_wpos_cases [OF assms(1) Some] .
    then have "buf_inv ?b1" using assms Some
      by (simp add: buf_inv_def buf_lay_def seg_ok_def seg_unused_def)
    from get_writable0_spec [OF this] show ?thesis
      using Some bytes
      by (auto simp: rd_buf_append_segment_def writable_at_def)
  qed
  then show "buf_inv (rd_buf_append_segment b seg)"
    "buf_bytes (rd_buf_append_segment b seg) = buf_bytes b"
    "rbuf_segments (rd_buf_append_segment b seg) \<noteq> []" by auto
qed

lemma alloc_size_pos: "0 < rd_buf_alloc_size b min_size max_size"
  by (auto simp: rd_buf_alloc_size_def SIZEOF_SEGMENT_def)

lemma fresh_segment_unused: "fresh_segment b sz seg \<Longrightarrow> 0 < sz \<Longrightarrow> seg_ok seg \<and> seg_unused seg"
  by (simp add: fresh_segment_def seg_ok_def seg_unused_def)

lemma buf_inv_extra [simp]: "buf_inv (b\<lparr>rbuf_extra_len := n\<rparr>) \<longleftrightarrow> buf_inv b"
  by (simp add: buf_inv_def buf_lay_def)

lemma buf_bytes_extra [simp]: "buf_bytes (b\<lparr>rbuf_extra_len := n\<rparr>) = buf_bytes b"
  by (simp add: buf_bytes_def)

lemma alloc_segment_inv:
  assumes "buf_inv b"
  shows "buf_inv (rd_buf_alloc_segment b min_size max_size) \<and>
    buf_bytes (rd_buf_alloc_segment b min_size max_size) = buf_bytes b \<and>
    rbuf_segments (rd_buf_alloc_segment b min_size max_size) \<noteq> []"
proof (rule alloc_segment0_cases [of b "rd_buf_alloc_size b min_size max_size"])
  fix seg n
  assume "rd_buf_alloc_segment0 b (rd_buf_alloc_size b min_size max_size) =
      (seg, b\<lparr>rbuf_extra_len := n\<rparr>)"
    and "fresh_segment b (rd_buf_alloc_size b min_size max_size) seg"
  then show ?thesis
    using append_segment_inv [of "b\<lparr>rbuf_extra_len := n\<rparr>" seg] assms
      fresh_segment_unused [OF _ alloc_size_pos]
    by (auto simp: rd_buf_alloc_segment_def)
qed

lemma write_ensure_spec:
  assumes "buf_inv b"
  shows "buf_inv (rd_buf_write_ensure b min_size max_size) \<and>
    buf_bytes (rd_buf_write_ensure b min_size max_size) = buf_bytes b \<and>
    rbuf_len (rd_buf_write_ensure b min_size max_size) = rbuf_len b \<and>
    rbuf_len b + min_size \<le> rbuf_size (rd_buf_write_ensure b min_size max_size)"
  using assms
proof (induction b min_size max_size rule: rd_buf_write_ensure.induct)
  case (1 b min_size max_size)
  show ?case
  proof (cases "rd_buf_write_remains b < min_size")
    case True
    then show ?thesis using "1.IH" [OF refl True] alloc_segment_inv [OF "1.prems"]
      by (subst (1 2 3 4) rd_buf_write_ensure.simps) (auto simp: Let_def)
  next
    case False
    then show ?thesis using "1.prems" buf_inv_len_le [OF "1.prems"]
      by (subst (1 2 3 4) rd_buf_write_ensure.simps) (auto simp: rd_buf_write_remains_def)
  qed
qed

section \<open>Write\<close>

text \<open>The bytes one round of the write loop makes part of the contents.\<close>

definition fill_bytes :: "rd_segment \<Rightarrow> byte list option \<Rightarrow> nat \<Rightarrow> byte list" where
  "fill_bytes seg payload wlen =
     (case payload of
        None \<Rightarrow> take wlen (drop (seg_of seg) (seg_p seg))
      | Some src \<Rightarrow> take wlen src)"

lemma segment_fill_spec:
  assumes "seg_ok seg" "wlen \<le> rd_segment_write_remains seg"
    "\<And>src. payload = Some src \<Longrightarrow> wlen \<le> length src"
  shows "seg_ok (rd_segment_fill seg payload wlen)"
    and "seg_bytes (rd_segment_fill seg payload wlen) = seg_bytes seg @ fill_bytes seg payload wlen"
    and "seg_size (rd_segment_fill seg payload wlen) = seg_size seg"
    and "seg_of (rd_segment_fill seg payload wlen) = seg_of seg + wlen"
    and "seg_absof (rd_segment_fill seg payload wlen) = seg_absof seg"
    and "seg_rdonly (rd_segment_fill seg payload wlen) = seg_rdonly seg"
proof -
  have le: "wlen \<le> seg_size seg - seg_of seg"
    using assms(2) by (auto simp: rd_segment_write_remains_def split: if_splits)
  show "seg_ok (rd_segment_fill seg payload wlen)"
    using assms(1,3) le by (cases payload) (auto simp: rd_segment_fill_def seg_ok_def min_def)
  show "seg_bytes (rd_segment_fill seg payload wlen) = seg_bytes seg @ fill_bytes seg payload wlen"
    using assms(1,3) le
    by (cases payload)
      (auto simp: rd_segment_fill_def fill_bytes_def seg_bytes_def seg_ok_def take_add
        overwrite_def min_def)
qed (simp_all add: rd_segment_fill_def)

definition buf_fill :: "rd_buf \<Rightarrow> nat \<Rightarrow> byte list option \<Rightarrow> nat \<Rightarrow> rd_buf" where
  "buf_fill b w payload wlen =
     b\<lparr>rbuf_segments := (rbuf_segments b)[w := rd_segment_fill (rbuf_segments b ! w) payload wlen],
       rbuf_len := rbuf_len b + wlen\<rparr>"

lemma buf_fill_spec:
  assumes inv: "buf_inv b" and at: "writable_at b n" and w: "rbuf_wpos b = Some w"
    and le: "wlen \<le> n" and src: "\<And>src. payload = Some src \<Longrightarrow> wlen \<le> length src"
  shows "buf_inv (buf_fill b w payload wlen)"
    and "buf_bytes (buf_fill b w payload wlen)
      = buf_bytes b @ fill_bytes (rbuf_segments b ! w) payload wlen"
    and "map seg_size (rbuf_segments (buf_fill b w payload wlen))
      = map seg_size (rbuf_segments b)"
proof -
  obtain pre s post where segs: "rbuf_segments b = pre @ s # post" "w = length pre"
    "list_all seg_full pre" "list_all seg_unused post" "seg_rdonly s \<longrightarrow> seg_full s"
    using buf_inv_wpos_cases [OF inv w] .
  have ok: "seg_ok s" using inv segs by (simp add: buf_inv_def buf_lay_def)
  have rem: "wlen \<le> rd_segment_write_remains s"
    using at le w segs by (auto simp: writable_at_def)
  note fill = segment_fill_spec [OF ok rem, of payload, OF src]
  have full: "seg_rdonly s \<Longrightarrow> wlen = 0" using rem by (simp add: rd_segment_write_remains_def)
  have b': "buf_fill b w payload wlen = b\<lparr>rbuf_segments := pre @ rd_segment_fill s payload wlen # post,
      rbuf_len := rbuf_len b + wlen\<rparr>"
    using segs by (simp add: buf_fill_def)
  have abs: "0 < wlen \<Longrightarrow> seg_absof s = sum_list (map seg_of pre)"
    using at rem w segs inv le by (auto simp: writable_at_def buf_inv_def)
  have post: "segs_ok base post \<Longrightarrow> segs_ok (base + k) post" for base k
    using segs(4) by (induction post arbitrary: base) (auto simp: seg_unused_def)
  show "buf_inv (buf_fill b w payload wlen)"
    unfolding b' using inv w segs fill ok full abs post
    by (auto simp: buf_inv_def buf_lay_def seg_full_def add.assoc [symmetric])
  show "buf_bytes (buf_fill b w payload wlen)
      = buf_bytes b @ fill_bytes (rbuf_segments b ! w) payload wlen"
    unfolding b' using segs fill by (simp add: buf_bytes_def)
  show "map seg_size (rbuf_segments (buf_fill b w payload wlen)) = map seg_size (rbuf_segments b)"
    unfolding b' using segs fill by simp
qed

lemma get_writable_from_sizes [simp]:
  "map seg_size (rbuf_segments (fst (rd_buf_get_writable_from b i))) = map seg_size (rbuf_segments b)"
  by (induction b i rule: rd_buf_get_writable_from.induct; subst rd_buf_get_writable_from.simps)
    (simp add: Let_def map_update list_update_same_conv)

lemma get_writable0_sizes [simp]:
  "map seg_size (rbuf_segments (fst (rd_buf_get_writable0 b))) = map seg_size (rbuf_segments b)"
  by (simp add: rd_buf_get_writable0_def split: option.split)

text \<open>
  The write position is at the last segment. \<open>rd_segment_split\<close>, and with it
  \<open>rd_buf_push\<close>, is documented for that case only.
\<close>

definition wpos_last :: "rd_buf \<Rightarrow> bool" where
  "wpos_last b \<longleftrightarrow>
     (case rbuf_wpos b of None \<Rightarrow> True | Some w \<Rightarrow> Suc w = length (rbuf_segments b))"

lemma get_writable_from_wpos:
  "i < length (rbuf_segments b) \<Longrightarrow>
   \<exists>w. rbuf_wpos (fst (rd_buf_get_writable_from b i)) = Some w \<and> i \<le> w \<and> w < length (rbuf_segments b)"
proof (induction b i rule: rd_buf_get_writable_from.induct)
  case (1 b i)
  show ?case
  proof (cases "Suc i < length (rbuf_segments b)")
    case True
    then show ?thesis using 1
      by (subst rd_buf_get_writable_from.simps) (force simp: Let_def)
  next
    case False
    then show ?thesis using "1.prems"
      by (subst rd_buf_get_writable_from.simps)
        (auto simp: Let_def rd_buf_get_writable_from.simps [of _ "Suc i"])
  qed
qed

lemma get_writable0_last:
  assumes "buf_inv b" "wpos_last b"
  shows "wpos_last (fst (rd_buf_get_writable0 b))"
proof (cases "rbuf_wpos b")
  case None
  then show ?thesis using assms by (simp add: rd_buf_get_writable0_def)
next
  case (Some w)
  then have "Suc w = length (rbuf_segments b)" using assms(2) by (simp add: wpos_last_def)
  then show ?thesis
    using Some get_writable_from_wpos [of w b] get_writable_from_sizes [of b w, THEN map_eq_imp_length_eq]
    by (auto simp: rd_buf_get_writable0_def wpos_last_def)
qed

lemma write_loop_unfold:
  assumes "buf_inv b" "rbuf_len b + remains \<le> rbuf_size b" "0 < remains"
  obtains b1 n w where "rd_buf_write_loop b payload remains =
      rd_buf_write_loop (buf_fill b1 w payload (min remains n))
        (map_option (drop (min remains n)) payload) (remains - min remains n)"
    "buf_inv b1" "buf_bytes b1 = buf_bytes b" "writable_at b1 n" "rbuf_wpos b1 = Some w" "0 < n"
    "rbuf_len b1 = rbuf_len b" "rbuf_size b1 = rbuf_size b"
    "map seg_size (rbuf_segments b1) = map seg_size (rbuf_segments b)"
    "wpos_last b \<longrightarrow> wpos_last b1"
proof -
  obtain b1 n where g: "rd_buf_get_writable0 b = (b1, n)" by fastforce
  have "rbuf_segments b \<noteq> []" using assms by (auto simp: buf_inv_def buf_lay_def)
  from get_writable0_spec [OF assms(1) this] g
  have spec: "buf_inv b1" "buf_bytes b1 = buf_bytes b" "writable_at b1 n" by simp_all
  have frame: "rbuf_len b1 = rbuf_len b" "rbuf_size b1 = rbuf_size b"
    "map seg_size (rbuf_segments b1) = map seg_size (rbuf_segments b)"
    using get_writable0_frame [of b] get_writable0_sizes [of b] g by simp_all
  obtain w where w: "rbuf_wpos b1 = Some w" using writable_at_wpos [OF spec(3)] by blast
  have "0 < n" using writable_at_room [OF spec(1,3)] frame assms(2,3) by linarith
  moreover have "wpos_last b \<longrightarrow> wpos_last b1" using get_writable0_last [OF assms(1)] g by simp
  ultimately show thesis
    using that [of b1 w n] spec frame w g assms(3)
    by (simp add: rd_buf_write_loop.simps [of b] buf_fill_def Let_def)
qed

lemma write_loop_spec:
  assumes "buf_inv b" "rbuf_len b + remains \<le> rbuf_size b" "remains \<le> length src"
  shows "\<exists>b'. rd_buf_write_loop b (Some src) remains = Some (Return b') \<and> buf_inv b' \<and>
    buf_bytes b' = buf_bytes b @ take remains src \<and> rbuf_size b' = rbuf_size b \<and>
    map seg_size (rbuf_segments b') = map seg_size (rbuf_segments b) \<and>
    (wpos_last b \<longrightarrow> wpos_last b')"
  using assms
proof (induction remains arbitrary: b src rule: less_induct)
  case (less remains)
  show ?case
  proof (cases "remains = 0")
    case True
    then show ?thesis using less.prems by (simp add: rd_buf_write_loop.simps)
  next
    case False
    then obtain b1 n w where step: "rd_buf_write_loop b (Some src) remains =
        rd_buf_write_loop (buf_fill b1 w (Some src) (min remains n))
          (Some (drop (min remains n) src)) (remains - min remains n)"
      and b1: "buf_inv b1" "buf_bytes b1 = buf_bytes b" "writable_at b1 n" "rbuf_wpos b1 = Some w"
        "0 < n" "rbuf_len b1 = rbuf_len b" "rbuf_size b1 = rbuf_size b"
        "map seg_size (rbuf_segments b1) = map seg_size (rbuf_segments b)"
        "wpos_last b \<longrightarrow> wpos_last b1"
      using write_loop_unfold [OF less.prems(1,2), of "Some src"] by (metis not_gr_zero option.map(2))
    let ?k = "min remains n"
    note fill = buf_fill_spec [OF b1(1,3,4), of ?k "Some src"]
    have k: "0 < ?k" "?k \<le> remains" "?k \<le> length src" using b1(5) False less.prems(3) by auto
    have "\<exists>b'. rd_buf_write_loop (buf_fill b1 w (Some src) ?k) (Some (drop ?k src)) (remains - ?k)
          = Some (Return b') \<and> buf_inv b' \<and>
        buf_bytes b' = buf_bytes (buf_fill b1 w (Some src) ?k) @ take (remains - ?k) (drop ?k src) \<and>
        rbuf_size b' = rbuf_size (buf_fill b1 w (Some src) ?k) \<and>
        map seg_size (rbuf_segments b') = map seg_size (rbuf_segments (buf_fill b1 w (Some src) ?k)) \<and>
        (wpos_last (buf_fill b1 w (Some src) ?k) \<longrightarrow> wpos_last b')"
      using k fill(1) b1 less.prems by (intro less.IH) (auto simp: buf_fill_def)
    moreover have "take ?k src @ take (remains - ?k) (drop ?k src) = take remains src"
      using k(2) by (metis le_add_diff_inverse take_add)
    moreover have "wpos_last (buf_fill b1 w (Some src) ?k) = wpos_last b1"
      by (simp add: wpos_last_def buf_fill_def split: option.split)
    ultimately show ?thesis
      using step fill(2,3) b1 k by (auto simp: fill_bytes_def buf_fill_def)
  qed
qed

lemma alloc_segment_sizes:
  assumes "buf_inv b"
  shows "map seg_size (rbuf_segments (rd_buf_alloc_segment b m 0))
    = map seg_size (rbuf_segments b) @ [rd_buf_alloc_size b m 0]"
  by (rule alloc_segment0_cases [of b "rd_buf_alloc_size b m 0"])
    (simp add: rd_buf_alloc_segment_def rd_buf_append_segment_def fresh_segment_def Let_def)

lemma write_ensure_unfold:
  assumes "buf_inv b"
  shows "rd_buf_write_ensure b n 0 =
    (if n \<le> rd_buf_write_remains b then b
     else rd_buf_alloc_segment b (n - rd_buf_write_remains b) 0)"
proof (cases "n \<le> rd_buf_write_remains b")
  case True
  then show ?thesis by (subst rd_buf_write_ensure.simps) simp
next
  case False
  let ?b = "rd_buf_alloc_segment b (n - rd_buf_write_remains b) 0"
  have "n \<le> rd_buf_write_remains ?b"
    using alloc_size_ge [of "n - rd_buf_write_remains b" b 0] buf_inv_len_le [OF assms]
    by (simp add: rd_buf_write_remains_def)
  then have "rd_buf_write_ensure ?b n 0 = ?b" by (subst rd_buf_write_ensure.simps) simp
  then show ?thesis using False
    by (subst rd_buf_write_ensure.simps) (simp add: Let_def)
qed

lemma wpos_last_if_beyond:
  assumes inv: "buf_inv b" and segs: "map seg_size (rbuf_segments b) = sizes @ [k]"
    and len: "sum_list sizes < rbuf_len b"
  shows "wpos_last b"
proof -
  have "rbuf_segments b \<noteq> []" using segs by auto
  then obtain w where w: "rbuf_wpos b = Some w"
    using inv by (cases "rbuf_wpos b") (auto simp: buf_inv_def buf_lay_def)
  obtain pre s post where b: "rbuf_segments b = pre @ s # post" "w = length pre"
    "list_all seg_unused post" using buf_inv_wpos_cases [OF inv w] .
  have "post = []"
  proof (rule ccontr)
    assume "post \<noteq> []"
    then have "sizes = map seg_size (pre @ [s]) @ map seg_size (butlast post)"
      using segs b(1) by (cases post rule: rev_cases) auto
    moreover have "segs_ok 0 (pre @ [s])" using inv b by (simp add: buf_inv_def buf_lay_def)
    then have "sum_list (map seg_of (pre @ [s])) \<le> sum_list (map seg_size (pre @ [s]))"
      by (rule segs_used_le)
    moreover have "rbuf_len b = sum_list (map seg_of (pre @ [s]))"
      using inv b by (simp add: buf_inv_def buf_lay_def)
    ultimately show False using len by simp
  qed
  then show ?thesis using w b by (simp add: wpos_last_def)
qed

lemma rd_buf_write_spec:
  assumes "buf_inv b"
  shows "\<exists>b'. rd_buf_write b (Some src) (length src) = Some (Return (b', rbuf_len b)) \<and>
    buf_inv b' \<and> buf_bytes b' = buf_bytes b @ src \<and> (wpos_last b \<longrightarrow> wpos_last b')"
proof -
  let ?b = "rd_buf_write_ensure b (length src) 0"
  have ens: "buf_inv ?b" "buf_bytes ?b = buf_bytes b" "rbuf_len ?b + length src \<le> rbuf_size ?b"
    using write_ensure_spec [OF assms, of "length src" 0] by auto
  obtain b' where loop: "rd_buf_write_loop ?b (Some src) (length src) = Some (Return b')"
    and b': "buf_inv b'" "buf_bytes b' = buf_bytes b @ src"
      "map seg_size (rbuf_segments b') = map seg_size (rbuf_segments ?b)"
      "wpos_last ?b \<longrightarrow> wpos_last b'"
    using write_loop_spec [OF ens(1,3), of src] ens(2) by auto
  have "wpos_last b \<longrightarrow> wpos_last b'"
  proof (cases "length src \<le> rd_buf_write_remains b")
    case True
    then show ?thesis using b'(4) write_ensure_unfold [OF assms, of "length src"] by simp
  next
    case False
    have "rbuf_len b' = rbuf_len b + length src"
      using b'(1,2) assms by (metis buf_inv_length length_append)
    moreover have "sum_list (map seg_size (rbuf_segments b)) = rbuf_size b"
      using assms by (simp add: buf_inv_def buf_lay_def)
    ultimately have "sum_list (map seg_size (rbuf_segments b)) < rbuf_len b'"
      using False buf_inv_len_le [OF assms] by (simp add: rd_buf_write_remains_def)
    then show ?thesis
      using wpos_last_if_beyond [OF b'(1)] b'(3) False alloc_segment_sizes [OF assms]
        write_ensure_unfold [OF assms, of "length src"] by simp
  qed
  then show ?thesis using loop b' by (simp add: rd_buf_write_def)
qed

section \<open>Finding a segment\<close>

lemma find_segment_from_hit:
  assumes "segs = pre @ s # post" "seg_holds absof s" "start \<le> length pre"
    and "\<And>t. t \<in> set (drop start pre) \<Longrightarrow> \<not> seg_holds absof t"
  shows "find_segment_from segs absof start = Some (length pre)"
  using assms(3,4)
proof (induction "length pre - start" arbitrary: start)
  case 0
  then have start: "start = length pre" by simp
  show ?case unfolding start using assms(1,2)
    by (subst find_segment_from.simps) simp
next
  case (Suc n)
  then have "start < length pre" by simp
  then have d: "drop start pre = pre ! start # drop (Suc start) pre"
    by (simp add: Cons_nth_drop_Suc)
  then have "\<not> seg_holds absof (pre ! start)" using Suc.prems(2) by (simp del: seg_holds.simps)
  moreover have "find_segment_from segs absof (Suc start) = Some (length pre)"
    using Suc d by (intro Suc.hyps(1)) (auto simp del: seg_holds.simps)
  ultimately show ?case using \<open>start < length pre\<close> assms(1)
    by (subst find_segment_from.simps) (simp add: nth_append del: seg_holds.simps)
qed

text \<open>Below the buffer's length exactly one segment holds an offset.\<close>

lemma segs_ok_not_before:
  "segs_ok base pre \<Longrightarrow> base + sum_list (map seg_of pre) \<le> absof \<Longrightarrow> t \<in> set pre \<Longrightarrow>
   \<not> seg_holds absof t"
  by (induction pre arbitrary: base) (force simp: seg_unused_def)+

lemma segs_ok_locate:
  assumes "segs_ok base segs" "base \<le> absof" "absof < base + sum_list (map seg_of segs)"
  obtains pre s post where "segs = pre @ s # post"
    "base + sum_list (map seg_of pre) \<le> absof"
    "absof < base + sum_list (map seg_of pre) + seg_of s"
  using assms
proof (induction segs arbitrary: base thesis)
  case Nil
  then show ?case by simp
next
  case (Cons s segs)
  show ?case
  proof (cases "absof < base + seg_of s")
    case True
    then show ?thesis using Cons.prems(1) [of "[]" s segs] Cons.prems by simp
  next
    case False
    then obtain pre t post where "segs = pre @ t # post"
      "base + seg_of s + sum_list (map seg_of pre) \<le> absof"
      "absof < base + seg_of s + sum_list (map seg_of pre) + seg_of t"
      using Cons.IH [of "base + seg_of s"] Cons.prems by auto
    then show ?thesis using Cons.prems(1) [of "s # pre" t post] by (simp add: add.assoc)
  qed
qed

lemma get_segment_at_offset_hint:
  assumes inv: "buf_inv b" and less: "absof < rbuf_len b"
    and hint: "\<And>h. hint = Some h \<Longrightarrow> h < length (rbuf_segments b) \<and>
      wpos_exact (rbuf_segments b) (Some h)"
  obtains pre s post where "rbuf_segments b = pre @ s # post"
    "rd_buf_get_segment_at_offset b hint absof = Return (Some (length pre))"
    "seg_absof s = sum_list (map seg_of pre)"
    "sum_list (map seg_of pre) \<le> absof" "absof < sum_list (map seg_of pre) + seg_of s"
proof -
  have lay: "segs_ok 0 (rbuf_segments b)" "rbuf_len b = sum_list (map seg_of (rbuf_segments b))"
    using inv by (auto simp: buf_inv_def buf_lay_def)
  obtain pre s post where b: "rbuf_segments b = pre @ s # post"
    and off: "sum_list (map seg_of pre) \<le> absof" "absof < sum_list (map seg_of pre) + seg_of s"
    using segs_ok_locate [OF lay(1), of absof] less lay(2) by auto
  have abs: "seg_absof s = sum_list (map seg_of pre)" "segs_ok 0 pre"
    using lay(1) b off by (auto simp: seg_unused_def)
  let ?start = "case hint of None \<Rightarrow> 0
    | Some h \<Rightarrow> if absof < seg_absof (rbuf_segments b ! h) then 0 else h"
  have start: "?start \<le> length pre"
  proof (cases hint)
    case (Some w)
    let ?pre = "take w (rbuf_segments b)" and ?s = "rbuf_segments b ! w"
      and ?post = "drop (Suc w) (rbuf_segments b)"
    obtain pre' s' post' where w: "rbuf_segments b = pre' @ s' # post'" "w = length pre'"
      "seg_absof s' = sum_list (map seg_of pre')"
    proof (rule that [of ?pre ?s ?post])
      show "rbuf_segments b = ?pre @ ?s # ?post" using hint [OF Some] by (simp add: id_take_nth_drop)
      show "w = length ?pre" "seg_absof ?s = sum_list (map seg_of ?pre)"
        using hint [OF Some] by (simp_all add: wpos_exact_def)
    qed
    show ?thesis
    proof (cases "absof < seg_absof (rbuf_segments b ! w) \<or> w \<le> length pre")
      case False
      have "take (Suc (length pre)) (rbuf_segments b) = pre @ [s]" by (simp add: b)
      moreover have "take (Suc (length pre)) (rbuf_segments b) = take (Suc (length pre)) pre'"
        using False w by simp
      moreover have "seg_absof s' \<le> absof" using False w by (simp add: nth_append)
      ultimately have "sum_list (map seg_of (pre @ [s])) \<le> sum_list (map seg_of pre')"
        by (metis sum_list_take_le take_map)
      then show ?thesis using off(2) w(3) \<open>seg_absof s' \<le> absof\<close> by simp
    qed (use Some in auto)
  qed simp
  have "seg_holds absof s" using abs off by simp
  moreover have "\<not> seg_holds absof t" if "t \<in> set (drop ?start pre)" for t
    using segs_ok_not_before [OF abs(2)] off(1) in_set_dropD [OF that] by simp
  ultimately have "find_segment_from (rbuf_segments b) absof ?start = Some (length pre)"
    using find_segment_from_hit [OF b _ start] by blast
  then have "rd_buf_get_segment_at_offset b hint absof = Return (Some (length pre))"
    using less b by (simp add: rd_buf_get_segment_at_offset_def Let_def)
  then show thesis using that b abs(1) off by blast
qed

lemma get_segment_at_offset_hit:
  assumes inv: "buf_inv b" and less: "absof < rbuf_len b"
    and hint: "hint = None \<or> hint = rbuf_wpos b"
  obtains pre s post where "rbuf_segments b = pre @ s # post"
    "rd_buf_get_segment_at_offset b hint absof = Return (Some (length pre))"
    "seg_absof s = sum_list (map seg_of pre)"
    "sum_list (map seg_of pre) \<le> absof" "absof < sum_list (map seg_of pre) + seg_of s"
proof (rule get_segment_at_offset_hint [OF inv less, of hint])
  show "h < length (rbuf_segments b) \<and> wpos_exact (rbuf_segments b) (Some h)" if "hint = Some h" for h
  proof -
    have "rbuf_wpos b = Some h" using that hint by auto
    then show ?thesis using inv by (simp add: buf_inv_def buf_lay_def wpos_ok_def)
  qed
qed (use that in blast)

end
