(* ===== verification/Rdbuf_Ops.thy ===== *)
theory Rdbuf_Ops
  imports Rdbuf_Inv
begin

text \<open>
  In-place updates, pushed memory and the write seek of \<open>rdbuf.c\<close> in terms of the buffer's
  contents, on top of the invariant of \<open>Rdbuf_Inv\<close>.
\<close>

section \<open>Update in place\<close>

text \<open>Two segments that differ in the bytes of their memory only.\<close>

definition seg_same_shape :: "rd_segment \<Rightarrow> rd_segment \<Rightarrow> bool" where
  "seg_same_shape s t \<longleftrightarrow> t = s\<lparr>seg_p := seg_p t\<rparr> \<and> length (seg_p t) = length (seg_p s)"

lemma same_shape_fields:
  assumes "seg_same_shape s t"
  shows "seg_of t = seg_of s" "seg_size t = seg_size s" "seg_absof t = seg_absof s"
    "seg_rdonly t = seg_rdonly s" "seg_ok t = seg_ok s" "seg_full t = seg_full s"
    "seg_unused t = seg_unused s" "length (seg_p t) = length (seg_p s)"
proof -
  obtain p where t: "t = s\<lparr>seg_p := p\<rparr>" "length p = length (seg_p s)"
    using assms by (auto simp: seg_same_shape_def)
  then show "seg_of t = seg_of s" "seg_size t = seg_size s" "seg_absof t = seg_absof s"
    "seg_rdonly t = seg_rdonly s" "seg_ok t = seg_ok s" "seg_full t = seg_full s"
    "seg_unused t = seg_unused s" "length (seg_p t) = length (seg_p s)"
    by (simp_all add: seg_ok_def seg_full_def seg_unused_def)
qed

lemma same_shape_segs:
  assumes "list_all2 seg_same_shape ss ts"
  shows "segs_ok base ts = segs_ok base ss" "map seg_of ts = map seg_of ss"
    "map seg_size ts = map seg_size ss" "list_all seg_full ts = list_all seg_full ss"
    "list_all seg_unused ts = list_all seg_unused ss"
proof -
  have "segs_ok base ts = segs_ok base ss \<and> map seg_of ts = map seg_of ss \<and>
    map seg_size ts = map seg_size ss \<and> list_all seg_full ts = list_all seg_full ss \<and>
    list_all seg_unused ts = list_all seg_unused ss"
    using assms
  proof (induction ss ts arbitrary: base rule: list_all2_induct)
    case (Cons s ss t ts)
    then show ?case using same_shape_fields [OF Cons.hyps(1)] by simp
  qed simp
  then show "segs_ok base ts = segs_ok base ss" "map seg_of ts = map seg_of ss"
    "map seg_size ts = map seg_size ss" "list_all seg_full ts = list_all seg_full ss"
    "list_all seg_unused ts = list_all seg_unused ss" by simp_all
qed

lemma same_shape_refl [simp]: "seg_same_shape s s" "list_all2 seg_same_shape ss ss"
  by (simp_all add: seg_same_shape_def list.rel_refl)

lemma same_shape_inv:
  assumes "list_all2 seg_same_shape (rbuf_segments b) ts" "buf_inv b"
  shows "buf_inv (b\<lparr>rbuf_segments := ts\<rparr>)"
proof -
  note segs = same_shape_segs [OF assms(1)]
  have len: "length ts = length (rbuf_segments b)" using assms(1) by (simp add: list_all2_lengthD)
  have nth: "seg_same_shape (rbuf_segments b ! i) (ts ! i)" if "i < length ts" for i
    using assms(1) that by (simp add: list_all2_conv_all_nth)
  have part: "list_all seg_full (take i ts) = list_all seg_full (take i (rbuf_segments b))"
    "list_all seg_unused (drop i ts) = list_all seg_unused (drop i (rbuf_segments b))"
    "map seg_of (take i ts) = map seg_of (take i (rbuf_segments b))" for i
    using same_shape_segs [OF list_all2_takeI [OF assms(1)]]
      same_shape_segs [OF list_all2_dropI [OF assms(1)]] by auto
  show ?thesis
    using assms(2) segs len part same_shape_fields [OF nth]
    by (auto simp: buf_inv_def buf_lay_def wpos_ok_def wpos_exact_def split: option.splits)
qed

lemma segment_write_update_spec:
  fixes payload :: "byte list"
  assumes "seg_ok s" "seg_absof s \<le> absof" "absof - seg_absof s \<le> seg_of s"
    and k_def: "k = min (length payload) (seg_of s - (absof - seg_absof s))"
  shows "\<exists>t. rd_segment_write_update s absof payload = Return (t, k) \<and> seg_same_shape s t \<and>
    seg_bytes t = overwrite (absof - seg_absof s) (take k payload) (seg_bytes s)"
proof -
  define r where "r = absof - seg_absof s"
  let ?p = "overwrite r (take k payload) (seg_p s)"
  have le: "r + k \<le> seg_of s" "k \<le> length payload" using assms(3) k_def by (auto simp: r_def)
  have ok: "seg_of s \<le> length (seg_p s)" using assms(1) by (simp add: seg_ok_def)
  have "length (take k payload) = k" using le(2) by simp
  then have "take (seg_of s) ?p = overwrite r (take k payload) (take (seg_of s) (seg_p s))"
    "length ?p = length (seg_p s)"
    using le ok by (simp_all add: overwrite_def drop_take)
  moreover have "rd_segment_write_update s absof payload = Return (s\<lparr>seg_p := ?p\<rparr>, k)"
    using assms(2,3) k_def by (simp add: rd_segment_write_update_def r_def Let_def)
  ultimately show ?thesis unfolding r_def [symmetric]
    by (simp add: seg_same_shape_def seg_bytes_def)
qed

lemma write_update_loop_Nil [simp]: "rd_buf_write_update_loop b i absof [] = Return b"
  by (subst rd_buf_write_update_loop.simps) simp

lemma write_update_loop_spec:
  assumes "rbuf_segments b = pre @ act @ un" "segs_ok 0 (pre @ act @ un)"
    "list_all (\<lambda>s. \<not> seg_unused s) act"
    "sum_list (map seg_of (pre @ act)) \<le> rbuf_len b"
    "absof = sum_list (map seg_of pre) + relof" "relof + length payload \<le> sum_list (map seg_of act)"
    "relof = 0 \<or> (\<exists>s act'. act = s # act' \<and> relof < seg_of s)"
  shows "\<exists>act'. rd_buf_write_update_loop b (length pre) absof payload
      = Return (b\<lparr>rbuf_segments := pre @ act' @ un\<rparr>) \<and>
    list_all2 seg_same_shape act act' \<and>
    segs_bytes act' = overwrite relof payload (segs_bytes act)"
  using assms
proof (induction act arbitrary: b pre absof relof payload)
  case Nil
  then show ?case by simp
next
  case (Cons s act)
  show ?case
  proof (cases "payload = []")
    case True
    then show ?thesis using Cons.prems(1) by (intro exI [of _ "s # act"]) simp
  next
    case False
    have s: "seg_ok s" "seg_absof s = sum_list (map seg_of pre)" "relof \<le> seg_of s"
      using Cons.prems(2,3,7) by auto
    let ?k = "min (length payload) (seg_of s - relof)"
    obtain t where upd: "rd_segment_write_update s absof payload = Return (t, ?k)"
      and t: "seg_same_shape s t" "seg_bytes t = overwrite relof (take ?k payload) (seg_bytes s)"
      using segment_write_update_spec [of s absof ?k payload] s Cons.prems(5) by auto
    let ?b = "b\<lparr>rbuf_segments := pre @ t # act @ un\<rparr>"
    have step: "rd_buf_write_update_loop b (length pre) absof payload
        = rd_buf_write_update_loop ?b (length (pre @ [t])) (absof + ?k) (drop ?k payload)"
      using False Cons.prems(1,4) s(2) upd
      by (subst rd_buf_write_update_loop.simps) simp
    show ?thesis
    proof (cases "length payload \<le> seg_of s - relof")
      case True
      then have "rd_buf_write_update_loop b (length pre) absof payload = Return ?b"
        unfolding step by simp
      moreover have "overwrite relof payload (seg_bytes s) @ segs_bytes act
          = overwrite relof payload (seg_bytes s @ segs_bytes act)"
        using True s by (simp add: overwrite_append_left)
      ultimately show ?thesis using t True
        by (intro exI [of _ "t # act"]) (simp add: min_def)
    next
      case False
      then have k: "?k = seg_of s - relof" by simp
      have "\<exists>act'. rd_buf_write_update_loop ?b (length (pre @ [t])) (absof + ?k) (drop ?k payload)
          = Return (?b\<lparr>rbuf_segments := (pre @ [t]) @ act' @ un\<rparr>) \<and>
        list_all2 seg_same_shape act act' \<and>
        segs_bytes act' = overwrite 0 (drop ?k payload) (segs_bytes act)"
        using Cons.prems s k False same_shape_fields [OF t(1)]
        by (intro Cons.IH) auto
      then obtain act' where act': "rd_buf_write_update_loop b (length pre) absof payload
          = Return (b\<lparr>rbuf_segments := pre @ (t # act') @ un\<rparr>)"
        "list_all2 seg_same_shape act act'"
        "segs_bytes act' = overwrite 0 (drop ?k payload) (segs_bytes act)"
        using step by auto
      have "overwrite relof (take ?k payload @ drop ?k payload) (seg_bytes s @ segs_bytes act)
          = overwrite relof (take ?k payload) (seg_bytes s) @ overwrite 0 (drop ?k payload) (segs_bytes act)"
        using s k False by (intro overwrite_append_split) simp
      then show ?thesis using act' t by (intro exI [of _ "t # act'"]) simp
    qed
  qed
qed

lemma segs_split_unused:
  assumes "buf_inv b" "rbuf_segments b = pre @ s # post" "0 < seg_of s"
  obtains act un where "s # post = act @ un" "list_all (\<lambda>s. \<not> seg_unused s) act"
    "list_all seg_unused un" "act \<noteq> []" "hd act = s"
proof -
  obtain w where w: "rbuf_wpos b = Some w"
    using assms by (cases "rbuf_wpos b") (auto simp: buf_inv_def buf_lay_def)
  obtain pre' s' post' where *: "rbuf_segments b = pre' @ s' # post'"
    "list_all seg_full pre'" "list_all seg_unused post'"
    using buf_inv_wpos_cases [OF assms(1) w] .
  have nopre: "list_all (\<lambda>s. \<not> seg_unused s) pre'"
    using *(2) by (auto simp: list_all_iff seg_full_def seg_unused_def)
  have both: "pre @ s # post = pre' @ s' # post'" using *(1) assms(2) by (rule trans [OF sym, rotated])
  have "length pre \<le> length pre'"
  proof (rule ccontr)
    assume less: "\<not> length pre \<le> length pre'"
    then obtain mid where "pre = pre' @ mid" "s' # post' = mid @ s # post"
      using append_prefix_cases(2) [OF both] by auto
    then have "s \<in> set post'" using less by (cases mid) auto
    then show False using *(3) assms(3) by (auto simp: list_all_iff seg_unused_def)
  qed
  then obtain mid where pre': "pre' = pre @ mid" and eq: "s # post = mid @ s' # post'"
    using append_prefix_cases(1) [OF both] by auto
  have mid: "list_all (\<lambda>s. \<not> seg_unused s) mid" using nopre pre' by simp
  show thesis
  proof (cases "seg_unused s'")
    case True
    moreover have "mid \<noteq> []" using eq True assms(3) by (auto simp: seg_unused_def)
    ultimately have "hd mid = s" "mid \<noteq> []" using eq by (cases mid; simp)+
    then show thesis using that [OF eq mid] True *(3) by simp
  next
    case False
    moreover have "hd (mid @ [s']) = s" using eq by (cases mid) simp_all
    ultimately show thesis
      using that [of "mid @ [s']" post'] eq mid *(3) by simp
  qed
qed

lemma rd_buf_write_update_shape:
  assumes inv: "buf_inv b" and off: "absof < rbuf_len b" "absof + length payload \<le> rbuf_len b"
  shows "\<exists>ts. rd_buf_write_update b absof payload = Return (b\<lparr>rbuf_segments := ts\<rparr>, length payload) \<and>
    list_all2 seg_same_shape (rbuf_segments b) ts \<and> buf_inv (b\<lparr>rbuf_segments := ts\<rparr>) \<and>
    buf_bytes (b\<lparr>rbuf_segments := ts\<rparr>) = overwrite absof payload (buf_bytes b)"
proof -
  obtain pre s post where b: "rbuf_segments b = pre @ s # post"
    and hit: "rd_buf_get_segment_at_offset b (rbuf_wpos b) absof = Return (Some (length pre))"
    and s: "sum_list (map seg_of pre) \<le> absof" "absof < sum_list (map seg_of pre) + seg_of s"
    using get_segment_at_offset_hit [OF inv off(1), of "rbuf_wpos b"] by metis
  obtain act un where parts: "s # post = act @ un" "list_all (\<lambda>s. \<not> seg_unused s) act"
    "list_all seg_unused un" "act \<noteq> []" "hd act = s"
    using segs_split_unused [OF inv b] s by auto
  let ?r = "absof - sum_list (map seg_of pre)"
  have lay: "segs_ok 0 (pre @ act @ un)" "rbuf_len b = sum_list (map seg_of (pre @ act))"
    using inv b parts(1,3) by (auto simp: buf_inv_def buf_lay_def)
  have "\<exists>act'. rd_buf_write_update_loop b (length pre) absof payload
      = Return (b\<lparr>rbuf_segments := pre @ act' @ un\<rparr>) \<and> list_all2 seg_same_shape act act' \<and>
    segs_bytes act' = overwrite ?r payload (segs_bytes act)"
    using b parts lay s off by (intro write_update_loop_spec) (auto simp: neq_Nil_conv)
  then obtain act' where act': "rd_buf_write_update_loop b (length pre) absof payload
      = Return (b\<lparr>rbuf_segments := pre @ act' @ un\<rparr>)" "list_all2 seg_same_shape act act'"
    "segs_bytes act' = overwrite ?r payload (segs_bytes act)" by blast
  let ?b = "b\<lparr>rbuf_segments := pre @ act' @ un\<rparr>"
  have shape: "list_all2 seg_same_shape (rbuf_segments b) (pre @ act' @ un)"
    unfolding b parts(1) using act'(2)
    by (intro list_all2_appendI) simp_all
  then have "buf_inv ?b" using same_shape_inv [OF _ inv] by auto
  moreover have "buf_bytes ?b = overwrite absof payload (buf_bytes b)"
  proof -
    have pre: "length (segs_bytes pre) = sum_list (map seg_of pre)"
      and act: "length (segs_bytes act) = sum_list (map seg_of act)"
      using lay(1) length_segs_bytes by auto
    have "overwrite absof payload (segs_bytes pre @ segs_bytes act)
        = segs_bytes pre @ overwrite ?r payload (segs_bytes act)"
      using pre s(1) by (simp add: overwrite_append_right)
    then show ?thesis using act'(3) b parts(1,3) by (simp add: buf_bytes_def)
  qed
  ultimately show ?thesis using hit act'(1) shape
    by (intro exI [of _ "pre @ act' @ un"]) (simp add: rd_buf_write_update_def)
qed

lemma rd_buf_write_update_spec:
  assumes "buf_inv b" "absof < rbuf_len b" "absof + length payload \<le> rbuf_len b"
  shows "\<exists>b'. rd_buf_write_update b absof payload = Return (b', length payload) \<and> buf_inv b' \<and>
    buf_bytes b' = overwrite absof payload (buf_bytes b) \<and> wpos_last b' = wpos_last b"
proof -
  obtain ts where ts: "rd_buf_write_update b absof payload = Return (b\<lparr>rbuf_segments := ts\<rparr>, length payload)"
    "list_all2 seg_same_shape (rbuf_segments b) ts" "buf_inv (b\<lparr>rbuf_segments := ts\<rparr>)"
    "buf_bytes (b\<lparr>rbuf_segments := ts\<rparr>) = overwrite absof payload (buf_bytes b)"
    using rd_buf_write_update_shape [OF assms] by blast
  have "wpos_last (b\<lparr>rbuf_segments := ts\<rparr>) = wpos_last b"
    using list_all2_lengthD [OF ts(2)] by (simp add: wpos_last_def split: option.split)
  then show ?thesis using ts by blast
qed

section \<open>Pushing memory\<close>

text \<open>
  Appending a segment to a buffer without free space: the scan for the write position stops
  at the new segment, whatever it is.
\<close>

lemma append_full_eq:
  assumes inv: "buf_inv b" and last: "wpos_last b" and full: "list_all seg_full (rbuf_segments b)"
  shows "rd_buf_append_segment b seg =
    b\<lparr>rbuf_segments := rbuf_segments b @ [seg\<lparr>seg_absof := rbuf_len b\<rparr>],
      rbuf_segment_cnt := rbuf_segment_cnt b + 1, rbuf_wpos := Some (length (rbuf_segments b)),
      rbuf_len := rbuf_len b + seg_of seg, rbuf_size := rbuf_size b + seg_size seg\<rparr>"
proof (cases "rbuf_wpos b")
  case None
  then show ?thesis by (simp add: rd_buf_append_segment_def)
next
  case (Some w)
  then have w: "Suc w = length (rbuf_segments b)" using last by (simp add: wpos_last_def)
  then have "seg_full (rbuf_segments b ! w)" using full by (simp add: list_all_length)
  then have rem: "rd_segment_write_remains (rbuf_segments b ! w) = 0"
    by (simp add: seg_full_def rd_segment_write_remains_def)
  have nth: "(rbuf_segments b @ [x]) ! w = rbuf_segments b ! w"
    "(rbuf_segments b @ [x]) ! Suc w = x" for x using w by (simp_all add: nth_append)
  let ?b1 = "b\<lparr>rbuf_segments := rbuf_segments b @ [seg\<lparr>seg_absof := rbuf_len b\<rparr>],
    rbuf_segment_cnt := rbuf_segment_cnt b + 1, rbuf_len := rbuf_len b + seg_of seg,
    rbuf_size := rbuf_size b + seg_size seg\<rparr>"
  have last: "fst (rd_buf_get_writable_from (?b1\<lparr>rbuf_wpos := Some w\<rparr>) (Suc w))
      = ?b1\<lparr>rbuf_wpos := Some (Suc w)\<rparr>"
    using w nth by (simp add: rd_buf_get_writable_from.simps Let_def)
  have "rd_buf_get_writable_from ?b1 w
      = rd_buf_get_writable_from (?b1\<lparr>rbuf_wpos := Some w\<rparr>) (Suc w)"
    using w nth rem by (simp add: rd_buf_get_writable_from.simps [of _ w])
  then show ?thesis using Some w last
    by (simp add: rd_buf_append_segment_def rd_buf_get_writable0_def)
qed

lemma append_full_inv:
  assumes inv: "buf_inv b" and last: "wpos_last b" and full: "list_all seg_full (rbuf_segments b)"
    and seg: "seg_ok seg" "seg_rdonly seg \<longrightarrow> seg_full seg"
  shows "buf_inv (rd_buf_append_segment b seg)" (is ?inv)
    and "buf_bytes (rd_buf_append_segment b seg) = buf_bytes b @ seg_bytes seg"
    and "wpos_last (rd_buf_append_segment b seg)"
    and "rbuf_segments (rd_buf_append_segment b seg)
      = rbuf_segments b @ [seg\<lparr>seg_absof := rbuf_len b\<rparr>]"
proof -
  let ?s = "seg\<lparr>seg_absof := rbuf_len b\<rparr>"
  have lay: "segs_ok 0 (rbuf_segments b)" "rbuf_len b = sum_list (map seg_of (rbuf_segments b))"
    "rbuf_size b = sum_list (map seg_size (rbuf_segments b))"
    "rbuf_segment_cnt b = length (rbuf_segments b)"
    using inv by (auto simp: buf_inv_def buf_lay_def)
  have s: "seg_ok ?s" "seg_rdonly ?s \<longrightarrow> seg_full ?s" "seg_bytes ?s = seg_bytes seg"
    using seg by (simp_all add: seg_ok_def seg_full_def seg_bytes_def)
  note eq = append_full_eq [OF inv last full, of seg]
  show ?inv unfolding eq using s(1,2) lay full
      wpos_ok_at [of "rbuf_segments b" ?s "[]"] wpos_exact_at(1) [of "rbuf_segments b" ?s "[]"]
    by (simp add: buf_inv_def buf_lay_def)
  show "buf_bytes (rd_buf_append_segment b seg) = buf_bytes b @ seg_bytes seg"
    unfolding eq using s(3) by (simp add: buf_bytes_def)
  show "wpos_last (rd_buf_append_segment b seg)" unfolding eq by (simp add: wpos_last_def)
  show "rbuf_segments (rd_buf_append_segment b seg) = rbuf_segments b @ [?s]"
    unfolding eq by simp
qed

lemma wpos_last_extra [simp]: "wpos_last (b\<lparr>rbuf_extra_len := n\<rparr>) = wpos_last b"
  by (simp add: wpos_last_def split: option.split)

lemma wpos_last_cases:
  assumes inv: "buf_inv b" and last: "wpos_last b"
  obtains (empty) "rbuf_wpos b = None" "rbuf_segments b = []"
  | (at) pre s where "rbuf_wpos b = Some (length pre)" "rbuf_segments b = pre @ [s]"
      "list_all seg_full pre" "seg_rdonly s \<longrightarrow> seg_full s" "seg_absof s = sum_list (map seg_of pre)"
      "seg_ok s"
proof (cases "rbuf_wpos b")
  case None
  then show ?thesis using inv by (intro empty) (auto simp: buf_inv_def buf_lay_def)
next
  case (Some w)
  obtain pre s post where b: "rbuf_segments b = pre @ s # post" "w = length pre"
    "list_all seg_full pre" "seg_rdonly s \<longrightarrow> seg_full s" "seg_absof s = sum_list (map seg_of pre)"
    using buf_inv_wpos_cases [OF inv Some] .
  then have "post = []" using last Some by (simp add: wpos_last_def)
  moreover have "seg_ok s" using inv b by (simp add: buf_inv_def buf_lay_def)
  ultimately show ?thesis using at Some b by simp
qed

lemma segment_split_spec:
  assumes inv: "buf_inv b" and last: "wpos_last b" and w: "rbuf_wpos b = Some w"
    and room: "0 < rd_segment_write_remains (rbuf_segments b ! w)"
  obtains t b1 where
    "rd_segment_split b w (seg_absof (rbuf_segments b ! w) + seg_of (rbuf_segments b ! w))
      = Return (t, b1)"
    "buf_inv b1" "wpos_last b1" "list_all seg_full (rbuf_segments b1)" "buf_bytes b1 = buf_bytes b"
    "rbuf_wpos b1 = rbuf_wpos b" "seg_ok t" "seg_unused t"
proof -
  obtain pre s where b: "rbuf_wpos b = Some (length pre)" "rbuf_segments b = pre @ [s]"
      "list_all seg_full pre" "seg_absof s = sum_list (map seg_of pre)" "seg_ok s"
    using inv last by (rule wpos_last_cases) (use w in auto)
  have wpre: "w = length pre" and s: "\<not> seg_rdonly s" "seg_of s < seg_size s"
    using w b room by (auto simp: rd_segment_write_remains_def split: if_splits)
  show thesis
  proof (rule alloc_segment0_cases [of b 0])
    fix seg n
    assume alloc: "rd_buf_alloc_segment0 b 0 = (seg, b\<lparr>rbuf_extra_len := n\<rparr>)"
      and fresh: "fresh_segment b 0 seg"
    let ?s = "s\<lparr>seg_p := take (seg_of s) (seg_p s), seg_of := seg_of s, seg_size := seg_of s\<rparr>"
    let ?t = "seg\<lparr>seg_p := drop (seg_of s) (seg_p s), seg_of := 0, seg_size := seg_size s - seg_of s,
      seg_absof := SIZE_MOD - 1, seg_rdonly := False, seg_f_free := seg_f_free seg \<or> seg_f_free s\<rparr>"
    let ?b = "b\<lparr>rbuf_segments := pre @ [?s], rbuf_size := rbuf_size b - (seg_size s - seg_of s),
      rbuf_extra_len := n\<rparr>"
    have ok: "seg_ok ?s" "seg_full ?s" "seg_ok ?t" "seg_unused ?t" "seg_bytes ?s = seg_bytes s"
      using b(5) s by (auto simp: seg_ok_def seg_full_def seg_unused_def seg_bytes_def)
    have "rd_segment_split b w (seg_absof (rbuf_segments b ! w) + seg_of (rbuf_segments b ! w))
        = Return (?t, ?b)"
      using w wpre b s alloc fresh by (simp add: rd_segment_split_def fresh_segment_def Let_def)
    moreover have "buf_inv ?b" using inv b ok s
      by (simp add: buf_inv_def buf_lay_def seg_full_def seg_unused_def)
    moreover have "wpos_last ?b" "list_all seg_full (rbuf_segments ?b)" "buf_bytes ?b = buf_bytes b"
      using b ok by (simp_all add: wpos_last_def buf_bytes_def)
    ultimately show thesis using that [of ?t ?b] ok by simp
  qed
qed

text \<open>Before memory is pushed: the write position's segment is split where its data ends.\<close>

definition push_split :: "rd_buf \<Rightarrow> (rd_segment option \<times> rd_buf) outcome" where
  "push_split b =
     (case rbuf_wpos b of
        Some w \<Rightarrow>
          let prevseg = rbuf_segments b ! w
          in if 0 < rd_segment_write_remains prevseg
             then obind (rd_segment_split b w (seg_absof prevseg + seg_of prevseg))
                    (\<lambda>(tailseg, b1). Return (Some tailseg, b1))
             else Return (None, b)
      | None \<Rightarrow> Return (None, b))"

lemma push_split_spec:
  assumes inv: "buf_inv b" and last: "wpos_last b"
  obtains t b1 where "push_split b = Return (t, b1)"
    "buf_inv b1" "wpos_last b1" "list_all seg_full (rbuf_segments b1)" "buf_bytes b1 = buf_bytes b"
    "case t of None \<Rightarrow> True | Some s \<Rightarrow> seg_ok s \<and> seg_unused s"
  using inv last
proof (rule wpos_last_cases)
  assume "rbuf_wpos b = None" "rbuf_segments b = []"
  then show thesis using inv last by (intro that [of None b]) (simp_all add: push_split_def)
next
  fix pre s
  assume b: "rbuf_wpos b = Some (length pre)" "rbuf_segments b = pre @ [s]"
    "list_all seg_full pre" "seg_rdonly s \<longrightarrow> seg_full s" "seg_ok s"
  show thesis
  proof (cases "0 < rd_segment_write_remains s")
    case True
    have nth: "rbuf_segments b ! length pre = s" using b(2) by simp
    obtain t b1 where
      "rd_segment_split b (length pre) (seg_absof s + seg_of s) = Return (t, b1)"
      "buf_inv b1" "wpos_last b1" "list_all seg_full (rbuf_segments b1)" "buf_bytes b1 = buf_bytes b"
      "seg_ok t" "seg_unused t"
      using segment_split_spec [OF inv last b(1), unfolded nth, OF True] .
    then show thesis using True b by (intro that [of "Some t" b1]) (auto simp: push_split_def)
  next
    case False
    then have "seg_full s" using not_writable_full [of s] b by simp
    then show thesis using False b inv last
      by (intro that [of None b]) (simp_all add: push_split_def)
  qed
qed

lemma rd_buf_push_spec:
  assumes inv: "buf_inv b" and last: "wpos_last b"
  shows "\<exists>b'. rd_buf_push b payload free_cb = Return b' \<and> buf_inv b' \<and> wpos_last b' \<and>
    buf_bytes b' = buf_bytes b @ payload"
proof -
  obtain t b1 where split: "push_split b = Return (t, b1)"
    and b1: "buf_inv b1" "wpos_last b1" "list_all seg_full (rbuf_segments b1)"
      "buf_bytes b1 = buf_bytes b"
    and t: "case t of None \<Rightarrow> True | Some s \<Rightarrow> seg_ok s \<and> seg_unused s"
    using push_split_spec [OF inv last] .
  show ?thesis
  proof (rule alloc_segment0_cases [of b1 0])
    fix seg0 n
    assume alloc: "rd_buf_alloc_segment0 b1 0 = (seg0, b1\<lparr>rbuf_extra_len := n\<rparr>)"
    let ?b2 = "b1\<lparr>rbuf_extra_len := n\<rparr>"
    let ?seg = "seg0\<lparr>seg_p := payload, seg_size := length payload, seg_of := length payload,
      seg_free := free_cb, seg_rdonly := True\<rparr>"
    have b2: "buf_inv ?b2" "wpos_last ?b2" "list_all seg_full (rbuf_segments ?b2)"
      using b1 by simp_all
    have seg: "seg_ok ?seg" "seg_rdonly ?seg \<longrightarrow> seg_full ?seg" "seg_bytes ?seg = payload"
      by (simp_all add: seg_ok_def seg_full_def seg_bytes_def)
    let ?b3 = "rd_buf_append_segment ?b2 ?seg"
    note b3 = append_full_inv [OF b2 seg(1,2)]
    have full3: "list_all seg_full (rbuf_segments ?b3)"
      unfolding b3(4) using b1(3) by (simp add: seg_full_def)
    have push: "rd_buf_push b payload free_cb
        = Return (case t of None \<Rightarrow> ?b3 | Some s \<Rightarrow> rd_buf_append_segment ?b3 s)"
      using split alloc by (simp add: rd_buf_push_def push_split_def [symmetric] Let_def)
    show ?thesis
    proof (cases t)
      case None
      then show ?thesis using push b3(1-3) seg(3) b1(4) by simp
    next
      case (Some s)
      then have s: "seg_ok s" "seg_unused s" using t by simp_all
      then have "seg_rdonly s \<longrightarrow> seg_full s" "seg_bytes s = []"
        by (simp_all add: seg_unused_def seg_bytes_def)
      with append_full_inv [OF b3(1,3) full3 s(1)] show ?thesis
        using push Some b3(2) seg(3) b1(4) by simp
    qed
  qed
qed

section \<open>Write seek\<close>

text \<open>Destroying the segments of \<open>rest\<close>, last one first.\<close>

lemma destroy_tail_spec:
  assumes "rbuf_segments b = front @ rest" "rbuf_segment_cnt b = length (front @ rest)"
    "rbuf_len b = sum_list (map seg_of (front @ rest))"
    "rbuf_size b = sum_list (map seg_size (front @ rest))"
  shows "\<exists>wpos. rd_buf_destroy_tail b (length rest) =
    Return (b\<lparr>rbuf_segments := front, rbuf_segment_cnt := length front,
              rbuf_len := sum_list (map seg_of front), rbuf_size := sum_list (map seg_size front),
              rbuf_wpos := wpos\<rparr>, concat (map rd_segment_destroy (rev rest)))"
  using assms
proof (induction rest arbitrary: b rule: rev_induct)
  case Nil
  then show ?case by (cases b) auto
next
  case (snoc s rest)
  let ?b1 = "b\<lparr>rbuf_segments := front @ rest, rbuf_segment_cnt := rbuf_segment_cnt b - 1,
    rbuf_len := rbuf_len b - seg_of s, rbuf_size := rbuf_size b - seg_size s,
    rbuf_wpos := (if rbuf_wpos b = Some (length front + length rest) then None else rbuf_wpos b)\<rparr>"
  have "rd_buf_destroy_segment b (length (rbuf_segments b) - 1) = Return (?b1, rd_segment_destroy s)"
    using snoc.prems by (simp add: rd_buf_destroy_segment_def nth_append)
  moreover have "\<exists>wpos. rd_buf_destroy_tail ?b1 (length rest) =
    Return (?b1\<lparr>rbuf_segments := front, rbuf_segment_cnt := length front,
              rbuf_len := sum_list (map seg_of front), rbuf_size := sum_list (map seg_size front),
              rbuf_wpos := wpos\<rparr>, concat (map rd_segment_destroy (rev rest)))"
    using snoc.prems by (intro snoc.IH) simp_all
  ultimately show ?case by auto
qed

lemma find_segment_none:
  "(\<And>t. t \<in> set segs \<Longrightarrow> \<not> seg_holds absof t) \<Longrightarrow> find_segment_from segs absof i = None"
  by (induction segs absof i rule: find_segment_from.induct)
    (subst find_segment_from.simps, simp del: seg_holds.simps)

lemma get_segment_at_offset_miss:
  assumes "buf_inv b" "rbuf_segments b \<noteq> []" "rbuf_len b \<le> absof"
  shows "rd_buf_get_segment_at_offset b hint absof = Return None"
proof -
  have "\<not> seg_holds absof t" if "t \<in> set (rbuf_segments b)" for t
    using segs_ok_not_before [of 0 "rbuf_segments b" absof t] assms that
    by (simp add: buf_inv_def buf_lay_def del: seg_holds.simps)
  then show ?thesis using assms(2)
    by (simp add: rd_buf_get_segment_at_offset_def find_segment_none Let_def del: seg_holds.simps)
qed

text \<open>
  The segment a successful seek makes the write position must not be a pushed one, or the
  cut-off rest of it counts as free space that no write can use.
\<close>

definition seek_target :: "rd_buf \<Rightarrow> nat \<Rightarrow> rd_segment option" where
  "seek_target b absof =
     (case rd_buf_get_segment_at_offset b (rbuf_wpos b) absof of
        Return (Some i) \<Rightarrow> Some (rbuf_segments b ! i)
      | _ \<Rightarrow> None)"

lemma seg_ok_cut: "seg_ok s \<Longrightarrow> n \<le> seg_of s \<Longrightarrow> seg_ok (s\<lparr>seg_of := n\<rparr>)"
  by (simp add: seg_ok_def)

lemma segs_full_before:
  assumes inv: "buf_inv b" and b: "rbuf_segments b = pre @ s # post" and s: "0 < seg_of s"
  shows "list_all seg_full pre"
proof -
  obtain w where w: "rbuf_wpos b = Some w"
    using inv b by (cases "rbuf_wpos b") (auto simp: buf_inv_def buf_lay_def)
  obtain pre' s' post' where *: "rbuf_segments b = pre' @ s' # post'"
    "list_all seg_full pre'" "list_all seg_unused post'"
    using buf_inv_wpos_cases [OF inv w] .
  have both: "pre @ s # post = pre' @ s' # post'" using *(1) b by (rule trans [OF sym, rotated])
  show ?thesis
  proof (cases "length pre \<le> length pre'")
    case True
    then show ?thesis using append_prefix_cases(1) [OF both] *(2) by auto
  next
    case False
    then obtain mid where "pre = pre' @ mid" "s' # post' = mid @ s # post"
      using append_prefix_cases(2) [OF both] by auto
    then have "s \<in> set post'" using False by (cases mid) auto
    then show ?thesis using *(3) s by (auto simp: list_all_iff seg_unused_def)
  qed
qed

lemma rd_buf_write_seek_eq:
  assumes inv: "buf_inv b" and less: "absof < rbuf_len b"
  obtains pre s post where "rbuf_segments b = pre @ s # post" "seek_target b absof = Some s"
    "seg_absof s = sum_list (map seg_of pre)"
    "sum_list (map seg_of pre) \<le> absof" "absof < sum_list (map seg_of pre) + seg_of s"
    "rd_buf_write_seek b absof = Return
       (b\<lparr>rbuf_segments := pre @ [s\<lparr>seg_of := absof - seg_absof s\<rparr>],
          rbuf_segment_cnt := length (pre @ [s]), rbuf_len := absof,
          rbuf_size := sum_list (map seg_size (pre @ [s])), rbuf_wpos := Some (length pre)\<rparr>,
        concat (map rd_segment_destroy (rev post)), True)"
proof -
  obtain pre s post where b: "rbuf_segments b = pre @ s # post"
    and hit: "rd_buf_get_segment_at_offset b (rbuf_wpos b) absof = Return (Some (length pre))"
    and abs: "seg_absof s = sum_list (map seg_of pre)"
    and s: "sum_list (map seg_of pre) \<le> absof" "absof < sum_list (map seg_of pre) + seg_of s"
    using get_segment_at_offset_hit [OF inv less, of "rbuf_wpos b"] by metis
  have lay: "rbuf_segment_cnt b = length ((pre @ [s]) @ post)"
    "rbuf_len b = sum_list (map seg_of ((pre @ [s]) @ post))"
    "rbuf_size b = sum_list (map seg_size ((pre @ [s]) @ post))"
    using inv b by (simp_all add: buf_inv_def buf_lay_def)
  obtain wpos where tail: "rd_buf_destroy_tail b (length post) =
    Return (b\<lparr>rbuf_segments := pre @ [s], rbuf_segment_cnt := length (pre @ [s]),
              rbuf_len := sum_list (map seg_of (pre @ [s])),
              rbuf_size := sum_list (map seg_size (pre @ [s])),
              rbuf_wpos := wpos\<rparr>, concat (map rd_segment_destroy (rev post)))"
    using destroy_tail_spec [of b "pre @ [s]" post] b lay by auto
  show thesis
  proof (rule that [OF b _ abs s])
    show "seek_target b absof = Some s" using hit b by (simp add: seek_target_def)
  qed (use hit b abs s tail in \<open>simp add: rd_buf_write_seek_def Let_def\<close>)
qed

lemma rd_buf_write_seek_spec:
  assumes inv: "buf_inv b" and less: "absof < rbuf_len b"
  shows "\<exists>b' ev. rd_buf_write_seek b absof = Return (b', ev, True) \<and>
    buf_bytes b' = take absof (buf_bytes b) \<and> rbuf_len b' = absof \<and> wpos_last b' \<and>
    (\<forall>s. seek_target b absof = Some s \<longrightarrow> \<not> seg_rdonly s \<longrightarrow> buf_inv b')"
proof (rule rd_buf_write_seek_eq [OF assms])
  fix pre s post
  let ?r = "absof - seg_absof (s :: rd_segment)"
  let ?b = "b\<lparr>rbuf_segments := pre @ [s\<lparr>seg_of := ?r\<rparr>], rbuf_segment_cnt := length (pre @ [s]),
    rbuf_len := absof, rbuf_size := sum_list (map seg_size (pre @ [s])),
    rbuf_wpos := Some (length pre)\<rparr>"
  assume b: "rbuf_segments b = pre @ s # post" and target: "seek_target b absof = Some s"
    and abs: "seg_absof s = sum_list (map seg_of pre)"
    and s: "sum_list (map seg_of pre) \<le> absof" "absof < sum_list (map seg_of pre) + seg_of s"
    and seek: "rd_buf_write_seek b absof
      = Return (?b, concat (map rd_segment_destroy (rev post)), True)"
  have lay: "segs_ok 0 (pre @ [s])" using inv b by (simp add: buf_inv_def buf_lay_def)
  have ok: "seg_ok s" "?r \<le> seg_of s" using lay s abs by auto
  have "length (segs_bytes pre) = sum_list (map seg_of pre)"
    using lay length_segs_bytes [of 0 pre] by simp
  then have "buf_bytes ?b = take absof (buf_bytes b)"
    using b s ok abs by (simp add: buf_bytes_def seg_bytes_def seg_ok_def min_def)
  moreover have "buf_inv ?b" if "\<not> seg_rdonly s"
    using that lay seg_ok_cut [OF ok] abs s segs_full_before [OF inv b]
    by (simp add: buf_inv_def buf_lay_def)
  ultimately show ?thesis using seek target by (auto simp: wpos_last_def)
qed

lemma rd_buf_write_seek_beyond:
  assumes "buf_inv b" "rbuf_segments b \<noteq> []" "rbuf_len b \<le> absof"
  shows "rd_buf_write_seek b absof = Return (b, [], False)"
  using get_segment_at_offset_miss [OF assms] by (simp add: rd_buf_write_seek_def)

end
