(* ===== verification/Rdbuf_Room.thy ===== *)
theory Rdbuf_Room
  imports Rdbuf_Ops
begin

text \<open>
  The free memory of a buffer: \<open>rd_buf_write_ensure_contig\<close>, writes without a payload (which
  make memory that was filled from outside part of the contents), and the states in which
  free space is counted as writable that no write can reach.
\<close>

section \<open>A contiguous block\<close>

text \<open>
  A segment appended to a buffer without free space becomes the write position.
\<close>

lemma no_room_all_full:
  assumes "segs_ok base ss" "sum_list (map seg_of ss) = sum_list (map seg_size ss)"
  shows "list_all seg_full ss"
  using assms
proof (induction ss arbitrary: base)
  case (Cons s ss)
  have "seg_of s \<le> seg_size s" "sum_list (map seg_of ss) \<le> sum_list (map seg_size ss)"
    using Cons.prems(1) segs_used_le [of "base + seg_of s" ss] by (auto simp: seg_ok_def)
  then show ?case using Cons by (auto simp: seg_full_def)
qed simp

lemma append_segment_last:
  assumes inv: "buf_inv b" and seg: "seg_ok seg" "seg_unused seg" and full: "rbuf_len b = rbuf_size b"
  shows "wpos_last (rd_buf_append_segment b seg)"
proof (cases "rbuf_wpos b")
  case None
  then show ?thesis by (simp add: rd_buf_append_segment_def wpos_last_def Let_def)
next
  case (Some w)
  let ?b1 = "b\<lparr>rbuf_segments := rbuf_segments b @ [seg\<lparr>seg_absof := rbuf_len b\<rparr>],
    rbuf_segment_cnt := rbuf_segment_cnt b + 1, rbuf_len := rbuf_len b + seg_of seg,
    rbuf_size := rbuf_size b + seg_size seg\<rparr>"
  have "list_all seg_full (rbuf_segments b)"
    using inv full no_room_all_full by (auto simp: buf_inv_def buf_lay_def)
  moreover have "w < length (rbuf_segments b)" using inv Some by (simp add: buf_inv_def buf_lay_def wpos_ok_def)
  moreover have "wpos_last (fst (rd_buf_get_writable_from c i))"
    if "list_all seg_full (butlast (rbuf_segments c))" "i < length (rbuf_segments c)" for c i
    using that
  proof (induction c i rule: rd_buf_get_writable_from.induct)
    case (1 c i)
    show ?case
    proof (cases "Suc i < length (rbuf_segments c)")
      case True
      then have "seg_full (rbuf_segments c ! i)" using "1.prems"(1)
        by (simp add: list_all_length nth_butlast)
      then have "rd_segment_write_remains (rbuf_segments c ! i) = 0"
        by (simp add: seg_full_def rd_segment_write_remains_def)
      then show ?thesis using "1.IH" "1.prems" True
        by (subst rd_buf_get_writable_from.simps) (simp add: Let_def)
    next
      case False
      then show ?thesis using "1.prems"(2)
        by (subst rd_buf_get_writable_from.simps)
          (simp add: Let_def wpos_last_def rd_buf_get_writable_from.simps [of _ "Suc i"])
    qed
  qed
  ultimately show ?thesis using Some
    by (simp add: rd_buf_append_segment_def Let_def rd_buf_get_writable0_def)
qed

lemma alloc_segment_last:
  assumes "buf_inv b" "rbuf_len b = rbuf_size b"
  shows "wpos_last (rd_buf_alloc_segment b min_size max_size)"
proof (rule alloc_segment0_cases [of b "rd_buf_alloc_size b min_size max_size"])
  fix seg n
  assume "rd_buf_alloc_segment0 b (rd_buf_alloc_size b min_size max_size) =
      (seg, b\<lparr>rbuf_extra_len := n\<rparr>)"
    and "fresh_segment b (rd_buf_alloc_size b min_size max_size) seg"
  then show ?thesis
    using append_segment_last [of "b\<lparr>rbuf_extra_len := n\<rparr>" seg] assms
      fresh_segment_unused [OF _ alloc_size_pos]
    by (auto simp: rd_buf_alloc_segment_def)
qed

lemma inv_wpos_Some: "buf_inv b \<Longrightarrow> rbuf_segments b \<noteq> [] \<Longrightarrow> \<exists>w. rbuf_wpos b = Some w"
  by (cases "rbuf_wpos b") (auto simp: buf_inv_def buf_lay_def)

text \<open>
  No free space is left behind the write position when \<open>rd_buf_write_ensure_contig\<close> has to
  allocate.
\<close>

definition contig_ok :: "rd_buf \<Rightarrow> nat \<Rightarrow> bool" where
  "contig_ok b sz \<longleftrightarrow>
     (case rbuf_wpos b of
        None \<Rightarrow> True
      | Some w \<Rightarrow> sz \<le> rd_segment_write_remains (rbuf_segments b ! w) \<or>
          rd_buf_write_remains b = 0)"

lemma ensure_contig_spec:
  assumes inv: "buf_inv b" and ok: "contig_ok b sz"
  shows "buf_inv (rd_buf_write_ensure_contig b sz) \<and>
    buf_bytes (rd_buf_write_ensure_contig b sz) = buf_bytes b \<and>
    (\<exists>w. rbuf_wpos (rd_buf_write_ensure_contig b sz) = Some w \<and>
       sz \<le> rd_segment_write_remains (rbuf_segments (rd_buf_write_ensure_contig b sz) ! w))"
proof (cases "\<exists>w. rbuf_wpos b = Some w \<and> sz \<le> rd_segment_write_remains (rbuf_segments b ! w)")
  case True
  then show ?thesis using inv by (auto simp: rd_buf_write_ensure_contig_def Let_def)
next
  case False
  let ?b = "rd_buf_alloc_segment b sz sz"
  have full: "rbuf_len b = rbuf_size b"
  proof (cases "rbuf_wpos b")
    case None
    then show ?thesis using inv by (simp add: buf_inv_def buf_lay_def)
  next
    case (Some w)
    then show ?thesis using False ok buf_inv_len_le [OF inv]
      by (auto simp: contig_ok_def rd_buf_write_remains_def)
  qed
  note alloc = alloc_segment_inv [OF inv, of sz sz]
  have last: "wpos_last ?b" by (rule alloc_segment_last [OF inv full])
  obtain w where w: "rbuf_wpos ?b = Some w" using alloc inv_wpos_Some by blast
  have "rd_buf_last ?b = rbuf_wpos ?b" using last w alloc
    by (auto simp: rd_buf_last_def wpos_last_def)
  then have b': "rd_buf_write_ensure_contig b sz = ?b"
    using False by (auto simp: rd_buf_write_ensure_contig_def Let_def split: option.split)
  obtain pre s post where segs: "rbuf_segments ?b = pre @ s # post" "w = length pre"
    "list_all seg_full pre"
    using buf_inv_wpos_cases [OF _ w] alloc by metis
  then have segs: "rbuf_segments ?b = pre @ [s]" "w = length pre" "list_all seg_full pre"
    using last w by (auto simp: wpos_last_def)
  have "sz \<le> rd_segment_write_remains s"
  proof -
    have "map seg_of pre = map seg_size pre" using segs(3) by (simp add: list_all_iff seg_full_def)
    then have "sum_list (map seg_of pre) = sum_list (map seg_size pre)" by (simp only:)
    then have "rbuf_size ?b - rbuf_len ?b = seg_size s - seg_of s"
      using alloc segs(1) by (simp add: buf_inv_def buf_lay_def)
    moreover have "seg_rdonly s \<longrightarrow> seg_full s"
      using alloc w segs by (simp add: buf_inv_def buf_lay_def)
    ultimately show ?thesis using full alloc_size_ge [of sz b sz] alloc_size_pos [of b sz sz]
      by (auto simp: rd_segment_write_remains_def seg_full_def)
  qed
  then show ?thesis using alloc b' w segs by simp
qed

section \<open>Memory filled from outside\<close>

text \<open>The free memory of a buffer, in the order in which writes use it.\<close>

definition free_bytes :: "rd_buf \<Rightarrow> byte list" where
  "free_bytes b = concat (map (\<lambda>s. drop (seg_of s) (seg_p s)) (rbuf_segments b))"

lemma get_writable_from_free [simp]:
  "map (\<lambda>s. drop (seg_of s) (seg_p s)) (rbuf_segments (fst (rd_buf_get_writable_from b i)))
     = map (\<lambda>s. drop (seg_of s) (seg_p s)) (rbuf_segments b)"
  by (induction b i rule: rd_buf_get_writable_from.induct; subst rd_buf_get_writable_from.simps)
    (simp add: Let_def map_update list_update_same_conv)

lemma get_writable0_free: "free_bytes (fst (rd_buf_get_writable0 b)) = free_bytes b"
  by (simp add: rd_buf_get_writable0_def free_bytes_def split: option.split)

lemma full_no_free: "list_all seg_full ss \<Longrightarrow> list_all seg_ok ss \<Longrightarrow>
  concat (map (\<lambda>s. drop (seg_of s) (seg_p s)) ss) = []"
  by (induction ss) (simp_all add: seg_full_def seg_ok_def)

lemma fill_free:
  assumes inv: "buf_inv b" and w: "rbuf_wpos b = Some w"
    and k: "k \<le> rd_segment_write_remains (rbuf_segments b ! w)"
  shows "fill_bytes (rbuf_segments b ! w) None k = take k (free_bytes b)"
    and "free_bytes (buf_fill b w None k) = drop k (free_bytes b)"
proof -
  obtain pre s post where segs: "rbuf_segments b = pre @ s # post" "w = length pre"
    "list_all seg_full pre" using buf_inv_wpos_cases [OF inv w] .
  have "segs_ok 0 pre" "seg_ok s" using inv segs by (auto simp: buf_inv_def buf_lay_def)
  then have "concat (map (\<lambda>s. drop (seg_of s) (seg_p s)) pre) = []"
    using segs(3) segs_ok_imp_seg_ok by (intro full_no_free) (auto simp: list_all_iff)
  then have free: "free_bytes b = drop (seg_of s) (seg_p s) @
      concat (map (\<lambda>s. drop (seg_of s) (seg_p s)) post)"
    and free': "free_bytes (buf_fill b w None k) = drop (seg_of s + k) (seg_p s) @
      concat (map (\<lambda>s. drop (seg_of s) (seg_p s)) post)"
    using segs by (simp_all add: free_bytes_def buf_fill_def rd_segment_fill_def)
  have "k \<le> length (drop (seg_of s) (seg_p s))"
    using k segs \<open>seg_ok s\<close> by (auto simp: rd_segment_write_remains_def seg_ok_def split: if_splits)
  then show "fill_bytes (rbuf_segments b ! w) None k = take k (free_bytes b)"
    "free_bytes (buf_fill b w None k) = drop k (free_bytes b)"
    using free free' segs by (simp_all add: fill_bytes_def add.commute)
qed

lemma write_loop_skip:
  assumes "buf_inv b" "rbuf_len b + remains \<le> rbuf_size b"
  shows "\<exists>b'. rd_buf_write_loop b None remains = Some (Return b') \<and> buf_inv b' \<and>
    buf_bytes b' = buf_bytes b @ take remains (free_bytes b)"
  using assms
proof (induction remains arbitrary: b rule: less_induct)
  case (less remains)
  show ?case
  proof (cases "remains = 0")
    case True
    then show ?thesis using less.prems by (simp add: rd_buf_write_loop.simps)
  next
    case False
    obtain b1 n where g: "rd_buf_get_writable0 b = (b1, n)" by fastforce
    have "rbuf_segments b \<noteq> []" using less.prems False by (auto simp: buf_inv_def buf_lay_def)
    from get_writable0_spec [OF less.prems(1) this] g
    have b1: "buf_inv b1" "buf_bytes b1 = buf_bytes b" "writable_at b1 n" by simp_all
    have frame: "rbuf_len b1 = rbuf_len b" "rbuf_size b1 = rbuf_size b" "free_bytes b1 = free_bytes b"
      using get_writable0_frame [of b] get_writable0_free [of b] g by simp_all
    obtain w where w: "rbuf_wpos b1 = Some w" using writable_at_wpos [OF b1(3)] by blast
    have n: "0 < n" "n = rd_segment_write_remains (rbuf_segments b1 ! w)"
      using writable_at_room [OF b1(1,3)] frame less.prems(2) False b1(3) w
      by (auto simp: writable_at_def)
    let ?k = "min remains n" and ?b = "buf_fill b1 w None (min remains n)"
    note fill = buf_fill_spec [OF b1(1,3) w, of ?k None]
    note free = fill_free [OF b1(1) w, of ?k]
    have "\<exists>b'. rd_buf_write_loop ?b None (remains - ?k) = Some (Return b') \<and> buf_inv b' \<and>
        buf_bytes b' = buf_bytes ?b @ take (remains - ?k) (free_bytes ?b)"
      using fill(1) frame n less.prems False by (intro less.IH) (auto simp: buf_fill_def)
    moreover have "rd_buf_write_loop b None remains = rd_buf_write_loop ?b None (remains - ?k)"
      using False g w by (simp add: rd_buf_write_loop.simps [of b] buf_fill_def Let_def)
    moreover have "take ?k (free_bytes b) @ take (remains - ?k) (drop ?k (free_bytes b))
        = take remains (free_bytes b)"
      by (metis le_add_diff_inverse min.cobounded1 take_add)
    ultimately show ?thesis using fill(2) free b1 n frame by simp
  qed
qed

lemma rd_buf_write_skip:
  assumes inv: "buf_inv b" and n: "n \<le> rd_buf_write_remains b"
  shows "\<exists>b'. rd_buf_write b None n = Some (Return (b', rbuf_len b)) \<and> buf_inv b' \<and>
    buf_bytes b' = buf_bytes b @ take n (free_bytes b)"
proof -
  have "rd_buf_write_ensure b n 0 = b" using write_ensure_unfold [OF inv] n by simp
  moreover have "rbuf_len b + n \<le> rbuf_size b"
    using n buf_inv_len_le [OF inv] by (simp add: rd_buf_write_remains_def)
  ultimately show ?thesis using write_loop_skip [OF inv, of n] by (auto simp: rd_buf_write_def)
qed

text \<open>
  What a receive does with an iovec of \<open>rd_buf_get_write_iov\<close>: it stores bytes in the free
  memory of a segment and leaves everything else alone.
\<close>

definition store_free :: "rd_buf \<Rightarrow> nat \<Rightarrow> byte list \<Rightarrow> rd_buf" where
  "store_free b i zs =
     (let s = rbuf_segments b ! i
      in b\<lparr>rbuf_segments := (rbuf_segments b)
             [i := s\<lparr>seg_p := overwrite (seg_of s) zs (seg_p s)\<rparr>]\<rparr>)"

lemma store_free_spec:
  assumes inv: "buf_inv b" and i: "i < length (rbuf_segments b)"
    and zs: "length zs \<le> rd_segment_write_remains (rbuf_segments b ! i)"
  shows "buf_inv (store_free b i zs) \<and> buf_bytes (store_free b i zs) = buf_bytes b"
proof -
  let ?s = "rbuf_segments b ! i"
  let ?t = "?s\<lparr>seg_p := overwrite (seg_of ?s) zs (seg_p ?s)\<rparr>"
  have ok: "seg_ok ?s" using inv i segs_ok_imp_seg_ok by (auto simp: buf_inv_def buf_lay_def)
  have le: "seg_of ?s + length zs \<le> length (seg_p ?s)"
    using ok zs by (auto simp: seg_ok_def rd_segment_write_remains_def split: if_splits)
  then have shape: "seg_same_shape ?s ?t" by (simp add: seg_same_shape_def)
  then have "list_all2 seg_same_shape (rbuf_segments b) ((rbuf_segments b)[i := ?t])"
    using i by (auto simp: list_all2_conv_all_nth nth_list_update)
  then have "buf_inv (store_free b i zs)"
    using same_shape_inv [OF _ inv] by (simp add: store_free_def Let_def)
  moreover have "seg_bytes ?t = seg_bytes ?s"
    using le by (simp add: seg_bytes_def overwrite_def)
  then have "map seg_bytes ((rbuf_segments b)[i := ?t]) = map seg_bytes (rbuf_segments b)"
    using i by (simp only: map_update) (simp add: list_update_same_conv)
  then have "buf_bytes (store_free b i zs) = buf_bytes b"
    by (simp add: store_free_def Let_def buf_bytes_def segs_bytes_def)
  ultimately show ?thesis by blast
qed

section \<open>Free space that no write can use\<close>

text \<open>
  The write position at a last segment without room: \<open>rd_buf_get_writable0\<close> finds nothing
  there, the round of the write loop copies no byte, and the next round is the same again.
\<close>

definition no_room :: "rd_buf \<Rightarrow> bool" where
  "no_room b \<longleftrightarrow> wpos_last b \<and>
     (\<exists>w. rbuf_wpos b = Some w \<and> rd_segment_write_remains (rbuf_segments b ! w) = 0)"

lemma no_room_get_writable0:
  assumes "no_room b"
  shows "rd_buf_get_writable0 b = (b, 0)"
proof -
  obtain w where w: "rbuf_wpos b = Some w" "Suc w = length (rbuf_segments b)"
    "rd_segment_write_remains (rbuf_segments b ! w) = 0"
    using assms by (auto simp: no_room_def wpos_last_def)
  from w(1) have eq: "b\<lparr>rbuf_wpos := Some w\<rparr> = b" by (cases b) simp
  have "rd_buf_get_writable_from b w = rd_buf_get_writable_from (b\<lparr>rbuf_wpos := Some w\<rparr>) (Suc w)"
    using w by (subst rd_buf_get_writable_from.simps) (simp add: Let_def)
  also have "\<dots> = rd_buf_get_writable_from b (Suc w)" by (simp only: eq)
  also have "\<dots> = (b, 0)" using w(2) by (subst rd_buf_get_writable_from.simps) simp
  finally show ?thesis using w(1) by (simp add: rd_buf_get_writable0_def)
qed

lemma fill_nothing [simp]:
  "b\<lparr>rbuf_segments := (rbuf_segments b)[w := rd_segment_fill (rbuf_segments b ! w) payload 0],
     rbuf_len := rbuf_len b\<rparr> = b"
  by (cases b) (simp add: rd_segment_fill_def split: option.split)

lemma write_loop_no_room:
  assumes "no_room b" "0 < n"
  shows "rd_buf_write_loop b payload n = None"
proof (rule ccontr)
  assume "rd_buf_write_loop b payload n \<noteq> None"
  then obtain m where "rd_buf_write_loop b payload n = Some m" by blast
  then have "no_room b \<longrightarrow> n = 0"
  proof (rule rd_buf_write_loop.raw_induct [rotated], goal_cases)
    case (1 loop b payload n m)
    show ?case
    proof
      assume room: "no_room b"
      then obtain w where "rbuf_wpos b = Some w" by (auto simp: no_room_def)
      then show "n = 0"
        using 1 room by (auto simp: no_room_get_writable0 [OF room] split: if_splits)
    qed
  qed
  then show False using assms by simp
qed

lemma write_no_room:
  assumes "no_room b" "0 < n" "n \<le> rd_buf_write_remains b"
  shows "rd_buf_write b payload n = None"
proof -
  have "rd_buf_write_ensure b n 0 = b"
    using assms(3) by (subst rd_buf_write_ensure.simps) simp
  then show ?thesis using write_loop_no_room [OF assms(1,2)] by (simp add: rd_buf_write_def)
qed

text \<open>A seek into a pushed segment leaves the write position at a segment without room.\<close>

lemma seek_rdonly_no_room:
  assumes inv: "buf_inv b" and less: "absof < rbuf_len b"
    and ro: "seek_target b absof = Some s" "seg_rdonly s"
    and seek: "rd_buf_write_seek b absof = Return (b', ev, True)"
  shows "no_room b' \<and> seg_absof s + seg_size s - absof \<le> rd_buf_write_remains b'"
proof (rule rd_buf_write_seek_eq [OF inv less])
  fix pre t post
  assume segs: "rbuf_segments b = pre @ t # post" and target: "seek_target b absof = Some t"
    and off: "seg_absof t = sum_list (map seg_of pre)"
    and eq: "rd_buf_write_seek b absof = Return
       (b\<lparr>rbuf_segments := pre @ [t\<lparr>seg_of := absof - seg_absof t\<rparr>],
          rbuf_segment_cnt := length (pre @ [t]), rbuf_len := absof,
          rbuf_size := sum_list (map seg_size (pre @ [t])), rbuf_wpos := Some (length pre)\<rparr>,
        concat (map rd_segment_destroy (rev post)), True)"
  have "segs_ok 0 pre" using inv segs by (simp add: buf_inv_def buf_lay_def)
  then have "sum_list (map seg_of pre) \<le> sum_list (map seg_size pre)" by (rule segs_used_le)
  then show ?thesis using off eq seek target ro
    by (auto simp: no_room_def wpos_last_def rd_segment_write_remains_def rd_buf_write_remains_def)
qed

text \<open>
  A block allocated while there is room at the write position: the bytes of the old room
  count as writable, but the write position is behind them.
\<close>

lemma alloc_segment_shape:
  assumes "rbuf_wpos b = Some w" "w < length (rbuf_segments b)"
  obtains segs t where "rbuf_segments (rd_buf_alloc_segment b sz sz) = segs @ [t]"
    "seg_of t = 0" "seg_size t = rd_buf_alloc_size b sz sz" "\<not> seg_rdonly t"
proof (rule alloc_segment0_cases [of b "rd_buf_alloc_size b sz sz"])
  fix seg n
  assume alloc: "rd_buf_alloc_segment0 b (rd_buf_alloc_size b sz sz) = (seg, b\<lparr>rbuf_extra_len := n\<rparr>)"
    and fresh: "fresh_segment b (rd_buf_alloc_size b sz sz) seg"
  let ?P = "\<lambda>s. (seg_of s, seg_size s, seg_rdonly s)"
  have keep: "map ?P (rbuf_segments (fst (rd_buf_get_writable_from c i))) = map ?P (rbuf_segments c)" for c i
    by (induction c i rule: rd_buf_get_writable_from.induct; subst rd_buf_get_writable_from.simps)
      (simp add: Let_def map_update list_update_same_conv)
  have "map ?P (rbuf_segments (rd_buf_alloc_segment b sz sz)) = map ?P (rbuf_segments b @ [seg])"
    using assms(1) alloc keep
    by (simp add: rd_buf_alloc_segment_def rd_buf_append_segment_def Let_def rd_buf_get_writable0_def)
  then show thesis using that fresh
    by (cases "rbuf_segments (rd_buf_alloc_segment b sz sz)" rule: rev_cases)
      (auto simp: fresh_segment_def)
qed

lemma write_after_contig:
  assumes inv: "buf_inv b" and w: "rbuf_wpos b = Some w"
    and sz: "rd_segment_write_remains (rbuf_segments b ! w) < sz"
    and n: "sz < n" "n \<le> sz + rd_buf_write_remains b"
  shows "rd_buf_write (rd_buf_write_ensure_contig b sz) payload n = None"
proof -
  let ?b = "rd_buf_alloc_segment b sz sz"
  have "w < length (rbuf_segments b)" using inv w by (simp add: buf_inv_def buf_lay_def wpos_ok_def)
  then obtain segs t where segs: "rbuf_segments ?b = segs @ [t]" "seg_of t = 0"
    "seg_size t = rd_buf_alloc_size b sz sz" "\<not> seg_rdonly t"
    using alloc_segment_shape [OF w] by blast
  have size: "rd_buf_alloc_size b sz sz = sz" using sz by (simp add: rd_buf_alloc_size_def)
  let ?c = "?b\<lparr>rbuf_wpos := Some (length segs)\<rparr>"
  have contig: "rd_buf_write_ensure_contig b sz = ?c"
    using w sz segs(1) by (simp add: rd_buf_write_ensure_contig_def Let_def rd_buf_last_def)
  have "n \<le> rd_buf_write_remains ?c"
    using n size buf_inv_len_le [OF inv] by (simp add: rd_buf_write_remains_def)
  then have ensure: "rd_buf_write_ensure ?c n 0 = ?c" by (subst rd_buf_write_ensure.simps) simp
  have remains: "rd_segment_write_remains t = sz"
    using segs(2-4) size by (simp add: rd_segment_write_remains_def)
  let ?t = "if seg_absof t < rbuf_len b then t\<lparr>seg_absof := rbuf_len b\<rparr> else t"
  have get: "rd_buf_get_writable0 ?c = (?c\<lparr>rbuf_segments := segs @ [?t]\<rparr>, sz)"
    using segs(1,2) remains sz
    by (simp add: rd_buf_get_writable0_def rd_buf_get_writable_from.simps Let_def)
  let ?d = "?c\<lparr>rbuf_segments := segs @ [rd_segment_fill ?t payload sz], rbuf_len := rbuf_len b + sz\<rparr>"
  have "rd_buf_write_loop ?c payload n = rd_buf_write_loop ?d (map_option (drop sz) payload) (n - sz)"
    using n(1) get by (simp add: rd_buf_write_loop.simps [of ?c] Let_def)
  also have "\<dots> = None"
  proof (rule write_loop_no_room)
    show "no_room ?d" using segs(2-4) size
      by (simp add: no_room_def wpos_last_def rd_segment_write_remains_def rd_segment_fill_def)
  qed (use n in simp)
  finally show ?thesis using contig ensure by (simp add: rd_buf_write_def)
qed

end
