(* ===== verification/Rdbuf_Reach.thy ===== *)
theory Rdbuf_Reach
  imports Rdbuf_Room
begin

text \<open>
  Sequences of buffer operations: a step relation over the operations of \<open>rdbuf.c\<close>, the
  buffers reachable from \<open>rd_buf_init\<close>, and what holds of all of them. The abstract
  counterpart of a buffer is the byte string it holds; every operation refines a function
  on byte strings.
\<close>

section \<open>Ownership of segment headers\<close>

text \<open>
  A segment header may be passed to \<open>rd_free\<close> only if it was allocated with \<open>rd_malloc\<close>, and
  it is if its flag \<open>RD_SEGMENT_F_FREE\<close> is set. \<open>rd_segment_split\<close> copies the flags of the
  segment it splits, so a header in the extra memory could inherit the flag; that this does
  not happen rests on the extra memory being exhausted before the first header is malloced.
\<close>

definition extra_full :: "rd_buf \<Rightarrow> bool" where
  "extra_full b \<longleftrightarrow> rbuf_extra_size b < RD_ROUNDUP (rbuf_extra_len b) 8 + SIZEOF_SEGMENT"

definition header_ok :: "rd_buf \<Rightarrow> rd_segment \<Rightarrow> bool" where
  "header_ok b seg \<longleftrightarrow>
     (seg_f_free seg \<longleftrightarrow> seg_header seg = Malloced) \<and>
     (seg_header seg = Malloced \<longrightarrow> extra_full b)"

definition headers_ok :: "rd_buf \<Rightarrow> bool" where
  "headers_ok b \<longleftrightarrow> list_all (header_ok b) (rbuf_segments b)"

lemma extra_full_mono:
  "extra_full b \<Longrightarrow> rbuf_extra_len b \<le> n \<Longrightarrow> extra_full (b\<lparr>rbuf_extra_len := n\<rparr>)"
proof -
  assume "extra_full b" "rbuf_extra_len b \<le> n"
  moreover then have "RD_ROUNDUP (rbuf_extra_len b) 8 \<le> RD_ROUNDUP n 8"
    unfolding RD_ROUNDUP_8 by (auto intro: mult_le_mono1 div_le_mono)
  ultimately show ?thesis by (simp add: extra_full_def)
qed

text \<open>Operations that leave headers and extra memory alone.\<close>

definition same_headers :: "rd_buf \<Rightarrow> rd_buf \<Rightarrow> bool" where
  "same_headers b b' \<longleftrightarrow>
     map (\<lambda>s. (seg_f_free s, seg_header s)) (rbuf_segments b')
       = map (\<lambda>s. (seg_f_free s, seg_header s)) (rbuf_segments b) \<and>
     rbuf_extra_len b' = rbuf_extra_len b \<and> rbuf_extra_size b' = rbuf_extra_size b"

lemma same_headers_ok: "same_headers b b' \<Longrightarrow> headers_ok b \<Longrightarrow> headers_ok b'"
proof -
  assume same: "same_headers b b'" and "headers_ok b"
  have "header_ok b' s = header_ok b s" for s
    using same by (simp add: same_headers_def header_ok_def extra_full_def)
  moreover have "list_all (header_ok b) (rbuf_segments b') = list_all (header_ok b) (rbuf_segments b)"
  proof -
    let ?P = "\<lambda>(f, h). (f \<longleftrightarrow> h = Malloced) \<and> (h = Malloced \<longrightarrow> extra_full b)"
    have "list_all (header_ok b) ss = list_all ?P (map (\<lambda>s. (seg_f_free s, seg_header s)) ss)" for ss
      by (simp add: list_all_iff header_ok_def)
    then show ?thesis using same by (simp only: same_headers_def)
  qed
  ultimately show "headers_ok b'" using \<open>headers_ok b\<close> by (simp add: headers_ok_def list_all_iff)
qed

lemma same_headers_trans: "same_headers a b \<Longrightarrow> same_headers b c \<Longrightarrow> same_headers a c"
  by (simp add: same_headers_def)

lemma get_writable_from_headers: "same_headers b (fst (rd_buf_get_writable_from b i))"
proof (induction b i rule: rd_buf_get_writable_from.induct)
  case (1 b i)
  then show ?case
    by (subst rd_buf_get_writable_from.simps)
      (auto simp: Let_def same_headers_def map_update list_update_same_conv)
qed

lemma get_writable0_headers: "same_headers b (fst (rd_buf_get_writable0 b))"
  using get_writable_from_headers
  by (auto simp: rd_buf_get_writable0_def same_headers_def split: option.split)

lemma append_segment_headers:
  assumes "headers_ok b" "header_ok b seg"
  shows "headers_ok (rd_buf_append_segment b seg)"
proof -
  let ?b1 = "b\<lparr>rbuf_segments := rbuf_segments b @ [seg\<lparr>seg_absof := rbuf_len b\<rparr>],
    rbuf_segment_cnt := rbuf_segment_cnt b + 1, rbuf_len := rbuf_len b + seg_of seg,
    rbuf_size := rbuf_size b + seg_size seg\<rparr>"
  have "header_ok ?b1 s = header_ok b s" "header_ok b (s\<lparr>seg_absof := n\<rparr>) = header_ok b s" for s n
    by (simp_all add: header_ok_def extra_full_def)
  then have 1: "headers_ok ?b1" using assms by (simp add: headers_ok_def list_all_iff)
  have "same_headers ?b1 (rd_buf_append_segment b seg)"
    using get_writable0_headers [of ?b1]
    by (simp add: rd_buf_append_segment_def same_headers_def Let_def)
  then show ?thesis using 1 by (rule same_headers_ok)
qed

lemma alloc_segment0_headers:
  assumes "headers_ok b"
  obtains seg n where "rd_buf_alloc_segment0 b sz = (seg, b\<lparr>rbuf_extra_len := n\<rparr>)"
    "headers_ok (b\<lparr>rbuf_extra_len := n\<rparr>)" "header_ok (b\<lparr>rbuf_extra_len := n\<rparr>) seg"
    "extra_full b \<Longrightarrow> seg_header seg = Malloced"
    "extra_full b \<Longrightarrow> extra_full (b\<lparr>rbuf_extra_len := n\<rparr>)"
    "\<not> seg_rdonly seg"
proof (rule alloc_segment0_cases [of b sz])
  fix seg n
  assume a: "rd_buf_alloc_segment0 b sz = (seg, b\<lparr>rbuf_extra_len := n\<rparr>)" "fresh_segment b sz seg"
    "rbuf_extra_len b \<le> n" "seg_header seg = Malloced \<Longrightarrow>
       n = rbuf_extra_len b \<and> rbuf_extra_size b < RD_ROUNDUP n 8 + SIZEOF_SEGMENT"
  let ?b = "b\<lparr>rbuf_extra_len := n\<rparr>"
  have "header_ok b s \<Longrightarrow> header_ok ?b s" for s
    using extra_full_mono [OF _ a(3)] by (auto simp: header_ok_def)
  then have "headers_ok ?b" using assms by (auto simp: headers_ok_def list_all_iff)
  moreover have "header_ok ?b seg" using a by (auto simp: header_ok_def fresh_segment_def extra_full_def)
  moreover have "seg_header seg = Malloced" if "extra_full b"
    using that a(1) by (auto simp: rd_buf_alloc_segment0_def extra_alloc_def extra_full_def
        rd_segment_init_def Let_def)
  ultimately show thesis using that a extra_full_mono [of b n] by (simp add: fresh_segment_def)
qed

lemma alloc_segment_headers:
  assumes "headers_ok b"
  shows "headers_ok (rd_buf_alloc_segment b min_size max_size)"
proof (rule alloc_segment0_headers [OF assms, of "rd_buf_alloc_size b min_size max_size"])
  fix seg n
  assume "rd_buf_alloc_segment0 b (rd_buf_alloc_size b min_size max_size)
      = (seg, b\<lparr>rbuf_extra_len := n\<rparr>)"
    "headers_ok (b\<lparr>rbuf_extra_len := n\<rparr>)" "header_ok (b\<lparr>rbuf_extra_len := n\<rparr>) seg"
  then show ?thesis using append_segment_headers by (simp add: rd_buf_alloc_segment_def)
qed

lemma write_ensure_headers: "headers_ok b \<Longrightarrow> headers_ok (rd_buf_write_ensure b m n)"
proof (induction b m n rule: rd_buf_write_ensure.induct)
  case (1 b m n)
  show ?case
  proof (cases "rd_buf_write_remains b < m")
    case True
    then show ?thesis using "1.IH" [OF refl True] alloc_segment_headers [OF "1.prems"]
      by (subst rd_buf_write_ensure.simps) (simp add: Let_def)
  next
    case False
    then show ?thesis using "1.prems" by (subst rd_buf_write_ensure.simps) simp
  qed
qed

lemma fill_headers:
  "same_headers b (b\<lparr>rbuf_segments := (rbuf_segments b)
     [w := rd_segment_fill (rbuf_segments b ! w) payload n], rbuf_len := m\<rparr>)"
  by (cases "w < length (rbuf_segments b)")
    (simp_all add: same_headers_def map_update rd_segment_fill_def list_update_same_conv list_update_beyond)

lemma write_loop_headers:
  assumes "rd_buf_write_loop b payload remains = Some m"
  shows "\<forall>b'. m = Return b' \<longrightarrow> same_headers b b'"
proof (rule rd_buf_write_loop.raw_induct [OF _ assms], goal_cases)
  case (1 loop b payload remains m)
  obtain b1 n where g: "rd_buf_get_writable0 b = (b1, n)" by fastforce
  then have "same_headers b b1" using get_writable0_headers [of b] by simp
  then show ?case
    using 1 g same_headers_trans fill_headers
    by (fastforce simp: Let_def same_headers_def split: if_splits option.splits)
qed

lemma write_headers:
  "rd_buf_write b payload n = Some (Return (b', pos)) \<Longrightarrow> headers_ok b \<Longrightarrow> headers_ok b'"
  using write_loop_headers [of "rd_buf_write_ensure b n 0" payload n]
    write_ensure_headers [of b n 0] same_headers_ok
  by (auto simp: rd_buf_write_def obind_eq_Return)

lemma update_loop_headers:
  "rd_buf_write_update_loop b i absof payload = Return b' \<Longrightarrow> same_headers b b'"
proof (induction b i absof payload rule: rd_buf_write_update_loop.induct)
  case (1 b i absof payload)
  show ?case
  proof (cases "payload = []")
    case True
    then show ?thesis using "1.prems" by (simp add: same_headers_def)
  next
    case False
    then obtain seg wlen where i: "i < length (rbuf_segments b)"
        "rd_segment_write_update (rbuf_segments b ! i) absof payload = Return (seg, wlen)"
        "rd_buf_write_update_loop (b\<lparr>rbuf_segments := (rbuf_segments b)[i := seg]\<rparr>) (i + 1)
           (absof + wlen) (drop wlen payload) = Return b'"
        "seg_absof (rbuf_segments b ! i) \<le> rbuf_len b"
      using "1.prems" by (subst (asm) rd_buf_write_update_loop.simps)
        (auto simp: obind_eq_Return split: if_splits)
    have "same_headers b (b\<lparr>rbuf_segments := (rbuf_segments b)[i := seg]\<rparr>)"
      using i(1,2) by (auto simp: same_headers_def rd_segment_write_update_def map_update Let_def
          list_update_same_conv split: if_splits)
    then show ?thesis
      using "1.IH" [OF False, of seg wlen] i same_headers_trans by auto
  qed
qed

lemma update_headers:
  "rd_buf_write_update b absof payload = Return (b', n) \<Longrightarrow> headers_ok b \<Longrightarrow> headers_ok b'"
  by (auto simp: rd_buf_write_update_def obind_eq_Return split: option.splits
      dest: update_loop_headers intro: same_headers_ok)

lemma split_headers:
  assumes "rd_segment_split b i absof = Return (t, b')" "headers_ok b" "i < length (rbuf_segments b)"
  shows "headers_ok b'" "header_ok b' t"
proof -
  let ?seg = "rbuf_segments b ! i"
  obtain new n where alloc: "rd_buf_alloc_segment0 b 0 = (new, b\<lparr>rbuf_extra_len := n\<rparr>)"
    and ok: "headers_ok (b\<lparr>rbuf_extra_len := n\<rparr>)" "header_ok (b\<lparr>rbuf_extra_len := n\<rparr>) new"
      "extra_full b \<Longrightarrow> seg_header new = Malloced"
    using alloc_segment0_headers [OF assms(2), of 0] by metis
  have hdr: "header_ok b ?seg" using assms(2,3) by (simp add: headers_ok_def list_all_length)
  have t: "seg_f_free t = (seg_f_free new \<or> seg_f_free ?seg)" "seg_header t = seg_header new"
    and b': "rbuf_extra_len b' = n" "rbuf_extra_size b' = rbuf_extra_size b"
    and segs: "map (\<lambda>s. (seg_f_free s, seg_header s)) (rbuf_segments b')
      = map (\<lambda>s. (seg_f_free s, seg_header s)) (rbuf_segments b)"
    using assms(1,3) alloc
    by (auto simp: rd_segment_split_def Let_def map_update list_update_same_conv split: if_splits)
  have "same_headers (b\<lparr>rbuf_extra_len := n\<rparr>) b'" using b' segs by (simp add: same_headers_def)
  then show "headers_ok b'" using ok(1) by (rule same_headers_ok)
  have "extra_full b' = extra_full (b\<lparr>rbuf_extra_len := n\<rparr>)" using b' by (simp add: extra_full_def)
  then show "header_ok b' t" using t ok(2,3) hdr by (auto simp: header_ok_def)
qed

lemma push_headers:
  assumes "rd_buf_push b payload free_cb = Return b'" "headers_ok b" "buf_inv b"
  shows "headers_ok b'"
proof -
  obtain t b1 where split: "push_split b = Return (t, b1)"
    and tail: "headers_ok b1" "\<And>s. t = Some s \<Longrightarrow> header_ok b1 s"
  proof -
    obtain t b1 where split: "push_split b = Return (t, b1)"
      using assms(1) by (auto simp: rd_buf_push_def push_split_def [symmetric] obind_eq_Return)
    have "w < length (rbuf_segments b)" if "rbuf_wpos b = Some w" for w
      using assms(3) that by (simp add: buf_inv_def buf_lay_def wpos_ok_def)
    then have "headers_ok b1 \<and> (\<forall>s. t = Some s \<longrightarrow> header_ok b1 s)"
      using split split_headers [OF _ assms(2)] assms(2)
      by (auto simp: push_split_def obind_eq_Return Let_def split: option.splits if_splits)
    then show thesis using that split by blast
  qed
  obtain seg0 n where alloc: "rd_buf_alloc_segment0 b1 0 = (seg0, b1\<lparr>rbuf_extra_len := n\<rparr>)"
    and ok: "headers_ok (b1\<lparr>rbuf_extra_len := n\<rparr>)" "header_ok (b1\<lparr>rbuf_extra_len := n\<rparr>) seg0"
      "extra_full b1 \<Longrightarrow> extra_full (b1\<lparr>rbuf_extra_len := n\<rparr>)"
    using alloc_segment0_headers [OF tail(1), of 0] by metis
  let ?seg = "seg0\<lparr>seg_p := payload, seg_size := length payload, seg_of := length payload,
    seg_free := free_cb, seg_rdonly := True\<rparr>"
  let ?b3 = "rd_buf_append_segment (b1\<lparr>rbuf_extra_len := n\<rparr>) ?seg"
  have "header_ok (b1\<lparr>rbuf_extra_len := n\<rparr>) ?seg" using ok(2) by (simp add: header_ok_def)
  then have b3: "headers_ok ?b3" by (rule append_segment_headers [OF ok(1)])
  have ext: "rbuf_extra_len ?b3 = n" "rbuf_extra_size ?b3 = rbuf_extra_size b1"
    by (simp_all add: rd_buf_append_segment_def Let_def)
  have "headers_ok (rd_buf_append_segment ?b3 s)" if "t = Some s" for s
  proof (rule append_segment_headers [OF b3])
    have "extra_full ?b3 = extra_full (b1\<lparr>rbuf_extra_len := n\<rparr>)" using ext by (simp add: extra_full_def)
    then show "header_ok ?b3 s" using tail(2) [OF that] ok(3) by (auto simp: header_ok_def)
  qed
  then show ?thesis using assms(1) split alloc b3
    by (auto simp: rd_buf_push_def push_split_def [symmetric] Let_def split: option.splits)
qed

text \<open>A seek keeps a prefix of the segments.\<close>

lemma destroy_tail_headers:
  "rd_buf_destroy_tail b n = Return (b', ev) \<Longrightarrow> headers_ok b \<Longrightarrow>
   headers_ok b' \<and> rbuf_extra_len b' = rbuf_extra_len b \<and> rbuf_extra_size b' = rbuf_extra_size b"
proof (induction n arbitrary: b ev)
  case (Suc n)
  let ?i = "length (rbuf_segments b) - 1"
  obtain b1 ev1 ev2 where step: "rd_buf_destroy_segment b ?i = Return (b1, ev1)"
    "rd_buf_destroy_tail b1 n = Return (b', ev2)"
    using Suc.prems(1) by (auto simp: obind_eq_Return)
  then have b1: "rbuf_extra_len b1 = rbuf_extra_len b" "rbuf_extra_size b1 = rbuf_extra_size b"
      "set (rbuf_segments b1) \<subseteq> set (rbuf_segments b)"
    by (auto simp: rd_buf_destroy_segment_def Let_def split: if_splits
        dest: in_set_takeD in_set_dropD)
  moreover have "header_ok b1 s = header_ok b s" for s
    using b1 by (simp add: header_ok_def extra_full_def)
  ultimately have "headers_ok b1" using Suc.prems(2) by (auto simp: headers_ok_def list_all_iff)
  then show ?case using Suc.IH [OF step(2)] b1 by simp
qed simp

lemma find_segment_bound: "find_segment_from segs absof i = Some k \<Longrightarrow> k < length segs"
  by (induction segs absof i rule: find_segment_from.induct)
    (subst (asm) (2) find_segment_from.simps, simp split: if_splits)

lemma seek_headers:
  assumes "rd_buf_write_seek b absof = Return (b', ev, r)" "headers_ok b" "buf_inv b"
  shows "headers_ok b'"
proof (cases r)
  case False
  then show ?thesis using assms
    by (auto simp: rd_buf_write_seek_def obind_eq_Return Let_def split: option.splits if_splits)
next
  case True
  obtain i b1 where i: "rd_buf_get_segment_at_offset b (rbuf_wpos b) absof = Return (Some i)"
    and tail: "rd_buf_destroy_tail b (length (rbuf_segments b) - 1 - i) = Return (b1, ev)"
    and b': "b' = b1\<lparr>rbuf_segments := (rbuf_segments b1)
        [i := (rbuf_segments b ! i)\<lparr>seg_of := absof - seg_absof (rbuf_segments b ! i)\<rparr>],
      rbuf_wpos := Some i, rbuf_len := rbuf_len b'\<rparr>"
    using assms(1) True
    by (auto simp: rd_buf_write_seek_def obind_eq_Return Let_def split: option.splits if_splits)
  have b1: "headers_ok b1" "rbuf_extra_len b1 = rbuf_extra_len b" "rbuf_extra_size b1 = rbuf_extra_size b"
    using destroy_tail_headers [OF tail assms(2)] by auto
  have eq: "header_ok b' s = header_ok b s" "header_ok b1 s = header_ok b s" for s
    by (subst b') (simp_all add: header_ok_def extra_full_def b1)
  have "i < length (rbuf_segments b)"
  proof (rule ccontr)
    assume "\<not> i < length (rbuf_segments b)"
    then show False using i find_segment_bound
      by (auto simp: rd_buf_get_segment_at_offset_def Let_def split: if_splits)
  qed
  then have "header_ok b ((rbuf_segments b ! i)\<lparr>seg_of := n\<rparr>)" for n
    using assms(2) by (simp add: headers_ok_def list_all_length header_ok_def)
  moreover have "set (rbuf_segments b') \<subseteq> insert
      ((rbuf_segments b ! i)\<lparr>seg_of := absof - seg_absof (rbuf_segments b ! i)\<rparr>) (set (rbuf_segments b1))"
    by (subst b') (simp add: set_update_subset_insert)
  ultimately show ?thesis using b1(1) eq by (auto simp: headers_ok_def list_all_iff)
qed

lemma ensure_contig_headers: "headers_ok b \<Longrightarrow> headers_ok (rd_buf_write_ensure_contig b sz)"
proof -
  assume ok: "headers_ok b"
  have "headers_ok (c\<lparr>rbuf_wpos := p\<rparr>)" if "headers_ok c" for c p
    using same_headers_ok [OF _ that] by (simp add: same_headers_def)
  then show ?thesis using ok alloc_segment_headers [OF ok]
    by (auto simp: rd_buf_write_ensure_contig_def Let_def split: option.split)
qed

lemma store_free_headers:
  assumes "headers_ok b" "i < length (rbuf_segments b)"
  shows "headers_ok (store_free b i zs)"
proof (rule same_headers_ok [OF _ assms(1)])
  show "same_headers b (store_free b i zs)" using assms(2)
    by (simp add: same_headers_def store_free_def Let_def map_update list_update_same_conv)
qed

section \<open>Operation sequences\<close>

text \<open>
  All operations of \<open>rdbuf.c\<close> that write to a buffer, and the stores that a receive makes into
  the free memory that \<open>rd_buf_get_write_iov\<close> hands out. \<open>rd_buf_write_slice\<close> is a sequence of
  writes and keeps buffers reachable too (theory \<open>Slice\<close>).
\<close>

datatype buf_op =
    Op_Write "byte list"
  | Op_Update nat "byte list"
  | Op_Push "byte list" "free_fn option"
  | Op_Seek nat
  | Op_Ensure nat nat
  | Op_Contig nat
  | Op_Store nat "byte list"
  | Op_Skip "byte list"

text \<open>
  When a client may call an operation. The conditions on \<open>rd_buf_write_update\<close> (the range has
  been written), \<open>rd_buf_push\<close> (the write position is at the last segment) and on a write
  without payload (it claims memory that exists; \<open>zs\<close> names what that memory holds) are those
  of the code's comments and assertions. Two conditions are not documented in the code and are
  needed, as the theorems at the end show: a seek must not end in a pushed (read-only) segment,
  and \<open>rd_buf_write_ensure_contig\<close> must not allocate while there is free space left. The
  callers in the library meet them: \<open>rd_kafka_recv\<close> and \<open>rd_kafka_transport_framed_recv\<close>
  reserve the exact size of a header, fill it, and then ask for the contiguous block; the
  message set writer seeks to a field that it wrote itself.
\<close>

fun op_ok :: "rd_buf \<Rightarrow> buf_op \<Rightarrow> bool" where
  "op_ok b (Op_Write payload) \<longleftrightarrow> True"
| "op_ok b (Op_Update absof payload) \<longleftrightarrow>
     absof < rbuf_len b \<and> absof + length payload \<le> rbuf_len b"
| "op_ok b (Op_Push payload free_cb) \<longleftrightarrow> wpos_last b"
| "op_ok b (Op_Seek absof) \<longleftrightarrow>
     absof < rbuf_len b \<and> (case seek_target b absof of Some s \<Rightarrow> \<not> seg_rdonly s | None \<Rightarrow> False)"
| "op_ok b (Op_Ensure min_size max_size) \<longleftrightarrow> True"
| "op_ok b (Op_Contig sz) \<longleftrightarrow> contig_ok b sz"
| "op_ok b (Op_Store i zs) \<longleftrightarrow> i < length (rbuf_segments b) \<and>
     length zs \<le> rd_segment_write_remains (rbuf_segments b ! i)"
| "op_ok b (Op_Skip zs) \<longleftrightarrow>
     length zs \<le> rd_buf_write_remains b \<and> zs = take (length zs) (free_bytes b)"

inductive buf_step :: "rd_buf \<Rightarrow> buf_op \<Rightarrow> rd_buf \<Rightarrow> bool" where
  step_write:
    "rd_buf_write b (Some payload) (length payload) = Some (Return (b', pos)) \<Longrightarrow>
     buf_step b (Op_Write payload) b'"
| step_update:
    "rd_buf_write_update b absof payload = Return (b', n) \<Longrightarrow>
     buf_step b (Op_Update absof payload) b'"
| step_push:
    "rd_buf_push b payload free_cb = Return b' \<Longrightarrow> buf_step b (Op_Push payload free_cb) b'"
| step_seek:
    "rd_buf_write_seek b absof = Return (b', ev, True) \<Longrightarrow> buf_step b (Op_Seek absof) b'"
| step_ensure:
    "buf_step b (Op_Ensure min_size max_size) (rd_buf_write_ensure b min_size max_size)"
| step_contig:
    "buf_step b (Op_Contig sz) (rd_buf_write_ensure_contig b sz)"
| step_store:
    "buf_step b (Op_Store i zs) (store_free b i zs)"
| step_skip:
    "rd_buf_write b None (length zs) = Some (Return (b', pos)) \<Longrightarrow> buf_step b (Op_Skip zs) b'"

inductive_cases buf_step_WriteE: "buf_step b (Op_Write payload) b'"
inductive_cases buf_step_UpdateE: "buf_step b (Op_Update absof payload) b'"
inductive_cases buf_step_PushE: "buf_step b (Op_Push payload free_cb) b'"
inductive_cases buf_step_SeekE: "buf_step b (Op_Seek absof) b'"
inductive_cases buf_step_EnsureE: "buf_step b (Op_Ensure min_size max_size) b'"
inductive_cases buf_step_ContigE: "buf_step b (Op_Contig sz) b'"
inductive_cases buf_step_StoreE: "buf_step b (Op_Store i zs) b'"
inductive_cases buf_step_SkipE: "buf_step b (Op_Skip zs) b'"

lemmas buf_step_elims =
  buf_step_WriteE buf_step_UpdateE buf_step_PushE buf_step_SeekE buf_step_EnsureE
  buf_step_ContigE buf_step_StoreE buf_step_SkipE

text \<open>What an operation does to the byte string a buffer stands for.\<close>

fun abs_step :: "byte list \<Rightarrow> buf_op \<Rightarrow> byte list" where
  "abs_step xs (Op_Write payload) = xs @ payload"
| "abs_step xs (Op_Update absof payload) = overwrite absof payload xs"
| "abs_step xs (Op_Push payload free_cb) = xs @ payload"
| "abs_step xs (Op_Seek absof) = take absof xs"
| "abs_step xs (Op_Ensure min_size max_size) = xs"
| "abs_step xs (Op_Contig sz) = xs"
| "abs_step xs (Op_Store i zs) = xs"
| "abs_step xs (Op_Skip zs) = xs @ zs"

inductive buf_reach :: "rd_buf \<Rightarrow> byte list \<Rightarrow> bool" where
  reach_init: "rd_buf_init cnt sz fill = Return b \<Longrightarrow> buf_reach b []"
| reach_step:
    "buf_reach b xs \<Longrightarrow> op_ok b op \<Longrightarrow> buf_step b op b' \<Longrightarrow> buf_reach b' (abs_step xs op)"

lemma buf_step_simulation:
  assumes step: "buf_step b op b'" and inv: "buf_inv b" "headers_ok b" and ok: "op_ok b op"
  shows "buf_inv b' \<and> headers_ok b' \<and> buf_bytes b' = abs_step (buf_bytes b) op"
proof (cases op)
  case (Op_Write payload)
  then show ?thesis using step rd_buf_write_spec [OF inv(1), of payload] write_headers inv(2)
    by (auto elim!: buf_step_WriteE)
next
  case (Op_Update absof payload)
  then show ?thesis using step ok rd_buf_write_update_spec [OF inv(1), of absof payload] inv(2)
    by (auto elim!: buf_step_UpdateE dest: update_headers)
next
  case (Op_Push payload free_cb)
  then show ?thesis
    using step ok rd_buf_push_spec [OF inv(1), of payload free_cb] inv push_headers
    by (auto elim!: buf_step_PushE)
next
  case (Op_Seek absof)
  then show ?thesis using step ok rd_buf_write_seek_spec [OF inv(1), of absof] inv seek_headers
    by (fastforce elim!: buf_step_SeekE split: option.splits)
next
  case (Op_Ensure min_size max_size)
  then show ?thesis using step write_ensure_spec [OF inv(1)] write_ensure_headers [OF inv(2)]
    by (auto elim!: buf_step_EnsureE)
next
  case (Op_Contig sz)
  then show ?thesis using step ok ensure_contig_spec [OF inv(1), of sz] ensure_contig_headers [OF inv(2)]
    by (auto elim!: buf_step_ContigE)
next
  case (Op_Store i zs)
  then show ?thesis
    using step ok store_free_spec [OF inv(1), of i zs] store_free_headers [OF inv(2)]
    by (auto elim!: buf_step_StoreE)
next
  case (Op_Skip zs)
  then show ?thesis using step ok rd_buf_write_skip [OF inv(1), of "length zs"] write_headers inv(2)
    by (auto elim!: buf_step_SkipE)
qed

lemma buf_step_progress:
  assumes inv: "buf_inv b" and ok: "op_ok b op"
  shows "\<exists>b'. buf_step b op b'"
proof (cases op)
  case (Op_Write payload)
  then show ?thesis using rd_buf_write_spec [OF inv, of payload] step_write by blast
next
  case (Op_Update absof payload)
  then show ?thesis using ok rd_buf_write_update_spec [OF inv] step_update by fastforce
next
  case (Op_Push payload free_cb)
  then show ?thesis using ok rd_buf_push_spec [OF inv] step_push by fastforce
next
  case (Op_Seek absof)
  then show ?thesis using ok rd_buf_write_seek_spec [OF inv] step_seek by fastforce
next
  case (Op_Ensure min_size max_size)
  then show ?thesis using step_ensure by blast
next
  case (Op_Contig sz)
  then show ?thesis using step_contig by blast
next
  case (Op_Store i zs)
  then show ?thesis using step_store by blast
next
  case (Op_Skip zs)
  then show ?thesis using ok rd_buf_write_skip [OF inv, of "length zs"] step_skip by fastforce
qed

lemma buf_init_inv:
  "rd_buf_init cnt sz fill = Return b \<Longrightarrow>
   buf_inv b \<and> headers_ok b \<and> buf_bytes b = [] \<and> wpos_last b"
  by (auto simp: rd_buf_init_def Let_def buf_inv_def buf_lay_def headers_ok_def buf_bytes_def
      wpos_exact_def wpos_last_def split: if_splits)

lemma buf_reach_inv: "buf_reach b xs \<Longrightarrow> buf_inv b \<and> headers_ok b \<and> buf_bytes b = xs"
proof (induction rule: buf_reach.induct)
  case (reach_step b xs op b')
  then show ?case using buf_step_simulation [of b op b'] by simp
qed (use buf_init_inv in blast)

section \<open>Properties\<close>

text \<open>A buffer with pre-allocated memory for one segment that has been written and pushed to.\<close>

definition example_buf :: rd_buf where
  "example_buf =
     (case rd_buf_init 1 32 (\<lambda>_. 0) of
        Return b \<Rightarrow>
          (case rd_buf_write b (Some [1, 2, 3]) 3 of
             Some (Return (b1, _)) \<Rightarrow>
               (case rd_buf_push b1 [4, 5] None of Return b2 \<Rightarrow> b2 | _ \<Rightarrow> b1)
           | _ \<Rightarrow> b)
      | _ \<Rightarrow> undefined)"

lemma example_reach: "buf_reach example_buf [1, 2, 3, 4, 5]"
proof -
  obtain b where b: "rd_buf_init 1 32 (\<lambda>_. 0) = Return b" by (simp add: rd_buf_init_def)
  have r0: "buf_reach b []" using b by (rule reach_init)
  have inv0: "buf_inv b" "buf_bytes b = []" "wpos_last b" using buf_init_inv [OF b] by auto
  obtain b1 where w: "rd_buf_write b (Some [1, 2, 3]) (length [1 :: byte, 2, 3])
      = Some (Return (b1, rbuf_len b))" "buf_inv b1" "wpos_last b1"
    using rd_buf_write_spec [OF inv0(1), of "[1, 2, 3]"] inv0(3) by blast
  then have r1: "buf_reach b1 [1, 2, 3]"
    using reach_step [OF r0, of "Op_Write [1, 2, 3]"] step_write by fastforce
  obtain b2 where p: "rd_buf_push b1 [4, 5] None = Return b2"
    using rd_buf_push_spec [OF w(2,3)] by blast
  then have "buf_reach b2 [1, 2, 3, 4, 5]"
    using reach_step [OF r1, of "Op_Push [4, 5] None"] step_push w(3) by fastforce
  moreover have "example_buf = b2" using b w(1) p by (simp add: example_buf_def numeral_3_eq_3)
  ultimately show ?thesis by simp
qed

lemma example_inv: "buf_inv example_buf" "buf_bytes example_buf = [1, 2, 3, 4, 5]"
  "rbuf_len example_buf = 5"
  using buf_reach_inv [OF example_reach] buf_inv_length [of example_buf] by auto



text \<open>
  C9. No operation that is called on a reachable buffer under the conditions of \<open>op_ok\<close>
  aborts, runs into undefined behaviour or loops for ever, and its effect is the abstract one.
  The conditions include the two that the code does not document: a seek does not end in a
  pushed segment, and a contiguous block is not allocated while free space is left. The two
  theorems that follow show that a write can loop for ever without them.
\<close>

theorem buf_reach_progress:
  assumes "buf_reach b xs" "op_ok b op"
  shows "\<exists>b'. buf_step b op b' \<and> buf_bytes b' = abs_step xs op"
proof -
  note inv = buf_reach_inv [OF assms(1)]
  obtain b' where "buf_step b op b'" using buf_step_progress [of b op] inv assms(2) by blast
  then show ?thesis using buf_step_simulation [of b op b'] inv assms(2) by auto
qed

theorem buf_reach_progress_witness:
  "\<exists>b'. buf_step example_buf (Op_Update 1 [9, 8]) b' \<and> buf_bytes b' = [1, 9, 8, 4, 5]"
  using buf_reach_progress [OF example_reach, of "Op_Update 1 [9, 8]"] example_inv
  by (simp add: overwrite_def)

lemmas example_eval = example_buf_def rd_buf_init_def rd_buf_write_def rd_buf_write_ensure.simps
  rd_buf_write_loop.simps rd_buf_write_remains_def rd_buf_alloc_segment_def
  rd_buf_alloc_segment0_def rd_buf_alloc_size_def SIZEOF_SEGMENT_def extra_alloc_def RD_ROUNDUP_8
  rd_buf_append_segment_def rd_segment_init_def rd_buf_get_writable0_def
  rd_buf_get_writable_from.simps rd_segment_write_remains_def rd_segment_fill_def
  rd_buf_push_def rd_segment_split_def fresh_mem_def Let_def

lemma example_room: "rbuf_wpos example_buf = Some 2"
  "rd_segment_write_remains (rbuf_segments example_buf ! 2) = 253"
  "rd_buf_write_remains example_buf = 253"
  "seg_rdonly (rbuf_segments example_buf ! 1)" "seg_absof (rbuf_segments example_buf ! 1) = 3"
  "seg_size (rbuf_segments example_buf ! 1) = 2"
  by (simp_all add: example_eval del: upt_rec_numeral upt_Suc
      cong: if_weak_cong option.case_cong_weak)

lemma example_target: "seek_target example_buf 4 = Some (rbuf_segments example_buf ! 1)"
  by (simp add: seek_target_def rd_buf_get_segment_at_offset_def find_segment_from.simps
      example_eval del: upt_rec_numeral upt_Suc cong: if_weak_cong option.case_cong_weak)

text \<open>
  C24. When \<open>rd_buf_write_ensure_contig\<close> allocates a block of \<open>sz\<close> bytes although a reachable
  buffer still has free space, a write of more than \<open>sz\<close> bytes that the total free space seems
  to hold never returns: the space in front of the block is counted by \<open>rd_buf_write_ensure\<close>,
  but the write position has moved past it.
\<close>

theorem write_behind_contig_never_returns:
  assumes "buf_reach b xs" "rbuf_wpos b = Some w"
    and "rd_segment_write_remains (rbuf_segments b ! w) < sz"
    and "sz < n" "n \<le> sz + rd_buf_write_remains b"
  shows "rd_buf_write (rd_buf_write_ensure_contig b sz) payload n = None"
  using buf_reach_inv [OF assms(1)] assms(2-5) by (intro write_after_contig) auto

theorem write_behind_contig_never_returns_witness:
  "rd_buf_write (rd_buf_write_ensure_contig example_buf 300) None 301 = None"
  using write_behind_contig_never_returns [OF example_reach, of 2 300 301 None] example_room by simp

text \<open>
  C25. After a seek to an offset inside a pushed segment of a reachable buffer, which succeeds
  and cuts the contents there, a write of up to as many bytes as the seek cut off that segment
  never returns: they count as free space, but the segment is read-only.
\<close>

theorem write_after_seek_never_returns:
  assumes "buf_reach b xs" "absof < rbuf_len b"
    and "seek_target b absof = Some s" "seg_rdonly s"
    and "0 < n" "n \<le> seg_absof s + seg_size s - absof"
  shows "\<exists>b' ev. rd_buf_write_seek b absof = Return (b', ev, True) \<and>
    buf_bytes b' = take absof xs \<and> rd_buf_write b' payload n = None"
proof -
  have inv: "buf_inv b" "buf_bytes b = xs" using buf_reach_inv [OF assms(1)] by auto
  obtain b' ev where seek: "rd_buf_write_seek b absof = Return (b', ev, True)"
    "buf_bytes b' = take absof xs"
    using rd_buf_write_seek_spec [OF inv(1) assms(2)] inv(2) by auto
  have "rd_buf_write b' payload n = None"
    using seek_rdonly_no_room [OF inv(1) assms(2-4) seek(1)] assms(5,6) by (intro write_no_room) auto
  then show ?thesis using seek by blast
qed

theorem write_after_seek_never_returns_witness:
  "\<exists>b' ev. rd_buf_write_seek example_buf 4 = Return (b', ev, True) \<and>
     buf_bytes b' = [1, 2, 3, 4] \<and> rd_buf_write b' (Some [9]) 1 = None"
  using write_after_seek_never_returns [OF example_reach, of 4 "rbuf_segments example_buf ! 1" 1 "Some [9]"]
    example_room example_target example_inv by simp

text \<open>
  \<open>rd_buf_write\<close> on a well-formed buffer ends, appends exactly the payload, keeps the
  buffer well formed and returns the length before the write, at which \<open>rd_buf_write_update\<close>
  can later change the same bytes.
\<close>

lemma rd_buf_write_appends:
  assumes "buf_inv b" and "payload \<noteq> []" and "length new = length payload"
  shows "\<exists>b' b''. rd_buf_write b (Some payload) (length payload) = Some (Return (b', rbuf_len b)) \<and>
    buf_inv b' \<and> buf_bytes b' = buf_bytes b @ payload \<and>
    rd_buf_write_update b' (rbuf_len b) new = Return (b'', length payload) \<and>
    buf_inv b'' \<and> buf_bytes b'' = buf_bytes b @ new"
proof -
  obtain b' where w: "rd_buf_write b (Some payload) (length payload) = Some (Return (b', rbuf_len b))"
    "buf_inv b'" "buf_bytes b' = buf_bytes b @ payload"
    using rd_buf_write_spec [OF assms(1)] by blast
  have len: "length (buf_bytes b) = rbuf_len b" "rbuf_len b' = rbuf_len b + length payload"
    using buf_inv_length [OF assms(1)] buf_inv_length [OF w(2)] w(3) by simp_all
  obtain b'' where "rd_buf_write_update b' (rbuf_len b) new = Return (b'', length new)" "buf_inv b''"
    "buf_bytes b'' = overwrite (rbuf_len b) new (buf_bytes b')"
    using rd_buf_write_update_spec [OF w(2), of "rbuf_len b" new] len assms(2,3) by auto
  moreover have "overwrite (rbuf_len b) new (buf_bytes b @ payload) = buf_bytes b @ new"
    using len assms(3) by (simp add: overwrite_def)
  ultimately show ?thesis using w assms(3) by auto
qed

text \<open>
  \<open>rd_buf_write_seek\<close> to an offset below the buffer's length cuts the contents there and
  leaves the write position at the end; an offset at or beyond the length is refused and
  changes nothing. The result is well formed if the offset lies in a writable segment.
\<close>

lemma rd_buf_write_seek_truncates:
  assumes "buf_inv b" "rbuf_segments b \<noteq> []"
  shows "if absof < rbuf_len b
    then \<exists>b' ev. rd_buf_write_seek b absof = Return (b', ev, True) \<and>
      buf_bytes b' = take absof (buf_bytes b) \<and> rbuf_len b' = absof \<and>
      (op_ok b (Op_Seek absof) \<longrightarrow> buf_inv b')
    else rd_buf_write_seek b absof = Return (b, [], False)"
proof (cases "absof < rbuf_len b")
  case True
  then show ?thesis using rd_buf_write_seek_spec [OF assms(1) True]
    by (fastforce split: option.splits)
next
  case False
  then show ?thesis using rd_buf_write_seek_beyond [OF assms] by simp
qed

lemma example_segments: "rbuf_segments example_buf \<noteq> []"
  using example_inv(2) by (auto simp: buf_bytes_def)

text \<open>
  Destroying a reachable buffer passes a segment header to \<open>rd_free\<close> exactly if it was
  allocated with \<open>rd_malloc\<close>, and never one that lies in the buffer's extra memory, although
  \<open>rd_segment_split\<close> copies the flag that says so.
\<close>

lemma rd_buf_destroy_frees_malloced:
  assumes "buf_reach b xs" "seg \<in> set (rbuf_segments b)"
  shows "Free_Header \<in> set (rd_segment_destroy seg) \<longleftrightarrow> seg_header seg = Malloced"
proof -
  have "header_ok b seg" using buf_reach_inv [OF assms(1)] assms(2)
    by (auto simp: headers_ok_def list_all_iff)
  then show ?thesis by (auto simp: header_ok_def rd_segment_destroy_def split: option.splits)
qed

end
