(* ===== verification/Varint.thy ===== *)
theory Varint
  imports Prelude
begin

text \<open>
  Variable-length integers of the Kafka protocol: \<open>rdvarint.h\<close>. The encoder writes seven
  bits per byte, least significant group first, the top bit of a byte announcing another
  one; signed values are mapped to unsigned ones by the zig-zag transformation.

  The decoder shifts by 7 per byte and has no limit on the number of bytes it follows, so a
  run of ten or more continuation bytes makes C shift a 64-bit value by 70 bits, which is
  undefined: the model says so. A store outside the destination array is Undefined as well.
  The encoder's \<open>num << 1\<close> on a negative \<open>int64_t\<close>, or one of which the top bit is lost, is
  formally undefined too; there the model takes the two's complement result that GCC and
  Clang define for it and that the zig-zag encoding relies on.
\<close>

section \<open>The code\<close>

subsection \<open>Encoders\<close>

function rd_uvarint_enc_loop :: "byte list \<Rightarrow> nat \<Rightarrow> u64 \<Rightarrow> nat \<Rightarrow> (byte list \<times> nat) outcome" where
  "rd_uvarint_enc_loop dst dstsize num off =
     (if dstsize \<le> off then Return (dst, 0)
      else if length dst \<le> off then Undefined
      else let dst' = dst[off := ucast (num AND 0x7f) OR (if 0x7f < num then 0x80 else 0)];
               num' = drop_bit 7 num
           in if num' \<noteq> 0 then rd_uvarint_enc_loop dst' dstsize num' (off + 1)
              else Return (dst', off + 1))"
  by pat_completeness auto
termination
  by (relation "measure (\<lambda>(dst, dstsize, num, off). dstsize - off)") auto

declare rd_uvarint_enc_loop.simps [simp del]

text \<open>The returned pair is the destination array and the C return value (0: no space).\<close>

definition rd_uvarint_enc_u64 :: "byte list \<Rightarrow> nat \<Rightarrow> u64 \<Rightarrow> (byte list \<times> nat) outcome" where
  "rd_uvarint_enc_u64 dst dstsize num = rd_uvarint_enc_loop dst dstsize num 0"

definition rd_uvarint_enc_i64 :: "byte list \<Rightarrow> nat \<Rightarrow> u64 \<Rightarrow> (byte list \<times> nat) outcome" where
  "rd_uvarint_enc_i64 dst dstsize num =
     rd_uvarint_enc_u64 dst dstsize (push_bit 1 num XOR signed_drop_bit 63 num)"

definition rd_uvarint_enc_i32 :: "byte list \<Rightarrow> nat \<Rightarrow> u32 \<Rightarrow> (byte list \<times> nat) outcome" where
  "rd_uvarint_enc_i32 dst dstsize num = rd_uvarint_enc_i64 dst dstsize (scast num)"

definition RD_UVARINT_ENC_SIZEOF :: "nat \<Rightarrow> nat" where
  "RD_UVARINT_ENC_SIZEOF sz = sz + 1 + sz div 7"

subsection \<open>Decoders\<close>

text \<open>
  A decoder returns the C return value (0 for underflow) and the number stored through
  \<open>nump\<close>, None when nothing is stored.
\<close>

fun rd_uvarint_dec_loop ::
  "byte list \<Rightarrow> nat \<Rightarrow> nat \<Rightarrow> u64 \<Rightarrow> nat \<Rightarrow> (nat \<times> u64 option) outcome" where
  "rd_uvarint_dec_loop src 0 off num shift = Return (0, None)"
| "rd_uvarint_dec_loop src (Suc srcsize) off num shift =
     (if length src \<le> off \<or> 64 \<le> shift then Undefined
      else let num' = num OR push_bit shift (ucast (src ! off AND 0x7f))
           in if src ! off AND 0x80 \<noteq> 0
              then rd_uvarint_dec_loop src srcsize (off + 1) num' (shift + 7)
              else Return (off + 1, Some num'))"

definition rd_uvarint_dec :: "byte list \<Rightarrow> nat \<Rightarrow> (nat \<times> u64 option) outcome" where
  "rd_uvarint_dec src srcsize = rd_uvarint_dec_loop src srcsize 0 0 0"

definition RD_UVARINT_OVERFLOW :: "nat \<Rightarrow> bool" where
  "RD_UVARINT_OVERFLOW r \<longleftrightarrow> SIZE_MOD - 1 < r"

definition RD_UVARINT_UNDERFLOW :: "nat \<Rightarrow> bool" where
  "RD_UVARINT_UNDERFLOW r \<longleftrightarrow> r = 0"

definition RD_UVARINT_DEC_FAILED :: "nat \<Rightarrow> bool" where
  "RD_UVARINT_DEC_FAILED r \<longleftrightarrow> RD_UVARINT_UNDERFLOW r \<or> RD_UVARINT_OVERFLOW r"

definition zigzag_dec :: "u64 \<Rightarrow> u64" where
  "zigzag_dec n = drop_bit 1 n XOR - (n AND 1)"

definition rd_varint_dec_i64 :: "byte list \<Rightarrow> nat \<Rightarrow> (nat \<times> u64 option) outcome" where
  "rd_varint_dec_i64 src srcsize =
     obind (rd_uvarint_dec src srcsize) (\<lambda>(r, n).
       if \<not> RD_UVARINT_DEC_FAILED r
       then Return (r, map_option zigzag_dec n)
       else Return (r, None))"

section \<open>The byte sequence of a number\<close>

text \<open>What the encoder is to produce, as a function of the number alone.\<close>

function uvarint_bytes :: "u64 \<Rightarrow> byte list" where
  "uvarint_bytes num =
     (if num \<le> 0x7f then [ucast num]
      else (ucast (num AND 0x7f) OR 0x80) # uvarint_bytes (drop_bit 7 num))"
  by pat_completeness auto
termination
proof (relation "measure unat", simp)
  fix num :: u64
  assume "\<not> num \<le> 0x7f"
  then have "0 < unat num" by (simp add: word_le_nat_alt)
  then show "(drop_bit 7 num, num) \<in> measure unat"
    by (simp only: in_measure unat_drop_bit_eq) (simp add: drop_bit_eq_div)
qed

declare uvarint_bytes.simps [simp del]

section \<open>Bit-level facts\<close>

lemma unat_drop7: "unat (drop_bit 7 (num :: u64)) = unat num div 128"
  by (simp only: unat_drop_bit_eq) (simp add: drop_bit_eq_div)

lemma seven_bits_left_iff: "(0x7f < (num :: u64)) = (drop_bit 7 num \<noteq> 0)"
proof -
  have "drop_bit 7 num \<noteq> 0 \<longleftrightarrow> unat (drop_bit 7 num) \<noteq> 0"
    by (simp only: unat_eq_zero)
  also have "\<dots> \<longleftrightarrow> 127 < unat num"
    by (simp only: unat_drop7) auto
  also have "\<dots> \<longleftrightarrow> 0x7f < num"
    by (simp add: word_less_nat_alt)
  finally show ?thesis by simp
qed

lemma mask7_u64: "(0x7f :: u64) = mask 7"
  by (simp add: mask_eq_exp_minus_1)

lemma mask7_u8: "(0x7f :: byte) = mask 7"
  by (simp add: mask_eq_exp_minus_1)

lemma bit_0x80 [simp]: "bit (0x80 :: int) n \<longleftrightarrow> n = 7"
proof -
  have "(0x80 :: int) = 2 ^ 7" by simp
  then show ?thesis by (simp only: bit_exp_iff) auto
qed

lemma and_0x80_iff: "((b :: byte) AND 0x80 \<noteq> 0) = bit b 7"
proof
  assume "b AND 0x80 \<noteq> 0"
  then obtain n where "bit (b AND 0x80) n" by (metis bit_0_eq bit_eqI bot_apply bot_bool_def)
  then show "bit b 7" by (auto simp: bit_and_iff)
next
  assume "bit b 7"
  then have "bit (b AND 0x80) 7" by (simp add: bit_and_iff)
  then show "b AND 0x80 \<noteq> 0" by auto
qed

lemma drop_bit_zero_bound: "drop_bit k v = 0 \<Longrightarrow> bit v n \<Longrightarrow> n < k"
  by (metis bit_0_eq bit_drop_bit_eq bot_apply bot_bool_def comp_apply le_add_diff_inverse
      not_le_imp_less)

lemma low_group_of_cont_byte:
  "ucast ((ucast (v AND 0x7f) OR 0x80 :: byte) AND 0x7f) = (v AND 0x7f :: u64)"
  unfolding mask7_u64 mask7_u8
  by (rule bit_eqI) (auto simp: bit_simps)

lemma low_group_of_last_byte:
  assumes "v \<le> 0x7f"
  shows "ucast ((ucast v :: byte) AND 0x7f) = (v :: u64)"
proof -
  have "drop_bit 7 v = 0" using assms seven_bits_left_iff [of v] by auto
  then have "bit v n \<Longrightarrow> n < 7" for n by (rule drop_bit_zero_bound)
  then show ?thesis unfolding mask7_u8
    by (auto intro!: bit_eqI simp: bit_simps) fastforce
qed

lemma cont_byte_flag: "bit (ucast (v AND 0x7f :: u64) OR 0x80 :: byte) 7"
  by (simp add: bit_or_iff)

lemma last_byte_flag: "v \<le> 0x7f \<Longrightarrow> \<not> bit (ucast (v :: u64) :: byte) 7"
  using seven_bits_left_iff [of v] drop_bit_zero_bound [of 7 v 7]
  by (auto simp: bit_simps not_less)

lemma groups_join:
  "push_bit s (v AND 0x7f) OR push_bit (s + 7) (drop_bit 7 v) = push_bit s (v :: u64)"
proof (rule bit_eqI)
  fix n
  show "bit (push_bit s (v AND 0x7f) OR push_bit (s + 7) (drop_bit 7 v)) n = bit (push_bit s v) n"
    unfolding mask7_u64
    by (cases "s + 7 \<le> n") (auto simp: bit_simps)
qed

lemma zigzag_dec_enc [simp]:
  "zigzag_dec (push_bit 1 num XOR signed_drop_bit 63 num) = (num :: u64)"
proof -
  let ?z = "push_bit 1 num XOR signed_drop_bit 63 num"
  define d where "d = drop_bit 1 ?z"
  have "odd ?z \<longleftrightarrow> bit num 63"
    by (simp add: bit_simps flip: bit_0 del: push_bit_Suc)
  then have sign: "- (?z AND 1) = (if bit num 63 then - 1 else 0)"
    by (auto simp: and_one_eq mod2_eq_if)
  have half: "bit d n \<longleftrightarrow> n < 63 \<and> (bit num n \<noteq> bit num 63)" if "n < 64" for n
    using that unfolding d_def
    by (auto simp: bit_simps simp del: push_bit_Suc dest: bit_imp_le_length)
  have "bit (d XOR (if bit num 63 then - 1 else 0)) n = bit num n" if "n < 64" for n
  proof (cases "n = 63")
    case True
    then show ?thesis using half [OF that] by (simp add: bit_xor_iff)
  next
    case False
    then have "n < 63" using that by simp
    then show ?thesis using half [OF that] by (auto simp: bit_xor_iff)
  qed
  then show ?thesis unfolding zigzag_dec_def sign d_def by (auto intro: bit_eqI)
qed

section \<open>Encoder and decoder\<close>

lemma uvarint_bytes_nonempty [simp]: "uvarint_bytes num \<noteq> []"
  by (subst uvarint_bytes.simps) simp

lemma uvarint_bytes_Cons:
  "0x7f < num \<Longrightarrow>
   uvarint_bytes num = (ucast (num AND 0x7f) OR 0x80) # uvarint_bytes (drop_bit 7 num)"
  by (subst uvarint_bytes.simps) (auto simp: not_le)

lemma uvarint_bytes_last: "num \<le> 0x7f \<Longrightarrow> uvarint_bytes num = [ucast num]"
  by (subst uvarint_bytes.simps) simp

lemma last_group:
  assumes "num \<le> 0x7f"
  shows "(num :: u64) AND 0x7f = num"
proof (rule bit_eqI)
  have "drop_bit 7 num = 0" using assms seven_bits_left_iff [of num] by auto
  then show "bit (num AND 0x7f) n = bit num n" for n
    using drop_bit_zero_bound [of 7 num n] unfolding mask7_u64
    by (auto simp: bit_and_iff bit_mask_iff)
qed

text \<open>A value of \<open>k\<close> significant bits takes \<open>k\<close> divided by 7, rounded up, bytes.\<close>

lemma uvarint_bytes_length:
  "unat num < 128 ^ Suc k \<Longrightarrow> length (uvarint_bytes num) \<le> Suc k"
proof (induction k arbitrary: num)
  case 0
  then have "num \<le> 0x7f" by (simp add: word_le_nat_alt)
  then show ?case by (simp add: uvarint_bytes_last)
next
  case (Suc k)
  show ?case
  proof (cases "0x7f < num")
    case True
    have "unat num < 128 ^ Suc k * 128" using Suc.prems by (simp only: power_Suc2)
    then have "unat (drop_bit 7 num) < 128 ^ Suc k"
      unfolding unat_drop7 by (rule less_mult_imp_div_less)
    then have "length (uvarint_bytes (drop_bit 7 num)) \<le> Suc k" by (rule Suc.IH)
    then show ?thesis by (simp only: uvarint_bytes_Cons [OF True] list.size)
  next
    case False
    then show ?thesis by (simp add: uvarint_bytes_last)
  qed
qed

lemma uvarint_bytes_max: "length (uvarint_bytes num) \<le> 10"
proof -
  have "unat num < 128 ^ Suc 9"
    using unsigned_less [of num, where ?'a = nat] by (rule less_le_trans) simp
  from uvarint_bytes_length [OF this] show ?thesis by simp
qed

lemma rd_uvarint_enc_loop_fits:
  "off + length (uvarint_bytes num) \<le> dstsize \<Longrightarrow> dstsize \<le> length dst \<Longrightarrow>
   rd_uvarint_enc_loop dst dstsize num off =
     Return (overwrite off (uvarint_bytes num) dst, off + length (uvarint_bytes num))"
proof (induction dst dstsize num off rule: rd_uvarint_enc_loop.induct)
  case (1 dst dstsize num off)
  have "off < dstsize" using 1 by (cases "uvarint_bytes num") auto
  show ?case
  proof (cases "0x7f < num")
    case True
    let ?b = "ucast (num AND 0x7f) OR 0x80 :: byte"
    have "rd_uvarint_enc_loop (dst[off := ?b]) dstsize (drop_bit 7 num) (off + 1) =
       Return (overwrite (off + 1) (uvarint_bytes (drop_bit 7 num)) (dst[off := ?b]),
        off + 1 + length (uvarint_bytes (drop_bit 7 num)))"
      using "1.IH" \<open>off < dstsize\<close> True "1.prems"
      by (simp add: seven_bits_left_iff [symmetric] uvarint_bytes_Cons)
    moreover have "overwrite (off + 1) (uvarint_bytes (drop_bit 7 num)) (dst[off := ?b])
        = overwrite off (uvarint_bytes num) dst"
      using \<open>off < dstsize\<close> "1.prems" True
      by (simp add: overwrite_def uvarint_bytes_Cons take_Suc_conv_app_nth)
    moreover have "off < length dst" using \<open>off < dstsize\<close> "1.prems" by simp
    ultimately show ?thesis using True \<open>off < dstsize\<close>
      by (simp add: rd_uvarint_enc_loop.simps [of dst dstsize num off]
          seven_bits_left_iff [symmetric] uvarint_bytes_Cons)
  next
    case False
    then show ?thesis using \<open>off < dstsize\<close> "1.prems"
      by (simp add: rd_uvarint_enc_loop.simps [of dst dstsize num off]
          seven_bits_left_iff [symmetric] uvarint_bytes_last last_group overwrite_def
          list_update_take_drop)
  qed
qed

lemma rd_uvarint_enc_loop_no_space:
  "dstsize < off + length (uvarint_bytes num) \<Longrightarrow> dstsize \<le> length dst \<Longrightarrow>
   \<exists>dst'. rd_uvarint_enc_loop dst dstsize num off = Return (dst', 0) \<and>
     length dst' = length dst \<and> drop dstsize dst' = drop dstsize dst"
proof (induction dst dstsize num off rule: rd_uvarint_enc_loop.induct)
  case (1 dst dstsize num off)
  show ?case
  proof (cases "dstsize \<le> off")
    case True
    then show ?thesis by (simp add: rd_uvarint_enc_loop.simps [of dst dstsize num off])
  next
    case False
    then have "0x7f < num" using "1.prems" by (auto simp: not_le [symmetric] uvarint_bytes_last)
    then show ?thesis using False "1.IH" "1.prems"
      by (simp add: rd_uvarint_enc_loop.simps [of dst dstsize num off]
          seven_bits_left_iff [symmetric] uvarint_bytes_Cons Let_def)
  qed
qed

text \<open>
  The decoder's accumulator: after \<open>shift\<close> bits it holds the groups read so far, and the
  bytes of \<open>v\<close> still to come add \<open>v\<close> shifted into place.
\<close>

lemma rd_uvarint_dec_loop_bytes:
  "src = pre @ uvarint_bytes v @ post \<Longrightarrow> off = length pre \<Longrightarrow>
   length (uvarint_bytes v) \<le> srcsize \<Longrightarrow> shift + 7 * (length (uvarint_bytes v) - 1) < 64 \<Longrightarrow>
   rd_uvarint_dec_loop src srcsize off num shift =
     Return (off + length (uvarint_bytes v), Some (num OR push_bit shift v))"
proof (induction v arbitrary: pre off num shift srcsize rule: uvarint_bytes.induct)
  case (1 v)
  then obtain n where n: "srcsize = Suc n" by (cases srcsize) auto
  show ?case
  proof (cases "0x7f < v")
    case True
    let ?b = "ucast (v AND 0x7f) OR 0x80 :: byte"
    have src: "src = (pre @ [?b]) @ uvarint_bytes (drop_bit 7 v) @ post"
      using "1.prems"(1) True by (simp add: uvarint_bytes_Cons)
    have nth: "src ! off = ?b" using src "1.prems"(2) by (simp add: nth_append)
    obtain k where len: "length (uvarint_bytes (drop_bit 7 v)) = Suc k"
      by (cases "uvarint_bytes (drop_bit 7 v)") auto
    have "rd_uvarint_dec_loop src n (off + 1) (num OR push_bit shift (v AND 0x7f)) (shift + 7) =
      Return (off + 1 + length (uvarint_bytes (drop_bit 7 v)),
        Some ((num OR push_bit shift (v AND 0x7f)) OR push_bit (shift + 7) (drop_bit 7 v)))"
      by (rule "1.IH" [OF _ src])
        (use True "1.prems"(2,3,4) n len in \<open>auto simp: uvarint_bytes_Cons\<close>)
    moreover have "off < length src" using src "1.prems"(2) by simp
    ultimately show ?thesis using n nth True "1.prems"(4)
      by (simp add: and_0x80_iff cont_byte_flag low_group_of_cont_byte or.assoc groups_join
          uvarint_bytes_Cons del: push_bit_and)
  next
    case False
    then have b: "uvarint_bytes v = [ucast v]" by (simp add: uvarint_bytes_last)
    then have "src ! off = ucast v" and "off < length src"
      using "1.prems"(1,2) by auto
    then show ?thesis using n b False "1.prems"(4) and_0x80_iff [of "ucast v"]
      by (simp add: last_byte_flag low_group_of_last_byte)
  qed
qed

lemma rd_uvarint_dec_bytes:
  assumes "length (uvarint_bytes v) \<le> srcsize"
  shows "rd_uvarint_dec (uvarint_bytes v @ post) srcsize =
    Return (length (uvarint_bytes v), Some v)"
proof -
  have "0 + 7 * (length (uvarint_bytes v) - 1) < 64"
    using uvarint_bytes_max [of v] by simp
  from rd_uvarint_dec_loop_bytes [of _ "[]" v post 0 srcsize 0 0, OF refl _ assms this]
  show ?thesis by (simp add: rd_uvarint_dec_def)
qed

section \<open>Properties\<close>

text \<open>
  C23. \<open>rd_uvarint_enc_i64\<close> on a destination of at least \<open>sz\<close> bytes always returns, never
  stores outside the first \<open>sz\<close> bytes of it, also when it gives up, and either stores the whole
  encoding, at most 10 bytes, and returns its length, or returns 0 if the destination is too
  small; \<open>RD_UVARINT_ENC_SIZEOF(int64_t)\<close> bytes are always enough. What it stores is decoded
  by \<open>rd_varint_dec_i64\<close> to the same number, whatever bytes follow.
\<close>

theorem varint_i64_roundtrip:
  assumes "sz \<le> length dst"
  shows "\<exists>dst' n. rd_uvarint_enc_i64 dst sz num = Return (dst', n) \<and>
    length dst' = length dst \<and> drop sz dst' = drop sz dst \<and>
    (n = 0 \<longrightarrow> sz < RD_UVARINT_ENC_SIZEOF 8) \<and>
    (0 < n \<longrightarrow> n \<le> sz \<and> n \<le> RD_UVARINT_ENC_SIZEOF 8 \<and> drop n dst' = drop n dst \<and>
      (\<forall>junk. \<forall>srcsize\<ge>n. rd_varint_dec_i64 (take n dst' @ junk) srcsize = Return (n, Some num)))"
proof -
  define z where "z = push_bit 1 num XOR signed_drop_bit 63 num"
  have z: "zigzag_dec z = num" unfolding z_def by (rule zigzag_dec_enc)
  have enc: "rd_uvarint_enc_i64 dst sz num = rd_uvarint_enc_loop dst sz z 0"
    unfolding rd_uvarint_enc_i64_def rd_uvarint_enc_u64_def z_def ..
  have max: "length (uvarint_bytes z) \<le> RD_UVARINT_ENC_SIZEOF 8"
    using uvarint_bytes_max [of z] by (simp add: RD_UVARINT_ENC_SIZEOF_def)
  show ?thesis
  proof (cases "length (uvarint_bytes z) \<le> sz")
    case True
    let ?n = "length (uvarint_bytes z)" and ?dst = "overwrite 0 (uvarint_bytes z) dst"
    have "rd_uvarint_enc_i64 dst sz num = Return (?dst, ?n)"
      using enc rd_uvarint_enc_loop_fits [of 0 z sz dst] assms True by simp
    moreover have "\<not> RD_UVARINT_DEC_FAILED ?n" using uvarint_bytes_max [of z]
      by (simp add: RD_UVARINT_DEC_FAILED_def RD_UVARINT_UNDERFLOW_def RD_UVARINT_OVERFLOW_def)
    then have "rd_varint_dec_i64 (take ?n ?dst @ junk) srcsize = Return (?n, Some num)"
      if "?n \<le> srcsize" for junk srcsize
      using rd_uvarint_dec_bytes [of z srcsize junk] that z
      by (simp add: rd_varint_dec_i64_def overwrite_def)
    ultimately show ?thesis using True assms max by (simp add: overwrite_def)
  next
    case False
    then show ?thesis using rd_uvarint_enc_loop_no_space [of sz 0 z dst] enc assms max by auto
  qed
qed

theorem varint_i64_roundtrip_witness:
  "rd_varint_dec_i64 [249, 3, 5, 5] 3 = Return (2, Some (- 253))"
proof -
  have "rd_uvarint_enc_i64 [0, 0, 7] 3 (- 253) = Return ([249, 3, 7], 2)"
    by (simp add: rd_uvarint_enc_i64_def rd_uvarint_enc_u64_def rd_uvarint_enc_loop.simps)
  then have "\<forall>junk. \<forall>srcsize\<ge>2.
      rd_varint_dec_i64 (take 2 [249, 3, 7] @ junk) srcsize = Return (2, Some (- 253))"
    using varint_i64_roundtrip [of 3 "[0, 0, 7]" "- 253"] by simp
  from this [rule_format, of 3 "[5, 5]"] show ?thesis by simp
qed

lemma dec_loop_continues:
  assumes "list_all (\<lambda>c. bit c 7) (take n (drop off src))" "off + n < length src" "n < srcsize"
    "64 \<le> shift + 7 * n"
  shows "rd_uvarint_dec_loop src srcsize off num shift = Undefined"
  using assms
proof (induction n arbitrary: srcsize off num shift)
  case 0
  then show ?case by (cases srcsize) auto
next
  case (Suc n)
  then obtain k where k: "srcsize = Suc k" by (cases srcsize) auto
  show ?case
  proof (cases "64 \<le> shift")
    case True
    then show ?thesis using k by simp
  next
    case False
    have d: "drop off src = src ! off # drop (Suc off) src"
      using Suc.prems(2) by (simp add: Cons_nth_drop_Suc)
    then have "bit (src ! off) 7" "list_all (\<lambda>c. bit c 7) (take n (drop (Suc off) src))"
      using Suc.prems(1) by simp_all
    moreover have "rd_uvarint_dec_loop src k (Suc off) num' (shift + 7) = Undefined" for num'
      using Suc.prems calculation(2) k by (intro Suc.IH) auto
    ultimately show ?thesis using k False Suc.prems(2) and_0x80_iff [of "src ! off"] by simp
  qed
qed

text \<open>
  The decoder has no limit on the number of continuation bytes: ten bytes with the
  continuation bit set, followed by one more, make it shift a 64-bit value by 70, which is
  undefined behaviour, instead of reporting the overflow that \<open>RD_UVARINT_OVERFLOW\<close>
  announces; that test is false for every value a \<open>size_t\<close> can have.
\<close>

lemma varint_decoder_unbounded:
  assumes "list_all (\<lambda>c. c AND 0x80 \<noteq> 0) (take 10 src)" "10 < srcsize" "srcsize \<le> length src"
  shows "rd_uvarint_dec src srcsize = Undefined \<and> (\<forall>r < SIZE_MOD. \<not> RD_UVARINT_OVERFLOW r)"
proof
  show "rd_uvarint_dec src srcsize = Undefined" unfolding rd_uvarint_dec_def
    by (rule dec_loop_continues [of 10])
      (use assms in \<open>simp_all only: and_0x80_iff\<close>, simp_all)
  show "\<forall>r < SIZE_MOD. \<not> RD_UVARINT_OVERFLOW r" by (simp add: RD_UVARINT_OVERFLOW_def)
qed

lemma dec_loop_prefix:
  "src = pre @ take k (uvarint_bytes v) \<Longrightarrow> k < length (uvarint_bytes v) \<Longrightarrow> off = length pre \<Longrightarrow>
   shift + 7 * k < 71 \<Longrightarrow> rd_uvarint_dec_loop src k off num shift = Return (0, None)"
proof (induction v arbitrary: pre off num shift k rule: uvarint_bytes.induct)
  case (1 v)
  show ?case
  proof (cases k)
    case (Suc j)
    then have big: "0x7f < v" using "1.prems"(2) by (auto simp: not_le [symmetric] uvarint_bytes_last)
    let ?b = "ucast (v AND 0x7f) OR 0x80 :: byte"
    have src: "src = (pre @ [?b]) @ take j (uvarint_bytes (drop_bit 7 v))"
      using "1.prems"(1) Suc by (simp add: uvarint_bytes_Cons [OF big])
    have "rd_uvarint_dec_loop src j (Suc off) num' (shift + 7) = Return (0, None)" for num'
      by (rule "1.IH" [OF _ src]) (use "1.prems" Suc big in \<open>auto simp: uvarint_bytes_Cons [OF big]\<close>)
    moreover have "src ! off = ?b" "off < length src" using src "1.prems"(3) by (simp_all add: nth_append)
    ultimately show ?thesis using Suc "1.prems"(4) by (simp add: and_0x80_iff cont_byte_flag)
  qed simp
qed

text \<open>
  A proper prefix of an encoding, which is what a buffer holds when a message arrived only
  in part, is reported as an underflow: the decoder reads no further and stores nothing.
\<close>

lemma varint_prefix_underflows:
  assumes "k < length (uvarint_bytes v)"
  shows "rd_varint_dec_i64 (take k (uvarint_bytes v)) k = Return (0, None)"
proof -
  have "rd_uvarint_dec_loop (take k (uvarint_bytes v)) k 0 0 0 = Return (0, None)"
    using dec_loop_prefix [of _ "[]" k v 0 0] assms uvarint_bytes_max [of v] by auto
  then show ?thesis
    by (simp add: rd_varint_dec_i64_def rd_uvarint_dec_def RD_UVARINT_DEC_FAILED_def
        RD_UVARINT_UNDERFLOW_def)
qed

end
