(* ===== verification/Slice.thy ===== *)
theory Slice
  imports Rdbuf_Reach Varint
begin

text \<open>
  The read side of \<open>rdbuf.h\<close> and \<open>rdbuf.c\<close>: a slice is a window \<open>start\<close> to \<open>end\<close> on a buffer
  with a read position, the segment \<open>seg\<close> and the offset \<open>rof\<close> in it. Reading never changes
  the buffer. Sizes and offsets that come from the wire are \<open>size_t\<close> values, so the sums the
  code forms before it checks them are taken modulo \<open>SIZE_MOD\<close>.

  The loop \<open>while ((rlen = rd_slice_reader(slice, &p)))\<close>, over the contiguous pieces of a
  slice, is the definition \<open>rd_slice_foreach\<close>; the functions that consist of it instantiate
  its body. None is a loop that does not end.
\<close>

section \<open>The code\<close>

record rd_slice =
  sl_buf :: rd_buf
  sl_seg :: "nat option"
  sl_rof :: nat
  sl_start :: nat
  sl_end :: nat

abbreviation sl_segment :: "rd_slice \<Rightarrow> nat \<Rightarrow> rd_segment" where
  "sl_segment sl i \<equiv> rbuf_segments (sl_buf sl) ! i"

definition rd_slice_abs_offset :: "rd_slice \<Rightarrow> nat" where
  "rd_slice_abs_offset sl =
     (case sl_seg sl of
        None \<Rightarrow> sl_end sl
      | Some i \<Rightarrow> seg_absof (sl_segment sl i) + sl_rof sl)"

definition rd_slice_remains :: "rd_slice \<Rightarrow> nat" where
  "rd_slice_remains sl = size_sub (sl_end sl) (rd_slice_abs_offset sl)"

definition rd_slice_size :: "rd_slice \<Rightarrow> nat" where
  "rd_slice_size sl = size_sub (sl_end sl) (sl_start sl)"

definition rd_slice_pos :: "rd_slice \<Rightarrow> rd_slice" where
  "rd_slice_pos sl =
     (case sl_seg sl of
        None \<Rightarrow> sl
      | Some i \<Rightarrow> sl\<lparr>sl_start := seg_absof (sl_segment sl i) + sl_rof sl\<rparr>)"

definition rd_slice_offset :: "rd_slice \<Rightarrow> nat" where
  "rd_slice_offset sl =
     (case sl_seg sl of
        None \<Rightarrow> rd_slice_size sl
      | Some i \<Rightarrow> size_sub (seg_absof (sl_segment sl i) + sl_rof sl) (sl_start sl))"

text \<open>Initialisers return the slice, or None for the C return value -1.\<close>

definition rd_slice_init_seg :: "rd_buf \<Rightarrow> nat \<Rightarrow> nat \<Rightarrow> nat \<Rightarrow> rd_slice option outcome" where
  "rd_slice_init_seg b i rof sz =
     (let absof = seg_absof (rbuf_segments b ! i)
      in if rbuf_len b < size_add (absof + rof) sz then Return None
         else let start = absof + rof;
                  sl = \<lparr>sl_buf = b, sl_seg = Some i, sl_rof = rof, sl_start = start,
                        sl_end = size_add start sz\<rparr>
              in obind (rd_assert (sl_start sl \<le> absof + rof \<and> absof + rof \<le> sl_end sl)) (\<lambda>_.
                 obind (rd_assert (sl_end sl \<le> rbuf_len b)) (\<lambda>_. Return (Some sl))))"

definition rd_slice_init :: "rd_buf \<Rightarrow> nat \<Rightarrow> nat \<Rightarrow> rd_slice option outcome" where
  "rd_slice_init b absof sz =
     obind (rd_buf_get_segment_at_offset b None absof) (\<lambda>seg.
       case seg of
         None \<Rightarrow> Return None
       | Some i \<Rightarrow> rd_slice_init_seg b i (absof - seg_absof (rbuf_segments b ! i)) sz)"

definition rd_slice_init_full :: "rd_buf \<Rightarrow> rd_slice outcome" where
  "rd_slice_init_full b =
     obind (rd_slice_init b 0 (rbuf_len b)) (\<lambda>r.
       case r of None \<Rightarrow> Assert_Failed | Some sl \<Rightarrow> Return sl)"

text \<open>
  \<open>rd_slice_reader0\<close>: the scan for a segment with unread bytes (None: the end of the list),
  and the slice, the pointer (segment and offset) and the length returned.
\<close>

function reader_scan :: "rd_slice \<Rightarrow> nat \<Rightarrow> nat \<Rightarrow> (nat \<times> nat) option" where
  "reader_scan sl i rof =
     (if i < length (rbuf_segments (sl_buf sl)) then
        let seg = sl_segment sl i
        in if seg_absof seg + rof < sl_end sl \<and> seg_of seg = rof
           then reader_scan sl (i + 1) 0
           else Some (i, rof)
      else None)"
  by pat_completeness auto
termination
  by (relation "measure (\<lambda>(sl, i, rof). length (rbuf_segments (sl_buf sl)) - i)") auto

declare reader_scan.simps [simp del]

definition rd_slice_reader0 ::
  "rd_slice \<Rightarrow> bool \<Rightarrow> (rd_slice \<times> (nat \<times> nat) option \<times> nat) outcome" where
  "rd_slice_reader0 sl update_pos =
     (case (case sl_seg sl of None \<Rightarrow> None | Some i \<Rightarrow> reader_scan sl i (sl_rof sl)) of
        None \<Rightarrow> Return (sl, None, 0)
      | Some (i, rof) \<Rightarrow>
          let seg = sl_segment sl i; absof = seg_absof seg + rof
          in if sl_end sl \<le> absof then Return (sl, None, 0)
             else
               let rlen = min (size_sub (seg_of seg) rof) (rd_slice_remains sl)
               in if update_pos
                  then if sl_seg sl \<noteq> Some i
                    then obind (rd_assert (sl_start sl \<le> absof \<and> absof + rlen \<le> sl_end sl)) (\<lambda>_.
                           Return (sl\<lparr>sl_seg := Some i, sl_rof := rlen\<rparr>, Some (i, rof), rlen))
                    else Return (sl\<lparr>sl_rof := sl_rof sl + rlen\<rparr>, Some (i, rof), rlen)
                  else Return (sl, Some (i, rof), rlen))"

definition rd_slice_reader :: "rd_slice \<Rightarrow> (rd_slice \<times> (nat \<times> nat) option \<times> nat) outcome" where
  "rd_slice_reader sl = rd_slice_reader0 sl True"

definition rd_slice_peeker :: "rd_slice \<Rightarrow> (rd_slice \<times> (nat \<times> nat) option \<times> nat) outcome" where
  "rd_slice_peeker sl = rd_slice_reader0 sl False"

text \<open>The \<open>n\<close> bytes at a pointer the reader returned.\<close>

definition rd_mem :: "rd_buf \<Rightarrow> (nat \<times> nat) option \<Rightarrow> nat \<Rightarrow> byte list" where
  "rd_mem b p n =
     (case p of
        None \<Rightarrow> []
      | Some (i, rof) \<Rightarrow> take n (drop rof (seg_p (rbuf_segments b ! i))))"

partial_function (option) rd_slice_foreach ::
  "(byte list \<Rightarrow> 's \<Rightarrow> 's outcome option) \<Rightarrow> rd_slice \<Rightarrow> 's \<Rightarrow> (rd_slice \<times> 's) outcome option"
  where
  "rd_slice_foreach body sl s =
     (case rd_slice_reader sl of
        Return (sl', p, rlen) \<Rightarrow>
          if rlen = 0 then Some (Return (sl', s))
          else Option.bind (body (rd_mem (sl_buf sl) p rlen) s) (\<lambda>r.
                 case r of
                   Return s' \<Rightarrow> rd_slice_foreach body sl' s'
                 | Assert_Failed \<Rightarrow> Some Assert_Failed
                 | Undefined \<Rightarrow> Some Undefined)
      | Assert_Failed \<Rightarrow> Some Assert_Failed
      | Undefined \<Rightarrow> Some Undefined)"

text \<open>
  \<open>rd_slice_read\<close>: the slice after the read and the bytes copied to \<open>dst\<close>, None for the
  return value 0 of a read that does not fit (and of a read of 0 bytes, which the caller
  cannot tell apart: the list is then empty).
\<close>

definition rd_slice_read :: "rd_slice \<Rightarrow> nat \<Rightarrow> (rd_slice \<times> byte list option) outcome option" where
  "rd_slice_read sl sz =
     (if rd_slice_remains sl < sz then Some (Return (sl, None))
      else map_option
             (\<lambda>m. obind m (\<lambda>(sl', dst). Return (sl'\<lparr>sl_end := sl_end sl\<rparr>, Some dst)))
             (rd_slice_foreach (\<lambda>bytes dst. Some (Return (dst @ bytes)))
                (sl\<lparr>sl_end := rd_slice_abs_offset sl + sz\<rparr>) []))"

definition rd_slice_seek :: "rd_slice \<Rightarrow> nat \<Rightarrow> (rd_slice \<times> bool) outcome" where
  "rd_slice_seek sl offset =
     (let absof = size_add (sl_start sl) offset
      in if sl_end sl \<le> absof then Return (sl, False)
         else obind (rd_buf_get_segment_at_offset (sl_buf sl) (sl_seg sl) absof) (\<lambda>found.
           case found of
             None \<Rightarrow> Assert_Failed
           | Some i \<Rightarrow>
               let seg = sl_segment sl i;
                   rof = absof - seg_absof seg
               in obind (rd_assert (sl_start sl \<le> seg_absof seg + rof \<and>
                                    seg_absof seg + rof \<le> sl_end sl)) (\<lambda>_.
                    Return (sl\<lparr>sl_seg := Some i, sl_rof := rof\<rparr>, True))))"

definition rd_slice_peek :: "rd_slice \<Rightarrow> nat \<Rightarrow> nat \<Rightarrow> byte list option outcome option" where
  "rd_slice_peek sl offset sz =
     (case rd_slice_seek sl offset of
        Return (sub, done) \<Rightarrow>
          if \<not> done then Some (Return None)
          else map_option (\<lambda>m. obind m (\<lambda>(_, r). Return r)) (rd_slice_read sub sz)
      | Assert_Failed \<Rightarrow> Some Assert_Failed
      | Undefined \<Rightarrow> Some Undefined)"

text \<open>\<open>rd_slice_ensure_contig\<close>: the pointer returned (None: NULL) and the advanced slice.\<close>

definition rd_slice_ensure_contig ::
  "rd_slice \<Rightarrow> nat \<Rightarrow> (rd_slice \<times> (nat \<times> nat) option) outcome option" where
  "rd_slice_ensure_contig sl sz =
     (if rd_slice_remains sl < sz then Some (Return (sl, None))
      else case sl_seg sl of
        None \<Rightarrow> Some Undefined
      | Some i \<Rightarrow>
          if seg_of (sl_segment sl i) < size_add (sl_rof sl) sz then Some (Return (sl, None))
          else map_option (\<lambda>m. obind m (\<lambda>(sl', _). Return (sl', Some (i, sl_rof sl))))
                 (rd_slice_read sl sz))"

text \<open>
  Narrowing: None is the return value 0, else the narrowed slice and the saved one.
\<close>

definition rd_slice_narrow :: "rd_slice \<Rightarrow> nat \<Rightarrow> (rd_slice \<times> rd_slice) option outcome" where
  "rd_slice_narrow sl sz =
     (if sl_end sl < size_add (sl_start sl) sz then Return None
      else let sl' = sl\<lparr>sl_end := size_add (sl_start sl) sz\<rparr>
           in obind (rd_assert (rd_slice_abs_offset sl' \<le> sl_end sl')) (\<lambda>_.
                Return (Some (sl', sl))))"

definition rd_slice_narrow_relative :: "rd_slice \<Rightarrow> nat \<Rightarrow> (rd_slice \<times> rd_slice) option outcome" where
  "rd_slice_narrow_relative sl relsize =
     rd_slice_narrow sl (size_add (rd_slice_offset sl) relsize)"

definition rd_slice_widen :: "rd_slice \<Rightarrow> rd_slice \<Rightarrow> rd_slice" where
  "rd_slice_widen sl save = sl\<lparr>sl_end := sl_end save\<rparr>"

definition rd_slice_narrow_copy :: "rd_slice \<Rightarrow> nat \<Rightarrow> rd_slice option outcome" where
  "rd_slice_narrow_copy orig sz =
     (if sl_end orig < size_add (sl_start orig) sz then Return None
      else let new = orig\<lparr>sl_end := size_add (sl_start orig) sz\<rparr>
           in obind (rd_assert (rd_slice_abs_offset new \<le> sl_end new)) (\<lambda>_. Return (Some new)))"

definition rd_slice_narrow_copy_relative :: "rd_slice \<Rightarrow> nat \<Rightarrow> rd_slice option outcome" where
  "rd_slice_narrow_copy_relative orig relsize =
     rd_slice_narrow_copy orig (size_add (rd_slice_offset orig) relsize)"

text \<open>
  \<open>rd_slice_get_iov\<close>: the regions, as pointer and length, from the read position on.
\<close>

partial_function (option) rd_slice_get_iov_loop ::
  "rd_slice \<Rightarrow> nat \<Rightarrow> nat \<Rightarrow> ((nat \<times> nat) option \<times> nat) list \<Rightarrow> nat \<Rightarrow>
   (((nat \<times> nat) option \<times> nat) list \<times> nat) outcome option" where
  "rd_slice_get_iov_loop sl iov_max size_max iovs acc =
     (if \<not> (acc < size_max \<and> length iovs < iov_max) then Some (Return (iovs, acc))
      else case rd_slice_reader sl of
        Return (sl', p, rlen) \<Rightarrow>
          if rlen = 0 then Some (Return (iovs, acc))
          else rd_slice_get_iov_loop sl' iov_max size_max (iovs @ [(p, rlen)]) (acc + rlen)
      | Assert_Failed \<Rightarrow> Some Assert_Failed
      | Undefined \<Rightarrow> Some Undefined)"

definition rd_slice_get_iov ::
  "rd_slice \<Rightarrow> nat \<Rightarrow> nat \<Rightarrow> (((nat \<times> nat) option \<times> nat) list \<times> nat) outcome option" where
  "rd_slice_get_iov sl iov_max size_max = rd_slice_get_iov_loop sl iov_max size_max [] 0"

text \<open>\<open>rd_buf_write_slice\<close>: the written buffer, the read slice and the value returned.\<close>

definition rd_buf_write_slice ::
  "rd_buf \<Rightarrow> rd_slice \<Rightarrow> (rd_slice \<times> rd_buf \<times> nat) outcome option" where
  "rd_buf_write_slice b sl =
     rd_slice_foreach
       (\<lambda>bytes (b1, acc).
          map_option (\<lambda>m. obind m (\<lambda>(b2, r). Return (b2, acc + r)))
            (rd_buf_write b1 (Some bytes) (length bytes)))
       sl (b, 0)"

text \<open>
  \<open>rd_varint_dec_slice\<close> (\<open>rdvarint.c\<close>): the loop has no bound on \<open>shift\<close>; a shift by 64 or
  more is undefined.
\<close>

partial_function (option) rd_varint_dec_slice_loop ::
  "rd_slice \<Rightarrow> u64 \<Rightarrow> nat \<Rightarrow> (rd_slice \<times> nat \<times> u64 option) outcome option" where
  "rd_varint_dec_slice_loop sl num shift =
     Option.bind (rd_slice_read sl 1) (\<lambda>m.
       case m of
         Return (sl', r) \<Rightarrow>
           (case r of
              None \<Rightarrow> Some (Return (sl', 0, None))
            | Some octs \<Rightarrow>
                if octs = [] \<or> 64 \<le> shift then Some Undefined
                else let num' = num OR push_bit shift (ucast (hd octs AND 0x7f))
                     in if hd octs AND 0x80 \<noteq> 0
                        then rd_varint_dec_slice_loop sl' num' (shift + 7)
                        else Some (Return (sl', (shift + 7) div 7, Some (zigzag_dec num'))))
       | Assert_Failed \<Rightarrow> Some Assert_Failed
       | Undefined \<Rightarrow> Some Undefined)"

definition rd_varint_dec_slice :: "rd_slice \<Rightarrow> (rd_slice \<times> nat \<times> u64 option) outcome option" where
  "rd_varint_dec_slice sl = rd_varint_dec_slice_loop sl 0 0"

declare rd_slice_foreach.simps [code] rd_slice_get_iov_loop.simps [code] rd_varint_dec_slice_loop.simps [code]

section \<open>Invariant and contents\<close>

definition slice_inv :: "rd_slice \<Rightarrow> bool" where
  "slice_inv sl \<longleftrightarrow>
     buf_inv (sl_buf sl) \<and> rbuf_len (sl_buf sl) < SIZE_MOD \<and> sl_end sl \<le> rbuf_len (sl_buf sl) \<and>
     (case sl_seg sl of
        None \<Rightarrow> False
      | Some i \<Rightarrow> i < length (rbuf_segments (sl_buf sl)) \<and>
          wpos_exact (rbuf_segments (sl_buf sl)) (Some i) \<and> sl_rof sl \<le> seg_of (sl_segment sl i)) \<and>
     sl_start sl \<le> rd_slice_abs_offset sl \<and> rd_slice_abs_offset sl \<le> sl_end sl"

text \<open>The bytes of the slice that are still to be read.\<close>

definition slice_bytes :: "rd_slice \<Rightarrow> byte list" where
  "slice_bytes sl =
     take (sl_end sl - rd_slice_abs_offset sl) (drop (rd_slice_abs_offset sl) (buf_bytes (sl_buf sl)))"

lemma slice_inv_cases:
  assumes "slice_inv sl"
  obtains pre s post where "rbuf_segments (sl_buf sl) = pre @ s # post" "sl_seg sl = Some (length pre)"
    "seg_absof s = sum_list (map seg_of pre)" "sl_rof sl \<le> seg_of s"
    "rd_slice_abs_offset sl = sum_list (map seg_of pre) + sl_rof sl"
proof -
  let ?segs = "rbuf_segments (sl_buf sl)"
  obtain i where i: "sl_seg sl = Some i" "i < length ?segs" "wpos_exact ?segs (Some i)"
    "sl_rof sl \<le> seg_of (?segs ! i)"
    using assms by (auto simp: slice_inv_def split: option.splits)
  then show thesis
    by (intro that [of "take i ?segs" "?segs ! i" "drop (Suc i) ?segs"])
      (simp_all add: id_take_nth_drop wpos_exact_def rd_slice_abs_offset_def)
qed

lemma slice_inv_at:
  assumes "rbuf_segments (sl_buf sl) = pre @ s # post" "sl_seg sl = Some (length pre)"
    "seg_absof s = sum_list (map seg_of pre)" "sl_rof sl \<le> seg_of s"
  shows "rd_slice_abs_offset sl = sum_list (map seg_of pre) + sl_rof sl"
    and "slice_inv sl \<longleftrightarrow> buf_inv (sl_buf sl) \<and> rbuf_len (sl_buf sl) < SIZE_MOD \<and>
      sl_end sl \<le> rbuf_len (sl_buf sl) \<and> sl_start sl \<le> sum_list (map seg_of pre) + sl_rof sl \<and>
      sum_list (map seg_of pre) + sl_rof sl \<le> sl_end sl"
  using assms by (auto simp: slice_inv_def rd_slice_abs_offset_def)

lemma slice_remains_eq:
  assumes "slice_inv sl"
  shows "rd_slice_remains sl = sl_end sl - rd_slice_abs_offset sl"
    and "rd_slice_remains sl = length (slice_bytes sl)"
proof -
  have "sl_end sl < SIZE_MOD" "rd_slice_abs_offset sl \<le> sl_end sl"
    "sl_end sl \<le> length (buf_bytes (sl_buf sl))"
    using assms by (auto simp: slice_inv_def buf_inv_length)
  then show "rd_slice_remains sl = sl_end sl - rd_slice_abs_offset sl"
    "rd_slice_remains sl = length (slice_bytes sl)"
    by (auto simp: rd_slice_remains_def slice_bytes_def)
qed

section \<open>Reading the next contiguous piece\<close>

lemma reader_scan_spec:
  assumes "rbuf_segments (sl_buf sl) = pre @ s # post" "segs_ok 0 (pre @ s # post)"
    "rof \<le> seg_of s" "sum_list (map seg_of pre) + rof < sl_end sl"
    "sl_end sl \<le> sum_list (map seg_of (pre @ s # post))"
  shows "\<exists>pre' s' post' rof'. pre @ s # post = pre' @ s' # post' \<and>
    reader_scan sl (length pre) rof = Some (length pre', rof') \<and> rof' < seg_of s' \<and>
    seg_absof s' = sum_list (map seg_of pre') \<and>
    sum_list (map seg_of pre') + rof' = sum_list (map seg_of pre) + rof \<and>
    (if pre' = pre then rof' = rof else rof' = 0) \<and> length pre \<le> length pre'"
  using assms
proof (induction post arbitrary: pre s rof)
  case Nil
  then show ?case
    by (intro exI [of _ pre] exI [of _ s] exI [of _ "[]"] exI [of _ rof])
      (auto simp: reader_scan.simps [of sl "length pre" rof] seg_unused_def)
next
  case (Cons t post)
  show ?case
  proof (cases "seg_of s = rof")
    case True
    have "reader_scan sl (length pre) rof = reader_scan sl (length (pre @ [s])) 0"
      using Cons.prems True by (auto simp: reader_scan.simps [of sl "length pre" rof])
    moreover have "\<exists>pre' s' post' rof'. (pre @ [s]) @ t # post = pre' @ s' # post' \<and>
      reader_scan sl (length (pre @ [s])) 0 = Some (length pre', rof') \<and> rof' < seg_of s' \<and>
      seg_absof s' = sum_list (map seg_of pre') \<and>
      sum_list (map seg_of pre') + rof' = sum_list (map seg_of (pre @ [s])) + 0 \<and>
      (if pre' = pre @ [s] then rof' = 0 else rof' = 0) \<and> length (pre @ [s]) \<le> length pre'"
      using Cons.prems True by (intro Cons.IH) simp_all
    then obtain pre' s' post' rof' where "(pre @ [s]) @ t # post = pre' @ s' # post'"
      "reader_scan sl (length (pre @ [s])) 0 = Some (length pre', rof')" "rof' < seg_of s'"
      "seg_absof s' = sum_list (map seg_of pre')"
      "sum_list (map seg_of pre') + rof' = sum_list (map seg_of (pre @ [s])) + 0"
      "rof' = 0" "length (pre @ [s]) \<le> length pre'" by auto
    ultimately show ?thesis using True
      by (intro exI [of _ pre'] exI [of _ s'] exI [of _ post'] exI [of _ rof']) auto
  next
    case False
    then show ?thesis using Cons.prems
      by (intro exI [of _ pre] exI [of _ s] exI [of _ "t # post"] exI [of _ rof])
        (auto simp: reader_scan.simps [of sl "length pre" rof] seg_unused_def)
  qed
qed

lemma segs_bytes_at:
  assumes "segs_ok 0 (pre @ s # post)" "rof + n \<le> seg_of s"
  shows "take n (drop (sum_list (map seg_of pre) + rof) (segs_bytes (pre @ s # post)))
    = take n (drop rof (seg_p s))"
proof -
  have "length (segs_bytes pre) = sum_list (map seg_of pre)" "seg_ok s"
    using assms(1) length_segs_bytes [of 0 pre] by simp_all
  moreover then have "n \<le> seg_size s - rof" using assms(2) by (auto simp: seg_ok_def)
  ultimately show ?thesis using assms(2)
    by (simp add: seg_bytes_def seg_ok_def drop_take min_def)
qed

lemma reader0_spec:
  assumes inv: "slice_inv sl" and ne: "slice_bytes sl \<noteq> []"
  shows "\<exists>sl' p n. rd_slice_reader0 sl upd = Return ((if upd then sl' else sl), p, n) \<and>
    0 < n \<and> n \<le> length (slice_bytes sl) \<and> rd_mem (sl_buf sl) p n = take n (slice_bytes sl) \<and>
    slice_inv sl' \<and> slice_bytes sl' = drop n (slice_bytes sl) \<and>
    rd_slice_abs_offset sl' = rd_slice_abs_offset sl + n \<and>
    sl' = sl\<lparr>sl_seg := sl_seg sl', sl_rof := sl_rof sl'\<rparr>"
proof -
  let ?b = "sl_buf sl" and ?pos = "rd_slice_abs_offset sl"
  obtain pre s post where at: "rbuf_segments ?b = pre @ s # post" "sl_seg sl = Some (length pre)"
    "seg_absof s = sum_list (map seg_of pre)" "sl_rof sl \<le> seg_of s"
    "?pos = sum_list (map seg_of pre) + sl_rof sl"
    using slice_inv_cases [OF inv] .
  have b: "buf_inv ?b" "rbuf_len ?b < SIZE_MOD" "sl_end sl \<le> rbuf_len ?b" "sl_start sl \<le> ?pos"
    using inv by (simp_all add: slice_inv_def)
  have lay: "segs_ok 0 (pre @ s # post)" "rbuf_len ?b = sum_list (map seg_of (pre @ s # post))"
    using b(1) at(1) by (simp_all add: buf_inv_def buf_lay_def)
  have less: "?pos < sl_end sl" using ne by (auto simp: slice_bytes_def)
  obtain pre' s' post' rof' where scan: "pre @ s # post = pre' @ s' # post'"
    "reader_scan sl (length pre) (sl_rof sl) = Some (length pre', rof')" "rof' < seg_of s'"
    "seg_absof s' = sum_list (map seg_of pre')" "sum_list (map seg_of pre') + rof' = ?pos"
    "if pre' = pre then rof' = sl_rof sl else rof' = 0"
    using reader_scan_spec [OF at(1) lay(1) at(4)] less lay(2) b(3) at(5) by auto
  have segs': "rbuf_segments ?b = pre' @ s' # post'" using at(1) scan(1) by (rule trans)
  have rem: "rd_slice_remains sl = sl_end sl - ?pos" using slice_remains_eq [OF inv] by simp
  define n where "n = min (seg_of s' - rof') (sl_end sl - ?pos)"
  have n: "0 < n" "rof' + n \<le> seg_of s'" "?pos + n \<le> sl_end sl"
    using scan(3) less by (auto simp: n_def)
  have "seg_of s' \<le> rbuf_len ?b" using lay(2) unfolding scan(1) by simp
  then have sub: "size_sub (seg_of s') rof' = seg_of s' - rof'" using scan(3) b(2) by simp
  define sl' where "sl' = sl\<lparr>sl_seg := Some (length pre'), sl_rof := rof' + n\<rparr>"
  have at': "rbuf_segments (sl_buf sl') = pre' @ s' # post'" "sl_seg sl' = Some (length pre')"
    "seg_absof s' = sum_list (map seg_of pre')" "sl_rof sl' \<le> seg_of s'"
    using at(1) scan n(2) by (simp_all add: sl'_def)
  have len: "length pre' = length pre \<longleftrightarrow> pre' = pre"
    using scan(1) by auto
  have "rd_slice_reader0 sl upd = Return ((if upd then sl' else sl), Some (length pre', rof'), n)"
  proof (cases "pre' = pre")
    case True
    have "sl' = sl\<lparr>sl_rof := rof' + n\<rparr>"
      using at(2) True by (cases sl) (simp add: sl'_def)
    then show ?thesis using True scan at(1,2) sub rem less
      by (auto simp: rd_slice_reader0_def n_def Let_def)
  next
    case False
    then show ?thesis using scan at(1,2) sub rem less b(4) n(3) len
      by (simp add: rd_slice_reader0_def n_def sl'_def Let_def)
  qed
  moreover have off: "rd_slice_abs_offset sl' = ?pos + n"
    using slice_inv_at(1) [OF at'] scan(5) by (simp add: sl'_def)
  moreover have "slice_inv sl'"
    unfolding slice_inv_at(2) [OF at'] using b n(3) scan(5) by (simp add: sl'_def)
  moreover have "rd_mem ?b (Some (length pre', rof')) n = take n (slice_bytes sl)"
  proof -
    have "n \<le> sl_end sl - ?pos" using n(3) by linarith
    then have "take n (slice_bytes sl) = take n (drop ?pos (segs_bytes (pre' @ s' # post')))"
      by (simp only: slice_bytes_def buf_bytes_def segs' take_take min_absorb1)
    also have "\<dots> = take n (drop rof' (seg_p s'))"
      using segs_bytes_at [OF lay(1) [unfolded scan(1)] n(2)] scan(5) by simp
    finally show ?thesis using segs' by (simp add: rd_mem_def)
  qed
  moreover have "slice_bytes sl' = drop n (slice_bytes sl)"
    using off by (simp add: slice_bytes_def drop_take sl'_def add.commute)
  moreover have "n \<le> length (slice_bytes sl)"
    using n(3) slice_remains_eq [OF inv] by simp
  ultimately show ?thesis using n(1)
    by (intro exI [of _ sl'] exI [of _ "Some (length pre', rof')"] exI [of _ n]) (simp add: sl'_def)
qed

lemma reader0_end:
  assumes "slice_inv sl" "slice_bytes sl = []"
  shows "rd_slice_reader0 sl upd = Return (sl, None, 0)"
proof -
  obtain pre s post where at: "rbuf_segments (sl_buf sl) = pre @ s # post"
    "sl_seg sl = Some (length pre)" "seg_absof s = sum_list (map seg_of pre)"
    "rd_slice_abs_offset sl = sum_list (map seg_of pre) + sl_rof sl"
    using slice_inv_cases [OF assms(1)] .
  have "sl_end sl = rd_slice_abs_offset sl"
    using slice_remains_eq [OF assms(1)] assms by (simp add: slice_inv_def)
  then have "reader_scan sl (length pre) (sl_rof sl) = Some (length pre, sl_rof sl)"
    using at by (subst reader_scan.simps) simp
  then show ?thesis using at \<open>sl_end sl = _\<close> by (simp add: rd_slice_reader0_def)
qed

section \<open>Loops over the pieces of a slice\<close>

text \<open>
  The rule for \<open>while ((rlen = rd_slice_reader(slice, &p)))\<close>: an assertion on the bytes
  handled so far and the loop's state that the body keeps holds at the end of all bytes, and
  the loop ends.
\<close>

lemma foreach_spec:
  assumes inv: "slice_inv sl" and init: "I xs s"
    and body: "\<And>xs c s. I xs s \<Longrightarrow> c \<noteq> [] \<Longrightarrow> \<exists>s'. body c s = Some (Return s') \<and> I (xs @ c) s'"
  shows "\<exists>sl' s'. rd_slice_foreach body sl s = Some (Return (sl', s')) \<and>
    I (xs @ slice_bytes sl) s' \<and> slice_inv sl' \<and> rd_slice_abs_offset sl' = sl_end sl \<and>
    sl' = sl\<lparr>sl_seg := sl_seg sl', sl_rof := sl_rof sl'\<rparr>"
  using inv init
proof (induction "length (slice_bytes sl)" arbitrary: sl xs s rule: less_induct)
  case less
  show ?case
  proof (cases "slice_bytes sl = []")
    case True
    have "sl_end sl = rd_slice_abs_offset sl"
      using slice_remains_eq [OF less.prems(1)] less.prems(1) True by (simp add: slice_inv_def)
    then show ?thesis
      using reader0_end [OF less.prems(1) True] less.prems True
      by (intro exI [of _ sl] exI [of _ s])
        (simp add: rd_slice_foreach.simps [of body sl] rd_slice_reader_def)
  next
    case False
    obtain sl1 p n where r: "rd_slice_reader0 sl True = Return (sl1, p, n)" "0 < n"
      "n \<le> length (slice_bytes sl)" "rd_mem (sl_buf sl) p n = take n (slice_bytes sl)"
      "slice_inv sl1" "slice_bytes sl1 = drop n (slice_bytes sl)"
      "sl1 = sl\<lparr>sl_seg := sl_seg sl1, sl_rof := sl_rof sl1\<rparr>"
      using reader0_spec [OF less.prems(1) False, of True] by auto
    obtain s1 where s1: "body (take n (slice_bytes sl)) s = Some (Return s1)"
      "I (xs @ take n (slice_bytes sl)) s1"
      using body [OF less.prems(2), of "take n (slice_bytes sl)"] False r(2) by auto
    have step: "rd_slice_foreach body sl s = rd_slice_foreach body sl1 s1"
      using r s1 by (simp add: rd_slice_foreach.simps [of body sl] rd_slice_reader_def)
    have "length (slice_bytes sl1) < length (slice_bytes sl)" using r(2,6) False by simp
    from less.hyps [OF this r(5) s1(2)] obtain sl' s' where
      "rd_slice_foreach body sl s = Some (Return (sl', s'))"
      "I ((xs @ take n (slice_bytes sl)) @ slice_bytes sl1) s'" "slice_inv sl'"
      "rd_slice_abs_offset sl' = sl_end sl1"
      "sl' = sl1\<lparr>sl_seg := sl_seg sl', sl_rof := sl_rof sl'\<rparr>"
      unfolding step by blast
    moreover have "sl_end sl1 = sl_end sl" by (subst r(7)) simp
    moreover have "sl' = sl\<lparr>sl_seg := sl_seg sl', sl_rof := sl_rof sl'\<rparr>"
      using calculation(5) by (subst (asm) r(7)) simp
    ultimately show ?thesis using r(6) by auto
  qed
qed

section \<open>Read, seek, narrow\<close>

lemma slice_inv_end:
  assumes "slice_inv sl" "rd_slice_abs_offset sl \<le> e" "e \<le> rbuf_len (sl_buf sl)"
  shows "slice_inv (sl\<lparr>sl_end := e\<rparr>)"
    and "rd_slice_abs_offset (sl\<lparr>sl_end := e\<rparr>) = rd_slice_abs_offset sl"
proof -
  obtain i where i: "sl_seg sl = Some i" using assms(1) by (auto simp: slice_inv_def split: option.splits)
  then show off: "rd_slice_abs_offset (sl\<lparr>sl_end := e\<rparr>) = rd_slice_abs_offset sl"
    by (simp add: rd_slice_abs_offset_def)
  show "slice_inv (sl\<lparr>sl_end := e\<rparr>)"
    using assms i off by (simp add: slice_inv_def)
qed

text \<open>What two slices on the same window share.\<close>

definition slice_window :: "rd_slice \<Rightarrow> rd_buf \<times> nat \<times> nat" where
  "slice_window sl = (sl_buf sl, sl_start sl, sl_end sl)"

lemma rd_slice_read_spec:
  assumes inv: "slice_inv sl" and le: "sz \<le> length (slice_bytes sl)"
  shows "\<exists>sl'. rd_slice_read sl sz = Some (Return (sl', Some (take sz (slice_bytes sl)))) \<and>
    slice_inv sl' \<and> slice_bytes sl' = drop sz (slice_bytes sl) \<and>
    rd_slice_abs_offset sl' = rd_slice_abs_offset sl + sz \<and> slice_window sl' = slice_window sl"
proof -
  let ?e = "rd_slice_abs_offset sl + sz"
  let ?sub = "sl\<lparr>sl_end := ?e\<rparr>"
  have rem: "rd_slice_remains sl = length (slice_bytes sl)" "?e \<le> sl_end sl"
    using slice_remains_eq [OF inv] le inv by (auto simp: slice_inv_def)
  have sub: "slice_inv ?sub" "rd_slice_abs_offset ?sub = rd_slice_abs_offset sl"
    using slice_inv_end [OF inv, of ?e] rem(2) inv by (simp_all add: slice_inv_def)
  have bytes: "slice_bytes ?sub = take sz (slice_bytes sl)"
    using rem(2) sub(2) by (simp add: slice_bytes_def min_def)
  obtain sl1 where loop: "rd_slice_foreach (\<lambda>bytes dst. Some (Return (dst @ bytes))) ?sub []
      = Some (Return (sl1, take sz (slice_bytes sl)))"
    and sl1: "slice_inv sl1" "rd_slice_abs_offset sl1 = ?e"
      "sl1 = ?sub\<lparr>sl_seg := sl_seg sl1, sl_rof := sl_rof sl1\<rparr>"
    using foreach_spec [OF sub(1), of "\<lambda>xs s. s = xs" "[]" "[]"
        "\<lambda>bytes dst. Some (Return (dst @ bytes))"] bytes by auto
  let ?sl = "sl1\<lparr>sl_end := sl_end sl\<rparr>"
  have fields: "sl_buf sl1 = sl_buf sl" "sl_start sl1 = sl_start sl"
    by (subst sl1(3); simp)+
  have "slice_inv ?sl" "rd_slice_abs_offset ?sl = ?e"
    using slice_inv_end [OF sl1(1), of "sl_end sl"] sl1(2) rem(2) inv fields
    by (simp_all add: slice_inv_def)
  moreover from this have "slice_bytes ?sl = drop sz (slice_bytes sl)"
    using fields by (simp add: slice_bytes_def drop_take add.commute)
  ultimately show ?thesis using loop rem(1) le fields
    by (simp add: rd_slice_read_def slice_window_def)
qed

lemma rd_slice_read_short:
  "slice_inv sl \<Longrightarrow> length (slice_bytes sl) < sz \<Longrightarrow> rd_slice_read sl sz = Some (Return (sl, None))"
  by (simp add: rd_slice_read_def slice_remains_eq(2))

text \<open>The bytes of the whole window.\<close>

definition slice_all :: "rd_slice \<Rightarrow> byte list" where
  "slice_all sl = take (sl_end sl - sl_start sl) (drop (sl_start sl) (buf_bytes (sl_buf sl)))"

lemma slice_all_split:
  assumes "slice_inv sl"
  shows "slice_bytes sl = drop (rd_slice_abs_offset sl - sl_start sl) (slice_all sl)"
    and "length (slice_all sl) = sl_end sl - sl_start sl"
  using assms buf_inv_length [of "sl_buf sl"]
  by (auto simp: slice_bytes_def slice_all_def slice_inv_def drop_take)

lemma rd_slice_seek_spec:
  assumes inv: "slice_inv sl" and off: "offset < length (slice_all sl)"
  shows "\<exists>sl'. rd_slice_seek sl offset = Return (sl', True) \<and> slice_inv sl' \<and>
    slice_bytes sl' = drop offset (slice_all sl) \<and> slice_window sl' = slice_window sl"
proof -
  let ?b = "sl_buf sl" and ?abs = "sl_start sl + offset"
  have abs: "?abs < sl_end sl" using off slice_all_split(2) [OF inv] by simp
  have b: "buf_inv ?b" "sl_end sl \<le> rbuf_len ?b" "rbuf_len ?b < SIZE_MOD"
    using inv by (simp_all add: slice_inv_def)
  have add: "size_add (sl_start sl) offset = ?abs" using abs b by simp
  have "?abs < rbuf_len ?b" using abs b by simp
  then obtain pre s post where at: "rbuf_segments ?b = pre @ s # post"
    and hit: "rd_buf_get_segment_at_offset ?b (sl_seg sl) ?abs = Return (Some (length pre))"
    and s: "seg_absof s = sum_list (map seg_of pre)"
      "sum_list (map seg_of pre) \<le> ?abs" "?abs < sum_list (map seg_of pre) + seg_of s"
    using get_segment_at_offset_hint [OF b(1), of ?abs "sl_seg sl"] inv
    by (auto simp: slice_inv_def split: option.splits)
  let ?sl = "sl\<lparr>sl_seg := Some (length pre), sl_rof := ?abs - seg_absof s\<rparr>"
  have at': "rbuf_segments (sl_buf ?sl) = pre @ s # post" "sl_seg ?sl = Some (length pre)"
    "seg_absof s = sum_list (map seg_of pre)" "sl_rof ?sl \<le> seg_of s"
    using at s by simp_all
  have "rd_slice_abs_offset ?sl = ?abs" using slice_inv_at(1) [OF at'] s by simp
  moreover have "slice_inv ?sl" unfolding slice_inv_at(2) [OF at'] using b s abs by simp
  ultimately have "slice_bytes ?sl = drop offset (slice_all sl)" "slice_inv ?sl"
    by (simp_all add: slice_bytes_def slice_all_def drop_take add.commute)
  moreover have "rd_slice_seek sl offset = Return (?sl, True)"
    unfolding rd_slice_seek_def add using hit at s abs by (simp add: Let_def)
  ultimately show ?thesis by (auto simp: slice_window_def)
qed

lemma rd_slice_seek_beyond:
  assumes "slice_inv sl" "length (slice_all sl) \<le> offset" "sl_start sl + offset < SIZE_MOD"
  shows "rd_slice_seek sl offset = Return (sl, False)"
proof -
  have "sl_end sl \<le> sl_start sl + offset"
    using assms(2) slice_all_split(2) [OF assms(1)] by linarith
  then show ?thesis using assms(3) by (simp add: rd_slice_seek_def)
qed

lemma rd_slice_peek_spec:
  assumes inv: "slice_inv sl" and off: "offset < length (slice_all sl)"
  shows "rd_slice_peek sl offset sz = Some (Return
    (if offset + sz \<le> length (slice_all sl) then Some (take sz (drop offset (slice_all sl))) else None))"
proof -
  obtain sub where sub: "rd_slice_seek sl offset = Return (sub, True)" "slice_inv sub"
    "slice_bytes sub = drop offset (slice_all sl)"
    using rd_slice_seek_spec [OF inv off] by blast
  show ?thesis
  proof (cases "offset + sz \<le> length (slice_all sl)")
    case True
    then have "sz \<le> length (slice_bytes sub)" using sub(3) by simp
    then obtain sl' where "rd_slice_read sub sz = Some (Return (sl', Some (take sz (slice_bytes sub))))"
      using rd_slice_read_spec [OF sub(2)] by blast
    then show ?thesis using True sub by (simp add: rd_slice_peek_def)
  next
    case False
    then have "length (slice_bytes sub) < sz" using sub(3) off by simp
    then have "rd_slice_read sub sz = Some (Return (sub, None))" by (rule rd_slice_read_short [OF sub(2)])
    then show ?thesis using False sub by (simp add: rd_slice_peek_def)
  qed
qed

lemma rd_slice_init_spec:
  assumes inv: "buf_inv b" "rbuf_len b < SIZE_MOD" and off: "absof < rbuf_len b"
    and sz: "absof + sz \<le> rbuf_len b"
  shows "\<exists>sl. rd_slice_init b absof sz = Return (Some sl) \<and> slice_inv sl \<and>
    slice_bytes sl = take sz (drop absof (buf_bytes b)) \<and> slice_window sl = (b, absof, absof + sz)"
proof -
  obtain pre s post where at: "rbuf_segments b = pre @ s # post"
    and hit: "rd_buf_get_segment_at_offset b None absof = Return (Some (length pre))"
    and s: "seg_absof s = sum_list (map seg_of pre)"
      "sum_list (map seg_of pre) \<le> absof" "absof < sum_list (map seg_of pre) + seg_of s"
    using get_segment_at_offset_hit [OF inv(1) off, of None] by metis
  let ?sl = "\<lparr>sl_buf = b, sl_seg = Some (length pre), sl_rof = absof - seg_absof s,
    sl_start = absof, sl_end = absof + sz\<rparr>"
  have at': "rbuf_segments (sl_buf ?sl) = pre @ s # post" "sl_seg ?sl = Some (length pre)"
    "seg_absof s = sum_list (map seg_of pre)" "sl_rof ?sl \<le> seg_of s"
    using at s by simp_all
  have add: "size_add absof sz = absof + sz" using sz inv(2) by simp
  have "rd_slice_init b absof sz = Return (Some ?sl)"
    using hit at s sz add by (simp add: rd_slice_init_def rd_slice_init_seg_def Let_def)
  moreover have "slice_inv ?sl" unfolding slice_inv_at(2) [OF at'] using inv s sz by simp
  moreover have "rd_slice_abs_offset ?sl = absof" using slice_inv_at(1) [OF at'] s by simp
  ultimately show ?thesis by (simp add: slice_bytes_def slice_window_def)
qed

lemma rd_slice_init_full_spec:
  assumes "buf_inv b" "rbuf_len b < SIZE_MOD" "0 < rbuf_len b"
  shows "\<exists>sl. rd_slice_init_full b = Return sl \<and> slice_inv sl \<and> slice_bytes sl = buf_bytes b \<and>
    slice_window sl = (b, 0, rbuf_len b)"
  using rd_slice_init_spec [OF assms(1,2), of 0 "rbuf_len b"] assms buf_inv_length [OF assms(1)]
  by (auto simp: rd_slice_init_full_def)

lemma slice_offset_eq:
  "slice_inv sl \<Longrightarrow> rd_slice_offset sl = rd_slice_abs_offset sl - sl_start sl"
  by (auto simp: slice_inv_def rd_slice_offset_def rd_slice_abs_offset_def split: option.splits)

lemma rd_slice_narrow_relative_spec:
  assumes inv: "slice_inv sl" and le: "n \<le> length (slice_bytes sl)"
  shows "\<exists>sl'. rd_slice_narrow_relative sl n = Return (Some (sl', sl)) \<and> slice_inv sl' \<and>
    slice_bytes sl' = take n (slice_bytes sl) \<and>
    sl' = sl\<lparr>sl_end := rd_slice_abs_offset sl + n\<rparr>"
proof -
  let ?e = "rd_slice_abs_offset sl + n"
  have e: "?e \<le> sl_end sl" "sl_end sl \<le> rbuf_len (sl_buf sl)" "rbuf_len (sl_buf sl) < SIZE_MOD"
    "sl_start sl \<le> rd_slice_abs_offset sl"
    using slice_remains_eq [OF inv] le inv by (auto simp: slice_inv_def)
  have add: "size_add (rd_slice_offset sl) n = rd_slice_abs_offset sl - sl_start sl + n"
    "size_add (sl_start sl) (rd_slice_abs_offset sl - sl_start sl + n) = ?e"
    using e by (simp_all add: slice_offset_eq [OF inv])
  have sub: "slice_inv (sl\<lparr>sl_end := ?e\<rparr>)"
    "rd_slice_abs_offset (sl\<lparr>sl_end := ?e\<rparr>) = rd_slice_abs_offset sl"
    using slice_inv_end [OF inv, of ?e] e by simp_all
  have "rd_slice_narrow_relative sl n = Return (Some (sl\<lparr>sl_end := ?e\<rparr>, sl))"
    unfolding rd_slice_narrow_relative_def add(1) rd_slice_narrow_def add(2)
    using e sub(2) by (simp add: Let_def)
  moreover have "slice_bytes (sl\<lparr>sl_end := ?e\<rparr>) = take n (slice_bytes sl)"
    using e(1) sub(2) by (simp add: slice_bytes_def min_def)
  ultimately show ?thesis using sub(1) by simp
qed

lemma rd_slice_narrow_relative_short:
  assumes inv: "slice_inv sl" and less: "length (slice_bytes sl) < n"
    and no_wrap: "rd_slice_abs_offset sl + n < SIZE_MOD"
  shows "rd_slice_narrow_relative sl n = Return None"
proof -
  have e: "sl_end sl < rd_slice_abs_offset sl + n" "sl_start sl \<le> rd_slice_abs_offset sl"
    using slice_remains_eq [OF inv] less inv by (auto simp: slice_inv_def)
  have "size_add (rd_slice_offset sl) n = rd_slice_abs_offset sl - sl_start sl + n"
    "size_add (sl_start sl) (rd_slice_abs_offset sl - sl_start sl + n) = rd_slice_abs_offset sl + n"
    using e no_wrap by (simp_all add: slice_offset_eq [OF inv])
  then show ?thesis using e by (simp add: rd_slice_narrow_relative_def rd_slice_narrow_def)
qed

text \<open>A length that makes the end offset wrap around passes the check and stops in the assertion.\<close>

lemma rd_slice_narrow_relative_wraps:
  assumes inv: "slice_inv sl" and n: "n < SIZE_MOD" "SIZE_MOD \<le> rd_slice_abs_offset sl + n"
  shows "rd_slice_narrow_relative sl n = Assert_Failed"
proof -
  let ?pos = "rd_slice_abs_offset sl"
  have e: "sl_start sl \<le> ?pos" "?pos \<le> sl_end sl" "sl_end sl < SIZE_MOD"
    using inv by (auto simp: slice_inv_def)
  have "size_add (sl_start sl) (size_add (rd_slice_offset sl) n) = (?pos + n) mod SIZE_MOD"
    using e(1) unfolding slice_offset_eq [OF inv] size_add_def
    by (simp only: mod_add_right_eq) (simp add: add.assoc [symmetric])
  also have "\<dots> = ?pos + n - SIZE_MOD" using n e by (simp add: mod_if)
  finally have wrapped: "size_add (sl_start sl) (size_add (rd_slice_offset sl) n) = ?pos + n - SIZE_MOD" .
  have "rd_slice_abs_offset (sl\<lparr>sl_end := k\<rparr>) = ?pos" for k
    using inv by (simp add: rd_slice_abs_offset_def slice_inv_def split: option.splits)
  then show ?thesis unfolding rd_slice_narrow_relative_def rd_slice_narrow_def wrapped
    using n e by (simp add: Let_def)
qed

lemma widen_spec:
  assumes sub: "slice_inv sub" "sl_buf sub = sl_buf sl" "sl_end sub \<le> sl_end sl"
    and sl: "slice_inv sl"
  shows "slice_inv (rd_slice_widen sub sl)"
    and "slice_bytes (rd_slice_widen sub sl)
      = take (sl_end sl - rd_slice_abs_offset sub) (drop (rd_slice_abs_offset sub) (buf_bytes (sl_buf sl)))"
  using slice_inv_end [OF sub(1), of "sl_end sl"] assms
  by (simp_all add: rd_slice_widen_def slice_inv_def [of sl] slice_inv_def [of sub] slice_bytes_def)

section \<open>Contiguous memory\<close>

lemma rd_slice_ensure_contig_spec:
  assumes inv: "slice_inv sl" and sz: "sz < SIZE_MOD"
  shows "\<exists>sl' p. rd_slice_ensure_contig sl sz = Some (Return (sl', p)) \<and>
    (case p of
       None \<Rightarrow> sl' = sl \<and> (length (slice_bytes sl) < sz \<or>
         (\<exists>i. sl_seg sl = Some i \<and> seg_of (sl_segment sl i) < sl_rof sl + sz))
     | Some q \<Rightarrow> sz \<le> length (slice_bytes sl) \<and>
         rd_mem (sl_buf sl) (Some q) sz = take sz (slice_bytes sl) \<and>
         slice_inv sl' \<and> slice_bytes sl' = drop sz (slice_bytes sl))"
proof -
  obtain pre s post where at: "rbuf_segments (sl_buf sl) = pre @ s # post"
    "sl_seg sl = Some (length pre)" "seg_absof s = sum_list (map seg_of pre)" "sl_rof sl \<le> seg_of s"
    "rd_slice_abs_offset sl = sum_list (map seg_of pre) + sl_rof sl"
    using slice_inv_cases [OF inv] .
  have rem: "rd_slice_remains sl = length (slice_bytes sl)" by (rule slice_remains_eq(2) [OF inv])
  consider (short) "length (slice_bytes sl) < sz"
    | (crosses) "sz \<le> length (slice_bytes sl)" "seg_of s < sl_rof sl + sz"
    | (contig) "sz \<le> length (slice_bytes sl)" "sl_rof sl + sz \<le> seg_of s" by linarith
  then show ?thesis
  proof cases
    case short
    then show ?thesis using rem by (simp add: rd_slice_ensure_contig_def)
  next
    case crosses
    have "sl_end sl < SIZE_MOD" "rd_slice_abs_offset sl + sz \<le> sl_end sl"
      using inv crosses(1) slice_remains_eq [OF inv] by (auto simp: slice_inv_def)
    then have "size_add (sl_rof sl) sz = sl_rof sl + sz" using at(5) by simp
    then show ?thesis using rem crosses at by (simp add: rd_slice_ensure_contig_def)
  next
    case contig
    have lay: "segs_ok 0 (pre @ s # post)" "rbuf_len (sl_buf sl) < SIZE_MOD"
      "seg_of s \<le> rbuf_len (sl_buf sl)"
      using inv at(1) by (auto simp: slice_inv_def buf_inv_def buf_lay_def)
    then have "size_add (sl_rof sl) sz = sl_rof sl + sz" using contig by simp
    moreover obtain sl' where "rd_slice_read sl sz = Some (Return (sl', Some (take sz (slice_bytes sl))))"
      "slice_inv sl'" "slice_bytes sl' = drop sz (slice_bytes sl)"
      using rd_slice_read_spec [OF inv contig(1)] by blast
    moreover have "take sz (slice_bytes sl) = take sz (drop (sl_rof sl) (seg_p s))"
    proof -
      have "sz \<le> sl_end sl - rd_slice_abs_offset sl" using contig(1) slice_remains_eq [OF inv] by simp
      then have "take sz (slice_bytes sl)
          = take sz (drop (rd_slice_abs_offset sl) (segs_bytes (pre @ s # post)))"
        by (simp only: slice_bytes_def buf_bytes_def at(1) take_take min_absorb1)
      then show ?thesis using segs_bytes_at [OF lay(1) contig(2)] at(5) by simp
    qed
    ultimately show ?thesis using rem contig at
      by (simp add: rd_slice_ensure_contig_def rd_mem_def)
  qed
qed

section \<open>Copying a slice, iovecs\<close>

lemma rd_buf_write_slice_spec:
  assumes "buf_inv b" "slice_inv sl"
  shows "\<exists>sl' b' r. rd_buf_write_slice b sl = Some (Return (sl', b', r)) \<and> buf_inv b' \<and>
    buf_bytes b' = buf_bytes b @ slice_bytes sl \<and> slice_inv sl' \<and> slice_bytes sl' = []"
proof -
  let ?body = "\<lambda>bytes (b1, acc). map_option (\<lambda>m. obind m (\<lambda>(b2, r). Return (b2, acc + r)))
    (rd_buf_write b1 (Some bytes) (length bytes))"
  let ?I = "\<lambda>xs (b1, acc). buf_inv b1 \<and> buf_bytes b1 = buf_bytes b @ xs"
  have body: "\<exists>s'. ?body c s = Some (Return s') \<and> ?I (xs @ c) s'" if "?I xs s" for xs c s
    using that rd_buf_write_spec [of "fst s" c] by (cases s) auto
  have "\<exists>sl' s'. rd_slice_foreach ?body sl (b, 0) = Some (Return (sl', s')) \<and>
    ?I ([] @ slice_bytes sl) s' \<and> slice_inv sl' \<and> rd_slice_abs_offset sl' = sl_end sl \<and>
    sl' = sl\<lparr>sl_seg := sl_seg sl', sl_rof := sl_rof sl'\<rparr>"
    by (rule foreach_spec [OF assms(2)]) (use assms(1) body in auto)
  then obtain sl' b' r where loop: "rd_slice_foreach ?body sl (b, 0) = Some (Return (sl', b', r))"
    and b': "buf_inv b'" "buf_bytes b' = buf_bytes b @ slice_bytes sl"
    and sl': "slice_inv sl'" "rd_slice_abs_offset sl' = sl_end sl"
      "sl' = sl\<lparr>sl_seg := sl_seg sl', sl_rof := sl_rof sl'\<rparr>" by auto
  have "sl_end sl' = sl_end sl" by (subst sl'(3)) simp
  then have "slice_bytes sl' = []" using sl'(2) by (simp add: slice_bytes_def)
  then show ?thesis using loop b' sl'(1) by (auto simp: rd_buf_write_slice_def)
qed

text \<open>It is a sequence of writes: a reachable buffer stays reachable.\<close>

lemma rd_buf_write_slice_reach:
  assumes "buf_reach b xs" "slice_inv sl"
  shows "\<exists>sl' b' r. rd_buf_write_slice b sl = Some (Return (sl', b', r)) \<and>
    buf_reach b' (xs @ slice_bytes sl)"
proof -
  let ?body = "\<lambda>bytes (b1, acc). map_option (\<lambda>m. obind m (\<lambda>(b2, r). Return (b2, acc + r)))
    (rd_buf_write b1 (Some bytes) (length bytes))"
  let ?I = "\<lambda>ys (b1, acc). buf_reach b1 (xs @ ys)"
  have body: "\<exists>s'. ?body c s = Some (Return s') \<and> ?I (ys @ c) s'" if I: "?I ys s" for ys c s
  proof -
    obtain b1 acc where s: "s = (b1, acc)" by fastforce
    have reach: "buf_reach b1 (xs @ ys)" using I s by simp
    obtain b2 where w: "rd_buf_write b1 (Some c) (length c) = Some (Return (b2, rbuf_len b1))"
      using rd_buf_write_spec [of b1 c] buf_reach_inv [OF reach] by blast
    have "buf_reach b2 ((xs @ ys) @ c)"
      using reach_step [OF reach, of "Op_Write c"] step_write [OF w] by simp
    then show ?thesis using s w by simp
  qed
  have "\<exists>sl' s'. rd_slice_foreach ?body sl (b, 0) = Some (Return (sl', s')) \<and>
    ?I ([] @ slice_bytes sl) s' \<and> slice_inv sl' \<and> rd_slice_abs_offset sl' = sl_end sl \<and>
    sl' = sl\<lparr>sl_seg := sl_seg sl', sl_rof := sl_rof sl'\<rparr>"
    by (rule foreach_spec [OF assms(2)]) (use assms(1) body in auto)
  then show ?thesis by (auto simp: rd_buf_write_slice_def)
qed

lemma reader0_peek:
  "rd_slice_reader0 sl True = Return (sl', p, n) \<Longrightarrow> rd_slice_reader0 sl False = Return (sl, p, n)"
  by (auto simp: rd_slice_reader0_def Let_def split: option.splits if_splits)

text \<open>
  The value it returns is the sum of the write positions: for a slice in one piece, the
  length of the destination before the write.
\<close>

lemma rd_buf_write_slice_result:
  assumes b: "buf_inv b" and sl: "slice_inv sl"
    and one: "rd_slice_peeker sl = Return (sl, p, length (slice_bytes sl))" "slice_bytes sl \<noteq> []"
  shows "\<exists>sl' b'. rd_buf_write_slice b sl = Some (Return (sl', b', rbuf_len b))"
proof -
  obtain sl1 q n where r: "rd_slice_reader0 sl True = Return (sl1, q, n)" "0 < n"
    "rd_mem (sl_buf sl) q n = take n (slice_bytes sl)" "slice_inv sl1"
    "slice_bytes sl1 = drop n (slice_bytes sl)"
    using reader0_spec [OF sl one(2), of True] by auto
  have n: "n = length (slice_bytes sl)"
    using one(1) reader0_peek [OF r(1)] by (simp add: rd_slice_peeker_def)
  obtain b' where w: "rd_buf_write b (Some (slice_bytes sl)) (length (slice_bytes sl))
      = Some (Return (b', rbuf_len b))"
    using rd_buf_write_spec [OF b] by blast
  have "rd_slice_reader0 sl1 True = Return (sl1, None, 0)"
    using reader0_end [OF r(4)] r(5) n by simp
  then have last: "rd_slice_foreach body sl1 s = Some (Return (sl1, s))" for body and s :: "rd_buf \<times> nat"
    by (simp add: rd_slice_foreach.simps [of body sl1] rd_slice_reader_def)
  show ?thesis unfolding rd_buf_write_slice_def
    by (subst rd_slice_foreach.simps) (use r n w last in \<open>simp add: rd_slice_reader_def\<close>)
qed

lemma get_iov_loop_spec:
  assumes "slice_inv sl" "acc = sum_list (map snd iovs)"
  shows "\<exists>iovs'. rd_slice_get_iov_loop sl iov_max size_max iovs acc
      = Some (Return (iovs @ iovs', sum_list (map snd (iovs @ iovs')))) \<and>
    concat (map (\<lambda>(p, n). rd_mem (sl_buf sl) p n) iovs')
      = take (sum_list (map snd iovs')) (slice_bytes sl) \<and>
    sum_list (map snd iovs') \<le> length (slice_bytes sl) \<and>
    length (iovs @ iovs') \<le> max (length iovs) iov_max \<and>
    (sum_list (map snd iovs') = length (slice_bytes sl) \<or>
     size_max \<le> sum_list (map snd (iovs @ iovs')) \<or> iov_max \<le> length (iovs @ iovs'))"
  using assms
proof (induction "length (slice_bytes sl)" arbitrary: sl iovs acc rule: less_induct)
  case less
  consider (limit) "\<not> (acc < size_max \<and> length iovs < iov_max)"
    | (exhausted) "acc < size_max \<and> length iovs < iov_max" "slice_bytes sl = []"
    | (more) "acc < size_max \<and> length iovs < iov_max" "slice_bytes sl \<noteq> []" by blast
  then show ?case
  proof cases
    case limit
    then show ?thesis using less.prems
      by (intro exI [of _ "[]"]) (auto simp: rd_slice_get_iov_loop.simps [of sl])
  next
    case exhausted
    then show ?thesis using less.prems reader0_end [OF less.prems(1) exhausted(2)]
      by (intro exI [of _ "[]"])
        (simp add: rd_slice_get_iov_loop.simps [of sl] rd_slice_reader_def)
  next
    case more
    obtain sl1 p n where r: "rd_slice_reader0 sl True = Return (sl1, p, n)" "0 < n"
      "n \<le> length (slice_bytes sl)" "rd_mem (sl_buf sl) p n = take n (slice_bytes sl)"
      "slice_inv sl1" "slice_bytes sl1 = drop n (slice_bytes sl)"
      "sl1 = sl\<lparr>sl_seg := sl_seg sl1, sl_rof := sl_rof sl1\<rparr>"
      using reader0_spec [OF less.prems(1) more(2), of True] by auto
    have buf: "sl_buf sl1 = sl_buf sl" by (subst r(7)) simp
    have step: "rd_slice_get_iov_loop sl iov_max size_max iovs acc
        = rd_slice_get_iov_loop sl1 iov_max size_max (iovs @ [(p, n)]) (acc + n)"
      using more(1) r(1,2) by (simp add: rd_slice_get_iov_loop.simps [of sl] rd_slice_reader_def)
    have "length (slice_bytes sl1) < length (slice_bytes sl)" using r(2,6) more(2) by simp
    from less.hyps [OF this r(5), of "acc + n" "iovs @ [(p, n)]"] less.prems(2)
    obtain iovs' where iov: "rd_slice_get_iov_loop sl iov_max size_max iovs acc
        = Some (Return ((iovs @ [(p, n)]) @ iovs', sum_list (map snd ((iovs @ [(p, n)]) @ iovs'))))"
      "concat (map (\<lambda>(p, n). rd_mem (sl_buf sl1) p n) iovs')
        = take (sum_list (map snd iovs')) (slice_bytes sl1)"
      "sum_list (map snd iovs') \<le> length (slice_bytes sl1)"
      "length ((iovs @ [(p, n)]) @ iovs') \<le> max (length (iovs @ [(p, n)])) iov_max"
      "sum_list (map snd iovs') = length (slice_bytes sl1) \<or>
       size_max \<le> sum_list (map snd ((iovs @ [(p, n)]) @ iovs')) \<or>
       iov_max \<le> length ((iovs @ [(p, n)]) @ iovs')"
      unfolding step by auto
    then show ?thesis using r(3,4,6) more(1) buf
      by (intro exI [of _ "(p, n) # iovs'"]) (auto simp: take_add)
  qed
qed

text \<open>A slice stays valid, and in place, when its buffer is updated in place.\<close>

lemma slice_sees_update:
  assumes inv: "slice_inv sl" and upd: "off < rbuf_len (sl_buf sl)"
    "off + length payload \<le> rbuf_len (sl_buf sl)"
  shows "\<exists>b'. rd_buf_write_update (sl_buf sl) off payload = Return (b', length payload) \<and>
    slice_inv (sl\<lparr>sl_buf := b'\<rparr>) \<and> rbuf_len b' = rbuf_len (sl_buf sl) \<and>
    rd_slice_abs_offset (sl\<lparr>sl_buf := b'\<rparr>) = rd_slice_abs_offset sl \<and>
    buf_bytes b' = overwrite off payload (buf_bytes (sl_buf sl))"
proof -
  let ?b = "sl_buf sl"
  have binv: "buf_inv ?b" using inv by (simp add: slice_inv_def)
  obtain ts where ts: "rd_buf_write_update ?b off payload = Return (?b\<lparr>rbuf_segments := ts\<rparr>, length payload)"
    "list_all2 seg_same_shape (rbuf_segments ?b) ts" "buf_inv (?b\<lparr>rbuf_segments := ts\<rparr>)"
    "buf_bytes (?b\<lparr>rbuf_segments := ts\<rparr>) = overwrite off payload (buf_bytes ?b)"
    using rd_buf_write_update_shape [OF binv upd] by blast
  obtain pre s post where at: "rbuf_segments ?b = pre @ s # post" "sl_seg sl = Some (length pre)"
    "seg_absof s = sum_list (map seg_of pre)" "sl_rof sl \<le> seg_of s"
    using slice_inv_cases [OF inv] by metis
  obtain pre' s' post' where t: "ts = pre' @ s' # post'" "length pre' = length pre"
    "map seg_of pre' = map seg_of pre" "seg_same_shape s s'"
    using ts(2) at(1) by (auto simp: list_all2_append1 list_all2_Cons1 dest: same_shape_segs(2))
  let ?sl = "sl\<lparr>sl_buf := ?b\<lparr>rbuf_segments := ts\<rparr>\<rparr>"
  have at': "rbuf_segments (sl_buf ?sl) = pre' @ s' # post'" "sl_seg ?sl = Some (length pre')"
    "seg_absof s' = sum_list (map seg_of pre')" "sl_rof ?sl \<le> seg_of s'"
    using at t same_shape_fields [OF t(4)] by simp_all
  have "rd_slice_abs_offset ?sl = rd_slice_abs_offset sl" "slice_inv ?sl"
    using slice_inv_at [OF at'] slice_inv_at [OF at] inv t(3) ts(3) by simp_all
  then show ?thesis using ts(1,4) by auto
qed

section \<open>Varints from a slice\<close>

lemma read1_spec:
  assumes inv: "slice_inv sl" and bytes: "slice_bytes sl = c # rest"
  obtains sl' where "rd_slice_read sl 1 = Some (Return (sl', Some [c]))" "slice_inv sl'"
    "slice_bytes sl' = rest" "slice_window sl' = slice_window sl"
  using rd_slice_read_spec [OF inv, of 1] bytes by auto

lemma varint_dec_slice_loop_bytes:
  assumes "slice_inv sl" "slice_bytes sl = uvarint_bytes v @ rest"
    "shift + 7 * (length (uvarint_bytes v) - 1) < 64" "7 dvd shift"
  shows "\<exists>sl'. rd_varint_dec_slice_loop sl num shift =
      Some (Return (sl', shift div 7 + length (uvarint_bytes v),
        Some (zigzag_dec (num OR push_bit shift v)))) \<and>
    slice_inv sl' \<and> slice_bytes sl' = rest \<and> slice_window sl' = slice_window sl"
  using assms
proof (induction v arbitrary: sl num shift rule: uvarint_bytes.induct)
  case (1 v)
  show ?case
  proof (cases "0x7f < v")
    case True
    let ?b = "ucast (v AND 0x7f) OR 0x80 :: byte"
    obtain sl1 where r: "rd_slice_read sl 1 = Some (Return (sl1, Some [?b]))" "slice_inv sl1"
      "slice_bytes sl1 = uvarint_bytes (drop_bit 7 v) @ rest" "slice_window sl1 = slice_window sl"
      using read1_spec [OF "1.prems"(1)] "1.prems"(2) uvarint_bytes_Cons [OF True] by auto
    obtain k where len: "length (uvarint_bytes (drop_bit 7 v)) = Suc k"
      by (cases "uvarint_bytes (drop_bit 7 v)") auto
    have "\<exists>sl'. rd_varint_dec_slice_loop sl1 (num OR push_bit shift (v AND 0x7f)) (shift + 7) =
        Some (Return (sl', (shift + 7) div 7 + length (uvarint_bytes (drop_bit 7 v)),
          Some (zigzag_dec ((num OR push_bit shift (v AND 0x7f)) OR push_bit (shift + 7) (drop_bit 7 v))))) \<and>
      slice_inv sl' \<and> slice_bytes sl' = rest \<and> slice_window sl' = slice_window sl1"
      by (rule "1.IH") (use True r "1.prems"(3,4) len in \<open>auto simp: uvarint_bytes_Cons\<close>)
    moreover have "rd_varint_dec_slice_loop sl num shift
        = rd_varint_dec_slice_loop sl1 (num OR push_bit shift (v AND 0x7f)) (shift + 7)"
      using r(1) "1.prems"(3)
      by (simp add: rd_varint_dec_slice_loop.simps [of sl] and_0x80_iff cont_byte_flag
          low_group_of_cont_byte del: push_bit_and)
    moreover have "(shift + 7) div 7 = Suc (shift div 7)" by simp
    ultimately show ?thesis using r(4)
      by (simp add: or.assoc groups_join uvarint_bytes_Cons [OF True] del: push_bit_and)
  next
    case False
    then have b: "uvarint_bytes v = [ucast v]" by (simp add: uvarint_bytes_last)
    obtain sl1 where r: "rd_slice_read sl 1 = Some (Return (sl1, Some [ucast v]))" "slice_inv sl1"
      "slice_bytes sl1 = rest" "slice_window sl1 = slice_window sl"
      using read1_spec [OF "1.prems"(1)] "1.prems"(2) b by auto
    then show ?thesis using b False "1.prems"(3) and_0x80_iff [of "ucast v"]
      by (simp add: rd_varint_dec_slice_loop.simps [of sl] last_byte_flag low_group_of_last_byte)
  qed
qed

lemma rd_varint_dec_slice_bytes:
  assumes "slice_inv sl" "slice_bytes sl = uvarint_bytes v @ rest"
  shows "\<exists>sl'. rd_varint_dec_slice sl =
      Some (Return (sl', length (uvarint_bytes v), Some (zigzag_dec v))) \<and>
    slice_inv sl' \<and> slice_bytes sl' = rest \<and> slice_window sl' = slice_window sl"
proof -
  have "0 + 7 * (length (uvarint_bytes v) - 1) < 64" using uvarint_bytes_max [of v] by simp
  from varint_dec_slice_loop_bytes [OF assms this, of 0] show ?thesis
    by (simp add: rd_varint_dec_slice_def)
qed

section \<open>Properties\<close>

lemma slice_inv_reach:
  assumes "buf_reach b xs" "length xs < SIZE_MOD"
  shows "buf_inv b" "rbuf_len b = length xs" "rbuf_len b < SIZE_MOD" "buf_bytes b = xs"
  using buf_reach_inv [OF assms(1)] buf_inv_length [of b] assms(2) by auto

text \<open>
  C2. Whatever was written to a buffer is read back: a slice over the whole of a non-empty
  reachable buffer yields, for every split of the contents, the first part by one read and
  the rest by a second, however the bytes are spread over segments; a read of more bytes than
  are left yields nothing and does not move.
\<close>

theorem slice_read_written:
  assumes reach: "buf_reach b (xs @ ys)" and len: "0 < length (xs @ ys)" "length (xs @ ys) < SIZE_MOD"
  shows "\<exists>sl sl1 sl2. rd_slice_init_full b = Return sl \<and>
    rd_slice_read sl (length xs) = Some (Return (sl1, Some xs)) \<and>
    rd_slice_read sl1 (length ys) = Some (Return (sl2, Some ys)) \<and>
    rd_slice_remains sl2 = 0 \<and>
    rd_slice_read sl1 (length ys + 1) = Some (Return (sl1, None))"
proof -
  note b = slice_inv_reach [OF reach len(2)]
  obtain sl where sl: "rd_slice_init_full b = Return sl" "slice_inv sl" "slice_bytes sl = xs @ ys"
    using rd_slice_init_full_spec [OF b(1,3)] b(2,4) len(1) by auto
  obtain sl1 where sl1: "rd_slice_read sl (length xs) = Some (Return (sl1, Some xs))"
    "slice_inv sl1" "slice_bytes sl1 = ys"
    using rd_slice_read_spec [OF sl(2), of "length xs"] sl(3) by auto
  obtain sl2 where sl2: "rd_slice_read sl1 (length ys) = Some (Return (sl2, Some ys))"
    "slice_inv sl2" "slice_bytes sl2 = []"
    using rd_slice_read_spec [OF sl1(2), of "length ys"] sl1(3) by auto
  have "rd_slice_remains sl2 = 0" using slice_remains_eq(2) [OF sl2(2)] sl2(3) by simp
  moreover have "rd_slice_read sl1 (length ys + 1) = Some (Return (sl1, None))"
    using rd_slice_read_short [OF sl1(2)] sl1(3) by simp
  ultimately show ?thesis using sl(1) sl1(1) sl2(1) by blast
qed

theorem slice_read_written_witness:
  "\<exists>sl sl1 sl2. rd_slice_init_full example_buf = Return sl \<and>
    rd_slice_read sl 4 = Some (Return (sl1, Some [1, 2, 3, 4])) \<and>
    rd_slice_read sl1 1 = Some (Return (sl2, Some [5])) \<and>
    rd_slice_remains sl2 = 0 \<and> rd_slice_read sl1 2 = Some (Return (sl1, None))"
proof -
  have "buf_reach example_buf ([1, 2, 3, 4] @ [5])" "0 < length ([1, 2, 3, 4 :: byte] @ [5])"
    "length ([1, 2, 3, 4 :: byte] @ [5]) < SIZE_MOD" using example_reach by simp_all
  from slice_read_written [OF this] show ?thesis by (simp add: eval_nat_numeral)
qed

text \<open>
  C26. \<open>rd_slice_narrow_relative\<close> by a length that is available gives the slice of exactly the
  next \<open>n\<close> bytes; reading \<open>k\<close> of them and widening again leaves the original slice advanced by
  \<open>k\<close>. A length that is not available is refused; one so large that the end offset wraps
  around \<open>size_t\<close> is not refused but stops in the assertion.
\<close>

theorem slice_narrow_relative_cases:
  assumes inv: "slice_inv sl" and n: "n < SIZE_MOD" and k: "k \<le> n"
  shows "if n \<le> length (slice_bytes sl)
    then \<exists>sub sub'. rd_slice_narrow_relative sl n = Return (Some (sub, sl)) \<and>
      slice_bytes sub = take n (slice_bytes sl) \<and>
      rd_slice_read sub k = Some (Return (sub', Some (take k (slice_bytes sl)))) \<and>
      slice_inv (rd_slice_widen sub' sl) \<and>
      slice_bytes (rd_slice_widen sub' sl) = drop k (slice_bytes sl)
    else rd_slice_narrow_relative sl n =
      (if rd_slice_abs_offset sl + n < SIZE_MOD then Return None else Assert_Failed)"
proof (cases "n \<le> length (slice_bytes sl)")
  case True
  obtain sub where sub: "rd_slice_narrow_relative sl n = Return (Some (sub, sl))" "slice_inv sub"
    "slice_bytes sub = take n (slice_bytes sl)" "sub = sl\<lparr>sl_end := rd_slice_abs_offset sl + n\<rparr>"
    using rd_slice_narrow_relative_spec [OF inv True] by blast
  obtain sub' where sub': "rd_slice_read sub k = Some (Return (sub', Some (take k (slice_bytes sub))))"
    "slice_inv sub'" "rd_slice_abs_offset sub' = rd_slice_abs_offset sub + k"
    "slice_window sub' = slice_window sub"
    using rd_slice_read_spec [OF sub(2), of k] sub(3) True k by auto
  have win: "sl_buf sub' = sl_buf sl" "sl_end sub' = rd_slice_abs_offset sl + n"
    using sub'(4) sub(4) by (simp_all add: slice_window_def)
  have off: "rd_slice_abs_offset sub = rd_slice_abs_offset sl"
    using sub(4) inv by (auto simp: rd_slice_abs_offset_def slice_inv_def split: option.splits)
  have "sl_end sub' \<le> sl_end sl" using win(2) True slice_remains_eq [OF inv] inv
    by (auto simp: slice_inv_def)
  note wide = widen_spec [OF sub'(2) win(1) this inv]
  have "slice_bytes (rd_slice_widen sub' sl) = drop k (slice_bytes sl)"
    unfolding wide(2) sub'(3) off by (simp add: slice_bytes_def drop_take add.commute)
  moreover have "take k (slice_bytes sub) = take k (slice_bytes sl)" using sub(3) k by (simp add: min_def)
  ultimately show ?thesis using True sub sub'(1) wide(1) by auto
next
  case False
  then show ?thesis
    using rd_slice_narrow_relative_short [OF inv, of n] rd_slice_narrow_relative_wraps [OF inv n] by auto
qed

definition example_slice :: rd_slice where
  "example_slice = (case rd_slice_init_full example_buf of Return sl \<Rightarrow> sl | _ \<Rightarrow> undefined)"

lemma example_slice_inv: "slice_inv example_slice" "slice_bytes example_slice = [1, 2, 3, 4, 5]"
  "slice_window example_slice = (example_buf, 0, 5)"
  using rd_slice_init_full_spec [OF example_inv(1)] example_inv by (auto simp: example_slice_def)

theorem slice_narrow_relative_cases_witness:
  "\<exists>sub sub'. rd_slice_narrow_relative example_slice 4 = Return (Some (sub, example_slice)) \<and>
    slice_bytes sub = [1, 2, 3, 4] \<and>
    rd_slice_read sub 3 = Some (Return (sub', Some [1, 2, 3])) \<and>
    slice_bytes (rd_slice_widen sub' example_slice) = [4, 5]"
  using slice_narrow_relative_cases [OF example_slice_inv(1), of 4 3] example_slice_inv(2) by auto

text \<open>
  \<open>rd_slice_peek\<close> returns the bytes at an offset of the slice if they all lie in it and
  nothing otherwise, whatever the current read position is.
\<close>

lemma slice_peek_window:
  assumes "slice_inv sl" "offset < length (slice_all sl)"
  shows "rd_slice_peek sl offset sz = Some (Return
    (if offset + sz \<le> length (slice_all sl) then Some (take sz (drop offset (slice_all sl))) else None))"
  by (rule rd_slice_peek_spec [OF assms])

text \<open>
  \<open>rd_slice_ensure_contig\<close> either returns a pointer to exactly the next \<open>sz\<close> bytes and
  advances past them, or returns NULL and does not move, which happens only if fewer bytes
  are left or the bytes cross the end of the current segment.
\<close>

lemma slice_ensure_contig_memory:
  assumes "slice_inv sl" "sz < SIZE_MOD"
  shows "\<exists>sl' p. rd_slice_ensure_contig sl sz = Some (Return (sl', p)) \<and>
    (case p of
       None \<Rightarrow> sl' = sl \<and> (length (slice_bytes sl) < sz \<or>
         (\<exists>i. sl_seg sl = Some i \<and> seg_of (sl_segment sl i) < sl_rof sl + sz))
     | Some q \<Rightarrow> rd_mem (sl_buf sl) (Some q) sz = take sz (slice_bytes sl) \<and>
         slice_inv sl' \<and> slice_bytes sl' = drop sz (slice_bytes sl))"
  using rd_slice_ensure_contig_spec [OF assms] by (fastforce split: option.splits)

text \<open>
  \<open>rd_buf_write_slice\<close> appends exactly the unread bytes of the slice to the buffer and
  consumes the slice.
\<close>

lemma write_slice_copies:
  assumes "buf_inv b" "slice_inv sl"
  shows "\<exists>sl' b' r. rd_buf_write_slice b sl = Some (Return (sl', b', r)) \<and> buf_inv b' \<and>
    buf_bytes b' = buf_bytes b @ slice_bytes sl \<and> rd_slice_remains sl' = 0"
  using rd_buf_write_slice_spec [OF assms] by (auto simp: slice_remains_eq(2))

text \<open>
  The value \<open>rd_buf_write_slice\<close> returns is not the number of bytes written that its
  documentation promises: for a slice in one piece it is the length the destination had
  before.
\<close>

lemma write_slice_returns_position:
  assumes "buf_inv b" "slice_inv sl"
    and "rd_slice_peeker sl = Return (sl, p, length (slice_bytes sl))" "slice_bytes sl \<noteq> []"
  shows "\<exists>sl' b'. rd_buf_write_slice b sl = Some (Return (sl', b', rbuf_len b))"
  by (rule rd_buf_write_slice_result [OF assms])

text \<open>A slice of the last two bytes of the example, which are one pushed segment.\<close>

lemma example_tail:
  obtains sl p where "slice_inv sl" "slice_bytes sl = [5]"
    "rd_slice_peeker sl = Return (sl, p, length (slice_bytes sl))"
proof -
  obtain sl where sl: "slice_inv sl" "slice_bytes sl = [5]"
    using rd_slice_init_spec [OF example_inv(1), of 4 1] example_inv by auto
  then obtain p n where "rd_slice_reader0 sl False = Return (sl, p, n)" "0 < n" "n \<le> 1"
    using reader0_spec [OF sl(1), of False] by auto
  then show thesis using that sl by (simp add: rd_slice_peeker_def)
qed

text \<open>
  A signed number encoded by \<open>rd_uvarint_enc_i64\<close>, written to a buffer and read back from a
  slice by \<open>rd_varint_dec_slice\<close> is unchanged, consumes exactly its encoding, and the decoder
  reports the length of it.
\<close>

lemma varint_slice_roundtrip:
  assumes "slice_inv sl"
    and "slice_bytes sl = take n dst @ rest" and "rd_uvarint_enc_i64 mem 10 num = Return (dst, n)"
    and "length mem = 10"
  shows "0 < n \<and> (\<exists>sl'. rd_varint_dec_slice sl = Some (Return (sl', n, Some num)) \<and>
    slice_bytes sl' = rest)"
proof -
  define z where "z = push_bit 1 num XOR signed_drop_bit 63 num"
  have z: "zigzag_dec z = num" unfolding z_def by (rule zigzag_dec_enc)
  have "rd_uvarint_enc_loop mem 10 z 0
      = Return (overwrite 0 (uvarint_bytes z) mem, length (uvarint_bytes z))"
    using rd_uvarint_enc_loop_fits [of 0 z 10 mem] uvarint_bytes_max [of z] assms(4) by simp
  then have enc: "dst = overwrite 0 (uvarint_bytes z) mem" "n = length (uvarint_bytes z)"
    using assms(3) by (simp_all only: rd_uvarint_enc_i64_def rd_uvarint_enc_u64_def z_def outcome.inject prod.inject)
  then have "take n dst = uvarint_bytes z" by (simp add: overwrite_def)
  then show ?thesis
    using rd_varint_dec_slice_bytes [OF assms(1), of z rest] assms(2) enc(2) z by auto
qed

end
