(* ===== verification/Crc32.thy ===== *)
theory Crc32
  imports Slice
begin

text \<open>
  The table-driven CRC-32 of \<open>rdcrc32.h\<close> and \<open>rdcrc32.c\<close> (the build without zlib), and
  \<open>rd_slice_crc32\<close> of \<open>rdbuf.c\<close> on top of it. MessageSets of the old protocol formats are
  protected by it.

  The reference is the bit-by-bit division by the reflected polynomial; the table-driven
  loop is shown to compute it, to be independent of how a message is cut into pieces, and
  to tell apart any two messages that differ within four consecutive bytes only.
\<close>

section \<open>The code\<close>

type_synonym rd_crc32_t = u32

definition crc_table :: "rd_crc32_t list" where
  "crc_table = [
     0x00000000, 0x77073096, 0xee0e612c, 0x990951ba, 0x076dc419, 0x706af48f,
     0xe963a535, 0x9e6495a3, 0x0edb8832, 0x79dcb8a4, 0xe0d5e91e, 0x97d2d988,
     0x09b64c2b, 0x7eb17cbd, 0xe7b82d07, 0x90bf1d91, 0x1db71064, 0x6ab020f2,
     0xf3b97148, 0x84be41de, 0x1adad47d, 0x6ddde4eb, 0xf4d4b551, 0x83d385c7,
     0x136c9856, 0x646ba8c0, 0xfd62f97a, 0x8a65c9ec, 0x14015c4f, 0x63066cd9,
     0xfa0f3d63, 0x8d080df5, 0x3b6e20c8, 0x4c69105e, 0xd56041e4, 0xa2677172,
     0x3c03e4d1, 0x4b04d447, 0xd20d85fd, 0xa50ab56b, 0x35b5a8fa, 0x42b2986c,
     0xdbbbc9d6, 0xacbcf940, 0x32d86ce3, 0x45df5c75, 0xdcd60dcf, 0xabd13d59,
     0x26d930ac, 0x51de003a, 0xc8d75180, 0xbfd06116, 0x21b4f4b5, 0x56b3c423,
     0xcfba9599, 0xb8bda50f, 0x2802b89e, 0x5f058808, 0xc60cd9b2, 0xb10be924,
     0x2f6f7c87, 0x58684c11, 0xc1611dab, 0xb6662d3d, 0x76dc4190, 0x01db7106,
     0x98d220bc, 0xefd5102a, 0x71b18589, 0x06b6b51f, 0x9fbfe4a5, 0xe8b8d433,
     0x7807c9a2, 0x0f00f934, 0x9609a88e, 0xe10e9818, 0x7f6a0dbb, 0x086d3d2d,
     0x91646c97, 0xe6635c01, 0x6b6b51f4, 0x1c6c6162, 0x856530d8, 0xf262004e,
     0x6c0695ed, 0x1b01a57b, 0x8208f4c1, 0xf50fc457, 0x65b0d9c6, 0x12b7e950,
     0x8bbeb8ea, 0xfcb9887c, 0x62dd1ddf, 0x15da2d49, 0x8cd37cf3, 0xfbd44c65,
     0x4db26158, 0x3ab551ce, 0xa3bc0074, 0xd4bb30e2, 0x4adfa541, 0x3dd895d7,
     0xa4d1c46d, 0xd3d6f4fb, 0x4369e96a, 0x346ed9fc, 0xad678846, 0xda60b8d0,
     0x44042d73, 0x33031de5, 0xaa0a4c5f, 0xdd0d7cc9, 0x5005713c, 0x270241aa,
     0xbe0b1010, 0xc90c2086, 0x5768b525, 0x206f85b3, 0xb966d409, 0xce61e49f,
     0x5edef90e, 0x29d9c998, 0xb0d09822, 0xc7d7a8b4, 0x59b33d17, 0x2eb40d81,
     0xb7bd5c3b, 0xc0ba6cad, 0xedb88320, 0x9abfb3b6, 0x03b6e20c, 0x74b1d29a,
     0xead54739, 0x9dd277af, 0x04db2615, 0x73dc1683, 0xe3630b12, 0x94643b84,
     0x0d6d6a3e, 0x7a6a5aa8, 0xe40ecf0b, 0x9309ff9d, 0x0a00ae27, 0x7d079eb1,
     0xf00f9344, 0x8708a3d2, 0x1e01f268, 0x6906c2fe, 0xf762575d, 0x806567cb,
     0x196c3671, 0x6e6b06e7, 0xfed41b76, 0x89d32be0, 0x10da7a5a, 0x67dd4acc,
     0xf9b9df6f, 0x8ebeeff9, 0x17b7be43, 0x60b08ed5, 0xd6d6a3e8, 0xa1d1937e,
     0x38d8c2c4, 0x4fdff252, 0xd1bb67f1, 0xa6bc5767, 0x3fb506dd, 0x48b2364b,
     0xd80d2bda, 0xaf0a1b4c, 0x36034af6, 0x41047a60, 0xdf60efc3, 0xa867df55,
     0x316e8eef, 0x4669be79, 0xcb61b38c, 0xbc66831a, 0x256fd2a0, 0x5268e236,
     0xcc0c7795, 0xbb0b4703, 0x220216b9, 0x5505262f, 0xc5ba3bbe, 0xb2bd0b28,
     0x2bb45a92, 0x5cb36a04, 0xc2d7ffa7, 0xb5d0cf31, 0x2cd99e8b, 0x5bdeae1d,
     0x9b64c2b0, 0xec63f226, 0x756aa39c, 0x026d930a, 0x9c0906a9, 0xeb0e363f,
     0x72076785, 0x05005713, 0x95bf4a82, 0xe2b87a14, 0x7bb12bae, 0x0cb61b38,
     0x92d28e9b, 0xe5d5be0d, 0x7cdcefb7, 0x0bdbdf21, 0x86d3d2d4, 0xf1d4e242,
     0x68ddb3f8, 0x1fda836e, 0x81be16cd, 0xf6b9265b, 0x6fb077e1, 0x18b74777,
     0x88085ae6, 0xff0f6a70, 0x66063bca, 0x11010b5c, 0x8f659eff, 0xf862ae69,
     0x616bffd3, 0x166ccf45, 0xa00ae278, 0xd70dd2ee, 0x4e048354, 0x3903b3c2,
     0xa7672661, 0xd06016f7, 0x4969474d, 0x3e6e77db, 0xaed16a4a, 0xd9d65adc,
     0x40df0b66, 0x37d83bf0, 0xa9bcae53, 0xdebb9ec5, 0x47b2cf7f, 0x30b5ffe9,
     0xbdbdf21c, 0xcabac28a, 0x53b39330, 0x24b4a3a6, 0xbad03605, 0xcdd70693,
     0x54de5729, 0x23d967bf, 0xb3667a2e, 0xc4614ab8, 0x5d681b02, 0x2a6f2b94,
     0xb40bbe37, 0xc30c8ea1, 0x5a05df1b, 0x2d02ef8d]"

primrec rd_crc32_reflect_loop :: "nat \<Rightarrow> rd_crc32_t \<Rightarrow> rd_crc32_t \<Rightarrow> rd_crc32_t" where
  "rd_crc32_reflect_loop 0 data ret = ret"
| "rd_crc32_reflect_loop (Suc n) data ret =
     (let data' = drop_bit 1 data
      in rd_crc32_reflect_loop n data' (push_bit 1 ret OR (data' AND 0x01)))"

definition rd_crc32_reflect :: "rd_crc32_t \<Rightarrow> nat \<Rightarrow> rd_crc32_t" where
  "rd_crc32_reflect data data_len = rd_crc32_reflect_loop (data_len - 1) data (data AND 0x01)"

definition rd_crc32_init :: rd_crc32_t where
  "rd_crc32_init = 0xffffffff"

primrec rd_crc32_update :: "rd_crc32_t \<Rightarrow> byte list \<Rightarrow> rd_crc32_t" where
  "rd_crc32_update crc [] = crc AND 0xffffffff"
| "rd_crc32_update crc (d # data) =
     (let tbl_idx = (crc XOR ucast d) AND 0xff
      in rd_crc32_update ((crc_table ! unat tbl_idx XOR drop_bit 8 crc) AND 0xffffffff) data)"

definition rd_crc32_finalize :: "rd_crc32_t \<Rightarrow> rd_crc32_t" where
  "rd_crc32_finalize crc = crc XOR 0xffffffff"

definition rd_crc32 :: "byte list \<Rightarrow> rd_crc32_t" where
  "rd_crc32 data = rd_crc32_finalize (rd_crc32_update rd_crc32_init data)"

definition rd_slice_crc32 :: "rd_slice \<Rightarrow> (rd_slice \<times> rd_crc32_t) outcome option" where
  "rd_slice_crc32 sl =
     map_option (\<lambda>m. obind m (\<lambda>(sl', crc). Return (sl', rd_crc32_finalize crc)))
       (rd_slice_foreach (\<lambda>bytes crc. Some (Return (rd_crc32_update crc bytes))) sl rd_crc32_init)"

section \<open>Bitwise division\<close>

text \<open>One bit of the division by the reflected polynomial, and the eight of a byte.\<close>

definition crc_step :: "u32 \<Rightarrow> u32" where
  "crc_step c = (if bit c 0 then drop_bit 1 c XOR 0xedb88320 else drop_bit 1 c)"

definition crc_bitwise :: "u32 \<Rightarrow> byte list \<Rightarrow> u32" where
  "crc_bitwise crc data = fold (\<lambda>d c. (crc_step ^^ 8) (c XOR ucast d)) data crc"

text \<open>The table is computed on integers, where the kernel evaluates it fast.\<close>

definition int_step :: "int \<Rightarrow> int" where
  "int_step c = (if odd c then (c div 2) XOR 0xedb88320 else c div 2)"

definition int_step8 :: "int \<Rightarrow> int" where
  "int_step8 c =
     int_step (int_step (int_step (int_step (int_step (int_step (int_step (int_step c)))))))"

lemma uint_crc_step: "uint (crc_step c) = int_step (uint c)"
proof -
  have "bit c 0 \<longleftrightarrow> odd (uint c)" using bit_uint_iff [of c 0] by (simp add: bit_0)
  moreover have "uint (drop_bit 1 c) = uint c div 2"
    using uint_lt2p [of c] by (simp only: unsigned_drop_bit_eq) (simp add: drop_bit_Suc take_bit_int_eq_self)
  ultimately show ?thesis by (simp add: crc_step_def int_step_def unsigned_xor_eq)
qed

lemma uint_crc_step8: "uint ((crc_step ^^ 8) c) = int_step8 (uint c)"
  by (simp add: int_step8_def uint_crc_step numeral_eq_Suc)

lemma int_table: "map int_step8 [0..255] = map uint crc_table"
  by code_simp

lemma crc_table_nth: "i < 256 \<Longrightarrow> crc_table ! i = (crc_step ^^ 8) (of_nat i)"
proof -
  assume i: "i < 256"
  have len: "length crc_table = 256" by (simp add: crc_table_def)
  have "uint (crc_table ! i) = map uint crc_table ! i" using i len by simp
  also have "\<dots> = int_step8 (int i)" using i unfolding int_table [symmetric] by (simp add: nth_upto)
  also have "\<dots> = uint ((crc_step ^^ 8) (of_nat i))"
    using i by (simp add: uint_crc_step8 unsigned_of_nat take_bit_nat_eq_self)
  finally show ?thesis by (simp only: unsigned_word_eqI)
qed

lemma crc_step_xor: "crc_step (a XOR b) = crc_step a XOR crc_step b"
proof (rule bit_word_eqI)
  fix n assume "n < LENGTH(32)"
  show "bit (crc_step (a XOR b)) n = bit (crc_step a XOR crc_step b) n"
    by (cases "bit a 0"; cases "bit b 0")
      (auto simp: crc_step_def bit_xor_iff bit_drop_bit_eq)
qed

lemma crc_steps_xor: "(crc_step ^^ n) (a XOR b) = (crc_step ^^ n) a XOR (crc_step ^^ n) b"
  by (induction n) (simp_all add: crc_step_xor)

lemma crc_steps_low_zero:
  "(\<And>i. i < n \<Longrightarrow> \<not> bit x i) \<Longrightarrow> (crc_step ^^ n) x = drop_bit n x"
proof (induction n arbitrary: x)
  case (Suc n)
  have "crc_step x = drop_bit 1 x" using Suc.prems [of 0] by (simp add: crc_step_def)
  moreover have "(crc_step ^^ n) (drop_bit 1 x) = drop_bit n (drop_bit 1 x)"
    using Suc.prems by (intro Suc.IH) (simp add: bit_drop_bit_eq)
  ultimately show ?case by (simp only: funpow_Suc_right comp_apply) (simp add: drop_bit_Suc)
qed simp

lemma bit_byte_less: "bit (d :: byte) n \<Longrightarrow> n < 8"
  using bit_imp_le_length [of d n] by simp

lemma mask8_u32: "(0xff :: u32) = mask 8"
  by (simp add: mask_eq_exp_minus_1)

lemma low_byte_bound: "unat ((y :: u32) AND 0xff) < 256"
proof -
  have "y AND 0xff = take_bit 8 y" unfolding mask8_u32 by (simp add: take_bit_eq_mask)
  then show ?thesis using take_bit_nat_less_exp [of 8 "unat y"] by (simp only: unsigned_take_bit_eq) simp
qed

lemma crc_table_step:
  "crc_table ! unat ((crc XOR ucast (d :: byte)) AND 0xff) XOR drop_bit 8 crc
    = (crc_step ^^ 8) (crc XOR ucast d)"
proof -
  define y where "y = crc XOR ucast d"
  have split: "y = (y AND 0xff) XOR push_bit 8 (drop_bit 8 y)"
    unfolding mask8_u32 by (rule bit_word_eqI) (auto simp: bit_simps)
  have "(crc_step ^^ 8) (push_bit 8 (drop_bit 8 y)) = drop_bit 8 (push_bit 8 (drop_bit 8 y))"
    by (rule crc_steps_low_zero) (simp add: bit_push_bit_iff)
  also have "\<dots> = drop_bit 8 y"
    by (rule bit_word_eqI) (auto simp: bit_simps dest: bit_imp_le_length)
  finally have "(crc_step ^^ 8) y = (crc_step ^^ 8) (y AND 0xff) XOR drop_bit 8 y"
    using split crc_steps_xor [of 8 "y AND 0xff" "push_bit 8 (drop_bit 8 y)"] by simp
  moreover have "crc_table ! unat (y AND 0xff) = (crc_step ^^ 8) (y AND 0xff)"
    using crc_table_nth [OF low_byte_bound [of y]] by simp
  moreover have "drop_bit 8 y = drop_bit 8 crc"
    unfolding y_def by (rule bit_word_eqI) (auto simp: bit_simps dest: bit_byte_less)
  ultimately show ?thesis by (simp add: y_def)
qed

lemma and_ffffffff [simp]: "(c :: u32) AND 0xffffffff = c"
proof -
  have "(0xffffffff :: u32) = mask 32" by (simp add: mask_eq_exp_minus_1)
  then have "c AND 0xffffffff = c AND mask 32" by simp
  also have "\<dots> = c" by (rule bit_word_eqI) (simp add: bit_and_iff bit_mask_iff)
  finally show ?thesis .
qed

lemma crc32_update_bitwise: "rd_crc32_update crc data = crc_bitwise crc data"
  by (induction data arbitrary: crc) (simp_all add: crc_bitwise_def crc_table_step Let_def)

lemma crc32_update_append:
  "rd_crc32_update crc (xs @ ys) = rd_crc32_update (rd_crc32_update crc xs) ys"
  by (simp add: crc32_update_bitwise crc_bitwise_def)

section \<open>Error detection\<close>

lemma crc_step_zero:
  assumes "crc_step x = 0"
  shows "x = 0"
proof -
  have "\<not> bit x 0"
  proof
    assume "bit x 0"
    then have "bit (crc_step x) 31 \<longleftrightarrow> bit (drop_bit 1 x) 31 \<noteq> bit (0xedb88320 :: u32) 31"
      by (simp add: crc_step_def bit_xor_iff)
    moreover have "\<not> bit (drop_bit 1 x) 31" using bit_imp_le_length [of x 32] by (auto simp: bit_drop_bit_eq)
    ultimately show False using assms by simp
  qed
  moreover from this have "drop_bit 1 x = 0" using assms by (simp add: crc_step_def)
  then have "\<not> bit x (Suc n)" for n using bit_drop_bit_eq [of 1 x] by (metis bit_0_eq bot_apply bot_bool_def comp_apply plus_1_eq_Suc)
  ultimately have "\<not> bit x n" for n by (cases n) auto
  then show ?thesis by (auto intro: bit_eqI)
qed

lemma crc_step_inj: "inj crc_step"
proof (rule injI)
  fix a b assume "crc_step a = crc_step b"
  then have "crc_step (a XOR b) = 0" by (simp add: crc_step_xor)
  then have "a XOR b = 0" by (rule crc_step_zero)
  then have "b XOR (a XOR b) = b" by simp
  then show "a = b" by (simp add: xor.left_commute)
qed

lemma crc_steps_inj: "inj (crc_step ^^ n)"
proof (induction n)
  case (Suc n)
  then show ?case unfolding funpow.simps(2) by (rule inj_compose [OF crc_step_inj])
qed simp

lemma xor_left_cancel: "(a :: u32) XOR b = a XOR c \<longleftrightarrow> b = c"
proof
  assume "a XOR b = a XOR c"
  then have "a XOR (a XOR b) = a XOR (a XOR c)" by simp
  then show "b = c" by (simp add: xor.assoc [symmetric])
qed simp

lemma xor_right_cancel: "(a :: u32) XOR c = b XOR c \<longleftrightarrow> a = b"
  using xor_left_cancel [of c a b] by (simp add: xor.commute)

text \<open>
  The division bit by bit: the bits enter in the order least significant bit of a byte first,
  which is the order of a reflected CRC.
\<close>

definition data_bits :: "byte list \<Rightarrow> bool list" where
  "data_bits data = concat (map (\<lambda>d. map (bit d) [0..<8]) data)"

definition crc_bits :: "u32 \<Rightarrow> bool list \<Rightarrow> u32" where
  "crc_bits crc bs = fold (\<lambda>b c. crc_step (c XOR of_bool b)) bs crc"

lemma crc_bits_append: "crc_bits c (bs @ bs') = crc_bits (crc_bits c bs) bs'"
  by (simp add: crc_bits_def)

lemma crc_bits_state_inj: "crc_bits c bs = crc_bits c' bs \<longleftrightarrow> c = c'"
proof (induction bs arbitrary: c c')
  case (Cons b bs)
  have "crc_step a = crc_step a' \<longleftrightarrow> a = a'" for a a' using crc_step_inj by (auto dest: injD)
  then show ?case using Cons by (simp add: crc_bits_def xor_right_cancel)
qed (simp add: crc_bits_def)

text \<open>Up to 32 bits enter the division as one number, of which the first bit is the lowest.\<close>

abbreviation bits_word :: "bool list \<Rightarrow> u32" where
  "bits_word bs \<equiv> horner_sum of_bool 2 bs"

lemma bit_bits_word: "bit (bits_word bs) n \<longleftrightarrow> n < 32 \<and> n < length bs \<and> bs ! n"
  by (auto simp: bit_horner_sum_bit_word_iff)

lemma bits_word_Cons: "bits_word (b # bs) = of_bool b XOR push_bit 1 (bits_word bs)"
proof (rule bit_word_eqI)
  fix n assume n: "n < LENGTH(32)"
  have "bit (of_bool b XOR push_bit 1 (bits_word bs)) n
      \<longleftrightarrow> (b \<and> n = 0) \<noteq> (1 \<le> n \<and> bit (bits_word bs) (n - 1))"
    using n by (auto simp: bit_xor_iff bit_push_bit_iff bit_of_bool_iff simp del: push_bit_Suc)
  also have "\<dots> \<longleftrightarrow> bit (bits_word (b # bs)) n"
    using n unfolding bit_bits_word by (cases n) auto
  finally show "bit (bits_word (b # bs)) n = bit (of_bool b XOR push_bit 1 (bits_word bs)) n" ..
qed

lemma bits_word_inj:
  assumes "length bs = length bs'" "length bs \<le> 32" "bits_word bs = bits_word bs'"
  shows "bs = bs'"
proof (rule nth_equalityI)
  fix n assume "n < length bs"
  then show "bs ! n = bs' ! n"
    using assms bit_bits_word [of bs n] bit_bits_word [of bs' n] by simp
qed (rule assms(1))

lemma crc_bits_word:
  "length bs \<le> 32 \<Longrightarrow> crc_bits c bs = (crc_step ^^ length bs) (c XOR bits_word bs)"
proof (induction bs arbitrary: c)
  case (Cons b bs)
  let ?w = "bits_word bs"
  have "crc_step (push_bit 1 ?w) = drop_bit 1 (push_bit 1 ?w)" by (simp add: crc_step_def bit_0)
  also have "\<dots> = ?w"
    by (rule bit_word_eqI) (use Cons.prems in \<open>auto simp: bit_simps bit_bits_word simp del: push_bit_Suc\<close>)
  finally have w: "crc_step (push_bit 1 ?w) = ?w" .
  have "crc_bits c (b # bs) = crc_bits (crc_step (c XOR of_bool b)) bs" by (simp add: crc_bits_def)
  also have "\<dots> = (crc_step ^^ length bs) (crc_step (c XOR of_bool b) XOR ?w)" using Cons by simp
  also have "crc_step (c XOR of_bool b) XOR ?w = crc_step (c XOR bits_word (b # bs))"
    by (simp only: bits_word_Cons xor.assoc [symmetric] crc_step_xor w)
  finally show ?case by (simp only: list.size(4) add_Suc_right add_0_right funpow_Suc_right comp_apply)
qed (simp add: crc_bits_def)

lemma bits_word_byte: "bits_word (map (bit d) [0..<8]) = ucast (d :: byte)"
proof (rule bit_word_eqI)
  fix n
  show "bit (bits_word (map (bit d) [0..<8])) n = bit (ucast d :: u32) n"
    using bit_byte_less [of d n] nth_map [of n "[0..<8]" "bit d"]
    by (auto simp: bit_bits_word bit_ucast_iff simp del: upt_rec_numeral upt_Suc)
qed

lemma crc32_update_bits: "rd_crc32_update c data = crc_bits c (data_bits data)"
proof (induction data arbitrary: c)
  case (Cons d data)
  have "crc_bits c (map (bit d) [0..<8]) = (crc_step ^^ 8) (c XOR ucast d)"
    using crc_bits_word [of "map (bit d) [0..<8]" c] bits_word_byte [of d] by simp
  then show ?case using Cons
    by (simp add: crc_table_step Let_def data_bits_def crc_bits_append del: upt.simps upt_rec_numeral)
qed (simp add: data_bits_def crc_bits_def)

section \<open>Properties\<close>

text \<open>
  C22. The table-driven CRC is the bit-by-bit one: for all data it is the complement of the
  division of the complemented initial value and the data by the reflected polynomial
  0xedb88320.
\<close>

theorem crc32_table_is_division:
  "rd_crc32 data = crc_bitwise 0xffffffff data XOR 0xffffffff"
  by (simp add: rd_crc32_def rd_crc32_finalize_def rd_crc32_init_def crc32_update_bitwise)

text \<open>
  \<open>rd_slice_crc32\<close> of a slice is the CRC of its unread bytes, however they are spread over
  segments, and consumes them.
\<close>

lemma slice_crc32_of_bytes:
  assumes "slice_inv sl"
  shows "\<exists>sl'. rd_slice_crc32 sl = Some (Return (sl', rd_crc32 (slice_bytes sl))) \<and>
    rd_slice_remains sl' = 0"
proof -
  let ?body = "\<lambda>bytes crc. Some (Return (rd_crc32_update crc bytes))"
  have "\<exists>sl' s'. rd_slice_foreach ?body sl rd_crc32_init = Some (Return (sl', s')) \<and>
    s' = rd_crc32_update rd_crc32_init ([] @ slice_bytes sl) \<and> slice_inv sl' \<and>
    rd_slice_abs_offset sl' = sl_end sl \<and> sl' = sl\<lparr>sl_seg := sl_seg sl', sl_rof := sl_rof sl'\<rparr>"
    by (rule foreach_spec [OF assms, where I = "\<lambda>xs s. s = rd_crc32_update rd_crc32_init xs"])
      (simp_all add: crc32_update_append)
  then obtain sl' where sl': "rd_slice_foreach ?body sl rd_crc32_init
      = Some (Return (sl', rd_crc32_update rd_crc32_init (slice_bytes sl)))" "slice_inv sl'"
    "rd_slice_abs_offset sl' = sl_end sl" "sl' = sl\<lparr>sl_seg := sl_seg sl', sl_rof := sl_rof sl'\<rparr>"
    by auto
  have "sl_end sl' = sl_end sl" by (subst sl'(4)) simp
  then have "rd_slice_remains sl' = 0" using slice_remains_eq(1) [OF sl'(2)] sl'(3) by simp
  then show ?thesis using sl'(1) by (simp add: rd_slice_crc32_def rd_crc32_def)
qed

text \<open>
  C27. Every burst error of up to 32 bits is detected: two messages of which the bits, taken in the
  order of the division (least significant bit of each byte first), differ, but only within 32
  consecutive ones, wherever in the message, also across byte boundaries, have different CRCs.
\<close>

theorem crc32_detects_bursts:
  assumes "data_bits xs = pre @ bs @ post" "data_bits ys = pre @ bs' @ post"
    and "length bs = length bs'" "length bs \<le> 32" "bs \<noteq> bs'"
  shows "rd_crc32 xs \<noteq> rd_crc32 ys"
proof -
  let ?c = "crc_bits rd_crc32_init pre"
  have "bits_word bs \<noteq> bits_word bs'" using bits_word_inj [OF assms(3,4)] assms(5) by blast
  then have "?c XOR bits_word bs \<noteq> ?c XOR bits_word bs'" by (simp add: xor_left_cancel)
  then have "crc_bits ?c bs \<noteq> crc_bits ?c bs'"
    using crc_bits_word [of bs ?c] crc_bits_word [of bs' ?c] assms(3,4)
      crc_steps_inj [of "length bs"] by (auto dest: injD)
  then show ?thesis using assms(1,2)
    by (simp add: rd_crc32_def rd_crc32_finalize_def crc32_update_bits crc_bits_append
        xor_right_cancel crc_bits_state_inj)
qed

text \<open>A burst that starts in the second of six bytes and ends in the sixth.\<close>

theorem crc32_detects_bursts_witness:
  "rd_crc32 [7, 1, 2, 3, 4, 9] \<noteq> rd_crc32 [7, 0x81, 2, 0xff, 4, 8]"
  by (rule crc32_detects_bursts
      [where pre = "take 15 (data_bits [7, 1, 2, 3, 4, 9])" and post = "drop 41 (data_bits [7, 1, 2, 3, 4, 9])"
        and bs = "take 26 (drop 15 (data_bits [7, 1, 2, 3, 4, 9]))"
        and bs' = "take 26 (drop 15 (data_bits [7, 0x81, 2, 0xff, 4, 8]))"])
    code_simp+

end
