(* ===== verification/Proto.thy ===== *)
theory Proto
  imports Slice Crc32
begin

text \<open>
  The data types of the Kafka wire protocol (\<open>rdkafka_proto.h\<close>): strings and byte arrays with
  a length prefix and a NULL value, their serialised forms and comparisons, producer ids; and
  the conversion of integers to network byte order that the buffer code uses.

  A C string argument is an option: None for NULL. A Kafka string or byte array keeps its
  length as the C \<open>int\<close> it is, with -1 for NULL; \<open>kser\<close> is the serialised form that
  \<open>rd_kafkap_str_new\<close> and \<open>rd_kafkap_bytes_new\<close> place behind the struct.
\<close>

section \<open>Network byte order\<close>

text \<open>The \<open>n\<close> low bytes of a word, the highest first, and back.\<close>

primrec be_enc :: "nat \<Rightarrow> 'a::len word \<Rightarrow> byte list" where
  "be_enc 0 v = []"
| "be_enc (Suc n) v = be_enc n (drop_bit 8 v) @ [ucast v]"

definition be_dec :: "byte list \<Rightarrow> 'a::len word" where
  "be_dec bs = foldl (\<lambda>acc b. push_bit 8 acc OR ucast b) 0 bs"

lemma length_be_enc [simp]: "length (be_enc n v) = n"
  by (induction n arbitrary: v) auto

lemma be_dec_snoc: "be_dec (bs @ [b]) = push_bit 8 (be_dec bs) OR (ucast b :: 'a::len word)"
  by (simp add: be_dec_def)

lemma be_dec_enc_bits: "be_dec (be_enc n v) = take_bit (8 * n) (v :: 'a::len word)"
proof (induction n arbitrary: v)
  case 0
  then show ?case by (simp add: be_dec_def)
next
  case (Suc n)
  have "push_bit 8 (take_bit (8 * n) (drop_bit 8 v)) OR ucast (ucast v :: byte) = take_bit (8 * Suc n) v"
    by (rule bit_word_eqI) (auto simp: bit_simps)
  then show ?case by (simp only: be_enc.simps be_dec_snoc Suc.IH)
qed

lemma be_dec_enc: "LENGTH('a) \<le> 8 * n \<Longrightarrow> be_dec (be_enc n v) = (v :: 'a::len word)"
  by (simp add: be_dec_enc_bits take_bit_word_eq_self)

section \<open>Strings\<close>

record rd_kafkap_str =
  ks_len :: int
  ks_str :: "byte list option"
  kser :: "byte list"

definition RD_KAFKAP_STR_LEN_NULL :: int where
  "RD_KAFKAP_STR_LEN_NULL = - 1"

definition RD_KAFKAP_STR_IS_NULL :: "int \<Rightarrow> bool" where
  "RD_KAFKAP_STR_IS_NULL len \<longleftrightarrow> len = RD_KAFKAP_STR_LEN_NULL"

definition RD_KAFKAP_STR_LEN0 :: "int \<Rightarrow> int" where
  "RD_KAFKAP_STR_LEN0 len = (if len = RD_KAFKAP_STR_LEN_NULL then 0 else len)"

definition RD_KAFKAP_STR_SIZE0 :: "int \<Rightarrow> int" where
  "RD_KAFKAP_STR_SIZE0 len = 2 + RD_KAFKAP_STR_LEN0 len"

text \<open>\<open>strlen\<close> of memory that holds a terminating zero byte.\<close>

definition strlen :: "byte list \<Rightarrow> nat" where
  "strlen s = length (takeWhile (\<lambda>c. c \<noteq> 0) s)"

text \<open>
  \<open>rd_kafkap_str_new\<close>: the 16-bit length prefix is the length cut to 16 bits. Copying more
  bytes than the source has is undefined.
\<close>

definition rd_kafkap_str_new :: "byte list option \<Rightarrow> int \<Rightarrow> rd_kafkap_str outcome" where
  "rd_kafkap_str_new str len =
     (case str of
        None \<Rightarrow>
          Return \<lparr>ks_len = RD_KAFKAP_STR_LEN_NULL, ks_str = None,
                  kser = be_enc 2 (word_of_int RD_KAFKAP_STR_LEN_NULL :: u16)\<rparr>
      | Some s \<Rightarrow>
          let len' = (if len = - 1 then int (strlen s) else len)
          in if len' = RD_KAFKAP_STR_LEN_NULL
             then Return \<lparr>ks_len = len', ks_str = None, kser = be_enc 2 (word_of_int len' :: u16)\<rparr>
             else if len' < 0 \<or> int (length s) < len' then Undefined
             else Return \<lparr>ks_len = len', ks_str = Some (take (nat len') s),
                          kser = be_enc 2 (word_of_int len' :: u16) @ take (nat len') s\<rparr>)"

definition rd_kafkap_str_copy :: "rd_kafkap_str \<Rightarrow> rd_kafkap_str outcome" where
  "rd_kafkap_str_copy src = rd_kafkap_str_new (ks_str src) (ks_len src)"

text \<open>
  \<open>memcmp\<close>: the sign of the first difference. A negative \<open>int\<close> count converts to a huge
  \<open>size_t\<close>, a NULL pointer may not be passed, and neither array may be shorter than the count.
\<close>

fun memcmp_bytes :: "byte list \<Rightarrow> byte list \<Rightarrow> int" where
  "memcmp_bytes (x # xs) (y # ys) = (if x = y then memcmp_bytes xs ys else if x < y then - 1 else 1)"
| "memcmp_bytes _ _ = 0"

definition memcmp :: "byte list option \<Rightarrow> byte list option \<Rightarrow> int \<Rightarrow> int outcome" where
  "memcmp a b n =
     (case (a, b) of
        (Some x, Some y) \<Rightarrow>
          if n < 0 \<or> int (length x) < n \<or> int (length y) < n then Undefined
          else Return (memcmp_bytes (take (nat n) x) (take (nat n) y))
      | _ \<Rightarrow> Undefined)"

definition rd_kafkap_str_cmp :: "rd_kafkap_str \<Rightarrow> rd_kafkap_str \<Rightarrow> int outcome" where
  "rd_kafkap_str_cmp a b =
     obind (memcmp (ks_str a) (ks_str b) (min (ks_len a) (ks_len b))) (\<lambda>r.
       Return (if r \<noteq> 0 then r else ks_len a - ks_len b))"

definition rd_kafkap_str_cmp_str :: "rd_kafkap_str \<Rightarrow> byte list \<Rightarrow> int outcome" where
  "rd_kafkap_str_cmp_str a str =
     (let len = int (strlen str)
      in obind (memcmp (ks_str a) (Some str) (min (ks_len a) len)) (\<lambda>r.
           Return (if r \<noteq> 0 then r else ks_len a - len)))"

definition rd_kafkap_str_cmp_str2 :: "byte list \<Rightarrow> rd_kafkap_str \<Rightarrow> int outcome" where
  "rd_kafkap_str_cmp_str2 str b =
     (let len = int (strlen str)
      in obind (memcmp (Some str) (ks_str b) (min (ks_len b) len)) (\<lambda>r.
           Return (if r \<noteq> 0 then r else len - ks_len b)))"

section \<open>Byte arrays\<close>

record rd_kafkap_bytes =
  kb_len :: int
  kb_data :: "byte list option"
  kb_ser :: "byte list"

definition RD_KAFKAP_BYTES_LEN_NULL :: int where
  "RD_KAFKAP_BYTES_LEN_NULL = - 1"

definition RD_KAFKAP_BYTES_IS_NULL :: "int \<Rightarrow> bool" where
  "RD_KAFKAP_BYTES_IS_NULL len \<longleftrightarrow> len = RD_KAFKAP_BYTES_LEN_NULL"

definition RD_KAFKAP_BYTES_LEN0 :: "int \<Rightarrow> int" where
  "RD_KAFKAP_BYTES_LEN0 len = (if len = RD_KAFKAP_BYTES_LEN_NULL then 0 else len)"

definition RD_KAFKAP_BYTES_SIZE0 :: "int \<Rightarrow> int" where
  "RD_KAFKAP_BYTES_SIZE0 len = 4 + RD_KAFKAP_BYTES_LEN0 len"

text \<open>\<open>fill\<close> is what fresh memory shows where nothing is copied.\<close>

definition rd_kafkap_bytes_new ::
  "(nat \<Rightarrow> byte) \<Rightarrow> byte list option \<Rightarrow> int \<Rightarrow> rd_kafkap_bytes outcome" where
  "rd_kafkap_bytes_new fill bytes len =
     (let len' = (if bytes = None \<and> len = 0 then RD_KAFKAP_BYTES_LEN_NULL else len)
      in if len' = RD_KAFKAP_BYTES_LEN_NULL
         then Return \<lparr>kb_len = len', kb_data = None, kb_ser = be_enc 4 (word_of_int len' :: u32)\<rparr>
         else if len' < 0 then Undefined
         else case bytes of
           None \<Rightarrow>
             let mem = map fill [0..<nat len']
             in Return \<lparr>kb_len = len', kb_data = Some mem,
                        kb_ser = be_enc 4 (word_of_int len' :: u32) @ mem\<rparr>
         | Some s \<Rightarrow>
             if int (length s) < len' then Undefined
             else Return \<lparr>kb_len = len', kb_data = Some (take (nat len') s),
                          kb_ser = be_enc 4 (word_of_int len' :: u32) @ take (nat len') s\<rparr>)"

definition rd_kafkap_bytes_copy :: "(nat \<Rightarrow> byte) \<Rightarrow> rd_kafkap_bytes \<Rightarrow> rd_kafkap_bytes outcome" where
  "rd_kafkap_bytes_copy fill src = rd_kafkap_bytes_new fill (kb_data src) (kb_len src)"

definition rd_kafkap_bytes_cmp :: "rd_kafkap_bytes \<Rightarrow> rd_kafkap_bytes \<Rightarrow> int outcome" where
  "rd_kafkap_bytes_cmp a b =
     obind (memcmp (kb_data a) (kb_data b) (min (kb_len a) (kb_len b))) (\<lambda>r.
       Return (if r \<noteq> 0 then r else kb_len a - kb_len b))"

definition rd_kafkap_bytes_cmp_data :: "rd_kafkap_bytes \<Rightarrow> byte list \<Rightarrow> int \<Rightarrow> int outcome" where
  "rd_kafkap_bytes_cmp_data a data len =
     obind (memcmp (kb_data a) (Some data) (min (kb_len a) len)) (\<lambda>r.
       Return (if r \<noteq> 0 then r else kb_len a - len))"

section \<open>Message overheads\<close>

definition RD_KAFKAP_REQHDR_SIZE :: nat where
  "RD_KAFKAP_REQHDR_SIZE = 4 + 2 + 2 + 4"

definition RD_KAFKAP_MESSAGESET_V0_HDR_SIZE :: nat where
  "RD_KAFKAP_MESSAGESET_V0_HDR_SIZE = 8 + 4"

definition RD_KAFKAP_MESSAGE_V0_HDR_SIZE :: nat where
  "RD_KAFKAP_MESSAGE_V0_HDR_SIZE = 4 + 1 + 1 + 4 + 4"

definition RD_KAFKAP_MESSAGE_V1_HDR_SIZE :: nat where
  "RD_KAFKAP_MESSAGE_V1_HDR_SIZE = 4 + 1 + 1 + 8 + 4 + 4"

definition RD_KAFKAP_MESSAGE_V0_OVERHEAD :: nat where
  "RD_KAFKAP_MESSAGE_V0_OVERHEAD = RD_KAFKAP_MESSAGESET_V0_HDR_SIZE + RD_KAFKAP_MESSAGE_V0_HDR_SIZE"

definition RD_KAFKAP_MESSAGE_V1_OVERHEAD :: nat where
  "RD_KAFKAP_MESSAGE_V1_OVERHEAD = RD_KAFKAP_MESSAGESET_V0_HDR_SIZE + RD_KAFKAP_MESSAGE_V1_HDR_SIZE"

definition RD_KAFKAP_MESSAGE_V2_OVERHEAD :: nat where
  "RD_KAFKAP_MESSAGE_V2_OVERHEAD =
     RD_UVARINT_ENC_SIZEOF 4 + 1 + RD_UVARINT_ENC_SIZEOF 8 + RD_UVARINT_ENC_SIZEOF 4 +
     RD_UVARINT_ENC_SIZEOF 4 + RD_UVARINT_ENC_SIZEOF 4 + RD_UVARINT_ENC_SIZEOF 4"

section \<open>Producer ids\<close>

record rd_kafka_pid =
  pid_id :: int
  pid_epoch :: int

definition RD_KAFKA_PID_INITIALIZER :: rd_kafka_pid where
  "RD_KAFKA_PID_INITIALIZER = \<lparr>pid_id = - 1, pid_epoch = - 1\<rparr>"

definition rd_kafka_pid_valid :: "rd_kafka_pid \<Rightarrow> bool" where
  "rd_kafka_pid_valid pid \<longleftrightarrow> pid_id pid \<noteq> - 1"

definition rd_kafka_pid_eq :: "rd_kafka_pid \<Rightarrow> rd_kafka_pid \<Rightarrow> bool" where
  "rd_kafka_pid_eq a b \<longleftrightarrow> pid_id a = pid_id b \<and> pid_epoch a = pid_epoch b"

definition rd_kafka_pid_reset :: "rd_kafka_pid \<Rightarrow> rd_kafka_pid" where
  "rd_kafka_pid_reset pid = pid\<lparr>pid_id := - 1, pid_epoch := - 1\<rparr>"

definition rd_kafka_pid_bump :: "rd_kafka_pid \<Rightarrow> rd_kafka_pid" where
  "rd_kafka_pid_bump old = \<lparr>pid_id = pid_id old, pid_epoch = (pid_epoch old + 1) AND 32767\<rparr>"

end
