(* ===== verification/Parlist.thy ===== *)
theory Parlist
  imports Rdlist Proto
begin

text \<open>
  Lists of topic partitions (\<open>rd_kafka_topic_partition_list_t\<close> of \<open>rdkafka_partition.c\<close>), the
  type in which subscriptions, assignments and offsets are passed around.

  \<open>tpl_elems\<close> has the \<open>tpl_cnt\<close> elements in use of the array of \<open>tpl_size\<close> cells. A pointer into
  the array is its index. Names are strings without a terminating zero, as \<open>rd_strdup\<close> copies
  them; \<open>tp_private\<close> is the address of the partition object, whose reference count is not
  modelled. Sizes are far from the limits of an \<open>int\<close>; a partition number is an \<open>int32_t\<close>.
\<close>

section \<open>The code\<close>

record rd_kafka_topic_partition =
  tp_topic :: string
  tp_partition :: int
  tp_offset :: int
  tp_metadata :: "byte list option"
  tp_metadata_size :: nat
  tp_opaque :: nat
  tp_err :: int
  tp_private :: "nat option"

record rd_kafka_topic_partition_list =
  tpl_cnt :: int
  tpl_size :: int
  tpl_elems :: "rd_kafka_topic_partition list"

definition RD_KAFKA_OFFSET_INVALID :: int where "RD_KAFKA_OFFSET_INVALID = - 1001"

definition RD_KAFKA_OFFSET_IS_LOGICAL :: "int \<Rightarrow> bool" where
  "RD_KAFKA_OFFSET_IS_LOGICAL off \<longleftrightarrow> off < 0"

definition RD_KAFKA_RESP_ERR__UNKNOWN_PARTITION :: int where
  "RD_KAFKA_RESP_ERR__UNKNOWN_PARTITION = - 190"

definition rd_kafka_topic_partition_list_grow ::
  "rd_kafka_topic_partition_list \<Rightarrow> int \<Rightarrow> rd_kafka_topic_partition_list" where
  "rd_kafka_topic_partition_list_grow l add_size =
     (let add = (if add_size < tpl_size l then max (tpl_size l) 32 else add_size)
      in l\<lparr>tpl_size := tpl_size l + add\<rparr>)"

definition rd_kafka_topic_partition_list_new :: "int \<Rightarrow> rd_kafka_topic_partition_list" where
  "rd_kafka_topic_partition_list_new sz =
     (let l = \<lparr>tpl_cnt = 0, tpl_size = 0, tpl_elems = []\<rparr>
      in if 0 < sz then rd_kafka_topic_partition_list_grow l sz else l)"

definition rd_kafka_topic_partition_new :: "string \<Rightarrow> int \<Rightarrow> rd_kafka_topic_partition" where
  "rd_kafka_topic_partition_new topic part =
     \<lparr>tp_topic = topic, tp_partition = part, tp_offset = 0, tp_metadata = None, tp_metadata_size = 0,
      tp_opaque = 0, tp_err = 0, tp_private = None\<rparr>"

text \<open>The list and the index of the new element.\<close>

definition rd_kafka_topic_partition_list_add0 ::
  "rd_kafka_topic_partition_list \<Rightarrow> string \<Rightarrow> int \<Rightarrow> nat option \<Rightarrow>
   (rd_kafka_topic_partition_list \<times> nat) outcome" where
  "rd_kafka_topic_partition_list_add0 l topic part priv =
     (let l1 = (if tpl_cnt l = tpl_size l then rd_kafka_topic_partition_list_grow l 1 else l)
      in obind (rd_assert (tpl_cnt l1 < tpl_size l1)) (\<lambda>_.
           Return (l1\<lparr>tpl_cnt := tpl_cnt l1 + 1,
                      tpl_elems := tpl_elems l1 @ [(rd_kafka_topic_partition_new topic part)
                        \<lparr>tp_offset := RD_KAFKA_OFFSET_INVALID, tp_private := priv\<rparr>]\<rparr>,
                   nat (tpl_cnt l1))))"

definition rd_kafka_topic_partition_list_add ::
  "rd_kafka_topic_partition_list \<Rightarrow> string \<Rightarrow> int \<Rightarrow> (rd_kafka_topic_partition_list \<times> nat) outcome" where
  "rd_kafka_topic_partition_list_add l topic part = rd_kafka_topic_partition_list_add0 l topic part None"

text \<open>With \<open>stop\<close> at the largest \<open>int32_t\<close> the increment overflows, which is undefined.\<close>

function rd_kafka_topic_partition_list_add_range ::
  "rd_kafka_topic_partition_list \<Rightarrow> string \<Rightarrow> int \<Rightarrow> int \<Rightarrow> rd_kafka_topic_partition_list outcome" where
  "rd_kafka_topic_partition_list_add_range l topic start stop =
     (if start \<le> stop
      then obind (rd_kafka_topic_partition_list_add l topic start) (\<lambda>(l1, _).
           if start = 2 ^ 31 - 1 then Undefined
           else rd_kafka_topic_partition_list_add_range l1 topic (start + 1) stop)
      else Return l)"
  by auto
termination by (relation "measure (\<lambda>(_, _, start, stop). nat (stop + 1 - start))") auto

declare rd_kafka_topic_partition_list_add_range.simps [simp del]

text \<open>\<open>strcmp\<close> compares as \<open>unsigned char\<close>.\<close>

fun strcmp :: "string \<Rightarrow> string \<Rightarrow> int" where
  "strcmp [] [] = 0"
| "strcmp [] (y # ys) = - 1"
| "strcmp (x # xs) [] = 1"
| "strcmp (x # xs) (y # ys) =
     (if x = y then strcmp xs ys else if (of_char x :: nat) < of_char y then - 1 else 1)"

text \<open>
  The C code subtracts two \<open>int32_t\<close>. The difference of the numbers partitions have, -1 (unassigned)
  to \<open>INT32_MAX\<close>, fits an \<open>int\<close>; for other values it would wrap around, but never to 0, which is
  all that a search looks at.
\<close>

definition rd_kafka_topic_partition_cmp :: "rd_kafka_topic_partition \<Rightarrow> rd_kafka_topic_partition \<Rightarrow> int" where
  "rd_kafka_topic_partition_cmp a b =
     (let r = strcmp (tp_topic a) (tp_topic b)
      in if r \<noteq> 0 then r else tp_partition a - tp_partition b)"

fun find0_from :: "rd_kafka_topic_partition list \<Rightarrow> rd_kafka_topic_partition \<Rightarrow> int \<Rightarrow> int" where
  "find0_from [] skel i = - 1"
| "find0_from (e # es) skel i = (if rd_kafka_topic_partition_cmp skel e = 0 then i else find0_from es skel (i + 1))"

definition rd_kafka_topic_partition_list_find0 :: "rd_kafka_topic_partition_list \<Rightarrow> string \<Rightarrow> int \<Rightarrow> int" where
  "rd_kafka_topic_partition_list_find0 l topic part =
     find0_from (tpl_elems l) (rd_kafka_topic_partition_new topic part) 0"

definition rd_kafka_topic_partition_list_find ::
  "rd_kafka_topic_partition_list \<Rightarrow> string \<Rightarrow> int \<Rightarrow> nat option" where
  "rd_kafka_topic_partition_list_find l topic part =
     (let i = rd_kafka_topic_partition_list_find0 l topic part in if i = - 1 then None else Some (nat i))"

definition rd_kafka_topic_partition_list_upsert ::
  "rd_kafka_topic_partition_list \<Rightarrow> string \<Rightarrow> int \<Rightarrow> (rd_kafka_topic_partition_list \<times> nat) outcome" where
  "rd_kafka_topic_partition_list_upsert l topic part =
     (case rd_kafka_topic_partition_list_find l topic part of
        Some i \<Rightarrow> Return (l, i)
      | None \<Rightarrow> rd_kafka_topic_partition_list_add l topic part)"

definition tpl_update :: "rd_kafka_topic_partition_list \<Rightarrow> nat \<Rightarrow>
  (rd_kafka_topic_partition \<Rightarrow> rd_kafka_topic_partition) \<Rightarrow> rd_kafka_topic_partition_list" where
  "tpl_update l i f = l\<lparr>tpl_elems := (tpl_elems l)[i := f (tpl_elems l ! i)]\<rparr>"

definition rd_kafka_topic_partition_copy ::
  "rd_kafka_topic_partition_list \<Rightarrow> rd_kafka_topic_partition \<Rightarrow> rd_kafka_topic_partition_list outcome" where
  "rd_kafka_topic_partition_copy l rktpar =
     obind (rd_kafka_topic_partition_list_add0 l (tp_topic rktpar) (tp_partition rktpar) (tp_private rktpar))
       (\<lambda>(l1, i). Return (tpl_update l1 i (\<lambda>dst.
          let dst1 = dst\<lparr>tp_offset := tp_offset rktpar, tp_opaque := tp_opaque rktpar, tp_err := tp_err rktpar\<rparr>
          in if 0 < tp_metadata_size rktpar
             then dst1\<lparr>tp_metadata := map_option (take (tp_metadata_size rktpar)) (tp_metadata rktpar),
                       tp_metadata_size := tp_metadata_size rktpar\<rparr>
             else dst1)))"

fun copy_all ::
  "rd_kafka_topic_partition_list \<Rightarrow> rd_kafka_topic_partition list \<Rightarrow> rd_kafka_topic_partition_list outcome" where
  "copy_all dst [] = Return dst"
| "copy_all dst (e # es) = obind (rd_kafka_topic_partition_copy dst e) (\<lambda>dst1. copy_all dst1 es)"

definition rd_kafka_topic_partition_list_copy ::
  "rd_kafka_topic_partition_list \<Rightarrow> rd_kafka_topic_partition_list outcome" where
  "rd_kafka_topic_partition_list_copy src =
     copy_all (rd_kafka_topic_partition_list_new (tpl_size src)) (tpl_elems src)"

definition rd_kafka_topic_partition_list_del_by_idx ::
  "rd_kafka_topic_partition_list \<Rightarrow> int \<Rightarrow> rd_kafka_topic_partition_list \<times> bool" where
  "rd_kafka_topic_partition_list_del_by_idx l idx =
     (if idx < 0 \<or> tpl_cnt l \<le> idx then (l, False)
      else (l\<lparr>tpl_cnt := tpl_cnt l - 1,
              tpl_elems := take (nat idx) (tpl_elems l) @ drop (nat idx + 1) (tpl_elems l)\<rparr>, True))"

definition rd_kafka_topic_partition_list_del ::
  "rd_kafka_topic_partition_list \<Rightarrow> string \<Rightarrow> int \<Rightarrow> rd_kafka_topic_partition_list \<times> bool" where
  "rd_kafka_topic_partition_list_del l topic part =
     (let i = rd_kafka_topic_partition_list_find0 l topic part
      in if i = - 1 then (l, False) else rd_kafka_topic_partition_list_del_by_idx l i)"

text \<open>
  \<open>regex\<close> stands for \<open>rd_regex_match\<close>: -1 for an invalid pattern, else whether it matches. The
  result is the return value and what is stored in \<open>matched_by_regex\<close>, if anything.
\<close>

definition rd_kafka_topic_partition_match ::
  "(string \<Rightarrow> string \<Rightarrow> int) \<Rightarrow> rd_kafka_topic_partition \<Rightarrow> string \<Rightarrow> bool \<times> bool option" where
  "rd_kafka_topic_partition_match regex rktpar topic =
     (if take 1 (tp_topic rktpar) = ''^''
      then let ret = regex (tp_topic rktpar) topic
           in if ret = - 1 then (False, None)
              else (ret \<noteq> 0, if ret \<noteq> 0 then Some True else None)
      else if strcmp (tp_topic rktpar) topic = 0 then (True, Some False)
      else (False, None))"

definition rd_kafka_topic_partition_list_sort ::
  "rd_kafka_topic_partition_list \<Rightarrow> (rd_kafka_topic_partition \<Rightarrow> rd_kafka_topic_partition \<Rightarrow> int) option \<Rightarrow>
   rd_kafka_topic_partition_list" where
  "rd_kafka_topic_partition_list_sort l cmp =
     l\<lparr>tpl_elems := qsort (case cmp of None \<Rightarrow> rd_kafka_topic_partition_cmp | Some c \<Rightarrow> c) (tpl_elems l)\<rparr>"

definition rd_kafka_topic_partition_list_sort_by_topic ::
  "rd_kafka_topic_partition_list \<Rightarrow> rd_kafka_topic_partition_list" where
  "rd_kafka_topic_partition_list_sort_by_topic l =
     rd_kafka_topic_partition_list_sort l (Some rd_kafka_topic_partition_cmp)"

definition rd_kafka_topic_partition_list_set_offset ::
  "rd_kafka_topic_partition_list \<Rightarrow> string \<Rightarrow> int \<Rightarrow> int \<Rightarrow> rd_kafka_topic_partition_list \<times> int" where
  "rd_kafka_topic_partition_list_set_offset l topic part off =
     (case rd_kafka_topic_partition_list_find l topic part of
        None \<Rightarrow> (l, RD_KAFKA_RESP_ERR__UNKNOWN_PARTITION)
      | Some i \<Rightarrow> (tpl_update l i (tp_offset_update (\<lambda>_. off)), 0))"

definition rd_kafka_topic_partition_list_reset_offsets ::
  "rd_kafka_topic_partition_list \<Rightarrow> int \<Rightarrow> rd_kafka_topic_partition_list" where
  "rd_kafka_topic_partition_list_reset_offsets l off =
     l\<lparr>tpl_elems := map (tp_offset_update (\<lambda>_. off)) (tpl_elems l)\<rparr>"

text \<open>
  \<open>offsets\<close> gives the stored and the committed offset of a partition object. Without a partition
  object \<open>from_rktp\<close> dereferences NULL.
\<close>

fun set_offsets_loop ::
  "(nat \<Rightarrow> int \<times> int) \<Rightarrow> bool \<Rightarrow> int \<Rightarrow> rd_kafka_topic_partition list \<Rightarrow>
   (rd_kafka_topic_partition list \<times> int) outcome" where
  "set_offsets_loop offsets from_rktp def_value [] = Return ([], 0)"
| "set_offsets_loop offsets from_rktp def_value (e # es) =
     obind (if from_rktp
            then case tp_private e of
                   None \<Rightarrow> Undefined
                 | Some rktp \<Rightarrow>
                     (let (stored, committed) = offsets rktp
                      in Return (if committed < stored then stored else RD_KAFKA_OFFSET_INVALID))
            else Return (if RD_KAFKA_OFFSET_IS_LOGICAL (tp_offset e) then def_value else tp_offset e)) (\<lambda>off.
     obind (set_offsets_loop offsets from_rktp def_value es) (\<lambda>(es', cnt).
       Return (e\<lparr>tp_offset := off\<rparr> # es', cnt + (if RD_KAFKA_OFFSET_IS_LOGICAL off then 0 else 1))))"

definition rd_kafka_topic_partition_list_set_offsets ::
  "(nat \<Rightarrow> int \<times> int) \<Rightarrow> rd_kafka_topic_partition_list \<Rightarrow> bool \<Rightarrow> int \<Rightarrow>
   (rd_kafka_topic_partition_list \<times> int) outcome" where
  "rd_kafka_topic_partition_list_set_offsets offsets l from_rktp def_value =
     obind (set_offsets_loop offsets from_rktp def_value (tpl_elems l)) (\<lambda>(es, cnt).
       Return (l\<lparr>tpl_elems := es\<rparr>, cnt))"

definition rd_kafka_topic_partition_list_count_abs_offsets :: "rd_kafka_topic_partition_list \<Rightarrow> int" where
  "rd_kafka_topic_partition_list_count_abs_offsets l =
     foldl (\<lambda>cnt e. if RD_KAFKA_OFFSET_IS_LOGICAL (tp_offset e) then cnt else cnt + 1) 0 (tpl_elems l)"

definition rd_kafka_topic_partition_list_match ::
  "rd_kafka_topic_partition_list \<Rightarrow> (rd_kafka_topic_partition \<Rightarrow> bool) \<Rightarrow> rd_kafka_topic_partition_list outcome" where
  "rd_kafka_topic_partition_list_match l mtch =
     copy_all (rd_kafka_topic_partition_list_new 0) (filter mtch (tpl_elems l))"

definition update_from :: "rd_kafka_topic_partition \<Rightarrow> rd_kafka_topic_partition \<Rightarrow> rd_kafka_topic_partition" where
  "update_from s d =
     (let d1 = d\<lparr>tp_offset := tp_offset s, tp_err := tp_err s\<rparr>;
          d2 = (if tp_metadata d1 \<noteq> None then d1\<lparr>tp_metadata := None, tp_metadata_size := 0\<rparr> else d1)
      in if 0 < tp_metadata_size s
         then d2\<lparr>tp_metadata := map_option (take (tp_metadata_size s)) (tp_metadata s),
                 tp_metadata_size := tp_metadata_size s\<rparr>
         else d2)"

definition rd_kafka_topic_partition_list_update ::
  "rd_kafka_topic_partition_list \<Rightarrow> rd_kafka_topic_partition_list \<Rightarrow> rd_kafka_topic_partition_list" where
  "rd_kafka_topic_partition_list_update dst src =
     dst\<lparr>tpl_elems := map (\<lambda>d. case rd_kafka_topic_partition_list_find src (tp_topic d) (tp_partition d) of
            None \<Rightarrow> d
          | Some i \<Rightarrow> update_from (tpl_elems src ! i) d) (tpl_elems dst)\<rparr>"

definition rd_kafka_topic_partition_list_set_err ::
  "rd_kafka_topic_partition_list \<Rightarrow> int \<Rightarrow> rd_kafka_topic_partition_list" where
  "rd_kafka_topic_partition_list_set_err l err = l\<lparr>tpl_elems := map (tp_err_update (\<lambda>_. err)) (tpl_elems l)\<rparr>"

definition rd_kafka_topic_partition_list_sum ::
  "rd_kafka_topic_partition_list \<Rightarrow> (rd_kafka_topic_partition \<Rightarrow> nat) \<Rightarrow> nat" where
  "rd_kafka_topic_partition_list_sum l cb = foldl (\<lambda>s e. size_add s (cb e)) 0 (tpl_elems l)"

definition rd_kafka_topic_partition_list_regex_cnt :: "rd_kafka_topic_partition_list \<Rightarrow> int" where
  "rd_kafka_topic_partition_list_regex_cnt l =
     foldl (\<lambda>cnt e. cnt + (if take 1 (tp_topic e) = ''^'' then 1 else 0)) 0 (tpl_elems l)"

text \<open>The names added to \<open>topics\<close>, and how many.\<close>

fun get_topic_names_loop :: "rd_kafka_topic_partition list \<Rightarrow> bool \<Rightarrow> string list \<Rightarrow> int \<Rightarrow> string list \<times> int" where
  "get_topic_names_loop [] include_regex topics cnt = (topics, cnt)"
| "get_topic_names_loop (e # es) include_regex topics cnt =
     (if \<not> include_regex \<and> take 1 (tp_topic e) = ''^'' then get_topic_names_loop es include_regex topics cnt
      else if find (\<lambda>t. strcmp (tp_topic e) t = 0) topics = None
      then get_topic_names_loop es include_regex (topics @ [tp_topic e]) (cnt + 1)
      else get_topic_names_loop es include_regex topics cnt)"

definition rd_kafka_topic_partition_list_get_topic_names ::
  "rd_kafka_topic_partition_list \<Rightarrow> string list \<Rightarrow> bool \<Rightarrow> string list \<times> int" where
  "rd_kafka_topic_partition_list_get_topic_names l topics include_regex =
     get_topic_names_loop (tpl_elems l) include_regex topics 0"

section \<open>Keys and comparison\<close>

abbreviation tp_key :: "rd_kafka_topic_partition \<Rightarrow> string \<times> int" where
  "tp_key e \<equiv> (tp_topic e, tp_partition e)"

abbreviation tpl_keys :: "rd_kafka_topic_partition_list \<Rightarrow> (string \<times> int) list" where
  "tpl_keys l \<equiv> map tp_key (tpl_elems l)"

lemma strcmp_0 [simp]: "strcmp s t = 0 \<longleftrightarrow> s = t"
  by (induction s t rule: strcmp.induct) auto

lemma cmp_0 [simp]: "rd_kafka_topic_partition_cmp a b = 0 \<longleftrightarrow> tp_key a = tp_key b"
  by (auto simp: rd_kafka_topic_partition_cmp_def Let_def)

lemma new_key [simp]: "tp_key (rd_kafka_topic_partition_new t p) = (t, p)"
  "tp_topic (rd_kafka_topic_partition_new t p) = t" "tp_partition (rd_kafka_topic_partition_new t p) = p"
  by (simp_all add: rd_kafka_topic_partition_new_def)

definition tpl_inv :: "rd_kafka_topic_partition_list \<Rightarrow> bool" where
  "tpl_inv l \<longleftrightarrow> tpl_cnt l = int (length (tpl_elems l)) \<and> tpl_cnt l \<le> tpl_size l"

lemma tpl_new_inv [simp]: "tpl_inv (rd_kafka_topic_partition_list_new n)"
  "tpl_elems (rd_kafka_topic_partition_list_new n) = []"
  by (simp_all add: tpl_inv_def rd_kafka_topic_partition_list_new_def rd_kafka_topic_partition_list_grow_def Let_def)

text \<open>Adding never fails the assertion, since the list grows when it is full.\<close>

lemma grow_room:
  assumes "tpl_inv l" "l1 = (if tpl_cnt l = tpl_size l then rd_kafka_topic_partition_list_grow l 1 else l)"
  shows "tpl_cnt l1 = int (length (tpl_elems l))" "tpl_cnt l1 < tpl_size l1" "tpl_elems l1 = tpl_elems l"
  using assms by (auto simp: rd_kafka_topic_partition_list_grow_def tpl_inv_def Let_def)

lemma add0_spec:
  assumes "tpl_inv l"
  obtains l' where "rd_kafka_topic_partition_list_add0 l t p priv = Return (l', length (tpl_elems l))"
    "tpl_inv l'" "tpl_elems l' = tpl_elems l @ [(rd_kafka_topic_partition_new t p)
       \<lparr>tp_offset := RD_KAFKA_OFFSET_INVALID, tp_private := priv\<rparr>]"
proof -
  define l1 where "l1 = (if tpl_cnt l = tpl_size l then rd_kafka_topic_partition_list_grow l 1 else l)"
  note g = grow_room [OF assms l1_def]
  show thesis
    by (rule that [of "l1\<lparr>tpl_cnt := tpl_cnt l1 + 1, tpl_elems := tpl_elems l @ [(rd_kafka_topic_partition_new t p)
          \<lparr>tp_offset := RD_KAFKA_OFFSET_INVALID, tp_private := priv\<rparr>]\<rparr>"])
      (use g in \<open>simp_all add: rd_kafka_topic_partition_list_add0_def Let_def l1_def [symmetric] tpl_inv_def\<close>)
qed

lemma add_spec:
  assumes "tpl_inv l"
  obtains l' where "rd_kafka_topic_partition_list_add l t p = Return (l', length (tpl_elems l))"
    "tpl_inv l'" "tpl_elems l' = tpl_elems l @ [(rd_kafka_topic_partition_new t p)
       \<lparr>tp_offset := RD_KAFKA_OFFSET_INVALID, tp_private := None\<rparr>]"
  by (rule add0_spec [OF assms, of t p None]) (use that in \<open>simp add: rd_kafka_topic_partition_list_add_def\<close>)

lemma add_range_spec:
  "tpl_inv l \<Longrightarrow> b < 2 ^ 31 - 1 \<Longrightarrow>
   \<exists>l'. rd_kafka_topic_partition_list_add_range l t a b = Return l' \<and> tpl_inv l' \<and>
     tpl_keys l' = tpl_keys l @ map (Pair t) [a..b]"
proof (induction "nat (b + 1 - a)" arbitrary: l a)
  case 0
  then show ?case by (subst rd_kafka_topic_partition_list_add_range.simps) simp
next
  case (Suc n)
  then have le: "a \<le> b" by simp
  obtain l1 where l1: "rd_kafka_topic_partition_list_add l t a = Return (l1, length (tpl_elems l))"
    "tpl_inv l1" "tpl_elems l1 = tpl_elems l @ [(rd_kafka_topic_partition_new t a)
       \<lparr>tp_offset := RD_KAFKA_OFFSET_INVALID, tp_private := None\<rparr>]" by (rule add_spec [OF Suc.prems(1)])
  have "\<exists>l'. rd_kafka_topic_partition_list_add_range l1 t (a + 1) b = Return l' \<and> tpl_inv l' \<and>
      tpl_keys l' = tpl_keys l1 @ map (Pair t) [a + 1..b]"
    by (rule Suc.hyps(1)) (use Suc.hyps(2) l1(2) Suc.prems(2) in simp_all)
  moreover have "[a..b] = a # [a + 1..b]" using le by (simp add: upto_rec1)
  ultimately show ?case using le Suc.prems(2) l1
    by (subst rd_kafka_topic_partition_list_add_range.simps) auto
qed

section \<open>Search\<close>

lemma find0_from_eq:
  "find0_from es skel i = (if tp_key skel \<in> tp_key ` set es
     then i + int (length (takeWhile (\<lambda>e. tp_key e \<noteq> tp_key skel) es)) else - 1)"
  by (induction es arbitrary: i) auto

lemma find_None: "rd_kafka_topic_partition_list_find l t p = None \<longleftrightarrow> (t, p) \<notin> set (tpl_keys l)"
  by (auto simp: rd_kafka_topic_partition_list_find_def rd_kafka_topic_partition_list_find0_def find0_from_eq
      Let_def image_iff)

lemma tpl_find_split:
  assumes "rd_kafka_topic_partition_list_find l t p = Some i"
  obtains pre e post where "tpl_elems l = pre @ e # post" "tp_key e = (t, p)" "i = length pre"
    "(t, p) \<notin> tp_key ` set pre" "rd_kafka_topic_partition_list_find0 l t p = int i"
proof -
  let ?P = "\<lambda>e. tp_key e \<noteq> (t, p)"
  have mem: "(t, p) \<in> tp_key ` set (tpl_elems l)" using assms find_None [of l t p] by auto
  then obtain e where e: "e \<in> set (tpl_elems l)" "\<not> ?P e" by auto
  then have "dropWhile ?P (tpl_elems l) \<noteq> []" by (auto simp: dropWhile_eq_Nil_conv)
  then obtain x post where d: "dropWhile ?P (tpl_elems l) = x # post" by (cases "dropWhile ?P (tpl_elems l)") auto
  have "\<not> ?P x" using d hd_dropWhile [of ?P "tpl_elems l"] by simp
  moreover have "tpl_elems l = takeWhile ?P (tpl_elems l) @ x # post"
    by (simp only: d [symmetric] takeWhile_dropWhile_id)
  moreover have f0: "rd_kafka_topic_partition_list_find0 l t p = int (length (takeWhile ?P (tpl_elems l)))"
    using mem by (simp add: rd_kafka_topic_partition_list_find0_def find0_from_eq)
  moreover have "i = length (takeWhile ?P (tpl_elems l))"
    using assms f0 by (simp add: rd_kafka_topic_partition_list_find_def Let_def)
  moreover have "(t, p) \<notin> tp_key ` set (takeWhile ?P (tpl_elems l))"
    by (auto dest: set_takeWhileD)
  ultimately show thesis using that by blast
qed

section \<open>A list as a map\<close>

text \<open>
  The operations that keep the keys of a list distinct, beside the map from partitions to
  offsets they stand for. \<open>add\<close> is one of them only for a partition that is not in the list yet:
  it appends without looking.
\<close>

inductive tpl_reach :: "rd_kafka_topic_partition_list \<Rightarrow> (string \<times> int \<rightharpoonup> int) \<Rightarrow> bool" where
  tpl_new: "tpl_reach (rd_kafka_topic_partition_list_new n) Map.empty"
| tpl_upsert: "tpl_reach l m \<Longrightarrow> rd_kafka_topic_partition_list_upsert l t p = Return (l', i) \<Longrightarrow>
    tpl_reach l' (if (t, p) \<in> dom m then m else m((t, p) \<mapsto> RD_KAFKA_OFFSET_INVALID))"
| tpl_add: "tpl_reach l m \<Longrightarrow> rd_kafka_topic_partition_list_find l t p = None \<Longrightarrow>
    rd_kafka_topic_partition_list_add l t p = Return (l', i) \<Longrightarrow>
    tpl_reach l' (m((t, p) \<mapsto> RD_KAFKA_OFFSET_INVALID))"
| tpl_set_offset: "tpl_reach l m \<Longrightarrow> rd_kafka_topic_partition_list_set_offset l t p off = (l', 0) \<Longrightarrow>
    tpl_reach l' (m((t, p) \<mapsto> off))"
| tpl_del: "tpl_reach l m \<Longrightarrow> tpl_reach (fst (rd_kafka_topic_partition_list_del l t p)) (m((t, p) := None))"
| tpl_reset: "tpl_reach l m \<Longrightarrow> tpl_reach (rd_kafka_topic_partition_list_reset_offsets l off) (map_option (\<lambda>_. off) \<circ> m)"
| tpl_sort: "tpl_reach l m \<Longrightarrow> tpl_reach (rd_kafka_topic_partition_list_sort l cmp) m"
| tpl_copy: "tpl_reach l m \<Longrightarrow> rd_kafka_topic_partition_list_copy l = Return l' \<Longrightarrow> tpl_reach l' m"

abbreviation tpl_map :: "rd_kafka_topic_partition_list \<Rightarrow> (string \<times> int) \<rightharpoonup> int" where
  "tpl_map l \<equiv> map_of (map (\<lambda>e. (tp_key e, tp_offset e)) (tpl_elems l))"

definition tpl_refines :: "rd_kafka_topic_partition_list \<Rightarrow> (string \<times> int \<rightharpoonup> int) \<Rightarrow> bool" where
  "tpl_refines l m \<longleftrightarrow> tpl_inv l \<and> distinct (tpl_keys l) \<and> tpl_map l = m"

lemma tpl_map_dom: "dom (tpl_map l) = set (tpl_keys l)"
  by (force simp: dom_map_of_conv_image_fst)

lemma map_of_middle:
  "k \<notin> fst ` set xs \<Longrightarrow> map_of (xs @ (k, v) # ys) = (map_of (xs @ ys))(k \<mapsto> v)"
  by (induction xs) (auto simp: fun_eq_iff)

lemma upsert_refines:
  assumes r: "tpl_refines l m" and up: "rd_kafka_topic_partition_list_upsert l t p = Return (l', i)"
  shows "tpl_refines l' (if (t, p) \<in> dom m then m else m((t, p) \<mapsto> RD_KAFKA_OFFSET_INVALID))"
proof (cases "rd_kafka_topic_partition_list_find l t p")
  case None
  then have new: "(t, p) \<notin> set (tpl_keys l)" by (simp only: find_None not_False_eq_True)
  obtain l1 where l1: "rd_kafka_topic_partition_list_add l t p = Return (l1, length (tpl_elems l))"
    "tpl_inv l1" "tpl_elems l1 = tpl_elems l @ [(rd_kafka_topic_partition_new t p)
       \<lparr>tp_offset := RD_KAFKA_OFFSET_INVALID, tp_private := None\<rparr>]"
    using add_spec [of l t p] r by (auto simp: tpl_refines_def)
  have "l' = l1" using up None l1(1) by (simp add: rd_kafka_topic_partition_list_upsert_def)
  moreover have "tpl_map l1 = (tpl_map l)((t, p) \<mapsto> RD_KAFKA_OFFSET_INVALID)"
    using map_of_middle [of "(t, p)" "map (\<lambda>e. (tp_key e, tp_offset e)) (tpl_elems l)" RD_KAFKA_OFFSET_INVALID "[]"]
      new l1(3) by (auto simp: image_iff)
  moreover have "(t, p) \<notin> dom m" using r new tpl_map_dom [of l] by (simp add: tpl_refines_def)
  ultimately show ?thesis using r l1(2,3) new by (auto simp: tpl_refines_def)
next
  case (Some j)
  then have "l' = l" using up by (simp add: rd_kafka_topic_partition_list_upsert_def)
  moreover have "(t, p) \<in> dom m"
    using Some find_None [of l t p] r tpl_map_dom [of l] by (simp add: tpl_refines_def)
  ultimately show ?thesis using r by simp
qed

lemma add_refines:
  assumes r: "tpl_refines l m" and "rd_kafka_topic_partition_list_find l t p = None"
    and "rd_kafka_topic_partition_list_add l t p = Return (l', i)"
  shows "tpl_refines l' (m((t, p) \<mapsto> RD_KAFKA_OFFSET_INVALID))"
proof -
  have "(t, p) \<notin> dom m" using assms(2) find_None [of l t p] r tpl_map_dom [of l] by (simp add: tpl_refines_def)
  moreover have "rd_kafka_topic_partition_list_upsert l t p = Return (l', i)"
    using assms(2,3) by (simp add: rd_kafka_topic_partition_list_upsert_def)
  ultimately show ?thesis using upsert_refines [OF r, of t p l' i] by simp
qed

text \<open>Adding a partition that is in the list puts it there twice; \<open>find\<close> keeps returning the first.\<close>

lemma add_duplicates:
  assumes "tpl_inv l" "rd_kafka_topic_partition_list_find l t p = Some i"
  shows "\<exists>l'. rd_kafka_topic_partition_list_add l t p = Return (l', length (tpl_elems l)) \<and>
    \<not> distinct (tpl_keys l') \<and> tpl_keys l' = tpl_keys l @ [(t, p)]"
proof -
  have mem: "(t, p) \<in> set (tpl_keys l)" using assms(2) find_None [of l t p] by simp
  obtain l' where l': "rd_kafka_topic_partition_list_add l t p = Return (l', length (tpl_elems l))"
    "tpl_elems l' = tpl_elems l @ [(rd_kafka_topic_partition_new t p)
       \<lparr>tp_offset := RD_KAFKA_OFFSET_INVALID, tp_private := None\<rparr>]" by (rule add_spec [OF assms(1)])
  then have "tpl_keys l' = tpl_keys l @ [(t, p)]" by simp
  moreover from this mem have "\<not> distinct (tpl_keys l')" by auto
  ultimately show ?thesis using l'(1) by blast
qed

lemma set_offset_refines:
  assumes r: "tpl_refines l m" and set: "rd_kafka_topic_partition_list_set_offset l t p off = (l', 0)"
  shows "tpl_refines l' (m((t, p) \<mapsto> off))"
proof -
  obtain i where i: "rd_kafka_topic_partition_list_find l t p = Some i" "l' = tpl_update l i (tp_offset_update (\<lambda>_. off))"
    using set by (auto simp: rd_kafka_topic_partition_list_set_offset_def RD_KAFKA_RESP_ERR__UNKNOWN_PARTITION_def
        split: option.splits)
  obtain pre e post where e: "tpl_elems l = pre @ e # post" "tp_key e = (t, p)" "i = length pre"
    "(t, p) \<notin> tp_key ` set pre" by (rule tpl_find_split [OF i(1)])
  have l': "tpl_elems l' = pre @ e\<lparr>tp_offset := off\<rparr> # post" "tpl_cnt l' = tpl_cnt l" "tpl_size l' = tpl_size l"
    using i(2) e(1,3) by (simp_all add: tpl_update_def)
  let ?kv = "map (\<lambda>e. (tp_key e, tp_offset e))"
  have notin: "(t, p) \<notin> fst ` set (?kv pre)" using e(4) by (auto simp: image_iff)
  define base where "base = map_of (?kv pre @ ?kv post)"
  have "tpl_map l' = base((t, p) \<mapsto> off)"
    using map_of_middle [OF notin, of off "?kv post"] l'(1) e(2) by (simp add: base_def)
  moreover have "tpl_map l = base((t, p) \<mapsto> tp_offset e)"
    using map_of_middle [OF notin, of "tp_offset e" "?kv post"] e(1,2) by (simp add: base_def)
  moreover have "m = tpl_map l" using r by (simp add: tpl_refines_def)
  ultimately have "tpl_map l' = m((t, p) \<mapsto> off)" by (simp only: fun_upd_upd)
  then show ?thesis using r l' e(1) unfolding tpl_refines_def by (simp add: tpl_inv_def)
qed

lemma del_refines:
  assumes r: "tpl_refines l m"
  shows "tpl_refines (fst (rd_kafka_topic_partition_list_del l t p)) (m((t, p) := None))"
proof (cases "rd_kafka_topic_partition_list_find l t p")
  case None
  then have "rd_kafka_topic_partition_list_find0 l t p = - 1" "(t, p) \<notin> dom m"
    using find_None [of l t p] r tpl_map_dom [of l]
    by (auto simp: rd_kafka_topic_partition_list_find_def Let_def tpl_refines_def split: if_splits)
  then show ?thesis using r
    by (simp add: rd_kafka_topic_partition_list_del_def Let_def fun_upd_idem domIff)
next
  case (Some i)
  obtain pre e post where e: "tpl_elems l = pre @ e # post" "tp_key e = (t, p)" "i = length pre"
    "(t, p) \<notin> tp_key ` set pre" "rd_kafka_topic_partition_list_find0 l t p = int i" by (rule tpl_find_split [OF Some])
  let ?l = "l\<lparr>tpl_cnt := tpl_cnt l - 1, tpl_elems := pre @ post\<rparr>" and ?kv = "map (\<lambda>e. (tp_key e, tp_offset e))"
  have del: "fst (rd_kafka_topic_partition_list_del l t p) = ?l"
    using r e by (simp add: rd_kafka_topic_partition_list_del_def rd_kafka_topic_partition_list_del_by_idx_def
        Let_def tpl_refines_def tpl_inv_def)
  have d: "(t, p) \<notin> tp_key ` set (pre @ post)" using r e by (auto simp: tpl_refines_def)
  then have "(t, p) \<notin> fst ` set (?kv pre)" "(t, p) \<notin> fst ` set (?kv (pre @ post))" by (auto simp: image_iff)
  then have "m = (map_of (?kv (pre @ post)))((t, p) \<mapsto> tp_offset e)" "map_of (?kv (pre @ post)) (t, p) = None"
    using map_of_middle [of "(t, p)" "?kv pre" "tp_offset e" "?kv post"] r e(1,2)
    by (auto simp: tpl_refines_def map_of_eq_None_iff)
  then show ?thesis unfolding del using r e(1) by (auto simp: tpl_refines_def tpl_inv_def fun_upd_idem)
qed

text \<open>The other operations, and that a copy has equal elements.\<close>

lemma reset_refines:
  assumes "tpl_refines l m"
  shows "tpl_refines (rd_kafka_topic_partition_list_reset_offsets l off) (map_option (\<lambda>_. off) \<circ> m)"
proof -
  have "map_of (map (\<lambda>e. (tp_key e, off)) es) = map_option (\<lambda>_. off) \<circ> map_of (map (\<lambda>e. (tp_key e, tp_offset e)) es)" for es
    by (induction es) (auto simp: fun_eq_iff)
  then show ?thesis using assms
    by (simp add: tpl_refines_def tpl_inv_def rd_kafka_topic_partition_list_reset_offsets_def comp_def)
qed

lemma sort_refines:
  assumes r: "tpl_refines l m"
  shows "tpl_refines (rd_kafka_topic_partition_list_sort l cmp) m"
proof -
  let ?es = "tpl_elems (rd_kafka_topic_partition_list_sort l cmp)" and ?kv = "map (\<lambda>e. (tp_key e, tp_offset e))"
  have ms: "mset ?es = mset (tpl_elems l)" by (simp add: rd_kafka_topic_partition_list_sort_def mset_qsort)
  then have "mset (map tp_key ?es) = mset (tpl_keys l)" "mset (?kv ?es) = mset (?kv (tpl_elems l))" by simp_all
  then have "distinct (map tp_key ?es)" "set (?kv ?es) = set (?kv (tpl_elems l))"
    using r by (auto simp only: tpl_refines_def dest: mset_eq_imp_distinct_iff mset_eq_setD)
  moreover have "map fst (?kv xs) = map tp_key xs" for xs by simp
  ultimately have "map_of (?kv ?es) = map_of (?kv (tpl_elems l))"
    using r map_of_inject_set [of "?kv ?es" "?kv (tpl_elems l)"] by (simp only: tpl_refines_def)
  moreover have "length ?es = length (tpl_elems l)" using ms mset_eq_length by blast
  ultimately show ?thesis using r \<open>distinct (map tp_key ?es)\<close>
    by (auto simp: tpl_refines_def tpl_inv_def rd_kafka_topic_partition_list_sort_def)
qed

lemma copy_all_spec:
  "tpl_inv dst \<Longrightarrow> copy_all dst es = Return l' \<Longrightarrow>
   tpl_inv l' \<and> map (\<lambda>e. (tp_key e, tp_offset e)) (tpl_elems l')
     = map (\<lambda>e. (tp_key e, tp_offset e)) (tpl_elems dst @ es)"
proof (induction es arbitrary: dst)
  case (Cons e es)
  obtain l1 where l1: "rd_kafka_topic_partition_list_add0 dst (tp_topic e) (tp_partition e) (tp_private e)
      = Return (l1, length (tpl_elems dst))" "tpl_inv l1"
    "tpl_elems l1 = tpl_elems dst @ [(rd_kafka_topic_partition_new (tp_topic e) (tp_partition e))
       \<lparr>tp_offset := RD_KAFKA_OFFSET_INVALID, tp_private := tp_private e\<rparr>]"
    by (rule add0_spec [OF Cons.prems(1)])
  obtain l2 where l2: "rd_kafka_topic_partition_copy dst e = Return l2" "tpl_inv l2"
    "map (\<lambda>e. (tp_key e, tp_offset e)) (tpl_elems l2) = map (\<lambda>e. (tp_key e, tp_offset e)) (tpl_elems dst @ [e])"
    using l1 by (simp add: rd_kafka_topic_partition_copy_def tpl_update_def tpl_inv_def Let_def)
  then show ?case using Cons.IH [OF l2(2)] Cons.prems(2) by simp
qed simp

lemma copy_refines:
  assumes r: "tpl_refines l m" and copy: "rd_kafka_topic_partition_list_copy l = Return l'"
  shows "tpl_refines l' m"
proof -
  let ?kv = "map (\<lambda>e. (tp_key e, tp_offset e))"
  have "copy_all (rd_kafka_topic_partition_list_new (tpl_size l)) (tpl_elems l) = Return l'"
    using copy by (simp only: rd_kafka_topic_partition_list_copy_def)
  from copy_all_spec [OF tpl_new_inv(1) this]
  have c: "tpl_inv l'" "?kv (tpl_elems l') = ?kv (tpl_elems l)" by simp_all
  have "map fst (?kv (tpl_elems l')) = map fst (?kv (tpl_elems l))" by (simp only: c(2))
  then have "tpl_keys l' = tpl_keys l" by (simp add: comp_def)
  then show ?thesis using r c by (simp only: tpl_refines_def)
qed

lemma reach_refines: "tpl_reach l m \<Longrightarrow> tpl_refines l m"
proof (induction rule: tpl_reach.induct)
  case (tpl_new n)
  show ?case by (simp add: tpl_refines_def)
next
  case tpl_upsert
  then show ?case by (blast intro: upsert_refines)
next
  case tpl_add
  then show ?case by (blast intro: add_refines)
next
  case tpl_set_offset
  then show ?case by (blast intro: set_offset_refines)
next
  case tpl_copy
  then show ?case by (blast intro: copy_refines)
qed (rule del_refines reset_refines sort_refines, assumption)+

text \<open>
  C31. A list of topic partitions that is built by \<open>upsert\<close>, \<open>set_offset\<close>, \<open>del\<close>,
  \<open>reset_offsets\<close>, \<open>sort\<close>, \<open>copy\<close>, and \<open>add\<close> of partitions that are not in the list yet (it does
  not check that itself), is a map from partitions to offsets: its counter is the number of its elements and fits the allocation, no partition occurs twice, and \<open>find\<close> returns
  the index of the element that has the offset last set, or nothing for a partition that is not
  in the map.
\<close>

theorem parlist_is_map:
  assumes "tpl_reach l m"
  shows "tpl_cnt l = int (length (tpl_elems l)) \<and> tpl_cnt l \<le> tpl_size l \<and> distinct (tpl_keys l) \<and>
    (case rd_kafka_topic_partition_list_find l t p of
       None \<Rightarrow> m (t, p) = None
     | Some i \<Rightarrow> i < length (tpl_elems l) \<and> tp_key (tpl_elems l ! i) = (t, p) \<and>
         m (t, p) = Some (tp_offset (tpl_elems l ! i)))"
proof -
  have r: "tpl_refines l m" using assms by (rule reach_refines)
  show ?thesis
  proof (cases "rd_kafka_topic_partition_list_find l t p")
    case None
    then have "(t, p) \<notin> dom m" using find_None [of l t p] tpl_map_dom [of l] r by (simp add: tpl_refines_def)
    then show ?thesis using None r by (auto simp: tpl_refines_def tpl_inv_def)
  next
    case (Some i)
    obtain pre e post where e: "tpl_elems l = pre @ e # post" "tp_key e = (t, p)" "i = length pre"
      "(t, p) \<notin> tp_key ` set pre" by (rule tpl_find_split [OF Some])
    let ?kv = "map (\<lambda>e. (tp_key e, tp_offset e))"
    have notin: "(t, p) \<notin> fst ` set (?kv pre)" using e(4) by (auto simp: image_iff)
    have "map_of (?kv pre @ ((t, p), tp_offset e) # ?kv post) (t, p) = Some (tp_offset e)"
      unfolding map_of_middle [OF notin] by simp
    moreover have "m = map_of (?kv pre @ ((t, p), tp_offset e) # ?kv post)"
      using r e(1,2) by (simp add: tpl_refines_def)
    ultimately have "m (t, p) = Some (tp_offset e)" by simp
    then show ?thesis using Some e r by (simp add: tpl_refines_def tpl_inv_def nth_append)
  qed
qed

theorem parlist_is_map_witness:
  "\<exists>l m. tpl_reach l m \<and> m (''t'', 3) = Some 42 \<and> distinct (tpl_keys l) \<and>
     rd_kafka_topic_partition_list_find l ''u'' 0 = None \<and> rd_kafka_topic_partition_list_find l ''t'' 3 \<noteq> None"
proof -
  let ?l0 = "rd_kafka_topic_partition_list_new 1"
  obtain l1 i where l1: "rd_kafka_topic_partition_list_upsert ?l0 ''t'' 3 = Return (l1, i)"
    "rd_kafka_topic_partition_list_find l1 ''t'' 3 = Some 0"
    by (simp add: rd_kafka_topic_partition_list_upsert_def rd_kafka_topic_partition_list_find_def
        rd_kafka_topic_partition_list_find0_def rd_kafka_topic_partition_list_add_def
        rd_kafka_topic_partition_list_add0_def rd_kafka_topic_partition_list_new_def
        rd_kafka_topic_partition_list_grow_def Let_def)
  let ?l = "tpl_update l1 0 (tp_offset_update (\<lambda>_. 42))"
  have "rd_kafka_topic_partition_list_set_offset l1 ''t'' 3 42 = (?l, 0)"
    using l1(2) by (simp add: rd_kafka_topic_partition_list_set_offset_def)
  from tpl_set_offset [OF tpl_upsert [OF tpl_new l1(1)] this]
  have r: "tpl_reach ?l [(''t'', 3) \<mapsto> 42]" by simp
  have "rd_kafka_topic_partition_list_find ?l ''u'' 0 = None" "rd_kafka_topic_partition_list_find ?l ''t'' 3 \<noteq> None"
    using parlist_is_map [OF r, of "''u''" 0] parlist_is_map [OF r, of "''t''" 3] by (auto split: option.splits)
  then show ?thesis using r parlist_is_map [OF r] by (intro exI [of _ ?l] exI [of _ "[(''t'', 3) \<mapsto> 42]"]) simp
qed

end
