(* ===== verification/Assignor.thy ===== *)
theory Assignor
  imports Parlist "HOL-Library.Signed_Division"
begin

text \<open>
  Partition assignment in a consumer group (\<open>rdkafka_assignor.c\<close>, \<open>rdkafka_range_assignor.c\<close>,
  \<open>rdkafka_roundrobin_assignor.c\<close>): which topics the members of the group subscribe to, and the
  two strategies that distribute the partitions of those topics.

  The members are an array, and a pointer to a member is its index. The lists of \<open>rdlist.h\<close> that
  the code only appends to, sorts and counts are lists here. \<open>regex\<close> stands for
  \<open>rd_regex_match\<close> and \<open>blacklisted\<close> for the match against the configured blacklist.
\<close>

section \<open>Members and topics\<close>

record rd_kafka_group_member =
  rkgm_subscription :: rd_kafka_topic_partition_list
  rkgm_assignment :: rd_kafka_topic_partition_list
  rkgm_eligible :: "nat list"
  rkgm_member_id :: rd_kafkap_str

record rd_kafka_metadata_topic =
  mt_topic :: string
  mt_partition_cnt :: int

record rd_kafka_assignor_topic =
  at_metadata :: rd_kafka_metadata_topic
  at_members :: "nat list"

text \<open>Member ids come from the protocol and are not NULL.\<close>

definition rd_kafka_group_member_cmp :: "rd_kafka_group_member \<Rightarrow> rd_kafka_group_member \<Rightarrow> int" where
  "rd_kafka_group_member_cmp a b =
     (case rd_kafkap_str_cmp (rkgm_member_id a) (rkgm_member_id b) of Return r \<Rightarrow> r | _ \<Rightarrow> 0)"

definition rd_kafka_group_member_find_subscription ::
  "(string \<Rightarrow> string \<Rightarrow> int) \<Rightarrow> rd_kafka_group_member \<Rightarrow> string \<Rightarrow> bool" where
  "rd_kafka_group_member_find_subscription regex rkgm topic \<longleftrightarrow>
     list_ex (\<lambda>rktpar. fst (rd_kafka_topic_partition_match regex rktpar topic)) (tpl_elems (rkgm_subscription rkgm))"

text \<open>The comparator returns 1 for equal names and 0 for different ones.\<close>

definition rd_kafka_assignor_topic_cmp :: "rd_kafka_assignor_topic \<Rightarrow> rd_kafka_assignor_topic \<Rightarrow> int" where
  "rd_kafka_assignor_topic_cmp a b =
     (if strcmp (mt_topic (at_metadata a)) (mt_topic (at_metadata b)) = 0 then 1 else 0)"

section \<open>Subscriptions\<close>

text \<open>The eligible topics of the member, the number of matches and of matches by a pattern.\<close>

fun subscription_match_loop ::
  "(string \<Rightarrow> string \<Rightarrow> int) \<Rightarrow> string \<Rightarrow> nat \<Rightarrow> rd_kafka_topic_partition list \<Rightarrow> nat list \<times> nat \<times> nat \<Rightarrow>
   nat list \<times> nat \<times> nat" where
  "subscription_match_loop regex topic ti [] acc = acc"
| "subscription_match_loop regex topic ti (p # ps) (eligible, matched, has_regex) =
     (case rd_kafka_topic_partition_match regex p topic of
        (True, by) \<Rightarrow> subscription_match_loop regex topic ti ps
          (eligible @ [ti], matched + 1, has_regex + (if by = Some True then 1 else 0))
      | (False, _) \<Rightarrow> subscription_match_loop regex topic ti ps (eligible, matched, has_regex))"

text \<open>
  The member, the pointers to the members that subscribe to the topic, and whether all
  subscriptions of this member are satisfied.
\<close>

definition rd_kafka_member_subscription_match ::
  "(string \<Rightarrow> string \<Rightarrow> int) \<Rightarrow> string \<Rightarrow> nat \<Rightarrow> rd_kafka_group_member \<Rightarrow> nat \<Rightarrow> nat list \<Rightarrow>
   rd_kafka_group_member \<times> nat list \<times> bool" where
  "rd_kafka_member_subscription_match regex topic ti rkgm i at =
     (let (eligible, matched, has_regex) =
            subscription_match_loop regex topic ti (tpl_elems (rkgm_subscription rkgm)) (rkgm_eligible rkgm, 0, 0)
      in (rkgm\<lparr>rkgm_eligible := eligible\<rparr>, if 0 < matched then at @ [i] else at,
          has_regex = 0 \<and> int (length eligible) = tpl_cnt (rkgm_subscription rkgm)))"

fun members_match_loop ::
  "(string \<Rightarrow> string \<Rightarrow> int) \<Rightarrow> string \<Rightarrow> nat \<Rightarrow> nat \<Rightarrow> rd_kafka_group_member list \<Rightarrow> nat list \<Rightarrow> nat \<Rightarrow>
   rd_kafka_group_member list \<times> nat list \<times> nat" where
  "members_match_loop regex topic ti i [] at complete = ([], at, complete)"
| "members_match_loop regex topic ti i (rkgm # rest) at complete =
     (let (rkgm', at', c) = rd_kafka_member_subscription_match regex topic ti rkgm i at;
          (rest', at'', complete') = members_match_loop regex topic ti (i + 1) rest at' (if c then complete + 1 else complete)
      in (rkgm' # rest', at'', complete'))"

text \<open>The scan of the topics ends early when all members have all their subscriptions.\<close>

fun subscriptions_map_loop ::
  "(string \<Rightarrow> string \<Rightarrow> int) \<Rightarrow> (string \<Rightarrow> bool) \<Rightarrow> nat \<Rightarrow> rd_kafka_metadata_topic list \<Rightarrow>
   rd_kafka_group_member list \<Rightarrow> rd_kafka_assignor_topic list \<Rightarrow>
   rd_kafka_group_member list \<times> rd_kafka_assignor_topic list" where
  "subscriptions_map_loop regex blacklisted ti [] members eligible_topics = (members, eligible_topics)"
| "subscriptions_map_loop regex blacklisted ti (t # ts) members eligible_topics =
     (if blacklisted (mt_topic t)
      then subscriptions_map_loop regex blacklisted (ti + 1) ts members eligible_topics
      else let (members', at, complete) = members_match_loop regex (mt_topic t) ti 0 members [] 0
           in if at = [] then subscriptions_map_loop regex blacklisted (ti + 1) ts members' eligible_topics
              else let eligible_topics' = eligible_topics @ [\<lparr>at_metadata = t, at_members = at\<rparr>]
                   in if complete = length members then (members', eligible_topics')
                      else subscriptions_map_loop regex blacklisted (ti + 1) ts members' eligible_topics')"

definition rd_kafka_member_subscriptions_map ::
  "(string \<Rightarrow> string \<Rightarrow> int) \<Rightarrow> (string \<Rightarrow> bool) \<Rightarrow> rd_kafka_metadata_topic list \<Rightarrow> rd_kafka_group_member list \<Rightarrow>
   rd_kafka_group_member list \<times> rd_kafka_assignor_topic list" where
  "rd_kafka_member_subscriptions_map regex blacklisted topics members =
     subscriptions_map_loop regex blacklisted 0 topics members []"

section \<open>The range strategy\<close>

definition assign_to :: "rd_kafka_group_member list \<Rightarrow> nat \<Rightarrow> rd_kafka_topic_partition_list \<Rightarrow> rd_kafka_group_member list" where
  "assign_to members p l = members[p := (members ! p)\<lparr>rkgm_assignment := l\<rparr>]"

fun range_members_loop ::
  "string \<Rightarrow> int \<Rightarrow> int \<Rightarrow> int \<Rightarrow> nat list \<Rightarrow> rd_kafka_group_member list \<Rightarrow> rd_kafka_group_member list outcome" where
  "range_members_loop topic per extra i [] members = Return members"
| "range_members_loop topic per extra i (p # ps) members =
     (let start = per * i + min i extra;
          len = per + (if extra < i + 1 then 0 else 1)
      in if len = 0 then range_members_loop topic per extra (i + 1) ps members
         else obind (rd_kafka_topic_partition_list_add_range (rkgm_assignment (members ! p)) topic
                       start (start + len - 1)) (\<lambda>l.
              range_members_loop topic per extra (i + 1) ps (assign_to members p l)))"

text \<open>Division by zero is undefined.\<close>

definition range_topic ::
  "rd_kafka_group_member list \<Rightarrow> rd_kafka_assignor_topic \<Rightarrow> rd_kafka_group_member list outcome" where
  "range_topic members et =
     (let ptrs = qsort (\<lambda>a b. rd_kafka_group_member_cmp (members ! a) (members ! b)) (at_members et);
          cnt = mt_partition_cnt (at_metadata et);
          m = int (length ptrs)
      in if m = 0 then Undefined
         else range_members_loop (mt_topic (at_metadata et)) (cnt sdiv m) (cnt smod m) 0 ptrs members)"

fun rd_kafka_range_assignor_assign_cb ::
  "rd_kafka_group_member list \<Rightarrow> rd_kafka_assignor_topic list \<Rightarrow> rd_kafka_group_member list outcome" where
  "rd_kafka_range_assignor_assign_cb members [] = Return members"
| "rd_kafka_range_assignor_assign_cb members (et # ets) =
     obind (range_topic members et) (\<lambda>members'. rd_kafka_range_assignor_assign_cb members' ets)"

section \<open>The round robin strategy\<close>

text \<open>The search for the next subscribed member has no check for the end of the array.\<close>

function rr_next :: "(string \<Rightarrow> string \<Rightarrow> int) \<Rightarrow> rd_kafka_group_member list \<Rightarrow> string \<Rightarrow> nat \<Rightarrow> nat outcome" where
  "rr_next regex members topic i =
     (if i < length members
      then if rd_kafka_group_member_find_subscription regex (members ! i) topic then Return i
           else rr_next regex members topic (i + 1)
      else Undefined)"
  by auto
termination by (relation "measure (\<lambda>(_, members, _, i). length members - i)") auto

declare rr_next.simps [simp del]

fun rr_partitions ::
  "(string \<Rightarrow> string \<Rightarrow> int) \<Rightarrow> rd_kafka_assignor_topic \<Rightarrow> int list \<Rightarrow> rd_kafka_group_member list \<Rightarrow> nat \<Rightarrow>
   (rd_kafka_group_member list \<times> nat) outcome" where
  "rr_partitions regex et [] members i = Return (members, i)"
| "rr_partitions regex et (part # parts) members i =
     obind (rr_next regex members (mt_topic (at_metadata et)) i) (\<lambda>p.
     obind (rd_kafka_topic_partition_list_add (rkgm_assignment (members ! p)) (mt_topic (at_metadata et)) part) (\<lambda>(l, _).
       if at_members et = [] then Undefined
       else rr_partitions regex et parts (assign_to members p l) ((p + 1) mod length (at_members et))))"

fun rr_topics ::
  "(string \<Rightarrow> string \<Rightarrow> int) \<Rightarrow> rd_kafka_assignor_topic list \<Rightarrow> rd_kafka_group_member list \<Rightarrow> nat \<Rightarrow>
   rd_kafka_group_member list outcome" where
  "rr_topics regex [] members i = Return members"
| "rr_topics regex (et # ets) members i =
     obind (rr_partitions regex et [0..mt_partition_cnt (at_metadata et) - 1] members i) (\<lambda>(members', i').
       rr_topics regex ets members' i')"

definition rd_kafka_roundrobin_assignor_assign_cb ::
  "(string \<Rightarrow> string \<Rightarrow> int) \<Rightarrow> rd_kafka_group_member list \<Rightarrow> rd_kafka_assignor_topic list \<Rightarrow>
   rd_kafka_group_member list outcome" where
  "rd_kafka_roundrobin_assignor_assign_cb regex members eligible_topics =
     rr_topics regex (qsort rd_kafka_assignor_topic_cmp eligible_topics)
       (qsort rd_kafka_group_member_cmp members) 0"

section \<open>Running a strategy\<close>

datatype assign_cb = Range_Assign | Roundrobin_Assign

record rd_kafka_assignor =
  rkas_protocol_name :: string
  rkas_enabled :: bool
  rkas_assign_cb :: assign_cb

definition RD_KAFKA_RESP_ERR__UNKNOWN_PROTOCOL :: int where "RD_KAFKA_RESP_ERR__UNKNOWN_PROTOCOL = - 171"

definition rd_kafka_assignor_find :: "rd_kafka_assignor list \<Rightarrow> string \<Rightarrow> rd_kafka_assignor option" where
  "rd_kafka_assignor_find assignors protocol = find (\<lambda>a. strcmp protocol (rkas_protocol_name a) = 0) assignors"

text \<open>The members with their assignments and the error code.\<close>

definition rd_kafka_assignor_run ::
  "(string \<Rightarrow> string \<Rightarrow> int) \<Rightarrow> (string \<Rightarrow> bool) \<Rightarrow> rd_kafka_assignor list \<Rightarrow> string \<Rightarrow>
   rd_kafka_metadata_topic list \<Rightarrow> rd_kafka_group_member list \<Rightarrow> (rd_kafka_group_member list \<times> int) outcome" where
  "rd_kafka_assignor_run regex blacklisted assignors protocol_name metadata members =
     (case rd_kafka_assignor_find assignors protocol_name of
        None \<Rightarrow> Return (members, RD_KAFKA_RESP_ERR__UNKNOWN_PROTOCOL)
      | Some rkas \<Rightarrow>
          if \<not> rkas_enabled rkas then Return (members, RD_KAFKA_RESP_ERR__UNKNOWN_PROTOCOL)
          else let (members', eligible_topics) = rd_kafka_member_subscriptions_map regex blacklisted metadata members
               in obind (case rkas_assign_cb rkas of
                           Range_Assign \<Rightarrow> rd_kafka_range_assignor_assign_cb members' eligible_topics
                         | Roundrobin_Assign \<Rightarrow> rd_kafka_roundrobin_assignor_assign_cb regex members' eligible_topics)
                    (\<lambda>members''. Return (members'', 0)))"

section \<open>The list of strategies\<close>

text \<open>
  \<open>rtrim\<close> starts at the terminating zero, which is not white space, so that the loop ends at once
  and the zero is written where it was.
\<close>

definition isspace :: "char \<Rightarrow> bool" where
  "isspace c \<longleftrightarrow> c \<in> set (map char_of [32, 9, 10, 11, 12, 13 :: nat])"

fun rtrim_loop :: "string \<Rightarrow> nat \<Rightarrow> nat outcome" where
  "rtrim_loop s e =
     (if e = length s \<or> \<not> isspace (s ! e) then Return e
      else case e of 0 \<Rightarrow> Undefined | Suc e' \<Rightarrow> rtrim_loop s e')"

definition rtrim :: "string \<Rightarrow> string outcome" where
  "rtrim s =
     (if s = [] then Return s else obind (rtrim_loop s (length s)) (\<lambda>e. Return (take e s)))"

text \<open>
  A strategy is added, unless the group is of another type or has the strategy already. The
  result has the strategies and whether the strategy is one of them, which is then enabled.
\<close>

definition rd_kafka_assignor_add ::
  "string \<Rightarrow> rd_kafka_assignor list \<Rightarrow> string \<Rightarrow> string \<Rightarrow> assign_cb \<Rightarrow> rd_kafka_assignor list \<times> bool" where
  "rd_kafka_assignor_add group_protocol_type assignors protocol_type protocol_name cb =
     (if strcmp group_protocol_type protocol_type \<noteq> 0 then (assignors, False)
      else if rd_kafka_assignor_find assignors protocol_name \<noteq> None then (assignors, True)
      else (assignors @ [\<lparr>rkas_protocol_name = protocol_name, rkas_enabled = False, rkas_assign_cb = cb\<rparr>], True))"

definition enable_assignor :: "rd_kafka_assignor list \<Rightarrow> string \<Rightarrow> rd_kafka_assignor list" where
  "enable_assignor assignors name =
     map (\<lambda>a. if rkas_protocol_name a = name then a\<lparr>rkas_enabled := True\<rparr> else a) assignors"

text \<open>The enabled strategies, or the name that is not supported.\<close>

function assignors_init_loop ::
  "string \<Rightarrow> string \<Rightarrow> rd_kafka_assignor list \<Rightarrow> (string + rd_kafka_assignor list) outcome" where
  "assignors_init_loop gpt s assignors =
     (if s = [] then Return (Inr assignors)
      else let s1 = dropWhile (\<lambda>c. c = CHR '' '' \<or> c = CHR '','') s;
               word = takeWhile (\<lambda>c. c \<noteq> CHR '','') s1;
               t = drop (length word + 1) s1
           in obind (rtrim word) (\<lambda>name.
                let cb = (if strcmp name ''range'' = 0 then Some Range_Assign
                          else if strcmp name ''roundrobin'' = 0 then Some Roundrobin_Assign else None)
                in case cb of
                     None \<Rightarrow> Return (Inl name)
                   | Some f \<Rightarrow>
                       let (assignors1, found) = rd_kafka_assignor_add gpt assignors ''consumer'' name f
                       in assignors_init_loop gpt t (if found then enable_assignor assignors1 name else assignors1)))"
  by auto
termination
proof (relation "measure (\<lambda>(_, s, _). length s)"; simp)
  fix s :: string
  assume "s \<noteq> []"
  moreover have "length (dropWhile (\<lambda>c. c = CHR '' '' \<or> c = CHR '','') s) \<le> length s" by (rule length_dropWhile_le)
  ultimately show "length (dropWhile (\<lambda>c. c = CHR '' '' \<or> c = CHR '','') s) -
      Suc (length (takeWhile (\<lambda>c. c \<noteq> CHR '','') (dropWhile (\<lambda>c. c = CHR '' '' \<or> c = CHR '','') s))) < length s"
    by (cases s) auto
qed

declare assignors_init_loop.simps [simp del]

definition rd_kafka_assignors_init :: "string \<Rightarrow> string \<Rightarrow> (string + rd_kafka_assignor list) outcome" where
  "rd_kafka_assignors_init group_protocol_type strategy = assignors_init_loop group_protocol_type strategy []"

end
