(* ===== verification/Assignor_Proofs.thy ===== *)
theory Assignor_Proofs
  imports Assignor
begin

text \<open>
  What the assignment strategies of \<open>Assignor\<close> give the members: every partition of a topic with
  a subscriber goes to exactly one subscribing member; and where the strategies fail.
\<close>

section \<open>Assignments\<close>

abbreviation member_keys :: "rd_kafka_group_member \<Rightarrow> (string \<times> int) list" where
  "member_keys m \<equiv> tpl_keys (rkgm_assignment m)"

definition assigned :: "rd_kafka_group_member list \<Rightarrow> (string \<times> int) multiset" where
  "assigned members = mset (concat (map member_keys members))"

definition members_ok :: "rd_kafka_group_member list \<Rightarrow> bool" where
  "members_ok members \<longleftrightarrow> (\<forall>m \<in> set members. tpl_inv (rkgm_assignment m))"

lemma members_ok_nth: "members_ok members \<Longrightarrow> p < length members \<Longrightarrow> tpl_inv (rkgm_assignment (members ! p))"
  by (simp add: members_ok_def)

lemma assign_to_length [simp]: "length (assign_to members p l) = length members"
  by (simp add: assign_to_def)

lemma assign_to_nth:
  "k < length members \<Longrightarrow> assign_to members p l ! k = (if k = p then (members ! p)\<lparr>rkgm_assignment := l\<rparr> else members ! k)"
  by (simp add: assign_to_def nth_list_update)

lemma assign_to_spec:
  assumes "members_ok members" "p < length members" "tpl_inv l" "tpl_keys l = member_keys (members ! p) @ ks"
  shows "members_ok (assign_to members p l)" "assigned (assign_to members p l) = assigned members + mset ks"
proof -
  show "members_ok (assign_to members p l)"
    using assms set_update_subset_insert [of members p] by (fastforce simp: members_ok_def assign_to_def)
  obtain m where m: "members = take p members @ m # drop (Suc p) members" "m = members ! p"
    using id_take_nth_drop [OF assms(2)] by blast
  have "assigned members = mset (concat (map member_keys (take p members))) + mset (member_keys m) +
      mset (concat (map member_keys (drop (Suc p) members)))"
    unfolding assigned_def by (subst m(1)) simp
  moreover have "assigned (assign_to members p l) = mset (concat (map member_keys (take p members))) +
      mset (member_keys m @ ks) + mset (concat (map member_keys (drop (Suc p) members)))"
    using assms(4) m(2) upd_conv_take_nth_drop [OF assms(2)] by (simp add: assigned_def assign_to_def)
  ultimately show "assigned (assign_to members p l) = assigned members + mset ks"
    by (simp add: ac_simps)
qed

section \<open>The range strategy\<close>

definition share_start :: "int \<Rightarrow> int \<Rightarrow> int \<Rightarrow> int" where
  "share_start per extra i = per * i + min i extra"

definition share :: "int \<Rightarrow> int \<Rightarrow> int \<Rightarrow> int list" where
  "share per extra i = [share_start per extra i..share_start per extra (i + 1) - 1]"

lemma share_next: "share_start per extra (i + 1) = share_start per extra i + (per + (if extra < i + 1 then 0 else 1))"
  by (simp add: share_start_def algebra_simps)

lemma shares_concat:
  assumes "0 \<le> per" "0 \<le> extra"
  shows "concat (map (\<lambda>j. share per extra (int j)) [0..<k]) = [0..share_start per extra (int k) - 1]"
proof (induction k)
  case (Suc k)
  have "0 \<le> share_start per extra (int k)" "share_start per extra (int k) \<le> share_start per extra (int k + 1)"
    using assms by (simp_all add: share_next) (simp add: share_start_def)
  then have "[0..share_start per extra (int k) - 1] @ share per extra (int k)
      = [0..share_start per extra (int k + 1) - 1]"
    using upto_split1 [of 0 "share_start per extra (int k)" "share_start per extra (int k + 1) - 1"]
      upto_split2 [of 0 "share_start per extra (int k) - 1" "share_start per extra (int k + 1) - 1"]
    by (cases "share_start per extra (int k) = share_start per extra (int k + 1)") (simp_all add: share_def)
  then show ?case using Suc by (simp add: ac_simps)
qed (use assms in \<open>simp add: share_start_def\<close>)

lemma map_upt_shift: "map f [0..<Suc n] = f 0 # map (\<lambda>j. f (Suc j)) [0..<n]"
  by (rule map_upt_Suc)

definition share_keys :: "string \<Rightarrow> int \<Rightarrow> int \<Rightarrow> int \<Rightarrow> nat list \<Rightarrow> nat \<Rightarrow> (string \<times> int) list" where
  "share_keys t per extra i ptrs k =
     concat (map (\<lambda>j. if ptrs ! j = k then map (Pair t) (share per extra (i + int j)) else []) [0..<length ptrs])"

lemma share_keys_Cons:
  "share_keys t per extra i (p # ps) k =
     (if p = k then map (Pair t) (share per extra i) else []) @ share_keys t per extra (i + 1) ps k"
proof -
  have eq: "i + int (Suc j) = i + 1 + int j" for j by simp
  show ?thesis by (simp add: share_keys_def map_upt_shift eq del: upt_Suc of_nat_Suc cong: if_cong)
qed

lemma shares_Cons:
  "concat (map (\<lambda>j. share per extra (i + int j)) [0..<Suc n]) =
     share per extra i @ concat (map (\<lambda>j. share per extra (i + 1 + int j)) [0..<n])"
proof -
  have eq: "i + int (Suc j) = i + 1 + int j" for j by simp
  show ?thesis by (simp add: map_upt_shift eq del: upt_Suc of_nat_Suc)
qed

lemma range_members_loop_spec:
  "members_ok members \<Longrightarrow> \<forall>p \<in> set ptrs. p < length members \<Longrightarrow> 0 \<le> per \<Longrightarrow> 0 \<le> i \<Longrightarrow>
   share_start per extra (i + int (length ptrs)) < 2 ^ 31 \<Longrightarrow>
   \<exists>members'. range_members_loop t per extra i ptrs members = Return members' \<and> members_ok members' \<and>
     length members' = length members \<and>
     (\<forall>k < length members. member_keys (members' ! k) = member_keys (members ! k) @ share_keys t per extra i ptrs k) \<and>
     assigned members' = assigned members +
       mset (map (Pair t) (concat (map (\<lambda>j. share per extra (i + int j)) [0..<length ptrs])))"
proof (induction ptrs arbitrary: i members)
  case Nil
  then show ?case by (simp add: share_keys_def)
next
  case (Cons p ps)
  let ?len = "per + (if extra < i + 1 then 0 else 1)" and ?st = "share_start per extra"
  have p: "p < length members" "\<forall>p \<in> set ps. p < length members" using Cons.prems(2) by auto
  have mono: "?st (i + 1) \<le> ?st (i + 1 + int n)" for n
    using mult_nonneg_nonneg [OF Cons.prems(3), of "int n"] by (simp add: share_start_def algebra_simps min_def)
  then have lim: "?st (i + 1 + int (length ps)) < 2 ^ 31" "?st (i + 1) - 1 < 2 ^ 31 - 1"
    using Cons.prems(5) order_le_less_trans [OF mono] by (simp_all add: ac_simps)
  obtain l where l: "rd_kafka_topic_partition_list_add_range (rkgm_assignment (members ! p)) t (?st i) (?st (i + 1) - 1)
      = Return l" "tpl_inv l" "tpl_keys l = member_keys (members ! p) @ map (Pair t) (share per extra i)"
    using add_range_spec [OF members_ok_nth [OF Cons.prems(1) p(1)] lim(2), of t "?st i"] by (auto simp: share_def)
  define members1 where "members1 = (if ?len = 0 then members else assign_to members p l)"
  have empty: "share per extra i = []" if "?len = 0" using that by (simp add: share_def share_next)
  have m1: "members_ok members1" "length members1 = length members"
    "assigned members1 = assigned members + mset (map (Pair t) (share per extra i))"
    "\<forall>k < length members. member_keys (members1 ! k) =
       member_keys (members ! k) @ (if p = k then map (Pair t) (share per extra i) else [])"
    using Cons.prems(1) assign_to_spec [OF Cons.prems(1) p(1) l(2,3)] l(3) empty
    by (auto simp: members1_def assign_to_nth)
  have step: "range_members_loop t per extra i (p # ps) members = range_members_loop t per extra (i + 1) ps members1"
  proof -
    have st: "per * i + min i extra = ?st i" "?st i + ?len - 1 = ?st (i + 1) - 1"
      by (simp_all add: share_start_def [symmetric] share_next)
    show ?thesis by (simp only: range_members_loop.simps Let_def st l(1) obind.simps members1_def split: if_split) simp
  qed
  obtain members' where ih: "range_members_loop t per extra (i + 1) ps members1 = Return members'" "members_ok members'"
    "length members' = length members1"
    "\<forall>k < length members1. member_keys (members' ! k) = member_keys (members1 ! k) @ share_keys t per extra (i + 1) ps k"
    "assigned members' = assigned members1 +
       mset (map (Pair t) (concat (map (\<lambda>j. share per extra (i + 1 + int j)) [0..<length ps])))"
    using Cons.IH [OF m1(1) _ Cons.prems(3) _ lim(1)] p(2) m1(2) Cons.prems(4) by auto
  have "\<forall>k < length members. member_keys (members' ! k) = member_keys (members ! k) @ share_keys t per extra i (p # ps) k"
    using ih(4) m1(2,4) by (simp add: share_keys_Cons)
  moreover have "assigned members' = assigned members +
      mset (map (Pair t) (concat (map (\<lambda>j. share per extra (i + int j)) [0..<length (p # ps)])))"
    unfolding length_Cons shares_Cons using ih(5) m1(3) by simp
  ultimately show ?case unfolding step using ih(1-3) m1(2) by auto
qed

lemma sdiv_nonneg: "0 \<le> a \<Longrightarrow> 0 < b \<Longrightarrow> a sdiv b = a div b" for a b :: int
  by (cases "a = 0") (simp_all add: signed_divide_int_def)

lemma smod_nonneg: "0 \<le> a \<Longrightarrow> 0 < b \<Longrightarrow> a smod b = a mod b" for a b :: int
  by (cases "a = 0") (simp_all add: signed_modulo_int_def)

definition topic_parts :: "rd_kafka_assignor_topic \<Rightarrow> (string \<times> int) list" where
  "topic_parts et = map (Pair (mt_topic (at_metadata et))) [0..mt_partition_cnt (at_metadata et) - 1]"

definition eligible_ok :: "nat \<Rightarrow> rd_kafka_assignor_topic \<Rightarrow> bool" where
  "eligible_ok n et \<longleftrightarrow> distinct (at_members et) \<and> at_members et \<noteq> [] \<and> (\<forall>p \<in> set (at_members et). p < n) \<and>
     0 \<le> mt_partition_cnt (at_metadata et) \<and> mt_partition_cnt (at_metadata et) < 2 ^ 31"

text \<open>What a member gets of a topic: nothing without a subscription, else a fair share.\<close>

definition fair_share :: "rd_kafka_assignor_topic \<Rightarrow> nat \<Rightarrow> (string \<times> int) list \<Rightarrow> bool" where
  "fair_share et k ks \<longleftrightarrow> (\<forall>x \<in> set ks. fst x = mt_topic (at_metadata et)) \<and>
     (if k \<in> set (at_members et)
      then int (length ks) - mt_partition_cnt (at_metadata et) div int (length (at_members et)) \<in> {0, 1}
      else ks = [])"

lemma share_length: "0 \<le> per \<Longrightarrow> int (length (share per extra i)) - per \<in> {0, 1}"
  by (simp add: share_def share_next)

lemma share_keys_other: "k \<notin> set ptrs \<Longrightarrow> share_keys t per extra i ptrs k = []"
  by (induction ptrs arbitrary: i) (simp_all add: share_keys_Cons, simp add: share_keys_def)

lemma share_keys_one:
  "distinct ptrs \<Longrightarrow> k \<in> set ptrs \<Longrightarrow> \<exists>j. share_keys t per extra i ptrs k = map (Pair t) (share per extra j)"
proof (induction ptrs arbitrary: i)
  case (Cons p ps)
  then show ?case using share_keys_other [of p ps t per extra "i + 1"] by (auto simp: share_keys_Cons)
qed simp

lemma range_topic_spec:
  assumes ok: "members_ok members" "eligible_ok (length members) et"
  shows "\<exists>members'. range_topic members et = Return members' \<and> members_ok members' \<and> length members' = length members \<and>
    assigned members' = assigned members + mset (topic_parts et) \<and>
    (\<forall>k < length members. \<exists>ks. member_keys (members' ! k) = member_keys (members ! k) @ ks \<and> fair_share et k ks)"
proof -
  let ?t = "mt_topic (at_metadata et)" and ?cnt = "mt_partition_cnt (at_metadata et)"
  define ptrs where "ptrs = qsort (\<lambda>a b. rd_kafka_group_member_cmp (members ! a) (members ! b)) (at_members et)"
  have ms: "mset ptrs = mset (at_members et)" by (simp add: ptrs_def mset_qsort)
  then have ptrs: "set ptrs = set (at_members et)" "length ptrs = length (at_members et)" "distinct ptrs"
    using ok(2) mset_eq_setD [OF ms] mset_eq_length [OF ms] mset_eq_imp_distinct_iff [OF ms]
    by (simp_all add: eligible_ok_def)
  define m where "m = int (length ptrs)"
  have m: "0 < m" using ok(2) ptrs(2) by (simp add: m_def eligible_ok_def)
  then have ne: "ptrs \<noteq> []" by (auto simp: m_def)
  have cnt: "0 \<le> ?cnt" "?cnt < 2 ^ 31" using ok(2) by (simp_all add: eligible_ok_def)
  let ?per = "?cnt div m" and ?extra = "?cnt mod m"
  have per: "0 \<le> ?per" "0 \<le> ?extra" "?extra < m" using cnt(1) m by (simp_all add: pos_imp_zdiv_nonneg_iff)
  have all: "share_start ?per ?extra m = ?cnt" using per(3) by (simp add: share_start_def)
  have "range_topic members et = range_members_loop ?t ?per ?extra 0 ptrs members"
    using m cnt(1) ne by (simp add: range_topic_def Let_def ptrs_def [symmetric] m_def [symmetric] sdiv_nonneg smod_nonneg)
  moreover obtain members' where r: "range_members_loop ?t ?per ?extra 0 ptrs members = Return members'"
    "members_ok members'" "length members' = length members"
    "\<forall>k < length members. member_keys (members' ! k) = member_keys (members ! k) @ share_keys ?t ?per ?extra 0 ptrs k"
    "assigned members' = assigned members +
       mset (map (Pair ?t) (concat (map (\<lambda>j. share ?per ?extra (0 + int j)) [0..<length ptrs])))"
    using range_members_loop_spec [OF ok(1) _ per(1), of ptrs 0 ?extra ?t] ok(2) ptrs(1) all cnt(2)
    by (auto simp: eligible_ok_def m_def)
  moreover have "concat (map (\<lambda>j. share ?per ?extra (0 + int j)) [0..<length ptrs]) = [0..?cnt - 1]"
    using shares_concat [OF per(1,2), of "length ptrs"] all by (simp add: m_def)
  moreover have "fair_share et k (share_keys ?t ?per ?extra 0 ptrs k)" for k
  proof (cases "k \<in> set ptrs")
    case True
    then obtain j where "share_keys ?t ?per ?extra 0 ptrs k = map (Pair ?t) (share ?per ?extra j)"
      using share_keys_one [OF ptrs(3)] by blast
    then show ?thesis using True ptrs(1,2) share_length [OF per(1), of ?extra j] by (auto simp: fair_share_def m_def)
  qed (use ptrs(1) share_keys_other [of k ptrs] in \<open>simp add: fair_share_def\<close>)
  ultimately show ?thesis by (auto simp: topic_parts_def)
qed

lemma range_assign_spec:
  "members_ok members \<Longrightarrow> \<forall>et \<in> set ets. eligible_ok (length members) et \<Longrightarrow>
   \<exists>members'. rd_kafka_range_assignor_assign_cb members ets = Return members' \<and> members_ok members' \<and>
     length members' = length members \<and> assigned members' = assigned members + mset (concat (map topic_parts ets)) \<and>
     (\<forall>k < length members. \<exists>kss. member_keys (members' ! k) = member_keys (members ! k) @ concat kss \<and>
        list_all2 (\<lambda>et. fair_share et k) ets kss)"
proof (induction ets arbitrary: members)
  case (Cons et ets)
  obtain m1 where m1: "range_topic members et = Return m1" "members_ok m1" "length m1 = length members"
    "assigned m1 = assigned members + mset (topic_parts et)"
    "\<forall>k < length members. \<exists>ks. member_keys (m1 ! k) = member_keys (members ! k) @ ks \<and> fair_share et k ks"
    using range_topic_spec [OF Cons.prems(1), of et] Cons.prems(2) by auto
  obtain m2 where m2: "rd_kafka_range_assignor_assign_cb m1 ets = Return m2" "members_ok m2" "length m2 = length m1"
    "assigned m2 = assigned m1 + mset (concat (map topic_parts ets))"
    "\<forall>k < length m1. \<exists>kss. member_keys (m2 ! k) = member_keys (m1 ! k) @ concat kss \<and>
        list_all2 (\<lambda>et. fair_share et k) ets kss"
    using Cons.IH [OF m1(2)] Cons.prems(2) m1(3) by auto
  have "\<exists>kss. member_keys (m2 ! k) = member_keys (members ! k) @ concat kss \<and> list_all2 (\<lambda>et. fair_share et k) (et # ets) kss"
    if k: "k < length members" for k
  proof -
    obtain ks where ks: "member_keys (m1 ! k) = member_keys (members ! k) @ ks" "fair_share et k ks"
      using m1(5) k by blast
    obtain kss where kss: "member_keys (m2 ! k) = member_keys (m1 ! k) @ concat kss"
      "list_all2 (\<lambda>et. fair_share et k) ets kss" using m2(5) k unfolding m1(3) by blast
    show ?thesis by (rule exI [of _ "ks # kss"]) (use ks kss in simp)
  qed
  moreover have "rd_kafka_range_assignor_assign_cb members (et # ets) = Return m2" using m1(1) m2(1) by simp
  moreover have "assigned m2 = assigned members + mset (concat (map topic_parts (et # ets)))"
    using m1(4) m2(4) by simp
  ultimately show ?case using m2(2,3) m1(3) by auto
qed (auto intro!: exI [of _ "[]"])

section \<open>Subscriptions\<close>

abbreviation subs :: "rd_kafka_group_member \<Rightarrow> string list" where
  "subs m \<equiv> map tp_topic (tpl_elems (rkgm_subscription m))"

text \<open>A member with a well-formed subscription that has nothing assigned yet.\<close>

definition member_fresh :: "rd_kafka_group_member \<Rightarrow> bool" where
  "member_fresh m \<longleftrightarrow> tpl_inv (rkgm_subscription m) \<and> rkgm_eligible m = [] \<and>
     tpl_inv (rkgm_assignment m) \<and> tpl_elems (rkgm_assignment m) = []"

text \<open>
  A subscription that starts with \<open>^\<close> is a pattern. The members here subscribe to topics by name
  only; what goes wrong with patterns is at the end of this theory.
\<close>

abbreviation subscribes_by_name :: "rd_kafka_group_member \<Rightarrow> bool" where
  "subscribes_by_name m \<equiv> \<forall>t \<in> set (subs m). take 1 t \<noteq> ''^''"

definition member_by_name :: "rd_kafka_group_member \<Rightarrow> bool" where
  "member_by_name m \<longleftrightarrow> member_fresh m \<and> subscribes_by_name m"

lemmas member_by_name_defs = member_by_name_def member_fresh_def

lemma match_by_name:
  "take 1 (tp_topic p) \<noteq> ''^'' \<Longrightarrow> rd_kafka_topic_partition_match regex p t
     = (tp_topic p = t, if tp_topic p = t then Some False else None)"
  by (simp add: rd_kafka_topic_partition_match_def)

lemma find_subscription_by_name:
  "\<forall>t \<in> set (subs m). take 1 t \<noteq> ''^'' \<Longrightarrow> rd_kafka_group_member_find_subscription regex m t \<longleftrightarrow> t \<in> set (subs m)"
  by (auto simp: rd_kafka_group_member_find_subscription_def list_ex_iff match_by_name)

lemma subscription_match_by_name:
  "\<forall>p \<in> set ps. take 1 (tp_topic p) \<noteq> ''^'' \<Longrightarrow>
   subscription_match_loop regex t ti ps (eligible, matched, h) =
     (eligible @ replicate (count_list (map tp_topic ps) t) ti, matched + count_list (map tp_topic ps) t, h)"
  by (induction ps arbitrary: eligible matched) (auto simp: match_by_name replicate_append_same)

definition with_eligible :: "(rd_kafka_group_member \<Rightarrow> nat list) \<Rightarrow> rd_kafka_group_member \<Rightarrow> rd_kafka_group_member" where
  "with_eligible E m = m\<lparr>rkgm_eligible := E m\<rparr>"

fun subscribers :: "string \<Rightarrow> nat \<Rightarrow> rd_kafka_group_member list \<Rightarrow> nat list" where
  "subscribers t i [] = []"
| "subscribers t i (m # ms) = (if t \<in> set (subs m) then [i] else []) @ subscribers t (i + 1) ms"

lemma subscribers_set: "set (subscribers t i ms) = {i + k |k. k < length ms \<and> t \<in> set (subs (ms ! k))}"
proof (induction ms arbitrary: i)
  case (Cons m ms)
  have "{i + k |k. k < length (m # ms) \<and> t \<in> set (subs ((m # ms) ! k))} =
      (if t \<in> set (subs m) then {i} else {}) \<union> {i + 1 + k |k. k < length ms \<and> t \<in> set (subs (ms ! k))}"
    by (auto simp: less_Suc_eq_0_disj)
  then show ?case using Cons.IH [of "i + 1"] by simp
qed simp

lemma subscribers_distinct: "distinct (subscribers t i ms)"
  by (induction ms arbitrary: i) (auto simp: subscribers_set)

lemma subscribers_Nil: "subscribers t i ms = [] \<longleftrightarrow> (\<forall>m \<in> set ms. t \<notin> set (subs m))"
  by (induction ms arbitrary: i) auto

lemma members_match_by_name:
  "\<forall>m \<in> set ms. member_by_name m \<Longrightarrow>
   members_match_loop regex t ti i (map (with_eligible E) ms) at c =
     (map (with_eligible (\<lambda>m. E m @ replicate (count_list (subs m) t) ti)) ms, at @ subscribers t i ms,
      c + length (filter (\<lambda>m. length (E m) + count_list (subs m) t = length (subs m)) ms))"
proof (induction ms arbitrary: i at c)
  case (Cons m ms)
  have m: "tpl_inv (rkgm_subscription m)" "\<forall>p \<in> set (tpl_elems (rkgm_subscription m)). take 1 (tp_topic p) \<noteq> ''^''"
    using Cons.prems by (auto simp: member_by_name_defs)
  have cnt: "0 < count_list (subs m) t \<longleftrightarrow> t \<in> set (subs m)" by (metis count_list_0_iff gr0I less_irrefl)
  have one: "rd_kafka_member_subscription_match regex t ti (with_eligible E m) i at =
      (with_eligible (\<lambda>m. E m @ replicate (count_list (subs m) t) ti) m,
       if t \<in> set (subs m) then at @ [i] else at, length (E m) + count_list (subs m) t = length (subs m))" for at
    using m cnt
    by (simp add: rd_kafka_member_subscription_match_def with_eligible_def subscription_match_by_name tpl_inv_def
        flip: of_nat_add)
  show ?case using Cons.prems by (simp add: one Cons.IH Let_def)
qed simp

text \<open>The topics that are found, with their subscribers.\<close>

definition eligible_of ::
  "(string \<Rightarrow> bool) \<Rightarrow> rd_kafka_group_member list \<Rightarrow> rd_kafka_metadata_topic list \<Rightarrow> rd_kafka_assignor_topic list" where
  "eligible_of blacklisted ms ts = map (\<lambda>t. \<lparr>at_metadata = t, at_members = subscribers (mt_topic t) 0 ms\<rparr>)
     (filter (\<lambda>t. \<not> blacklisted (mt_topic t) \<and> (\<exists>m \<in> set ms. mt_topic t \<in> set (subs m))) ts)"

lemma count_list_filter: "count_list xs t + length (filter (\<lambda>x. x \<in> S) xs) = length (filter (\<lambda>x. x \<in> insert t S) xs)"
  if "t \<notin> S"
  using that by (induction xs) auto

lemma filter_full: "length (filter P xs) = length xs \<longleftrightarrow> (\<forall>x \<in> set xs. P x)"
proof -
  have "length (filter P xs) = length xs \<longleftrightarrow> length (filter (\<lambda>x. \<not> P x) xs) = 0"
    using sum_length_filter_compl [of P xs] by linarith
  then show ?thesis by (simp add: filter_empty_conv)
qed

lemma subscriptions_map_spec:
  "\<forall>m \<in> set ms. member_by_name m \<Longrightarrow> distinct (map mt_topic ts) \<Longrightarrow> S \<inter> mt_topic ` set ts = {} \<Longrightarrow>
   \<forall>m \<in> set ms. length (E m) = length (filter (\<lambda>x. x \<in> S) (subs m)) \<Longrightarrow>
   \<exists>E'. subscriptions_map_loop regex blacklisted ti ts (map (with_eligible E) ms) acc =
     (map (with_eligible E') ms, acc @ eligible_of blacklisted ms ts)"
proof (induction ts arbitrary: ti E S acc)
  case (Cons t ts)
  let ?n = "mt_topic t"
  have ts: "distinct (map mt_topic ts)" "?n \<notin> S" "S \<inter> mt_topic ` set ts = {}" "?n \<notin> mt_topic ` set ts"
    using Cons.prems(2,3) by auto
  show ?case
  proof (cases "blacklisted ?n")
    case True
    then have "eligible_of blacklisted ms (t # ts) = eligible_of blacklisted ms ts" by (simp add: eligible_of_def)
    then show ?thesis using True Cons.IH [OF Cons.prems(1) ts(1,3) Cons.prems(4), of "ti + 1" acc] by simp
  next
    case False
    let ?E = "\<lambda>m. E m @ replicate (count_list (subs m) ?n) ti"
    have len: "\<forall>m \<in> set ms. length (?E m) = length (filter (\<lambda>x. x \<in> insert ?n S) (subs m))"
    proof
      fix m assume "m \<in> set ms"
      then have "length (E m) = length (filter (\<lambda>x. x \<in> S) (subs m))" using Cons.prems(4) by blast
      then show "length (?E m) = length (filter (\<lambda>x. x \<in> insert ?n S) (subs m))"
        unfolding count_list_filter [OF ts(2), symmetric] length_append length_replicate by linarith
    qed
    have S: "insert ?n S \<inter> mt_topic ` set ts = {}" using ts(3,4) by blast
    note ih = Cons.IH [OF Cons.prems(1) ts(1) S len]
    have mm: "members_match_loop regex ?n ti 0 (map (with_eligible E) ms) [] 0 =
        (map (with_eligible ?E) ms, subscribers ?n 0 ms,
         length (filter (\<lambda>m. length (?E m) = length (subs m)) ms))"
      using members_match_by_name [OF Cons.prems(1), of regex ?n ti 0 E "[]" 0] by simp
    show ?thesis
    proof (cases "subscribers ?n 0 ms = []")
      case True
      then have "\<not> (\<exists>m \<in> set ms. ?n \<in> set (subs m))" by (simp add: subscribers_Nil)
      then have "eligible_of blacklisted ms (t # ts) = eligible_of blacklisted ms ts" by (auto simp: eligible_of_def)
      moreover have "subscriptions_map_loop regex blacklisted ti (t # ts) (map (with_eligible E) ms) acc
          = subscriptions_map_loop regex blacklisted (ti + 1) ts (map (with_eligible ?E) ms) acc"
        using False True mm by simp
      ultimately show ?thesis using ih [of "ti + 1" acc] by simp
    next
      case sub: False
      then have ex: "\<exists>m \<in> set ms. ?n \<in> set (subs m)" by (simp only: subscribers_Nil) blast
      let ?et = "\<lparr>at_metadata = t, at_members = subscribers ?n 0 ms\<rparr>"
      have el: "eligible_of blacklisted ms (t # ts) = ?et # eligible_of blacklisted ms ts"
        using False ex by (simp add: eligible_of_def)
      show ?thesis
      proof (cases "length (filter (\<lambda>m. length (?E m) = length (subs m)) ms) = length ms")
        case True
        then have full: "\<forall>m \<in> set ms. length (?E m) = length (subs m)" unfolding filter_full .
        have seen: "set (subs m) \<subseteq> insert ?n S" if m: "m \<in> set ms" for m
        proof -
          have "length (filter (\<lambda>x. x \<in> insert ?n S) (subs m)) = length (subs m)"
            using bspec [OF len m] bspec [OF full m] by (rule trans [OF sym])
          then show ?thesis unfolding filter_full by blast
        qed
        have "mt_topic t' \<notin> set (subs m)" if "t' \<in> set ts" "m \<in> set ms" for t' m
          using seen [OF that(2)] S that(1) by blast
        then have "eligible_of blacklisted ms ts = []" by (simp add: eligible_of_def filter_empty_conv)
        then have "subscriptions_map_loop regex blacklisted ti (t # ts) (map (with_eligible E) ms) acc
            = (map (with_eligible ?E) ms, acc @ eligible_of blacklisted ms (t # ts))"
          using False sub mm True el by (simp add: Let_def)
        then show ?thesis by blast
      next
        case more: False
        then have "subscriptions_map_loop regex blacklisted ti (t # ts) (map (with_eligible E) ms) acc
            = subscriptions_map_loop regex blacklisted (ti + 1) ts (map (with_eligible ?E) ms) (acc @ [?et])"
          using False sub mm by (simp add: Let_def)
        then show ?thesis using ih [of "ti + 1" "acc @ [?et]"] el by simp
      qed
    qed
  qed
next
  case Nil
  show ?case by (rule exI [of _ E]) (simp add: eligible_of_def)
qed

section \<open>Range assignment of a group\<close>

text \<open>A member with an id and a list of subscriptions, before the assignment.\<close>

definition new_member :: "byte list \<Rightarrow> string list \<Rightarrow> rd_kafka_group_member" where
  "new_member member_id topics =
     \<lparr>rkgm_subscription = \<lparr>tpl_cnt = int (length topics), tpl_size = int (length topics),
        tpl_elems = map (\<lambda>t. rd_kafka_topic_partition_new t (- 1)) topics\<rparr>,
      rkgm_assignment = rd_kafka_topic_partition_list_new 0, rkgm_eligible = [],
      rkgm_member_id = \<lparr>ks_len = int (length member_id), ks_str = Some member_id, kser = []\<rparr>\<rparr>"

lemma new_member_simps [simp]:
  "subs (new_member i ts) = ts" "tp_topic ` set (tpl_elems (rkgm_subscription (new_member i ts))) = set ts" "rkgm_member_id (new_member i ts) = \<lparr>ks_len = int (length i), ks_str = Some i, kser = []\<rparr>"
  "member_fresh (new_member i ts)"
  by (auto simp: new_member_def member_by_name_defs tpl_inv_def rd_kafka_topic_partition_new_def
      rd_kafka_topic_partition_list_new_def comp_def image_image)

lemma new_member_by_name [simp]:
  "(\<forall>p \<in> set (tpl_elems (rkgm_subscription (new_member i ts))). take (Suc 0) (tp_topic p) \<noteq> ''^'')
     \<longleftrightarrow> (\<forall>t \<in> set ts. take (Suc 0) t \<noteq> ''^'')"
  by (simp add: new_member_def rd_kafka_topic_partition_new_def)

definition both :: "rd_kafka_assignor list" where
  "both = [\<lparr>rkas_protocol_name = ''range'', rkas_enabled = True, rkas_assign_cb = Range_Assign\<rparr>,
           \<lparr>rkas_protocol_name = ''roundrobin'', rkas_enabled = True, rkas_assign_cb = Roundrobin_Assign\<rparr>]"

definition counts_ok :: "rd_kafka_metadata_topic list \<Rightarrow> bool" where
  "counts_ok ts \<longleftrightarrow> distinct (map mt_topic ts) \<and> (\<forall>t \<in> set ts. 0 \<le> mt_partition_cnt t \<and> mt_partition_cnt t < 2 ^ 31)"

lemma eligible_of_ok:
  assumes "counts_ok ts" "et \<in> set (eligible_of blacklisted ms ts)"
  shows "eligible_ok (length ms) et"
proof -
  obtain t where t: "et = \<lparr>at_metadata = t, at_members = subscribers (mt_topic t) 0 ms\<rparr>" "t \<in> set ts"
    "\<exists>m \<in> set ms. mt_topic t \<in> set (subs m)"
    using assms(2) by (auto simp: eligible_of_def)
  have "subscribers (mt_topic t) 0 ms \<noteq> []" using t(3) subscribers_Nil [of "mt_topic t" 0 ms] by blast
  then show ?thesis
    using assms(1) t(1,2) subscribers_distinct by (auto simp: eligible_ok_def counts_ok_def subscribers_set)
qed

lemma eligible_of_topics: "distinct (map mt_topic ts) \<Longrightarrow> distinct (map (mt_topic \<circ> at_metadata) (eligible_of blacklisted ms ts))"
  by (simp add: eligible_of_def comp_def distinct_map_filter)

lemma fair_share_topic: "fair_share et k ks \<Longrightarrow> x \<in> set ks \<Longrightarrow> fst x = mt_topic (at_metadata et)"
  by (auto simp: fair_share_def)

lemma fair_filter:
  assumes "list_all2 (\<lambda>et. fair_share et k) ets kss" "distinct (map (mt_topic \<circ> at_metadata) ets)" "et \<in> set ets"
  shows "fair_share et k (filter (\<lambda>x. fst x = mt_topic (at_metadata et)) (concat kss))"
  using assms
proof (induction rule: list_all2_induct)
  case (Cons e ets ks kss)
  have "(mt_topic \<circ> at_metadata) e \<notin> (mt_topic \<circ> at_metadata) ` set ets" using Cons.prems(1) by simp
  then have new: "mt_topic (at_metadata e') \<noteq> mt_topic (at_metadata e)" if "e' \<in> set ets" for e'
    unfolding image_iff comp_apply using that by metis
  note ks = fair_share_topic [OF Cons.hyps(1)]
  show ?case
  proof (cases "et = e")
    case True
    have "fst x \<noteq> mt_topic (at_metadata e)" if "x \<in> set (concat kss)" for x
    proof -
      obtain ks' where x: "x \<in> set ks'" "ks' \<in> set kss" using \<open>x \<in> set (concat kss)\<close> by auto
      then obtain e' where "e' \<in> set ets" "fair_share e' k ks'"
        using Cons.hyps(2) unfolding list_all2_conv_all_nth by (metis in_set_conv_nth)
      then show ?thesis using new fair_share_topic [OF _ x(1)] by metis
    qed
    then have "filter (\<lambda>x. fst x = mt_topic (at_metadata e)) (concat kss) = []" unfolding filter_empty_conv by blast
    moreover have "filter (\<lambda>x. fst x = mt_topic (at_metadata e)) ks = ks" unfolding filter_id_conv using ks by blast
    ultimately show ?thesis using True Cons.hyps(1) by simp
  next
    case False
    then have et: "et \<in> set ets" using Cons.prems by simp
    have "filter (\<lambda>x. fst x = mt_topic (at_metadata et)) ks = []" unfolding filter_empty_conv using ks new [OF et] by metis
    then show ?thesis using Cons.IH Cons.prems(1) et by simp
  qed
qed simp

lemma subscriptions_of_members:
  assumes "\<forall>m \<in> set members. member_by_name m" "distinct (map mt_topic metadata)"
  obtains E where "rd_kafka_member_subscriptions_map regex blacklisted metadata members
      = (map (with_eligible E) members, eligible_of blacklisted members metadata)"
proof -
  have "map (with_eligible rkgm_eligible) members = members" by (simp add: with_eligible_def map_idI)
  then show thesis
    using that subscriptions_map_spec [OF assms(1), of metadata "{}" rkgm_eligible regex blacklisted 0 "[]"] assms
    by (auto simp: rd_kafka_member_subscriptions_map_def member_by_name_defs)
qed

lemma range_run:
  assumes find: "rd_kafka_assignor_find assignors proto = Some rkas" "rkas_enabled rkas" "rkas_assign_cb rkas = Range_Assign"
    and topics: "counts_ok metadata" and members: "\<forall>m \<in> set members. member_by_name m"
  obtains members' where "rd_kafka_assignor_run regex blacklisted assignors proto metadata members = Return (members', 0)"
    "length members' = length members"
    "assigned members' = mset (concat (map topic_parts (eligible_of blacklisted members metadata)))"
    "\<forall>k < length members. \<exists>kss. member_keys (members' ! k) = concat kss \<and>
       list_all2 (\<lambda>et. fair_share et k) (eligible_of blacklisted members metadata) kss"
proof -
  have "distinct (map mt_topic metadata)" using topics by (simp add: counts_ok_def)
  then obtain E where E: "rd_kafka_member_subscriptions_map regex blacklisted metadata members
      = (map (with_eligible E) members, eligible_of blacklisted members metadata)"
    by (rule subscriptions_of_members [OF members])
  let ?ms = "map (with_eligible E) members"
  have ok: "members_ok ?ms" "assigned ?ms = {#}" "\<And>k. k < length members \<Longrightarrow> member_keys (?ms ! k) = []"
    using members by (auto simp: members_ok_def assigned_def with_eligible_def member_by_name_defs)
  obtain members' where m: "rd_kafka_range_assignor_assign_cb ?ms (eligible_of blacklisted members metadata) = Return members'"
    "length members' = length ?ms" "assigned members' = assigned ?ms + mset (concat (map topic_parts (eligible_of blacklisted members metadata)))"
    "\<forall>k < length ?ms. \<exists>kss. member_keys (members' ! k) = member_keys (?ms ! k) @ concat kss \<and>
        list_all2 (\<lambda>et. fair_share et k) (eligible_of blacklisted members metadata) kss"
    using range_assign_spec [OF ok(1), of "eligible_of blacklisted members metadata"] eligible_of_ok [OF topics] by auto
  show thesis
    by (rule that [of members']) (use find E m ok in \<open>simp_all add: rd_kafka_assignor_run_def\<close>)
qed

lemma topic_parts_set: "set (topic_parts et) = {(mt_topic (at_metadata et), p) |p. 0 \<le> p \<and> p < mt_partition_cnt (at_metadata et)}"
  by (auto simp: topic_parts_def)

lemma topic_parts_distinct:
  "distinct (map (mt_topic \<circ> at_metadata) ets) \<Longrightarrow> distinct (concat (map topic_parts ets))"
proof (induction ets)
  case (Cons et ets)
  moreover have "distinct (topic_parts et)" by (simp add: topic_parts_def distinct_map inj_on_def)
  ultimately show ?case by (force simp: topic_parts_set)
qed simp

text \<open>
  C16. For members that subscribe by name only (no subscription is a pattern), the range strategy
  assigns every partition to exactly one subscribing member: running it gives each partition of each topic that is not blacklisted
  and has a subscriber to one member, which subscribes to the topic, and assigns nothing else.
\<close>

theorem range_assignment_exact:
  assumes "rd_kafka_assignor_find assignors proto = Some rkas" "rkas_enabled rkas" "rkas_assign_cb rkas = Range_Assign"
    and "distinct (map mt_topic metadata)"
      "\<forall>t \<in> set metadata. 0 \<le> mt_partition_cnt t \<and> mt_partition_cnt t < 2 ^ 31"
    and "\<forall>m \<in> set members. member_fresh m" "\<forall>m \<in> set members. \<forall>t \<in> set (subs m). take 1 t \<noteq> ''^''"
  shows "\<exists>members'. rd_kafka_assignor_run regex blacklisted assignors proto metadata members = Return (members', 0) \<and>
    length members' = length members \<and> distinct (concat (map member_keys members')) \<and>
    set (concat (map member_keys members')) = {(mt_topic t, p) |t p. t \<in> set metadata \<and> \<not> blacklisted (mt_topic t) \<and>
      (\<exists>m \<in> set members. mt_topic t \<in> set (subs m)) \<and> 0 \<le> p \<and> p < mt_partition_cnt t} \<and>
    (\<forall>k < length members. \<forall>(t, p) \<in> set (member_keys (members' ! k)). t \<in> set (subs (members ! k)))"
proof -
  have topics: "counts_ok metadata" using assms(4,5) by (simp add: counts_ok_def)
  have named: "\<forall>m \<in> set members. member_by_name m" using assms(6,7) by (simp add: member_by_name_def)
  let ?ets = "eligible_of blacklisted members metadata"
  obtain members' where r: "rd_kafka_assignor_run regex blacklisted assignors proto metadata members = Return (members', 0)"
    "length members' = length members" "assigned members' = mset (concat (map topic_parts ?ets))"
    "\<forall>k < length members. \<exists>kss. member_keys (members' ! k) = concat kss \<and> list_all2 (\<lambda>et. fair_share et k) ?ets kss"
    by (rule range_run [OF assms(1-3) topics named, of regex blacklisted])
  have ms: "mset (concat (map member_keys members')) = mset (concat (map topic_parts ?ets))"
    using r(3) by (simp add: assigned_def)
  have "distinct (concat (map member_keys members'))"
    using topic_parts_distinct [OF eligible_of_topics [OF assms(4)]] mset_eq_imp_distinct_iff [OF ms] by blast
  moreover have "set (concat (map member_keys members')) = {(mt_topic t, p) |t p. t \<in> set metadata \<and> \<not> blacklisted (mt_topic t) \<and>
      (\<exists>m \<in> set members. mt_topic t \<in> set (subs m)) \<and> 0 \<le> p \<and> p < mt_partition_cnt t}"
    unfolding mset_eq_setD [OF ms] by (auto simp: topic_parts_set eligible_of_def)
  moreover have "t \<in> set (subs (members ! k))" if k: "k < length members" "(t, p) \<in> set (member_keys (members' ! k))" for k t p
  proof -
    obtain kss where "member_keys (members' ! k) = concat kss" "list_all2 (\<lambda>et. fair_share et k) ?ets kss" using r(4) k(1) by blast
    then obtain et ks where et: "et \<in> set ?ets" "fair_share et k ks" "(t, p) \<in> set ks"
      using k(2) by (fastforce simp: list_all2_conv_all_nth in_set_conv_nth)
    then have "k \<in> set (at_members et)" "t = mt_topic (at_metadata et)" by (auto simp: fair_share_def split: if_splits)
    then show ?thesis using et(1) by (auto simp: eligible_of_def subscribers_set)
  qed
  ultimately show ?thesis using r(1,2) by (intro exI [of _ members']) blast
qed

theorem range_assignment_exact_witness:
  "\<exists>members'. rd_kafka_assignor_run (\<lambda>_ _. 0) (\<lambda>t. t = ''x'') both ''range''
      [\<lparr>mt_topic = ''t'', mt_partition_cnt = 3\<rparr>, \<lparr>mt_topic = ''x'', mt_partition_cnt = 9\<rparr>, \<lparr>mt_topic = ''u'', mt_partition_cnt = 1\<rparr>]
      [new_member [65] [''t'', ''u''], new_member [66] [''t'', ''x'']] = Return (members', 0) \<and>
    distinct (concat (map member_keys members')) \<and>
    set (concat (map member_keys members')) = {(''t'', 0), (''t'', 1), (''t'', 2), (''u'', 0)}"
proof -
  let ?md = "[\<lparr>mt_topic = ''t'', mt_partition_cnt = 3\<rparr>, \<lparr>mt_topic = ''x'', mt_partition_cnt = 9\<rparr>, \<lparr>mt_topic = ''u'', mt_partition_cnt = 1\<rparr>]"
  let ?ms = "[new_member [65] [''t'', ''u''], new_member [66] [''t'', ''x'']]"
  have find: "rd_kafka_assignor_find both ''range'' = Some (both ! 0)" "rkas_enabled (both ! 0)" "rkas_assign_cb (both ! 0) = Range_Assign"
    by (simp_all add: rd_kafka_assignor_find_def both_def)
  have "{(mt_topic t, p) |t p. t \<in> set ?md \<and> \<not> mt_topic t = ''x'' \<and>
      (\<exists>m \<in> set ?ms. mt_topic t \<in> set (subs m)) \<and> 0 \<le> p \<and> p < mt_partition_cnt t}
    = {(''t'', 0), (''t'', 1), (''t'', 2), (''u'', 0)}"
    by (auto simp: conj_disj_distribL conj_disj_distribR ex_disj_distrib)
  then show ?thesis
    using range_assignment_exact [OF find, of ?md ?ms "\<lambda>_ _. 0" "\<lambda>t. t = ''x''"] by auto
qed

text \<open>
  C32. The range strategy is fair: of each topic, two members that subscribe to it get the same
  number of partitions, or one of them gets one more, when all members subscribe by name only.
\<close>

theorem range_assignment_fair:
  assumes "rd_kafka_assignor_find assignors proto = Some rkas" "rkas_enabled rkas" "rkas_assign_cb rkas = Range_Assign"
    and "distinct (map mt_topic metadata)"
      "\<forall>t \<in> set metadata. 0 \<le> mt_partition_cnt t \<and> mt_partition_cnt t < 2 ^ 31"
    and "\<forall>m \<in> set members. member_fresh m" "\<forall>m \<in> set members. \<forall>t \<in> set (subs m). take 1 t \<noteq> ''^''"
    and t: "t \<in> set metadata" "\<not> blacklisted (mt_topic t)"
    and k: "k < length members" "mt_topic t \<in> set (subs (members ! k))"
      "k' < length members" "mt_topic t \<in> set (subs (members ! k'))"
  shows "\<exists>members'. rd_kafka_assignor_run regex blacklisted assignors proto metadata members = Return (members', 0) \<and>
    length (filter (\<lambda>x. fst x = mt_topic t) (member_keys (members' ! k)))
      \<le> length (filter (\<lambda>x. fst x = mt_topic t) (member_keys (members' ! k'))) + 1"
proof -
  have topics: "counts_ok metadata" using assms(4,5) by (simp add: counts_ok_def)
  have named: "\<forall>m \<in> set members. member_by_name m" using assms(6,7) by (simp add: member_by_name_def)
  let ?ets = "eligible_of blacklisted members metadata"
  obtain members' where r: "rd_kafka_assignor_run regex blacklisted assignors proto metadata members = Return (members', 0)"
    "length members' = length members" "assigned members' = mset (concat (map topic_parts ?ets))"
    "\<forall>k < length members. \<exists>kss. member_keys (members' ! k) = concat kss \<and> list_all2 (\<lambda>et. fair_share et k) ?ets kss"
    by (rule range_run [OF assms(1-3) topics named, of regex blacklisted])
  let ?et = "\<lparr>at_metadata = t, at_members = subscribers (mt_topic t) 0 members\<rparr>"
  have "\<exists>m \<in> set members. mt_topic t \<in> set (subs m)" using k(1,2) nth_mem by blast
  then have et: "?et \<in> set ?ets" unfolding eligible_of_def set_map set_filter using t by blast
  have "fair_share ?et k (filter (\<lambda>x. fst x = mt_topic t) (member_keys (members' ! k)))" if "k < length members" for k
    using r(4) that fair_filter [OF _ eligible_of_topics [OF assms(4)] et] by auto
  from this [OF k(1)] this [OF k(3)] show ?thesis
    using r(1) k by (auto simp: fair_share_def subscribers_set)
qed

theorem range_assignment_fair_witness:
  "\<exists>members'. rd_kafka_assignor_run (\<lambda>_ _. 0) (\<lambda>_. False) both ''range'' [\<lparr>mt_topic = ''t'', mt_partition_cnt = 3\<rparr>]
      [new_member [65] [''t''], new_member [66] [''t'']] = Return (members', 0) \<and>
    length (filter (\<lambda>x. fst x = ''t'') (member_keys (members' ! 0)))
      \<le> length (filter (\<lambda>x. fst x = ''t'') (member_keys (members' ! 1))) + 1"
proof -
  let ?md = "[\<lparr>mt_topic = ''t'', mt_partition_cnt = 3\<rparr>]"
  have find: "rd_kafka_assignor_find both ''range'' = Some (both ! 0)" "rkas_enabled (both ! 0)" "rkas_assign_cb (both ! 0) = Range_Assign"
    by (simp_all add: rd_kafka_assignor_find_def both_def)
  show ?thesis
    using range_assignment_fair [OF find, of ?md "[new_member [65] [''t''], new_member [66] [''t'']]" "hd ?md"
        "\<lambda>_. False" 0 1 "\<lambda>_ _. 0"] by simp
qed

section \<open>Round robin among members with the same subscriptions\<close>

text \<open>What assigning to a member does not change.\<close>

abbreviation identity :: "rd_kafka_group_member \<Rightarrow> rd_kafkap_str \<times> rd_kafka_topic_partition_list" where
  "identity m \<equiv> (rkgm_member_id m, rkgm_subscription m)"

lemma assign_to_identity: "map identity (assign_to members p l) = map identity members"
  by (rule nth_equalityI) (simp_all add: assign_to_nth)

definition all_find :: "(string \<Rightarrow> string \<Rightarrow> int) \<Rightarrow> rd_kafka_group_member list \<Rightarrow> string \<Rightarrow> bool" where
  "all_find regex members t \<longleftrightarrow> (\<forall>m \<in> set members. rd_kafka_group_member_find_subscription regex m t)"

lemma all_find_identity:
  assumes "map identity members' = map identity members"
  shows "all_find regex members' t = all_find regex members t"
proof -
  have find: "all_find regex ms t \<longleftrightarrow> list_all (\<lambda>q.
      list_ex (\<lambda>r. fst (rd_kafka_topic_partition_match regex r t)) (tpl_elems (snd q))) (map identity ms)" for ms
    by (simp add: all_find_def rd_kafka_group_member_find_subscription_def list_all_iff)
  show ?thesis by (simp only: find assms)
qed

text \<open>Every \<open>n\<close>-th element, from position \<open>k\<close> on, counted from \<open>i\<close>.\<close>

definition turns :: "nat \<Rightarrow> nat \<Rightarrow> nat \<Rightarrow> 'a list \<Rightarrow> 'a list" where
  "turns n i k xs = nths xs {j. (i + j) mod n = k}"

lemma turns_Cons:
  "i < n \<Longrightarrow> turns n i k (x # xs) = (if i = k then [x] else []) @ turns n ((i + 1) mod n) k xs"
  by (simp add: turns_def nths_Cons mod_add_left_eq)

lemma turns_append: "turns n i k (xs @ ys) = turns n i k xs @ turns n ((i + length xs) mod n) k ys"
proof -
  have "{j. j + length xs \<in> {j. (i + j) mod n = k}} = {j. ((i + length xs) mod n + j) mod n = k}"
    by (simp add: mod_add_left_eq mod_add_right_eq ac_simps)
  then show ?thesis by (simp add: turns_def nths_append)
qed

lemma add_keys_spec:
  assumes "tpl_inv l"
  obtains l' where "rd_kafka_topic_partition_list_add l t p = Return (l', length (tpl_elems l))" "tpl_inv l'"
    "tpl_keys l' = tpl_keys l @ [(t, p)]"
proof -
  obtain l' where "rd_kafka_topic_partition_list_add0 l t p None = Return (l', length (tpl_elems l))" "tpl_inv l'"
    "tpl_elems l' = tpl_elems l @ [(rd_kafka_topic_partition_new t p)
       \<lparr>tp_offset := RD_KAFKA_OFFSET_INVALID, tp_private := None\<rparr>]"
    by (rule add0_spec [OF assms])
  then show thesis
    by (intro that [of l']) (simp_all add: rd_kafka_topic_partition_list_add_def rd_kafka_topic_partition_new_def)
qed

lemma rr_partitions_all:
  "members_ok members \<Longrightarrow> all_find regex members (mt_topic (at_metadata et)) \<Longrightarrow>
   length (at_members et) = length members \<Longrightarrow> i < length members \<Longrightarrow>
   \<exists>members'. rr_partitions regex et parts members i = Return (members', (i + length parts) mod length members) \<and>
     members_ok members' \<and> map identity members' = map identity members \<and>
     (\<forall>k < length members. member_keys (members' ! k) =
        member_keys (members ! k) @ turns (length members) i k (map (Pair (mt_topic (at_metadata et))) parts))"
proof (induction parts arbitrary: members i)
  case (Cons part parts)
  let ?t = "mt_topic (at_metadata et)" and ?n = "length members"
  have "rr_next regex members ?t i = Return i"
    using Cons.prems(2,4) by (subst rr_next.simps) (simp add: all_find_def)
  moreover obtain l where l: "rd_kafka_topic_partition_list_add (rkgm_assignment (members ! i)) ?t part
      = Return (l, length (tpl_elems (rkgm_assignment (members ! i))))" "tpl_inv l"
    "tpl_keys l = member_keys (members ! i) @ [(?t, part)]"
    by (rule add_keys_spec [OF members_ok_nth [OF Cons.prems(1,4)]])
  moreover have "at_members et \<noteq> []" using Cons.prems(3,4) by auto
  ultimately have step: "rr_partitions regex et (part # parts) members i =
      rr_partitions regex et parts (assign_to members i l) ((i + 1) mod ?n)"
    using Cons.prems(3) by simp
  note m1 = assign_to_spec(1) [OF Cons.prems(1,4) l(2,3)]
  have m2: "all_find regex (assign_to members i l) ?t"
    using Cons.prems(2) all_find_identity [OF assign_to_identity] by simp
  have m3: "length (at_members et) = length (assign_to members i l)" "(i + 1) mod ?n < length (assign_to members i l)"
    using Cons.prems(3,4) by (simp, simp only: assign_to_length) (rule mod_less_divisor, linarith)
  obtain members' where ih: "rr_partitions regex et parts (assign_to members i l) ((i + 1) mod ?n) =
      Return (members', ((i + 1) mod ?n + length parts) mod ?n)" "members_ok members'"
    "map identity members' = map identity (assign_to members i l)"
    "\<forall>k < ?n. member_keys (members' ! k) = member_keys (assign_to members i l ! k) @
       turns ?n ((i + 1) mod ?n) k (map (Pair ?t) parts)"
    using Cons.IH [OF m1 m2 m3] unfolding assign_to_length by blast
  have "\<forall>k < ?n. member_keys (members' ! k) = member_keys (members ! k) @ turns ?n i k (map (Pair ?t) (part # parts))"
    using ih(4) l(3) Cons.prems(4) by (simp add: assign_to_nth turns_Cons)
  moreover have "((i + 1) mod ?n + length parts) mod ?n = (i + length (part # parts)) mod ?n"
    by (simp add: mod_simps)
  ultimately show ?case unfolding step using ih(1,2,3)
    by (intro exI [of _ members'] conjI) (simp_all only: assign_to_identity)
qed (simp add: turns_def)

lemma rr_topics_all:
  "members_ok members \<Longrightarrow> i < length members \<Longrightarrow>
   \<forall>et \<in> set ets. all_find regex members (mt_topic (at_metadata et)) \<and> length (at_members et) = length members \<Longrightarrow>
   \<exists>members'. rr_topics regex ets members i = Return members' \<and> map identity members' = map identity members \<and>
     (\<forall>k < length members. member_keys (members' ! k) =
        member_keys (members ! k) @ turns (length members) i k (concat (map topic_parts ets)))"
proof (induction ets arbitrary: members i)
  case (Cons et ets)
  let ?n = "length members" and ?parts = "[0..mt_partition_cnt (at_metadata et) - 1]"
  have et: "all_find regex members (mt_topic (at_metadata et))" "length (at_members et) = ?n"
    using Cons.prems(3) by simp_all
  obtain m1 where m1: "rr_partitions regex et ?parts members i = Return (m1, (i + length ?parts) mod ?n)"
    "members_ok m1" "map identity m1 = map identity members"
    "\<forall>k < ?n. member_keys (m1 ! k) = member_keys (members ! k) @ turns ?n i k (topic_parts et)"
    using rr_partitions_all [OF Cons.prems(1) et Cons.prems(2), of ?parts] unfolding topic_parts_def by blast
  have len: "length m1 = ?n" using m1(3) by (rule map_eq_imp_length_eq)
  have rest: "(i + length ?parts) mod ?n < length m1"
    "\<forall>et \<in> set ets. all_find regex m1 (mt_topic (at_metadata et)) \<and> length (at_members et) = length m1"
    using Cons.prems(2,3) unfolding len all_find_identity [OF m1(3)]
    by (simp_all add: mod_less_divisor [OF le_less_trans [OF le0]])
  obtain m2 where m2: "rr_topics regex ets m1 ((i + length ?parts) mod ?n) = Return m2"
    "map identity m2 = map identity m1"
    "\<forall>k < ?n. member_keys (m2 ! k) = member_keys (m1 ! k) @
       turns ?n ((i + length ?parts) mod ?n) k (concat (map topic_parts ets))"
    using Cons.IH [OF m1(2) rest] unfolding len by blast
  have "\<forall>k < ?n. member_keys (m2 ! k) =
      member_keys (members ! k) @ turns ?n i k (concat (map topic_parts (et # ets)))"
    using m1(4) m2(3) by (simp add: turns_append topic_parts_def)
  moreover have "rr_topics regex (et # ets) members i = Return m2" using m1(1) m2(1) by simp
  ultimately show ?case using m1(3) m2(2) by (intro exI [of _ m2] conjI) (simp_all only:)
qed (simp add: turns_def)

lemma qsort_map:
  assumes "\<And>a b. cmp (f a) (f b) = cmp a b"
  shows "qsort cmp (map f xs) = map f (qsort cmp xs)"
proof -
  have "qsort_insert cmp (f x) (map f ys) = map f (qsort_insert cmp x ys)" for x ys
    by (induction ys) (simp_all add: assms)
  then show ?thesis by (induction xs) (simp_all add: qsort_def)
qed

lemma subscribers_all: "\<forall>m \<in> set ms. t \<in> set (subs m) \<Longrightarrow> length (subscribers t i ms) = length ms"
  by (induction ms arbitrary: i) auto

lemma eligible_same_subs:
  assumes members: "\<forall>m \<in> set members. member_by_name m" "\<forall>m \<in> set members. set (subs m) = T"
    and "et \<in> set (eligible_of blacklisted members metadata)"
  shows "(\<forall>m \<in> set members. rd_kafka_group_member_find_subscription regex (with_eligible E m) (mt_topic (at_metadata et)))
    \<and> length (at_members et) = length members"
proof -
  obtain t m where et: "et = \<lparr>at_metadata = t, at_members = subscribers (mt_topic t) 0 members\<rparr>"
    "m \<in> set members" "mt_topic t \<in> set (subs m)"
    using assms(3) unfolding eligible_of_def set_map set_filter by blast
  then have all: "\<forall>m \<in> set members. mt_topic t \<in> set (subs m)" using members(2) by blast
  have "rd_kafka_group_member_find_subscription regex (with_eligible E m) (mt_topic t)" if "m \<in> set members" for m
  proof -
    have "\<forall>t \<in> set (subs m). take 1 t \<noteq> ''^''" using members(1) that unfolding member_by_name_defs by blast
    from find_subscription_by_name [OF this, of regex "mt_topic t"] all that show ?thesis
      by (simp add: rd_kafka_group_member_find_subscription_def with_eligible_def)
  qed
  then show ?thesis using subscribers_all [OF all, of 0] et(1) by simp
qed

text \<open>
  C33. Round robin deals the partitions out in turn: when the members subscribe by name to the same
  topics, the partitions of these topics, in some order of the topics, are numbered through, and
  the member at position k of the members sorted by id gets those numbered k, k + n, k + 2n and
  so on, with n the number of members.
\<close>

theorem roundrobin_in_turn:
  assumes find: "rd_kafka_assignor_find assignors proto = Some rkas" "rkas_enabled rkas" "rkas_assign_cb rkas = Roundrobin_Assign"
    and topics: "distinct (map mt_topic metadata)"
      "\<forall>t \<in> set metadata. 0 \<le> mt_partition_cnt t \<and> mt_partition_cnt t < 2 ^ 31"
    and fresh: "\<forall>m \<in> set members. member_fresh m" "\<forall>m \<in> set members. \<forall>t \<in> set (subs m). take 1 t \<noteq> ''^''"
    and group: "members \<noteq> []" "\<forall>m \<in> set members. set (subs m) = T"
  shows "\<exists>members' ts. rd_kafka_assignor_run regex blacklisted assignors proto metadata members = Return (members', 0) \<and>
    map identity members' = map identity (qsort rd_kafka_group_member_cmp members) \<and>
    mset ts = mset (filter (\<lambda>t. \<not> blacklisted (mt_topic t) \<and> mt_topic t \<in> T) metadata) \<and>
    (\<forall>k < length members. member_keys (members' ! k) =
       nths (concat (map (\<lambda>t. map (Pair (mt_topic t)) [0..mt_partition_cnt t - 1]) ts)) {j. j mod length members = k})"
proof -
  have members: "\<forall>m \<in> set members. member_by_name m" "members \<noteq> []" "\<forall>m \<in> set members. set (subs m) = T"
    using fresh group unfolding member_by_name_def by blast+
  obtain E where E: "rd_kafka_member_subscriptions_map regex blacklisted metadata members
      = (map (with_eligible E) members, eligible_of blacklisted members metadata)"
    by (rule subscriptions_of_members [OF members(1) topics(1)])
  let ?ms = "map (with_eligible E) (qsort rd_kafka_group_member_cmp members)"
  define ets where "ets = qsort rd_kafka_assignor_topic_cmp (eligible_of blacklisted members metadata)"
  have sorted: "qsort rd_kafka_group_member_cmp (map (with_eligible E) members) = ?ms"
    by (rule qsort_map) (simp add: with_eligible_def rd_kafka_group_member_cmp_def)
  have set: "set (qsort rd_kafka_group_member_cmp members) = set members"
    "length (qsort rd_kafka_group_member_cmp members) = length members"
    using mset_qsort [of rd_kafka_group_member_cmp members] by (metis set_mset_mset, metis size_mset)
  have ok: "members_ok ?ms" "0 < length ?ms"
    using members(1,2) set by (simp_all add: members_ok_def with_eligible_def member_by_name_defs)
  have empty: "member_keys (?ms ! k) = []" if "k < length members" for k
  proof -
    have "qsort rd_kafka_group_member_cmp members ! k \<in> set members" using that set nth_mem by metis
    then show ?thesis using members(1) that set(2) by (simp add: with_eligible_def member_by_name_defs)
  qed
  have el: "mset ets = mset (eligible_of blacklisted members metadata)" by (simp add: ets_def mset_qsort)
  have each: "\<forall>et \<in> set ets. all_find regex ?ms (mt_topic (at_metadata et)) \<and> length (at_members et) = length ?ms"
    unfolding mset_eq_setD [OF el] using eligible_same_subs [OF members(1,3)] set by (simp add: all_find_def)
  obtain members' where r: "rr_topics regex ets ?ms 0 = Return members'" "map identity members' = map identity ?ms"
    "\<forall>k < length ?ms. member_keys (members' ! k) =
       member_keys (?ms ! k) @ turns (length ?ms) 0 k (concat (map topic_parts ets))"
    using rr_topics_all [OF ok each] by blast
  have "rd_kafka_assignor_run regex blacklisted assignors proto metadata members = Return (members', 0)"
    using find r(1) by (simp add: rd_kafka_assignor_run_def E rd_kafka_roundrobin_assignor_assign_cb_def sorted
        ets_def [symmetric])
  moreover have "map identity members' = map identity (qsort rd_kafka_group_member_cmp members)"
    unfolding r(2) by (simp add: with_eligible_def comp_def)
  moreover have "mset (map at_metadata ets) =
      mset (filter (\<lambda>t. \<not> blacklisted (mt_topic t) \<and> mt_topic t \<in> T) metadata)"
  proof -
    have sub: "(\<exists>m \<in> set members. mt_topic t \<in> set (subs m)) \<longleftrightarrow> mt_topic t \<in> T" for t
      using members(2,3) by (metis list.set_intros(1) neq_Nil_conv)
    show ?thesis unfolding mset_map el eligible_of_def sub by (simp add: image_mset.compositionality comp_def)
  qed
  moreover have "\<forall>k < length members. member_keys (members' ! k) =
      nths (concat (map (\<lambda>t. map (Pair (mt_topic t)) [0..mt_partition_cnt t - 1]) (map at_metadata ets)))
        {j. j mod length members = k}"
    using r(3) empty set(2) by (simp add: turns_def topic_parts_def [abs_def] comp_def)
  ultimately show ?thesis by blast
qed

theorem roundrobin_in_turn_witness:
  "\<exists>members' ts. rd_kafka_assignor_run (\<lambda>_ _. 0) (\<lambda>_. False) both ''roundrobin'' [\<lparr>mt_topic = ''t'', mt_partition_cnt = 3\<rparr>]
      [new_member [66] [''t''], new_member [65] [''t'']] = Return (members', 0) \<and>
    mset ts = {#\<lparr>mt_topic = ''t'', mt_partition_cnt = 3\<rparr>#} \<and>
    map (ks_str \<circ> rkgm_member_id) members' = [Some [65], Some [66]]"
proof -
  let ?md = "[\<lparr>mt_topic = ''t'', mt_partition_cnt = 3\<rparr>]"
  let ?ms = "[new_member [66] [''t''], new_member [65] [''t'']]"
  have find: "rd_kafka_assignor_find both ''roundrobin'' = Some (both ! 1)" "rkas_enabled (both ! 1)"
    "rkas_assign_cb (both ! 1) = Roundrobin_Assign"
    by (simp_all add: rd_kafka_assignor_find_def both_def)
  have "map (ks_str \<circ> fst) (map identity (qsort rd_kafka_group_member_cmp ?ms)) = [Some [65], Some [66]]"
    by code_simp
  moreover obtain members' ts where r: "rd_kafka_assignor_run (\<lambda>_ _. 0) (\<lambda>_. False) both ''roundrobin'' ?md ?ms = Return (members', 0)"
    "map identity members' = map identity (qsort rd_kafka_group_member_cmp ?ms)" "mset ts = mset ?md"
    using roundrobin_in_turn [OF find, of ?md ?ms "{''t''}" "\<lambda>_ _. 0" "\<lambda>_. False"] by auto
  ultimately have "map (ks_str \<circ> fst) (map identity members') = [Some [65], Some [66]]" by (simp only:)
  then show ?thesis using r(1,3) by (intro exI [of _ members'] exI [of _ ts]) (simp add: comp_def)
qed

section \<open>Groups where the strategies fail\<close>

text \<open>
  Round robin can read past the end of the members: with three members that subscribe to a
  topic of two partitions, the first of which also subscribes to a second topic, the search for
  the next member of the second topic starts behind that member and never ends. (The topics are in the order
  of the metadata, which a stable sort keeps: the comparator says that different names are equal.)
\<close>

lemma roundrobin_overrun:
  "rd_kafka_assignor_run regex (\<lambda>_. False) both ''roundrobin''
     [\<lparr>mt_topic = ''t1'', mt_partition_cnt = 2\<rparr>, \<lparr>mt_topic = ''t2'', mt_partition_cnt = 1\<rparr>]
     [new_member [65] [''t1'', ''t2''], new_member [66] [''t1''], new_member [67] [''t1'']] = Undefined"
  by code_simp

text \<open>
  Round robin can leave a subscriber without partitions: the position of the next member is
  taken modulo the number of subscribers of the topic, but it is a position among all members.
\<close>

lemma roundrobin_starves:
  "(case rd_kafka_assignor_run regex (\<lambda>_. False) both ''roundrobin'' [\<lparr>mt_topic = ''t'', mt_partition_cnt = 4\<rparr>]
      [new_member [65] [''u''], new_member [66] [''t''], new_member [67] [''t'']] of
      Return (members, err) \<Rightarrow> map member_keys members | _ \<Rightarrow> [])
   = [[], [(''t'', 0), (''t'', 1), (''t'', 2), (''t'', 3)], []]"
  by code_simp

text \<open>
  A topic that a pattern subscribes to can be left out: whether all subscriptions are found
  is decided per topic, and a member with a pattern counts as complete at a topic that its pattern
  does not match. With members that subscribe to a pattern and to a name, the scan of the metadata
  ends when it finds the name, although a later topic matches the pattern.
\<close>

lemma pattern_topic_left_out:
  assumes "regex ''^a'' ''a1'' = 1" "regex ''^a'' ''b'' = 0" "regex ''^a'' ''a2'' = 1"
  shows "(let m1 = new_member [65] [''^a'']; m2 = new_member [66] [''b''];
      topics = [\<lparr>mt_topic = ''a1'', mt_partition_cnt = 1\<rparr>, \<lparr>mt_topic = ''b'', mt_partition_cnt = 1\<rparr>,
                \<lparr>mt_topic = ''a2'', mt_partition_cnt = 1\<rparr>]
    in rd_kafka_group_member_find_subscription regex m1 ''a2'' \<and>
       map (mt_topic \<circ> at_metadata) (snd (rd_kafka_member_subscriptions_map regex (\<lambda>_. False) topics [m1, m2]))
         = [''a1'', ''b''])"
  using assms
  by (simp add: rd_kafka_member_subscriptions_map_def rd_kafka_group_member_find_subscription_def
      rd_kafka_member_subscription_match_def rd_kafka_topic_partition_match_def new_member_def
      rd_kafka_topic_partition_new_def)

text \<open>
  The right trim of the configured names trims nothing, so that a name followed by a space is
  not supported.
\<close>

lemma rtrim_keeps: "rtrim s = Return s"
  by (simp add: rtrim_def)

lemma trailing_space_unsupported:
  "rd_kafka_assignors_init ''consumer'' ''range ,roundrobin'' = Return (Inl ''range '')"
  by code_simp

text \<open>The comparator of the topics does not order them.\<close>

lemma topic_cmp_no_order:
  "mt_topic (at_metadata a) \<noteq> mt_topic (at_metadata b) \<Longrightarrow>
   rd_kafka_assignor_topic_cmp a b = 0 \<and> rd_kafka_assignor_topic_cmp b a = 0"
  by (auto simp: rd_kafka_assignor_topic_cmp_def)

end
