(* ===== verification/Kbuf.thy ===== *)
theory Kbuf
  imports Proto
begin

text \<open>
  The protocol buffer of \<open>rdkafka_buf.h\<close> and \<open>rdkafka_buf.c\<close>: reading and writing protocol
  primitives, the running CRC, the aligned temporary buffer, request time-outs and retries,
  and queues of buffers.

  The read macros either deliver a value or set \<open>rkbuf_err\<close> and jump to the label \<open>err_parse\<close>
  of their user; here they return \<open>Parsed\<close> or \<open>Err_Parse\<close> with the changed buffer. Pointers into
  the receive buffer are pairs of segment and offset, as in \<open>Slice\<close>. The clock is an argument.
  Logging is left out.
\<close>

section \<open>Temporary aligned buffer\<close>

record rd_tmpabuf =
  tab_size :: nat
  tab_of :: nat
  tab_buf :: "byte list"
  tab_failed :: bool
  tab_assert_on_fail :: bool

definition rd_tmpabuf_new :: "(nat \<Rightarrow> byte) \<Rightarrow> nat \<Rightarrow> bool \<Rightarrow> rd_tmpabuf" where
  "rd_tmpabuf_new fill sz assert_on_fail =
     \<lparr>tab_size = sz, tab_of = 0, tab_buf = map fill [0..<sz], tab_failed = False,
      tab_assert_on_fail = assert_on_fail\<rparr>"

definition rd_tmpabuf_failed :: "rd_tmpabuf \<Rightarrow> bool" where
  "rd_tmpabuf_failed tab = tab_failed tab"

text \<open>The offset of the allocated memory in the buffer, None for NULL.\<close>

definition rd_tmpabuf_alloc0 :: "rd_tmpabuf \<Rightarrow> nat \<Rightarrow> (rd_tmpabuf \<times> nat option) outcome" where
  "rd_tmpabuf_alloc0 tab sz =
     (if tab_failed tab then Return (tab, None)
      else if tab_size tab < size_add (tab_of tab) sz
      then (if tab_assert_on_fail tab then Assert_Failed else Return (tab, None))
      else Return (tab\<lparr>tab_of := tab_of tab + RD_ROUNDUP sz 8\<rparr>, Some (tab_of tab)))"

text \<open>\<open>buf\<close> is the memory at the source pointer; None and memory too short are undefined.\<close>

definition rd_tmpabuf_write0 ::
  "rd_tmpabuf \<Rightarrow> byte list option \<Rightarrow> nat \<Rightarrow> (rd_tmpabuf \<times> nat option) outcome" where
  "rd_tmpabuf_write0 tab buf sz =
     obind (rd_tmpabuf_alloc0 tab sz) (\<lambda>(tab1, ptr).
       case ptr of
         None \<Rightarrow> Return (tab1, None)
       | Some off \<Rightarrow>
           (case buf of
              None \<Rightarrow> Undefined
            | Some src \<Rightarrow>
                if length src < sz then Undefined
                else Return (tab1\<lparr>tab_buf := overwrite off (take sz src) (tab_buf tab1)\<rparr>, Some off)))"

definition rd_tmpabuf_write_str0 :: "rd_tmpabuf \<Rightarrow> byte list \<Rightarrow> (rd_tmpabuf \<times> nat option) outcome" where
  "rd_tmpabuf_write_str0 tab str = rd_tmpabuf_write0 tab (Some str) (strlen str + 1)"

section \<open>The buffer\<close>

datatype rk_err =
    RK_NO_ERROR | RK_BAD_MSG | RK_UNDERFLOW | RK_DESTROY | RK_TRANSPORT | RK_TIMED_OUT
  | RK_TIMED_OUT_QUEUE | RK_UNSUPPORTED_FEATURE | RK_OTHER

record rd_kafka_buf =
  rkbuf_corrid :: int
  rkbuf_ts_retry :: int
  rkbuf_f_crc :: bool
  rkbuf_f_sent :: bool
  rkbuf_f_blocking :: bool
  rkbuf_f_no_response :: bool
  rkbuf_prio :: nat
  rkbuf_connid :: int
  rkbuf_buf :: rd_buf
  rkbuf_reader :: rd_slice
  rkbuf_totlen :: nat
  rkbuf_crc :: rd_crc32_t
  rkbuf_ApiKey :: int
  rkbuf_ApiVersion :: int
  rkbuf_features :: int
  rkbuf_replyq_version :: int
  rkbuf_refcnt :: nat
  rkbuf_retries :: int
  rkbuf_ts_enq :: int
  rkbuf_ts_sent :: int
  rkbuf_ts_timeout :: int
  rkbuf_abs_timeout :: int
  rkbuf_rel_timeout :: int
  rkbuf_force_timeout :: bool
  rkbuf_err :: rk_err
  rkbuf_batch_len :: nat

definition rd_kafka_buf_was_sent :: "rd_kafka_buf \<Rightarrow> bool" where
  "rd_kafka_buf_was_sent rkbuf = rkbuf_f_sent rkbuf"

section \<open>Reading\<close>

datatype 'a parse = Parsed 'a | Err_Parse

type_synonym 'a rkread = "(rd_kafka_buf \<times> 'a parse) outcome option"

text \<open>The rest of a parse function runs only if the macro did not jump to \<open>err_parse\<close>.\<close>

definition rk_bind :: "'a rkread \<Rightarrow> (rd_kafka_buf \<Rightarrow> 'a \<Rightarrow> 'b rkread) \<Rightarrow> 'b rkread" where
  "rk_bind m f = xbind m (\<lambda>(b, r).
     case r of Parsed x \<Rightarrow> f b x | Err_Parse \<Rightarrow> Some (Return (b, Err_Parse)))"

definition rk_return :: "rd_kafka_buf \<Rightarrow> 'a \<Rightarrow> 'a rkread" where
  "rk_return b x = Some (Return (b, Parsed x))"

definition rd_kafka_buf_parse_fail :: "rd_kafka_buf \<Rightarrow> 'a rkread" where
  "rd_kafka_buf_parse_fail rkbuf = Some (Return (rkbuf\<lparr>rkbuf_err := RK_BAD_MSG\<rparr>, Err_Parse))"

definition rd_kafka_buf_underflow_fail :: "rd_kafka_buf \<Rightarrow> 'a rkread" where
  "rd_kafka_buf_underflow_fail rkbuf = Some (Return (rkbuf\<lparr>rkbuf_err := RK_UNDERFLOW\<rparr>, Err_Parse))"

definition rd_kafka_buf_read_remain :: "rd_kafka_buf \<Rightarrow> nat" where
  "rd_kafka_buf_read_remain rkbuf = rd_slice_remains (rkbuf_reader rkbuf)"

definition rd_kafka_buf_check_len :: "rd_kafka_buf \<Rightarrow> nat \<Rightarrow> unit rkread" where
  "rd_kafka_buf_check_len rkbuf len =
     (if rd_kafka_buf_read_remain rkbuf < len then rd_kafka_buf_underflow_fail rkbuf
      else rk_return rkbuf ())"

text \<open>\<open>(size_t)\<close> of a C integer.\<close>

definition to_size :: "int \<Rightarrow> nat" where
  "to_size n = nat (n mod int SIZE_MOD)"

definition rd_kafka_buf_skip :: "rd_kafka_buf \<Rightarrow> nat \<Rightarrow> unit rkread" where
  "rd_kafka_buf_skip rkbuf len =
     (if len = 0 then rk_return rkbuf ()
      else xbind (rd_slice_read (rkbuf_reader rkbuf) len) (\<lambda>(sl, r).
        let rkbuf1 = rkbuf\<lparr>rkbuf_reader := sl\<rparr>
        in case r of
             Some _ \<Rightarrow> rk_return rkbuf1 ()
           | None \<Rightarrow> rd_kafka_buf_check_len rkbuf1 len))"

definition rd_kafka_buf_skip_to :: "rd_kafka_buf \<Rightarrow> nat \<Rightarrow> unit rkread" where
  "rd_kafka_buf_skip_to rkbuf pos =
     rd_kafka_buf_skip rkbuf (size_sub pos (rd_slice_offset (rkbuf_reader rkbuf)))"

text \<open>If a failed read passed the length check the caller would use an unset variable.\<close>

definition rd_kafka_buf_read :: "rd_kafka_buf \<Rightarrow> nat \<Rightarrow> byte list rkread" where
  "rd_kafka_buf_read rkbuf len =
     xbind (rd_slice_read (rkbuf_reader rkbuf) len) (\<lambda>(sl, r).
       let rkbuf1 = rkbuf\<lparr>rkbuf_reader := sl\<rparr>
       in case r of
            Some bytes \<Rightarrow> rk_return rkbuf1 bytes
          | None \<Rightarrow> rk_bind (rd_kafka_buf_check_len rkbuf1 len) (\<lambda>_ _. Some Undefined))"

definition rd_kafka_buf_peek :: "rd_kafka_buf \<Rightarrow> nat \<Rightarrow> nat \<Rightarrow> byte list rkread" where
  "rd_kafka_buf_peek rkbuf offset len =
     xbind (rd_slice_peek (rkbuf_reader rkbuf) offset len) (\<lambda>r.
       case r of
         Some bytes \<Rightarrow> rk_return rkbuf bytes
       | None \<Rightarrow>
           rk_bind (rd_kafka_buf_check_len rkbuf (size_add offset len)) (\<lambda>_ _. Some Undefined))"

definition rd_kafka_buf_read_i64 :: "rd_kafka_buf \<Rightarrow> u64 rkread" where
  "rd_kafka_buf_read_i64 rkbuf =
     rk_bind (rd_kafka_buf_read rkbuf 8) (\<lambda>b v. rk_return b (be_dec v))"

definition rd_kafka_buf_peek_i64 :: "rd_kafka_buf \<Rightarrow> nat \<Rightarrow> u64 rkread" where
  "rd_kafka_buf_peek_i64 rkbuf off =
     rk_bind (rd_kafka_buf_peek rkbuf off 8) (\<lambda>b v. rk_return b (be_dec v))"

definition rd_kafka_buf_read_i32 :: "rd_kafka_buf \<Rightarrow> u32 rkread" where
  "rd_kafka_buf_read_i32 rkbuf =
     rk_bind (rd_kafka_buf_read rkbuf 4) (\<lambda>b v. rk_return b (be_dec v))"

definition rd_kafka_buf_read_i16 :: "rd_kafka_buf \<Rightarrow> u16 rkread" where
  "rd_kafka_buf_read_i16 rkbuf =
     rk_bind (rd_kafka_buf_read rkbuf 2) (\<lambda>b v. rk_return b (be_dec v))"

definition rd_kafka_buf_read_i8 :: "rd_kafka_buf \<Rightarrow> u8 rkread" where
  "rd_kafka_buf_read_i8 rkbuf =
     rk_bind (rd_kafka_buf_read rkbuf 1) (\<lambda>b v. rk_return b (be_dec v))"

definition rd_kafka_buf_peek_i8 :: "rd_kafka_buf \<Rightarrow> nat \<Rightarrow> u8 rkread" where
  "rd_kafka_buf_peek_i8 rkbuf off =
     rk_bind (rd_kafka_buf_peek rkbuf off 1) (\<lambda>b v. rk_return b (be_dec v))"

definition rd_kafka_buf_read_bool :: "rd_kafka_buf \<Rightarrow> u8 rkread" where
  "rd_kafka_buf_read_bool rkbuf = rd_kafka_buf_read_i8 rkbuf"

definition rd_kafka_buf_read_varint :: "rd_kafka_buf \<Rightarrow> u64 rkread" where
  "rd_kafka_buf_read_varint rkbuf =
     xbind (rd_varint_dec_slice (rkbuf_reader rkbuf)) (\<lambda>(sl, r, v).
       let rkbuf1 = rkbuf\<lparr>rkbuf_reader := sl\<rparr>
       in if RD_UVARINT_UNDERFLOW r then rd_kafka_buf_underflow_fail rkbuf1
          else case v of None \<Rightarrow> Some Undefined | Some n \<Rightarrow> rk_return rkbuf1 n)"

text \<open>
  \<open>rd_slice_ensure_contig\<close> followed by the length check that every user of it makes when it
  returns NULL: the pointer, or None if the bytes are there but not contiguous.
\<close>

definition rk_contig :: "rd_kafka_buf \<Rightarrow> nat \<Rightarrow> (nat \<times> nat) option rkread" where
  "rk_contig rkbuf len =
     xbind (rd_slice_ensure_contig (rkbuf_reader rkbuf) len) (\<lambda>(sl, p).
       let rkbuf1 = rkbuf\<lparr>rkbuf_reader := sl\<rparr>
       in case p of
            Some q \<Rightarrow> rk_return rkbuf1 (Some q)
          | None \<Rightarrow> rk_bind (rd_kafka_buf_check_len rkbuf1 len) (\<lambda>b _. rk_return b None))"

definition rd_kafka_buf_read_str :: "rd_kafka_buf \<Rightarrow> (int \<times> (nat \<times> nat) option) rkread" where
  "rd_kafka_buf_read_str rkbuf =
     rk_bind (rd_kafka_buf_read_i16 rkbuf) (\<lambda>b v.
       let len = sint v; klen = RD_KAFKAP_STR_LEN0 len
       in if RD_KAFKAP_STR_IS_NULL len then rk_return b (len, None)
          else rk_bind (rk_contig b (to_size klen)) (\<lambda>b1 p. rk_return b1 (len, p)))"

text \<open>The memory from a pointer into the buffer to the end of its segment's allocation.\<close>

definition rk_memory :: "rd_buf \<Rightarrow> (nat \<times> nat) option \<Rightarrow> byte list option" where
  "rk_memory b p = map_option (\<lambda>(i, rof). drop rof (seg_p (rbuf_segments b ! i))) p"

text \<open>
  \<open>rd_kafka_buf_read_str_tmpabuf\<close>: the write copies one byte more than the string has, and
  the extra byte is then overwritten with zero.
\<close>

definition rd_kafka_buf_read_str_tmpabuf ::
  "rd_kafka_buf \<Rightarrow> rd_tmpabuf \<Rightarrow> (rd_tmpabuf \<times> nat) rkread" where
  "rd_kafka_buf_read_str_tmpabuf rkbuf tab =
     rk_bind (rd_kafka_buf_read_str rkbuf) (\<lambda>b (len, p).
       let slen = to_size (RD_KAFKAP_STR_LEN0 len)
       in xbind (Some (rd_tmpabuf_write0 tab (rk_memory (sl_buf (rkbuf_reader b)) p) (slen + 1)))
            (\<lambda>(tab1, dst).
              case dst of
                None \<Rightarrow> rd_kafka_buf_parse_fail b
              | Some off \<Rightarrow>
                  rk_return b (tab1\<lparr>tab_buf := (tab_buf tab1)[off + slen := 0]\<rparr>, off)))"

definition rd_kafka_buf_skip_str :: "rd_kafka_buf \<Rightarrow> unit rkread" where
  "rd_kafka_buf_skip_str rkbuf =
     rk_bind (rd_kafka_buf_read_i16 rkbuf) (\<lambda>b v.
       rd_kafka_buf_skip b (to_size (RD_KAFKAP_STR_LEN0 (sint v))))"

text \<open>
  Byte arrays: the length and the data, where the data of an empty array is a constant empty
  string and not a pointer into the buffer.
\<close>

datatype kbytes_data = KB_Null | KB_Empty | KB_Ptr "(nat \<times> nat) option"

definition read_bytes_body :: "rd_kafka_buf \<Rightarrow> int \<Rightarrow> nat \<Rightarrow> (int \<times> kbytes_data) rkread" where
  "read_bytes_body b len sz =
     (if RD_KAFKAP_BYTES_IS_NULL len then rk_return b (0, KB_Null)
      else if RD_KAFKAP_BYTES_LEN0 len = 0 then rk_return b (len, KB_Empty)
      else rk_bind (rk_contig b sz) (\<lambda>b1 p. rk_return b1 (len, KB_Ptr p)))"

definition rd_kafka_buf_read_bytes :: "rd_kafka_buf \<Rightarrow> (int \<times> kbytes_data) rkread" where
  "rd_kafka_buf_read_bytes rkbuf =
     rk_bind (rd_kafka_buf_read_i32 rkbuf) (\<lambda>b v. read_bytes_body b (sint v) (to_size (sint v)))"

definition rd_kafka_buf_read_ptr :: "rd_kafka_buf \<Rightarrow> nat \<Rightarrow> (nat \<times> nat) option rkread" where
  "rd_kafka_buf_read_ptr rkbuf sz = rk_contig rkbuf sz"

text \<open>The varint length is cut to 32 bits for the tests and used in full for the read.\<close>

definition rd_kafka_buf_read_bytes_varint :: "rd_kafka_buf \<Rightarrow> (int \<times> kbytes_data) rkread" where
  "rd_kafka_buf_read_bytes_varint rkbuf =
     rk_bind (rd_kafka_buf_read_varint rkbuf) (\<lambda>b v.
       read_bytes_body b (sint (ucast v :: u32)) (to_size (sint v)))"

section \<open>Time-outs and retries\<close>

text \<open>Multiplication of \<open>int\<close> values: signed overflow is undefined.\<close>

definition int_mul :: "int \<Rightarrow> int \<Rightarrow> int outcome" where
  "int_mul a b = (if - (2 ^ 31) \<le> a * b \<and> a * b < 2 ^ 31 then Return (a * b) else Undefined)"

definition rd_kafka_buf_set_timeout :: "rd_kafka_buf \<Rightarrow> int \<Rightarrow> rd_kafka_buf" where
  "rd_kafka_buf_set_timeout rkbuf timeout_ms =
     rkbuf\<lparr>rkbuf_rel_timeout := timeout_ms, rkbuf_abs_timeout := 0\<rparr>"

text \<open>\<open>clock\<close> is the current time, used when \<open>now\<close> is 0.\<close>

definition rd_kafka_buf_set_abs_timeout0 ::
  "int \<Rightarrow> rd_kafka_buf \<Rightarrow> int \<Rightarrow> int \<Rightarrow> bool \<Rightarrow> rd_kafka_buf" where
  "rd_kafka_buf_set_abs_timeout0 clock rkbuf timeout_ms now force =
     (let now' = (if now = 0 then clock else now)
      in rkbuf\<lparr>rkbuf_rel_timeout := 0, rkbuf_abs_timeout := now' + timeout_ms * 1000,
               rkbuf_force_timeout := force\<rparr>)"

definition rd_kafka_buf_calc_timeout :: "int \<Rightarrow> rd_kafka_buf \<Rightarrow> int \<Rightarrow> rd_kafka_buf outcome" where
  "rd_kafka_buf_calc_timeout socket_timeout_ms rkbuf now =
     (if rkbuf_rel_timeout rkbuf \<noteq> 0
      then obind (int_mul (rkbuf_rel_timeout rkbuf) 1000) (\<lambda>t.
             Return (rkbuf\<lparr>rkbuf_ts_timeout := now + t\<rparr>))
      else if \<not> rkbuf_force_timeout rkbuf
      then obind (int_mul socket_timeout_ms 1000) (\<lambda>t.
             Return (rkbuf\<lparr>rkbuf_ts_timeout := min (now + t) (rkbuf_abs_timeout rkbuf)\<rparr>))
      else Return (rkbuf\<lparr>rkbuf_ts_timeout := rkbuf_abs_timeout rkbuf\<rparr>))"

text \<open>
  \<open>rd_kafka_buf_retry\<close>: the broker (None: NULL) with what the function asks of it. The
  result tells whether the buffer was handed to \<open>rd_kafka_broker_buf_retry\<close>.
\<close>

record retry_broker =
  rb_internal :: bool
  rb_terminating :: bool
  rb_max_retries :: int

definition rd_kafka_buf_retry ::
  "int \<Rightarrow> retry_broker option \<Rightarrow> rd_kafka_buf \<Rightarrow> rd_kafka_buf \<times> bool" where
  "rd_kafka_buf_retry clock rkb rkbuf =
     (let incr_retry = (if rd_kafka_buf_was_sent rkbuf then 1 else 0)
      in case rkb of
           None \<Rightarrow> (rkbuf, False)
         | Some rb \<Rightarrow>
             if rb_internal rb \<or> rb_terminating rb \<or> rb_max_retries rb < rkbuf_retries rkbuf + incr_retry
             then (rkbuf, False)
             else if rkbuf_abs_timeout rkbuf \<noteq> 0 \<and> rkbuf_abs_timeout rkbuf < clock then (rkbuf, False)
             else (rkbuf\<lparr>rkbuf_ts_sent := 0, rkbuf_ts_timeout := 0,
                         rkbuf_retries := rkbuf_retries rkbuf + incr_retry,
                         rkbuf_refcnt := rkbuf_refcnt rkbuf + 1\<rparr>, True))"

section \<open>Writing\<close>

definition rd_kafka_buf_ApiVersion_set :: "rd_kafka_buf \<Rightarrow> int \<Rightarrow> int \<Rightarrow> rd_kafka_buf" where
  "rd_kafka_buf_ApiVersion_set rkbuf version features =
     rkbuf\<lparr>rkbuf_ApiVersion := version, rkbuf_features := features\<rparr>"

type_synonym rkwrite = "(rd_kafka_buf \<times> nat) outcome option"

definition rd_kafka_buf_write :: "rd_kafka_buf \<Rightarrow> byte list \<Rightarrow> rkwrite" where
  "rd_kafka_buf_write rkbuf data =
     xbind (rd_buf_write (rkbuf_buf rkbuf) (Some data) (length data)) (\<lambda>(b, r).
       Some (Return
         ((if rkbuf_f_crc rkbuf
           then rkbuf\<lparr>rkbuf_buf := b, rkbuf_crc := rd_crc32_update (rkbuf_crc rkbuf) data\<rparr>
           else rkbuf\<lparr>rkbuf_buf := b\<rparr>), r)))"

text \<open>The reader is a slice on the buffer, so it sees what is updated.\<close>

definition rd_kafka_buf_update :: "rd_kafka_buf \<Rightarrow> nat \<Rightarrow> byte list \<Rightarrow> rd_kafka_buf outcome" where
  "rd_kafka_buf_update rkbuf off data =
     obind (rd_assert (\<not> rkbuf_f_crc rkbuf)) (\<lambda>_.
     obind (rd_buf_write_update (rkbuf_buf rkbuf) off data) (\<lambda>(b, _).
       Return (rkbuf\<lparr>rkbuf_buf := b, rkbuf_reader := (rkbuf_reader rkbuf)\<lparr>sl_buf := b\<rparr>\<rparr>)))"

definition rd_kafka_buf_write_i8 :: "rd_kafka_buf \<Rightarrow> u8 \<Rightarrow> rkwrite" where
  "rd_kafka_buf_write_i8 rkbuf v = rd_kafka_buf_write rkbuf (be_enc 1 v)"

definition rd_kafka_buf_update_i8 :: "rd_kafka_buf \<Rightarrow> nat \<Rightarrow> u8 \<Rightarrow> rd_kafka_buf outcome" where
  "rd_kafka_buf_update_i8 rkbuf off v = rd_kafka_buf_update rkbuf off (be_enc 1 v)"

definition rd_kafka_buf_write_i16 :: "rd_kafka_buf \<Rightarrow> u16 \<Rightarrow> rkwrite" where
  "rd_kafka_buf_write_i16 rkbuf v = rd_kafka_buf_write rkbuf (be_enc 2 v)"

definition rd_kafka_buf_update_i16 :: "rd_kafka_buf \<Rightarrow> nat \<Rightarrow> u16 \<Rightarrow> rd_kafka_buf outcome" where
  "rd_kafka_buf_update_i16 rkbuf off v = rd_kafka_buf_update rkbuf off (be_enc 2 v)"

definition rd_kafka_buf_write_i32 :: "rd_kafka_buf \<Rightarrow> u32 \<Rightarrow> rkwrite" where
  "rd_kafka_buf_write_i32 rkbuf v = rd_kafka_buf_write rkbuf (be_enc 4 v)"

definition rd_kafka_buf_update_i32 :: "rd_kafka_buf \<Rightarrow> nat \<Rightarrow> u32 \<Rightarrow> rd_kafka_buf outcome" where
  "rd_kafka_buf_update_i32 rkbuf off v = rd_kafka_buf_update rkbuf off (be_enc 4 v)"

definition rd_kafka_buf_update_u32 :: "rd_kafka_buf \<Rightarrow> nat \<Rightarrow> u32 \<Rightarrow> rd_kafka_buf outcome" where
  "rd_kafka_buf_update_u32 rkbuf off v = rd_kafka_buf_update rkbuf off (be_enc 4 v)"

definition rd_kafka_buf_write_i64 :: "rd_kafka_buf \<Rightarrow> u64 \<Rightarrow> rkwrite" where
  "rd_kafka_buf_write_i64 rkbuf v = rd_kafka_buf_write rkbuf (be_enc 8 v)"

definition rd_kafka_buf_update_i64 :: "rd_kafka_buf \<Rightarrow> nat \<Rightarrow> u64 \<Rightarrow> rd_kafka_buf outcome" where
  "rd_kafka_buf_update_i64 rkbuf off v = rd_kafka_buf_update rkbuf off (be_enc 8 v)"

text \<open>\<open>varint\<close> is the array on the stack with what it shows before it is written.\<close>

definition rd_kafka_buf_write_varint :: "byte list \<Rightarrow> rd_kafka_buf \<Rightarrow> u64 \<Rightarrow> rkwrite" where
  "rd_kafka_buf_write_varint varint rkbuf v =
     xbind (Some (rd_uvarint_enc_i64 varint (RD_UVARINT_ENC_SIZEOF 8) v)) (\<lambda>(dst, sz).
       rd_kafka_buf_write rkbuf (take sz dst))"

definition rd_kafka_buf_write_kstr :: "rd_kafka_buf \<Rightarrow> rd_kafkap_str \<Rightarrow> rkwrite" where
  "rd_kafka_buf_write_kstr rkbuf kstr =
     rd_kafka_buf_write rkbuf (take (nat (RD_KAFKAP_STR_SIZE0 (ks_len kstr))) (kser kstr))"

text \<open>A length of \<open>(size_t)-1\<close> asks for \<open>strlen\<close>.\<close>

definition rd_kafka_buf_write_str :: "rd_kafka_buf \<Rightarrow> byte list option \<Rightarrow> nat \<Rightarrow> rkwrite" where
  "rd_kafka_buf_write_str rkbuf str len =
     (let len' = (case str of
                    None \<Rightarrow> SIZE_MOD - 1
                  | Some s \<Rightarrow> if len = SIZE_MOD - 1 then strlen s else len)
      in xbind (rd_kafka_buf_write_i16 rkbuf (of_nat len')) (\<lambda>(b, r).
           case str of
             None \<Rightarrow> Some (Return (b, r))
           | Some s \<Rightarrow>
               if length s < len' then Some Undefined
               else xbind (rd_kafka_buf_write b (take len' s)) (\<lambda>(b1, _). Some (Return (b1, r)))))"

definition rd_kafka_buf_write_kbytes :: "rd_kafka_buf \<Rightarrow> rd_kafkap_bytes \<Rightarrow> rkwrite" where
  "rd_kafka_buf_write_kbytes rkbuf kbytes =
     rd_kafka_buf_write rkbuf (take (nat (RD_KAFKAP_BYTES_SIZE0 (kb_len kbytes))) (kb_ser kbytes))"

definition rd_kafka_buf_write_bytes :: "rd_kafka_buf \<Rightarrow> byte list option \<Rightarrow> nat \<Rightarrow> rkwrite" where
  "rd_kafka_buf_write_bytes rkbuf payload sz =
     (let sz' = (if payload = None then SIZE_MOD - 1 else sz)
      in xbind (rd_kafka_buf_write_i32 rkbuf (of_nat sz')) (\<lambda>(b, r).
           case payload of
             None \<Rightarrow> Some (Return (b, r))
           | Some s \<Rightarrow>
               if length s < sz' then Some Undefined
               else xbind (rd_kafka_buf_write b (take sz' s)) (\<lambda>(b1, _). Some (Return (b1, r)))))"

definition rd_kafka_buf_push0 ::
  "rd_kafka_buf \<Rightarrow> byte list \<Rightarrow> bool \<Rightarrow> free_fn option \<Rightarrow> rd_kafka_buf outcome" where
  "rd_kafka_buf_push0 rkbuf buf allow_crc_calc free_cb =
     obind (rd_buf_push (rkbuf_buf rkbuf) buf free_cb) (\<lambda>b.
       Return (if allow_crc_calc \<and> rkbuf_f_crc rkbuf
               then rkbuf\<lparr>rkbuf_buf := b, rkbuf_crc := rd_crc32_update (rkbuf_crc rkbuf) buf\<rparr>
               else rkbuf\<lparr>rkbuf_buf := b\<rparr>))"

definition rd_kafka_buf_push_kstr :: "rd_kafka_buf \<Rightarrow> rd_kafkap_str \<Rightarrow> rd_kafka_buf outcome" where
  "rd_kafka_buf_push_kstr rkbuf kstr =
     rd_kafka_buf_push0 rkbuf (take (nat (RD_KAFKAP_STR_SIZE0 (ks_len kstr))) (kser kstr)) True None"

definition rd_kafka_buf_push_kbytes :: "rd_kafka_buf \<Rightarrow> rd_kafkap_bytes \<Rightarrow> rd_kafka_buf outcome" where
  "rd_kafka_buf_push_kbytes rkbuf kbytes =
     rd_kafka_buf_push0 rkbuf (take (nat (RD_KAFKAP_BYTES_SIZE0 (kb_len kbytes))) (kb_ser kbytes))
       True None"

definition rd_kafka_buf_crc_init :: "rd_kafka_buf \<Rightarrow> rd_kafka_buf outcome" where
  "rd_kafka_buf_crc_init rkbuf =
     obind (rd_assert (\<not> rkbuf_f_crc rkbuf)) (\<lambda>_.
       Return (rkbuf\<lparr>rkbuf_f_crc := True, rkbuf_crc := rd_crc32_init\<rparr>))"

definition rd_kafka_buf_crc_finalize :: "rd_kafka_buf \<Rightarrow> rd_kafka_buf \<times> rd_crc32_t" where
  "rd_kafka_buf_crc_finalize rkbuf =
     (rkbuf\<lparr>rkbuf_f_crc := False\<rparr>, rd_crc32_finalize (rkbuf_crc rkbuf))"

definition rd_kafka_buf_version_outdated :: "rd_kafka_buf option \<Rightarrow> int \<Rightarrow> bool" where
  "rd_kafka_buf_version_outdated rkbuf version =
     (case rkbuf of
        None \<Rightarrow> False
      | Some b \<Rightarrow> rkbuf_replyq_version b \<noteq> 0 \<and> rkbuf_replyq_version b < version)"

section \<open>Creation\<close>

definition zero_rkbuf :: "rd_buf \<Rightarrow> rd_kafka_buf" where
  "zero_rkbuf b =
     \<lparr>rkbuf_corrid = 0, rkbuf_ts_retry = 0, rkbuf_f_crc = False, rkbuf_f_sent = False,
      rkbuf_f_blocking = False, rkbuf_f_no_response = False, rkbuf_prio = 0, rkbuf_connid = 0,
      rkbuf_buf = b,
      rkbuf_reader = \<lparr>sl_buf = b, sl_seg = None, sl_rof = 0, sl_start = 0, sl_end = 0\<rparr>,
      rkbuf_totlen = 0, rkbuf_crc = 0, rkbuf_ApiKey = 0, rkbuf_ApiVersion = 0, rkbuf_features = 0,
      rkbuf_replyq_version = 0, rkbuf_refcnt = 1, rkbuf_retries = 0, rkbuf_ts_enq = 0, rkbuf_ts_sent = 0,
      rkbuf_ts_timeout = 0, rkbuf_abs_timeout = 0, rkbuf_rel_timeout = 0,
      rkbuf_force_timeout = False, rkbuf_err = RK_NO_ERROR, rkbuf_batch_len = 0\<rparr>"

definition rd_kafka_buf_new0 :: "(nat \<Rightarrow> byte) \<Rightarrow> nat \<Rightarrow> nat \<Rightarrow> bool \<Rightarrow> rd_kafka_buf outcome" where
  "rd_kafka_buf_new0 fill segcnt sz flag_crc =
     obind (rd_buf_init segcnt sz fill) (\<lambda>b. Return ((zero_rkbuf b)\<lparr>rkbuf_f_crc := flag_crc\<rparr>))"

text \<open>\<open>client_id\<close> and \<open>socket_timeout_ms\<close> come from the broker's client instance.\<close>

definition rd_kafka_buf_new_request ::
  "(nat \<Rightarrow> byte) \<Rightarrow> rd_kafkap_str \<Rightarrow> int \<Rightarrow> int \<Rightarrow> nat \<Rightarrow> nat \<Rightarrow> rd_kafka_buf outcome option" where
  "rd_kafka_buf_new_request fill client_id socket_timeout_ms ApiKey segcnt sz =
     xbind (Some (rd_kafka_buf_new0 fill (segcnt + 1)
              (sz + RD_KAFKAP_REQHDR_SIZE + nat (RD_KAFKAP_STR_SIZE0 (ks_len client_id))) False)) (\<lambda>b.
     xbind (rd_kafka_buf_write_i32
              (b\<lparr>rkbuf_rel_timeout := socket_timeout_ms, rkbuf_ApiKey := ApiKey\<rparr>) 0) (\<lambda>(b1, _).
     xbind (rd_kafka_buf_write_i16 b1 (word_of_int ApiKey)) (\<lambda>(b2, _).
     xbind (rd_kafka_buf_write_i16 b2 0) (\<lambda>(b3, _).
     xbind (rd_kafka_buf_write_i32 b3 0) (\<lambda>(b4, _).
     xbind (rd_kafka_buf_write_kstr b4 client_id) (\<lambda>(b5, _). Some (Return b5)))))))"

definition rd_kafka_buf_new_shadow ::
  "(nat \<Rightarrow> byte) \<Rightarrow> byte list \<Rightarrow> free_fn option \<Rightarrow> rd_kafka_buf outcome" where
  "rd_kafka_buf_new_shadow fill mem free_cb =
     obind (rd_buf_init 1 0 fill) (\<lambda>b.
     obind (rd_buf_push b mem free_cb) (\<lambda>b1.
     obind (rd_slice_init_full b1) (\<lambda>sl.
       Return ((zero_rkbuf b1)\<lparr>rkbuf_ApiKey := - 1, rkbuf_totlen := length mem,
                               rkbuf_reader := sl\<rparr>))))"

text \<open>
  \<open>rd_kafka_buf_finalize\<close> of \<open>rdkafka_broker.c\<close> fills in the header fields that were not known
  before.
\<close>

definition rd_kafka_buf_finalize :: "nat \<Rightarrow> rd_kafka_buf \<Rightarrow> rd_kafka_buf outcome" where
  "rd_kafka_buf_finalize max_msg_size rkbuf =
     (let totsize = size_sub (rbuf_len (rkbuf_buf rkbuf)) 4
      in obind (rd_assert (totsize \<le> max_msg_size)) (\<lambda>_.
         obind (rd_slice_init_full (rkbuf_buf rkbuf)) (\<lambda>sl.
         obind (rd_kafka_buf_update_i32 (rkbuf\<lparr>rkbuf_reader := sl\<rparr>) 0 (of_nat totsize)) (\<lambda>b1.
           rd_kafka_buf_update_i16 b1 (4 + 2) (word_of_int (rkbuf_ApiVersion rkbuf))))))"

section \<open>Queues of buffers\<close>

text \<open>The queue links buffers by their address; the counters are atomic integers.\<close>

record rd_kafka_bufq =
  rkbq_bufs :: "(nat \<times> rd_kafka_buf) list"
  rkbq_cnt :: int
  rkbq_msg_cnt :: int

definition RD_KAFKAP_Produce :: int where "RD_KAFKAP_Produce = 0"
definition RD_KAFKAP_SaslHandshake :: int where "RD_KAFKAP_SaslHandshake = 17"
definition RD_KAFKAP_ApiVersion :: int where "RD_KAFKAP_ApiVersion = 18"

text \<open>The messages a buffer counts for in its queue.\<close>

definition buf_msgs :: "rd_kafka_buf \<Rightarrow> int" where
  "buf_msgs rkbuf =
     (if rkbuf_ApiKey rkbuf = RD_KAFKAP_Produce then int (rkbuf_batch_len rkbuf) else 0)"

definition rd_kafka_bufq_init :: rd_kafka_bufq where
  "rd_kafka_bufq_init = \<lparr>rkbq_bufs = [], rkbq_cnt = 0, rkbq_msg_cnt = 0\<rparr>"

definition rd_kafka_bufq_enq :: "rd_kafka_bufq \<Rightarrow> nat \<Rightarrow> rd_kafka_buf \<Rightarrow> rd_kafka_bufq" where
  "rd_kafka_bufq_enq q addr rkbuf =
     q\<lparr>rkbq_bufs := rkbq_bufs q @ [(addr, rkbuf)], rkbq_cnt := rkbq_cnt q + 1,
       rkbq_msg_cnt := rkbq_msg_cnt q + buf_msgs rkbuf\<rparr>"

text \<open>Unlinking a buffer that is not in the queue is undefined.\<close>

definition rd_kafka_bufq_deq :: "rd_kafka_bufq \<Rightarrow> nat \<Rightarrow> (rd_kafka_bufq \<times> rd_kafka_buf) outcome" where
  "rd_kafka_bufq_deq q addr =
     (case map_of (rkbq_bufs q) addr of
        None \<Rightarrow> Undefined
      | Some rkbuf \<Rightarrow>
          obind (rd_assert (0 < rkbq_cnt q)) (\<lambda>_.
            Return (q\<lparr>rkbq_bufs := filter (\<lambda>(a, _). a \<noteq> addr) (rkbq_bufs q),
                      rkbq_cnt := rkbq_cnt q - 1,
                      rkbq_msg_cnt := rkbq_msg_cnt q - buf_msgs rkbuf\<rparr>, rkbuf)))"

definition rd_kafka_bufq_concat :: "rd_kafka_bufq \<Rightarrow> rd_kafka_bufq \<Rightarrow> rd_kafka_bufq \<times> rd_kafka_bufq" where
  "rd_kafka_bufq_concat dst src =
     (dst\<lparr>rkbq_bufs := rkbq_bufs dst @ rkbq_bufs src, rkbq_cnt := rkbq_cnt dst + rkbq_cnt src,
          rkbq_msg_cnt := rkbq_msg_cnt dst + rkbq_msg_cnt src\<rparr>,
      rd_kafka_bufq_init)"

text \<open>The buffers whose response callback is called, in order, with the error passed.\<close>

definition rd_kafka_bufq_purge :: "rd_kafka_bufq \<Rightarrow> rk_err \<Rightarrow> (nat \<times> rk_err) list" where
  "rd_kafka_bufq_purge q err = map (\<lambda>(addr, _). (addr, err)) (rkbq_bufs q)"

definition replace_buf :: "rd_kafka_bufq \<Rightarrow> nat \<Rightarrow> rd_kafka_buf \<Rightarrow> rd_kafka_bufq" where
  "replace_buf q addr rkbuf =
     q\<lparr>rkbq_bufs := map (\<lambda>(a, b). if a = addr then (a, rkbuf) else (a, b)) (rkbq_bufs q)\<rparr>"

fun connection_reset_loop ::
  "int \<Rightarrow> int \<Rightarrow> rd_kafka_bufq \<Rightarrow> (nat \<times> rd_kafka_buf) list \<Rightarrow> (nat \<times> rk_err) list \<Rightarrow>
   (rd_kafka_bufq \<times> (nat \<times> rk_err) list) outcome" where
  "connection_reset_loop socket_timeout_ms now q [] cbs = Return (q, cbs)"
| "connection_reset_loop socket_timeout_ms now q ((addr, rkbuf) # rest) cbs =
     (if rkbuf_ApiKey rkbuf = RD_KAFKAP_ApiVersion \<or> rkbuf_ApiKey rkbuf = RD_KAFKAP_SaslHandshake
      then obind (rd_kafka_bufq_deq q addr) (\<lambda>(q1, _).
             connection_reset_loop socket_timeout_ms now q1 rest (cbs @ [(addr, RK_DESTROY)]))
      else obind (rd_slice_seek (rkbuf_reader rkbuf) 0) (\<lambda>(sl, _).
           obind (rd_kafka_buf_calc_timeout socket_timeout_ms (rkbuf\<lparr>rkbuf_reader := sl\<rparr>) now) (\<lambda>b1.
             connection_reset_loop socket_timeout_ms now (replace_buf q addr b1) rest cbs)))"

definition rd_kafka_bufq_connection_reset ::
  "int \<Rightarrow> int \<Rightarrow> rd_kafka_bufq \<Rightarrow> (rd_kafka_bufq \<times> (nat \<times> rk_err) list) outcome" where
  "rd_kafka_bufq_connection_reset socket_timeout_ms now q =
     connection_reset_loop socket_timeout_ms now q (rkbq_bufs q) []"

end
