(* ===== verification/Kbuf_Proofs.thy ===== *)
theory Kbuf_Proofs
  imports Kbuf
begin

text \<open>
  Round trips of the protocol primitives of \<open>Kbuf\<close>, stated against two interfaces: a byte sink,
  to which writes append, and a byte source, from which reads take the next bytes. The
  segmented buffer and the protocol buffer are sinks, the slice is a source.
\<close>

section \<open>Byte sinks\<close>

primrec write_all ::
  "('s \<Rightarrow> byte list \<Rightarrow> ('s \<times> nat) outcome option) \<Rightarrow> 's \<Rightarrow> byte list list \<Rightarrow> 's outcome option" where
  "write_all wr s [] = Some (Return s)"
| "write_all wr s (xs # xss) = xbind (wr s xs) (\<lambda>(s1, _). write_all wr s1 xss)"

locale byte_sink =
  fixes snk_inv :: "'s \<Rightarrow> bool"
    and snk_bytes :: "'s \<Rightarrow> byte list"
    and snk_write :: "'s \<Rightarrow> byte list \<Rightarrow> ('s \<times> nat) outcome option"
  assumes write_law: "snk_inv s \<Longrightarrow> \<exists>s'. snk_write s xs = Some (Return (s', length (snk_bytes s))) \<and>
    snk_inv s' \<and> snk_bytes s' = snk_bytes s @ xs"
begin

lemma write_all_spec:
  "snk_inv s \<Longrightarrow> \<exists>s'. write_all snk_write s xss = Some (Return s') \<and> snk_inv s' \<and>
     snk_bytes s' = snk_bytes s @ concat xss"
proof (induction xss arbitrary: s)
  case (Cons xs xss)
  obtain s1 where s1: "snk_write s xs = Some (Return (s1, length (snk_bytes s)))" "snk_inv s1"
    "snk_bytes s1 = snk_bytes s @ xs" using write_law [OF Cons.prems] by blast
  then show ?case using Cons.IH [OF s1(2)] by auto
qed simp

end

interpretation wb: byte_sink buf_inv buf_bytes "\<lambda>b xs. rd_buf_write b (Some xs) (length xs)"
proof
  show "\<exists>b'. rd_buf_write b (Some xs) (length xs) = Some (Return (b', length (buf_bytes b))) \<and>
    buf_inv b' \<and> buf_bytes b' = buf_bytes b @ xs" if "buf_inv b" for b xs
    using rd_buf_write_spec [OF that, of xs] buf_inv_length [OF that] by auto
qed

definition rk_winv :: "rd_kafka_buf \<Rightarrow> bool" where
  "rk_winv b \<longleftrightarrow> buf_inv (rkbuf_buf b)"

definition rk_wbytes :: "rd_kafka_buf \<Rightarrow> byte list" where
  "rk_wbytes b = buf_bytes (rkbuf_buf b)"

lemma rk_write_law:
  assumes "rk_winv b"
  shows "\<exists>b'. rd_kafka_buf_write b xs = Some (Return (b', length (rk_wbytes b))) \<and> rk_winv b' \<and>
    rk_wbytes b' = rk_wbytes b @ xs \<and> rkbuf_f_crc b' = rkbuf_f_crc b \<and>
    (rkbuf_f_crc b \<longrightarrow> rkbuf_crc b' = rd_crc32_update (rkbuf_crc b) xs)"
  using wb.write_law [of "rkbuf_buf b" xs] assms
  by (auto simp: rd_kafka_buf_write_def rk_winv_def rk_wbytes_def)

interpretation wk: byte_sink rk_winv rk_wbytes rd_kafka_buf_write
  by unfold_locales (use rk_write_law in blast)

lemma write_all_crc:
  "rk_winv b \<Longrightarrow> rkbuf_f_crc b \<Longrightarrow> write_all rd_kafka_buf_write b xss = Some (Return b') \<Longrightarrow>
   rkbuf_f_crc b' \<and> rkbuf_crc b' = rd_crc32_update (rkbuf_crc b) (concat xss)"
proof (induction xss arbitrary: b)
  case (Cons xs xss)
  obtain b1 where b1: "rd_kafka_buf_write b xs = Some (Return (b1, length (rk_wbytes b)))" "rk_winv b1"
    "rkbuf_f_crc b1" "rkbuf_crc b1 = rd_crc32_update (rkbuf_crc b) xs"
    using rk_write_law [OF Cons.prems(1), of xs] Cons.prems(2) by auto
  then show ?case using Cons.IH [OF b1(2,3)] Cons.prems(3)
    by (simp add: crc32_update_append)
qed simp

section \<open>Byte sources\<close>

locale byte_source =
  fixes src_inv :: "'s \<Rightarrow> bool"
    and src_bytes :: "'s \<Rightarrow> byte list"
    and src_read :: "'s \<Rightarrow> nat \<Rightarrow> ('s \<times> byte list option) outcome option"
  assumes read_law: "src_inv s \<Longrightarrow> n \<le> length (src_bytes s) \<Longrightarrow>
      \<exists>s'. src_read s n = Some (Return (s', Some (take n (src_bytes s)))) \<and> src_inv s' \<and>
        src_bytes s' = drop n (src_bytes s)"
    and short_law: "src_inv s \<Longrightarrow> length (src_bytes s) < n \<Longrightarrow> src_read s n = Some (Return (s, None))"
begin

lemma read_prefix:
  assumes "src_inv s" "src_bytes s = xs @ rest"
  shows "\<exists>s'. src_read s (length xs) = Some (Return (s', Some xs)) \<and> src_inv s' \<and> src_bytes s' = rest"
  using read_law [OF assms(1), of "length xs"] assms(2) by auto

lemma read_word:
  fixes v :: "'w::len word"
  assumes "src_inv s" "src_bytes s = be_enc n v @ rest" "LENGTH('w) \<le> 8 * n"
  shows "\<exists>s' bs. src_read s n = Some (Return (s', Some bs)) \<and> be_dec bs = v \<and> src_inv s' \<and>
    src_bytes s' = rest"
  using read_prefix [OF assms(1,2)] be_dec_enc [OF assms(3), of v] by auto

end

text \<open>
  A received message is one segment that shadows the memory it was read into: the source is a
  slice on a buffer \<open>b\<close> with a single segment.
\<close>

definition one_seg :: "rd_buf \<Rightarrow> rd_slice \<Rightarrow> bool" where
  "one_seg b sl \<longleftrightarrow> slice_inv sl \<and> sl_buf sl = b \<and> length (rbuf_segments b) = 1"

interpretation rs: byte_source "one_seg b" slice_bytes rd_slice_read for b
proof
  show "\<exists>sl'. rd_slice_read sl n = Some (Return (sl', Some (take n (slice_bytes sl)))) \<and>
      one_seg b sl' \<and> slice_bytes sl' = drop n (slice_bytes sl)"
    if "one_seg b sl" "n \<le> length (slice_bytes sl)" for sl n
    using rd_slice_read_spec [of sl n] that by (auto simp: one_seg_def slice_window_def)
  show "rd_slice_read sl n = Some (Return (sl, None))"
    if "one_seg b sl" "length (slice_bytes sl) < n" for sl n
    using rd_slice_read_short [of sl n] that by (simp add: one_seg_def)
qed

lemma one_seg_contig:
  assumes inv: "one_seg b sl" and bytes: "slice_bytes sl = xs @ rest"
  shows "\<exists>sl' q. rd_slice_ensure_contig sl (length xs) = Some (Return (sl', Some q)) \<and>
    rd_mem b (Some q) (length xs) = xs \<and> one_seg b sl' \<and> slice_bytes sl' = rest"
proof -
  have sl: "slice_inv sl" "sl_buf sl = b" and "length (rbuf_segments b) = 1"
    using inv by (simp_all add: one_seg_def)
  then obtain s where s: "rbuf_segments b = [s]" by (cases "rbuf_segments b") auto
  obtain pre t post where at: "rbuf_segments (sl_buf sl) = pre @ t # post"
    "sl_seg sl = Some (length pre)" "sl_rof sl \<le> seg_of t"
    "rd_slice_abs_offset sl = sum_list (map seg_of pre) + sl_rof sl"
    using slice_inv_cases [OF sl(1)] by metis
  then have pre: "pre = []" "t = s" "post = []" using s sl(2) by (auto simp: Cons_eq_append_conv)
  have len: "sl_end sl \<le> seg_of s" "sl_end sl < SIZE_MOD" "sl_rof sl \<le> sl_end sl"
    "length (slice_bytes sl) = sl_end sl - sl_rof sl"
    using sl s slice_remains_eq [OF sl(1)] at(4) pre
    by (auto simp: slice_inv_def buf_inv_def buf_lay_def)
  have "length xs \<le> length (slice_bytes sl)" using bytes by simp
  then have fits: "rd_slice_remains sl = length (slice_bytes sl)" "sl_rof sl + length xs \<le> seg_of s"
    "sl_rof sl + length xs < SIZE_MOD"
    using slice_remains_eq(2) [OF sl(1)] len by linarith+
  obtain sl' where r: "rd_slice_read sl (length xs) = Some (Return (sl', Some xs))" "one_seg b sl'"
    "slice_bytes sl' = rest" using rs.read_prefix [OF inv bytes] by blast
  obtain sl'' p where c: "rd_slice_ensure_contig sl (length xs) = Some (Return (sl'', p))"
    "case p of
       None \<Rightarrow> sl'' = sl \<and> (length (slice_bytes sl) < length xs \<or>
         (\<exists>i. sl_seg sl = Some i \<and> seg_of (sl_segment sl i) < sl_rof sl + length xs))
     | Some q \<Rightarrow> length xs \<le> length (slice_bytes sl) \<and>
         rd_mem (sl_buf sl) (Some q) (length xs) = take (length xs) (slice_bytes sl) \<and>
         slice_inv sl'' \<and> slice_bytes sl'' = drop (length xs) (slice_bytes sl)"
    using rd_slice_ensure_contig_spec [OF sl(1), of "length xs"] fits(3) by auto
  have "p \<noteq> None" using c(2) bytes fits(2) at(2) pre s sl(2) by (auto split: option.splits)
  then obtain q where q: "p = Some q" by blast
  have "sl'' = sl'"
    using c(1) q r(1) fits at(2) pre s sl(2) by (simp add: rd_slice_ensure_contig_def bytes)
  then show ?thesis using c q r bytes sl(2) by auto
qed

section \<open>Reading primitives\<close>

text \<open>
  A protocol buffer that reads a received message held by \<open>b\<close>, with the bytes \<open>rest\<close> still to
  be read.
\<close>

definition rk_at :: "rd_buf \<Rightarrow> rd_kafka_buf \<Rightarrow> byte list \<Rightarrow> bool" where
  "rk_at b r rest \<longleftrightarrow> one_seg b (rkbuf_reader r) \<and> slice_bytes (rkbuf_reader r) = rest"

definition rk_reads :: "rd_buf \<Rightarrow> 'a rkread \<Rightarrow> 'a \<Rightarrow> byte list \<Rightarrow> bool" where
  "rk_reads b m x rest \<longleftrightarrow> (\<exists>r. m = rk_return r x \<and> rk_at b r rest)"

lemma rk_readsI: "m = rk_return r x \<Longrightarrow> rk_at b r rest \<Longrightarrow> rk_reads b m x rest"
  by (auto simp: rk_reads_def)

lemma rk_bind_return [simp]: "rk_bind (rk_return r x) f = f r x"
  by (simp add: rk_bind_def rk_return_def)

lemma rk_reads_bind:
  assumes "rk_reads b m x rest" "\<And>r. rk_at b r rest \<Longrightarrow> rk_reads b (f r x) y rest'"
  shows "rk_reads b (rk_bind m f) y rest'"
  using assms by (auto simp: rk_reads_def [of b m x rest])

lemma rk_reads_return: "rk_at b r rest \<Longrightarrow> rk_reads b (rk_return r x) x rest"
  by (auto simp: rk_reads_def)

lemma rk_read_bytes:
  assumes "rk_at b r (xs @ rest)"
  shows "rk_reads b (rd_kafka_buf_read r (length xs)) xs rest"
proof -
  obtain sl where "rd_slice_read (rkbuf_reader r) (length xs) = Some (Return (sl, Some xs))"
    "one_seg b sl" "slice_bytes sl = rest"
    using rs.read_prefix [of b "rkbuf_reader r" xs rest] assms by (auto simp: rk_at_def)
  then show ?thesis
    by (intro rk_readsI [of _ "r\<lparr>rkbuf_reader := sl\<rparr>"])
      (simp_all add: rd_kafka_buf_read_def rk_at_def)
qed

lemma rk_read_underflow:
  assumes "rk_at b r rest" "length rest < n"
  shows "rd_kafka_buf_read r n = rd_kafka_buf_underflow_fail r"
proof -
  have inv: "one_seg b (rkbuf_reader r)" "slice_bytes (rkbuf_reader r) = rest"
    using assms(1) by (simp_all add: rk_at_def)
  have "rd_slice_read (rkbuf_reader r) n = Some (Return (rkbuf_reader r, None))"
    using rs.short_law [OF inv(1)] inv(2) assms(2) by simp
  moreover have "rd_slice_remains (rkbuf_reader r) = length rest"
    using slice_remains_eq(2) [of "rkbuf_reader r"] inv by (simp add: one_seg_def)
  ultimately show ?thesis using assms(2)
    by (simp add: rd_kafka_buf_read_def rd_kafka_buf_check_len_def rd_kafka_buf_read_remain_def
        rd_kafka_buf_underflow_fail_def rk_bind_def)
qed

lemma rk_read_word:
  fixes v :: "'w::len word"
  assumes "rk_at b r (be_enc n v @ rest)" "LENGTH('w) \<le> 8 * n"
  shows "rk_reads b (rk_bind (rd_kafka_buf_read r n) (\<lambda>b v. rk_return b (be_dec v))) v rest"
  by (rule rk_reads_bind [OF rk_read_bytes [OF assms(1), unfolded length_be_enc]])
    (simp add: be_dec_enc [OF assms(2)] rk_reads_return)

lemma rk_read_ints:
  "rk_at b r (be_enc 8 v64 @ rest) \<Longrightarrow> rk_reads b (rd_kafka_buf_read_i64 r) v64 rest"
  "rk_at b r (be_enc 4 v32 @ rest) \<Longrightarrow> rk_reads b (rd_kafka_buf_read_i32 r) v32 rest"
  "rk_at b r (be_enc 2 v16 @ rest) \<Longrightarrow> rk_reads b (rd_kafka_buf_read_i16 r) v16 rest"
  "rk_at b r (be_enc 1 v8 @ rest) \<Longrightarrow> rk_reads b (rd_kafka_buf_read_i8 r) v8 rest"
  unfolding rd_kafka_buf_read_i64_def rd_kafka_buf_read_i32_def rd_kafka_buf_read_i16_def
    rd_kafka_buf_read_i8_def
  by (rule rk_read_word; simp)+

lemma rk_read_varint:
  assumes "rk_at b r (uvarint_bytes z @ rest)"
  shows "rk_reads b (rd_kafka_buf_read_varint r) (zigzag_dec z) rest"
proof -
  have at: "slice_inv (rkbuf_reader r)" "sl_buf (rkbuf_reader r) = b" "length (rbuf_segments b) = 1"
    "slice_bytes (rkbuf_reader r) = uvarint_bytes z @ rest"
    using assms by (simp_all add: rk_at_def one_seg_def)
  obtain sl where sl: "rd_varint_dec_slice (rkbuf_reader r) =
      Some (Return (sl, length (uvarint_bytes z), Some (zigzag_dec z)))" "slice_inv sl"
    "slice_bytes sl = rest" "slice_window sl = slice_window (rkbuf_reader r)"
    using rd_varint_dec_slice_bytes [OF at(1,4)] by blast
  then show ?thesis using at
    by (intro rk_readsI [of _ "r\<lparr>rkbuf_reader := sl\<rparr>"])
      (simp_all add: rd_kafka_buf_read_varint_def RD_UVARINT_UNDERFLOW_def rk_at_def one_seg_def
        slice_window_def)
qed

lemma rk_contig_bytes:
  assumes "rk_at b r (xs @ rest)"
  shows "\<exists>q. rd_mem b (Some q) (length xs) = xs \<and> rk_reads b (rk_contig r (length xs)) (Some q) rest"
proof -
  obtain sl q where "rd_slice_ensure_contig (rkbuf_reader r) (length xs) = Some (Return (sl, Some q))"
    "rd_mem b (Some q) (length xs) = xs" "one_seg b sl" "slice_bytes sl = rest"
    using one_seg_contig [of b "rkbuf_reader r" xs rest] assms by (auto simp: rk_at_def)
  then show ?thesis
    by (intro exI [of _ q] conjI rk_readsI [of _ "r\<lparr>rkbuf_reader := sl\<rparr>"])
      (simp_all add: rk_contig_def rk_at_def)
qed

text \<open>Lengths that fit their prefix.\<close>

lemma sint_u16: "0 \<le> n \<Longrightarrow> n < 2 ^ 15 \<Longrightarrow> sint (word_of_int n :: u16) = n"
  by (simp add: sint_word_ariths(1) signed_take_bit_int_eq_self sint_sbintrunc')

lemma sint_u32: "0 \<le> n \<Longrightarrow> n < 2 ^ 31 \<Longrightarrow> sint (word_of_int n :: u32) = n"
  by (simp add: signed_take_bit_int_eq_self sint_sbintrunc')

lemma to_size_nat [simp]: "n < SIZE_MOD \<Longrightarrow> to_size (int n) = n"
  by (simp add: to_size_def)

end
