(* ===== verification/Kbuf_Fields.thy ===== *)
theory Kbuf_Fields
  imports Kbuf_Proofs
begin

text \<open>
  Messages as sequences of protocol fields. A request is a sequence of write calls and its
  response parser a sequence of read calls; here both are driven by a list of fields, so that
  the round trip and the handling of cut-off messages are proved once for every message
  layout. On top of it, the framing of a request: the header that \<open>rd_kafka_buf_new_request\<close>
  writes and \<open>rd_kafka_buf_finalize\<close> completes.
\<close>

section \<open>Fields\<close>

datatype kfield =
    F_i8 u8 | F_i16 u16 | F_i32 u32 | F_i64 u64 | F_varint u64
  | F_str "byte list option" | F_bytes "byte list option"

datatype kkind = K_i8 | K_i16 | K_i32 | K_i64 | K_varint | K_str | K_bytes

fun field_kind :: "kfield \<Rightarrow> kkind" where
  "field_kind (F_i8 _) = K_i8"
| "field_kind (F_i16 _) = K_i16"
| "field_kind (F_i32 _) = K_i32"
| "field_kind (F_i64 _) = K_i64"
| "field_kind (F_varint _) = K_varint"
| "field_kind (F_str _) = K_str"
| "field_kind (F_bytes _) = K_bytes"

text \<open>The call that writes a field; \<open>varint\<close> is the encoder's array on the stack.\<close>

fun write_field :: "byte list \<Rightarrow> rd_kafka_buf \<Rightarrow> kfield \<Rightarrow> rkwrite" where
  "write_field varint b (F_i8 v) = rd_kafka_buf_write_i8 b v"
| "write_field varint b (F_i16 v) = rd_kafka_buf_write_i16 b v"
| "write_field varint b (F_i32 v) = rd_kafka_buf_write_i32 b v"
| "write_field varint b (F_i64 v) = rd_kafka_buf_write_i64 b v"
| "write_field varint b (F_varint v) = rd_kafka_buf_write_varint varint b v"
| "write_field varint b (F_str s) = rd_kafka_buf_write_str b s (length (the s))"
| "write_field varint b (F_bytes s) = rd_kafka_buf_write_bytes b s (length (the s))"

fun write_fields :: "byte list \<Rightarrow> rd_kafka_buf \<Rightarrow> kfield list \<Rightarrow> rd_kafka_buf outcome option" where
  "write_fields varint b [] = Some (Return b)"
| "write_fields varint b (f # fs) = xbind (write_field varint b f) (\<lambda>(b1, _). write_fields varint b1 fs)"

text \<open>The call that reads a field, and the bytes its result points to.\<close>

fun read_field :: "rd_kafka_buf \<Rightarrow> kkind \<Rightarrow> kfield rkread" where
  "read_field r K_i8 = rk_bind (rd_kafka_buf_read_i8 r) (\<lambda>r1 v. rk_return r1 (F_i8 v))"
| "read_field r K_i16 = rk_bind (rd_kafka_buf_read_i16 r) (\<lambda>r1 v. rk_return r1 (F_i16 v))"
| "read_field r K_i32 = rk_bind (rd_kafka_buf_read_i32 r) (\<lambda>r1 v. rk_return r1 (F_i32 v))"
| "read_field r K_i64 = rk_bind (rd_kafka_buf_read_i64 r) (\<lambda>r1 v. rk_return r1 (F_i64 v))"
| "read_field r K_varint = rk_bind (rd_kafka_buf_read_varint r) (\<lambda>r1 v. rk_return r1 (F_varint v))"
| "read_field r K_str = rk_bind (rd_kafka_buf_read_str r) (\<lambda>r1 (len, p).
     rk_return r1 (F_str (if RD_KAFKAP_STR_IS_NULL len then None
                          else Some (rd_mem (sl_buf (rkbuf_reader r1)) p (nat len)))))"
| "read_field r K_bytes = rk_bind (rd_kafka_buf_read_bytes r) (\<lambda>r1 (len, d).
     rk_return r1 (F_bytes (case d of
         KB_Null \<Rightarrow> None
       | KB_Empty \<Rightarrow> Some []
       | KB_Ptr p \<Rightarrow> Some (rd_mem (sl_buf (rkbuf_reader r1)) p (nat len)))))"

fun read_fields :: "rd_kafka_buf \<Rightarrow> kkind list \<Rightarrow> kfield list rkread" where
  "read_fields r [] = rk_return r []"
| "read_fields r (k # ks) = rk_bind (read_field r k) (\<lambda>r1 f.
     rk_bind (read_fields r1 ks) (\<lambda>r2 fs. rk_return r2 (f # fs)))"

text \<open>The wire format: what a field looks like in a message, and which values have one.\<close>

fun field_enc :: "kfield \<Rightarrow> byte list" where
  "field_enc (F_i8 v) = be_enc 1 v"
| "field_enc (F_i16 v) = be_enc 2 v"
| "field_enc (F_i32 v) = be_enc 4 v"
| "field_enc (F_i64 v) = be_enc 8 v"
| "field_enc (F_varint v) = uvarint_bytes (push_bit 1 v XOR signed_drop_bit 63 v)"
| "field_enc (F_str None) = be_enc 2 (- 1 :: u16)"
| "field_enc (F_str (Some s)) = be_enc 2 (of_nat (length s) :: u16) @ s"
| "field_enc (F_bytes None) = be_enc 4 (- 1 :: u32)"
| "field_enc (F_bytes (Some s)) = be_enc 4 (of_nat (length s) :: u32) @ s"

fun field_ok :: "kfield \<Rightarrow> bool" where
  "field_ok (F_str (Some s)) \<longleftrightarrow> length s < 2 ^ 15"
| "field_ok (F_bytes (Some s)) \<longleftrightarrow> length s < 2 ^ 31"
| "field_ok _ \<longleftrightarrow> True"

definition fields_enc :: "kfield list \<Rightarrow> byte list" where
  "fields_enc fs = concat (map field_enc fs)"

lemma fields_enc_simps [simp]:
  "fields_enc [] = []" "fields_enc (f # fs) = field_enc f @ fields_enc fs"
  by (simp_all add: fields_enc_def)

section \<open>Writing fields\<close>

lemma rk_write_ok:
  assumes "rk_winv b"
  obtains b' where "rd_kafka_buf_write b xs = Some (Return (b', length (rk_wbytes b)))" "rk_winv b'"
    "rk_wbytes b' = rk_wbytes b @ xs"
  using wk.write_law [OF assms, of xs] by blast

lemma varint_written:
  assumes "length varint = RD_UVARINT_ENC_SIZEOF 8"
  shows "rd_kafka_buf_write_varint varint b v = rd_kafka_buf_write b (field_enc (F_varint v))"
proof -
  define z where "z = push_bit 1 v XOR signed_drop_bit 63 v"
  have "rd_uvarint_enc_loop varint (RD_UVARINT_ENC_SIZEOF 8) z 0
      = Return (overwrite 0 (uvarint_bytes z) varint, length (uvarint_bytes z))"
    using rd_uvarint_enc_loop_fits [of 0 z "RD_UVARINT_ENC_SIZEOF 8" varint] uvarint_bytes_max [of z]
      assms by (simp add: RD_UVARINT_ENC_SIZEOF_def)
  then have "rd_uvarint_enc_i64 varint (RD_UVARINT_ENC_SIZEOF 8) v
      = Return (overwrite 0 (uvarint_bytes z) varint, length (uvarint_bytes z))"
    unfolding rd_uvarint_enc_i64_def rd_uvarint_enc_u64_def z_def .
  then show ?thesis
    unfolding rd_kafka_buf_write_varint_def field_enc.simps z_def [symmetric]
    by (simp add: overwrite_def)
qed

lemma minus_one_cut:
  "(18446744073709551615 :: u16) = - 1" "(18446744073709551615 :: u32) = - 1"
  by simp_all

lemma prefixed_written:
  assumes "rk_winv b"
  shows "\<exists>b'. xbind (rd_kafka_buf_write b pre) (\<lambda>(b1, r).
      xbind (rd_kafka_buf_write b1 xs) (\<lambda>(b2, _). Some (Return (b2, r))))
        = Some (Return (b', length (rk_wbytes b))) \<and> rk_winv b' \<and> rk_wbytes b' = rk_wbytes b @ pre @ xs"
proof -
  obtain b1 where b1: "rd_kafka_buf_write b pre = Some (Return (b1, length (rk_wbytes b)))" "rk_winv b1"
    "rk_wbytes b1 = rk_wbytes b @ pre" by (rule rk_write_ok [OF assms])
  obtain b2 where "rd_kafka_buf_write b1 xs = Some (Return (b2, length (rk_wbytes b1)))" "rk_winv b2"
    "rk_wbytes b2 = rk_wbytes b1 @ xs" by (rule rk_write_ok [OF b1(2)])
  then show ?thesis using b1 by auto
qed

lemma write_field_spec:
  assumes inv: "rk_winv b" and var: "length varint = RD_UVARINT_ENC_SIZEOF 8" and ok: "field_ok f"
  shows "\<exists>b'. write_field varint b f = Some (Return (b', length (rk_wbytes b))) \<and> rk_winv b' \<and>
    rk_wbytes b' = rk_wbytes b @ field_enc f"
proof (cases f)
  case (F_varint v)
  then show ?thesis using wk.write_law [OF inv] varint_written [OF var, of b v] by simp
next
  case (F_str s)
  show ?thesis
  proof (cases s)
    case None
    then show ?thesis using F_str wk.write_law [OF inv, of "be_enc 2 (- 1 :: u16)"]
      by (auto simp: rd_kafka_buf_write_str_def rd_kafka_buf_write_i16_def minus_one_cut)
  next
    case (Some xs)
    have "length xs \<noteq> SIZE_MOD - 1" using ok F_str Some by simp
    then show ?thesis
      using F_str Some prefixed_written [OF inv, of "be_enc 2 (of_nat (length xs) :: u16)" xs]
      by (simp add: rd_kafka_buf_write_str_def rd_kafka_buf_write_i16_def)
  qed
next
  case (F_bytes s)
  show ?thesis
  proof (cases s)
    case None
    then show ?thesis using F_bytes wk.write_law [OF inv, of "be_enc 4 (- 1 :: u32)"]
      by (auto simp: rd_kafka_buf_write_bytes_def rd_kafka_buf_write_i32_def minus_one_cut)
  next
    case (Some xs)
    then show ?thesis
      using F_bytes prefixed_written [OF inv, of "be_enc 4 (of_nat (length xs) :: u32)" xs]
      by (simp add: rd_kafka_buf_write_bytes_def rd_kafka_buf_write_i32_def)
  qed
qed (use wk.write_law [OF inv] in \<open>simp_all add: rd_kafka_buf_write_i8_def rd_kafka_buf_write_i16_def
  rd_kafka_buf_write_i32_def rd_kafka_buf_write_i64_def\<close>)

lemma write_fields_spec:
  assumes "length varint = RD_UVARINT_ENC_SIZEOF 8"
  shows "rk_winv b \<Longrightarrow> list_all field_ok fs \<Longrightarrow> \<exists>b'. write_fields varint b fs = Some (Return b') \<and>
    rk_winv b' \<and> rk_wbytes b' = rk_wbytes b @ fields_enc fs"
proof (induction fs arbitrary: b)
  case (Cons f fs)
  then obtain b1 where "write_field varint b f = Some (Return (b1, length (rk_wbytes b)))" "rk_winv b1"
    "rk_wbytes b1 = rk_wbytes b @ field_enc f"
    using write_field_spec [OF _ assms, of b f] by auto
  then show ?case using Cons.IH [of b1] Cons.prems(2) by auto
qed simp

section \<open>Reading fields\<close>

lemma rk_reads_return': "rk_at b r rest \<Longrightarrow> x = y \<Longrightarrow> rk_reads b (rk_return r x) y rest"
  using rk_reads_return by simp

lemma rk_at_buf: "rk_at b r rest \<Longrightarrow> sl_buf (rkbuf_reader r) = b"
  by (simp add: rk_at_def one_seg_def)

lemma sint_of_nat:
  "n < 2 ^ 15 \<Longrightarrow> sint (of_nat n :: u16) = int n" "n < 2 ^ 31 \<Longrightarrow> sint (of_nat n :: u32) = int n"
  using sint_u16 [of "int n"] sint_u32 [of "int n"] by simp_all

lemmas null_defs = RD_KAFKAP_STR_IS_NULL_def RD_KAFKAP_STR_LEN_NULL_def RD_KAFKAP_STR_LEN0_def
  RD_KAFKAP_BYTES_IS_NULL_def RD_KAFKAP_BYTES_LEN_NULL_def RD_KAFKAP_BYTES_LEN0_def

lemma rk_reads_map:
  "rk_reads b m x rest \<Longrightarrow> rk_reads b (rk_bind m (\<lambda>r p. rk_return r (f p))) (f x) rest"
  by (erule rk_reads_bind) (rule rk_reads_return)

lemma read_str_spec:
  assumes at: "rk_at b r (field_enc (F_str s) @ rest)" and ok: "field_ok (F_str s)"
  shows "rk_reads b (read_field r K_str) (F_str s) rest"
proof (cases s)
  case None
  then have "rk_reads b (rd_kafka_buf_read_i16 r) (- 1) rest" using at by (intro rk_read_ints) simp
  then have "rk_reads b (rd_kafka_buf_read_str r) (- 1, None) rest"
    unfolding rd_kafka_buf_read_str_def
    by (rule rk_reads_bind) (simp add: null_defs rk_reads_return)
  then show ?thesis unfolding read_field.simps
    by (rule rk_reads_bind) (simp add: null_defs rk_reads_return None)
next
  case (Some xs)
  have short: "length xs < 2 ^ 15" and size: "to_size (int (length xs)) = length xs"
    using ok Some by simp_all
  have "rk_reads b (rd_kafka_buf_read_i16 r) (of_nat (length xs)) (xs @ rest)"
    using at Some by (intro rk_read_ints) simp
  then obtain r1 where r1: "rd_kafka_buf_read_i16 r = rk_return r1 (of_nat (length xs))"
    "rk_at b r1 (xs @ rest)" by (auto simp: rk_reads_def)
  obtain q where q: "rd_mem b (Some q) (length xs) = xs"
    "rk_reads b (rk_contig r1 (length xs)) (Some q) rest"
    using rk_contig_bytes [OF r1(2)] by blast
  have "rk_reads b (rd_kafka_buf_read_str r) (int (length xs), Some q) rest"
    using rk_reads_map [OF q(2), of "Pair (int (length xs))"]
    by (simp add: rd_kafka_buf_read_str_def r1(1) null_defs sint_of_nat(1) [OF short] size Let_def)
  then show ?thesis unfolding read_field.simps
    by (rule rk_reads_bind) (simp add: null_defs rk_at_buf q(1) Some rk_reads_return)
qed

lemma read_bytes_spec:
  assumes at: "rk_at b r (field_enc (F_bytes s) @ rest)" and ok: "field_ok (F_bytes s)"
  shows "rk_reads b (read_field r K_bytes) (F_bytes s) rest"
proof (cases s)
  case None
  then have "rk_reads b (rd_kafka_buf_read_i32 r) (- 1) rest" using at by (intro rk_read_ints) simp
  then have "rk_reads b (rd_kafka_buf_read_bytes r) (0, KB_Null) rest"
    unfolding rd_kafka_buf_read_bytes_def
    by (rule rk_reads_bind) (simp add: read_bytes_body_def null_defs rk_reads_return)
  then show ?thesis unfolding read_field.simps
    by (rule rk_reads_bind) (simp add: rk_reads_return None)
next
  case (Some xs)
  have short: "length xs < 2 ^ 31" and size: "to_size (int (length xs)) = length xs"
    using ok Some by simp_all
  have "rk_reads b (rd_kafka_buf_read_i32 r) (of_nat (length xs)) (xs @ rest)"
    using at Some by (intro rk_read_ints) simp
  then obtain r1 where r1: "rd_kafka_buf_read_i32 r = rk_return r1 (of_nat (length xs))"
    "rk_at b r1 (xs @ rest)" by (auto simp: rk_reads_def)
  obtain q where q: "rd_mem b (Some q) (length xs) = xs"
    "rk_reads b (rk_contig r1 (length xs)) (Some q) rest"
    using rk_contig_bytes [OF r1(2)] by blast
  let ?d = "if xs = [] then KB_Empty else KB_Ptr (Some q)"
  have "rk_reads b (rd_kafka_buf_read_bytes r) (int (length xs), ?d) rest"
    using rk_reads_map [OF q(2), of "\<lambda>p. (int (length xs), KB_Ptr p)"] r1(2)
    by (auto simp: rd_kafka_buf_read_bytes_def r1(1) read_bytes_body_def null_defs
        sint_of_nat(2) [OF short] size rk_reads_return)
  then show ?thesis unfolding read_field.simps
    by (rule rk_reads_bind) (simp add: rk_at_buf q(1) Some rk_reads_return)
qed

lemma read_field_spec:
  assumes at: "rk_at b r (field_enc f @ rest)" and ok: "field_ok f"
  shows "rk_reads b (read_field r (field_kind f)) f rest"
proof (cases f)
  case (F_varint v)
  then have "rk_reads b (rd_kafka_buf_read_varint r) v rest"
    using rk_read_varint [of b r "push_bit 1 v XOR signed_drop_bit 63 v" rest] at
    by (simp only: field_enc.simps zigzag_dec_enc)
  then show ?thesis unfolding F_varint field_kind.simps read_field.simps
    by (rule rk_reads_map)
qed (use assms read_str_spec read_bytes_spec in
  \<open>auto intro!: rk_reads_bind [OF rk_read_ints(1)] rk_reads_bind [OF rk_read_ints(2)]
    rk_reads_bind [OF rk_read_ints(3)] rk_reads_bind [OF rk_read_ints(4)] rk_reads_return\<close>)

lemma read_fields_spec:
  "rk_at b r (fields_enc fs @ rest) \<Longrightarrow> list_all field_ok fs \<Longrightarrow>
   rk_reads b (read_fields r (map field_kind fs)) fs rest"
proof (induction fs arbitrary: r)
  case (Cons f fs)
  then have "rk_reads b (read_field r (field_kind f)) f (fields_enc fs @ rest)"
    by (intro read_field_spec) simp_all
  then show ?case unfolding list.map read_fields.simps
    by (rule rk_reads_bind) (use Cons in \<open>auto intro: rk_reads_bind rk_reads_return\<close>)
qed (simp add: rk_reads_return)

section \<open>Cut-off messages\<close>

definition rk_underflows :: "'a rkread \<Rightarrow> bool" where
  "rk_underflows m \<longleftrightarrow> (\<exists>r. m = Some (Return (r, Err_Parse)) \<and> rkbuf_err r = RK_UNDERFLOW)"

lemma rk_underflows_fail [simp]: "rk_underflows (rd_kafka_buf_underflow_fail r)"
  by (simp add: rk_underflows_def rd_kafka_buf_underflow_fail_def)

lemma rk_underflows_bind: "rk_underflows m \<Longrightarrow> rk_underflows (rk_bind m f)"
  by (auto simp: rk_underflows_def rk_bind_def)

lemma rk_read_short: "rk_at b r rest \<Longrightarrow> length rest < n \<Longrightarrow> rk_underflows (rd_kafka_buf_read r n)"
  by (simp add: rk_read_underflow)

lemma rk_contig_short:
  assumes at: "rk_at b r rest" and short: "length rest < n" and n: "n < SIZE_MOD"
  shows "rk_underflows (rk_contig r n)"
proof -
  have inv: "slice_inv (rkbuf_reader r)" "slice_bytes (rkbuf_reader r) = rest"
    using at by (simp_all add: rk_at_def one_seg_def)
  have rem: "rd_slice_remains (rkbuf_reader r) = length rest"
    using slice_remains_eq(2) [OF inv(1)] inv(2) by simp
  then have "rd_slice_ensure_contig (rkbuf_reader r) n = Some (Return (rkbuf_reader r, None))"
    using short by (simp add: rd_slice_ensure_contig_def)
  then show ?thesis using rem short
    by (simp add: rk_contig_def rd_kafka_buf_check_len_def rd_kafka_buf_read_remain_def
        rk_underflows_bind)
qed

lemma varint_loop_short:
  "slice_inv sl \<Longrightarrow> slice_bytes sl = take k (uvarint_bytes v) \<Longrightarrow> k < length (uvarint_bytes v) \<Longrightarrow>
   shift + 7 * k < 71 \<Longrightarrow> \<exists>sl'. rd_varint_dec_slice_loop sl num shift = Some (Return (sl', 0, None))"
proof (induction v arbitrary: sl num shift k rule: uvarint_bytes.induct)
  case (1 v)
  show ?case
  proof (cases k)
    case 0
    then have "rd_slice_read sl 1 = Some (Return (sl, None))"
      using rd_slice_read_short [OF "1.prems"(1), of 1] "1.prems"(2) by simp
    then show ?thesis by (subst rd_varint_dec_slice_loop.simps) simp
  next
    case (Suc j)
    then have big: "0x7f < v" using "1.prems"(3) by (auto simp: not_le [symmetric] uvarint_bytes_last)
    let ?b = "ucast (v AND 0x7f) OR 0x80 :: byte"
    obtain sl1 where r: "rd_slice_read sl 1 = Some (Return (sl1, Some [?b]))" "slice_inv sl1"
      "slice_bytes sl1 = take j (uvarint_bytes (drop_bit 7 v))"
      using read1_spec [OF "1.prems"(1)] "1.prems"(2) Suc uvarint_bytes_Cons [OF big] by auto
    have "\<exists>sl'. rd_varint_dec_slice_loop sl1 num' (shift + 7) = Some (Return (sl', 0, None))" for num'
      by (rule "1.IH" [OF _ r(2,3)]) (use "1.prems" Suc big in \<open>auto simp: uvarint_bytes_Cons [OF big]\<close>)
    then show ?thesis using r(1) "1.prems"(4) Suc
      by (subst rd_varint_dec_slice_loop.simps) (simp add: and_0x80_iff cont_byte_flag Let_def)
  qed
qed

lemma rk_varint_short:
  assumes at: "rk_at b r (take k (uvarint_bytes v))" and k: "k < length (uvarint_bytes v)"
  shows "rk_underflows (rd_kafka_buf_read_varint r)"
proof -
  have "\<exists>sl'. rd_varint_dec_slice (rkbuf_reader r) = Some (Return (sl', 0, None))"
    unfolding rd_varint_dec_slice_def
    by (rule varint_loop_short [of _ k v])
      (use at k uvarint_bytes_max [of v] in \<open>auto simp: rk_at_def one_seg_def\<close>)
  then show ?thesis by (auto simp: rd_kafka_buf_read_varint_def RD_UVARINT_UNDERFLOW_def)
qed

lemma rk_word_short:
  "rk_at b r rest \<Longrightarrow> length rest < 8 \<Longrightarrow> rk_underflows (rd_kafka_buf_read_i64 r)"
  "rk_at b r rest \<Longrightarrow> length rest < 4 \<Longrightarrow> rk_underflows (rd_kafka_buf_read_i32 r)"
  "rk_at b r rest \<Longrightarrow> length rest < 2 \<Longrightarrow> rk_underflows (rd_kafka_buf_read_i16 r)"
  "rk_at b r rest \<Longrightarrow> length rest < 1 \<Longrightarrow> rk_underflows (rd_kafka_buf_read_i8 r)"
  unfolding rd_kafka_buf_read_i64_def rd_kafka_buf_read_i32_def rd_kafka_buf_read_i16_def
    rd_kafka_buf_read_i8_def
  by (auto intro: rk_underflows_bind rk_read_short)

lemma rk_underflows_bind2:
  assumes "rk_reads b m x rest" "\<And>r. rk_at b r rest \<Longrightarrow> rk_underflows (f r x)"
  shows "rk_underflows (rk_bind m f)"
  using assms by (auto simp: rk_reads_def)

lemma read_str_short:
  assumes at: "rk_at b r (take k (field_enc (F_str s)))" and k: "k < length (field_enc (F_str s))"
    and ok: "field_ok (F_str s)"
  shows "rk_underflows (rd_kafka_buf_read_str r)"
proof (cases "k < 2")
  case True
  then show ?thesis unfolding rd_kafka_buf_read_str_def
    using rk_word_short(3) [OF at] by (simp add: rk_underflows_bind)
next
  case False
  then obtain xs where s: "s = Some xs" using k by (cases s) auto
  have short: "length xs < 2 ^ 15" and size: "to_size (int (length xs)) = length xs"
    using ok s by simp_all
  have "rk_reads b (rd_kafka_buf_read_i16 r) (of_nat (length xs)) (take (k - 2) xs)"
    by (rule rk_read_ints) (use at s False in simp)
  then show ?thesis unfolding rd_kafka_buf_read_str_def
    by (rule rk_underflows_bind2)
      (use k s size False short in \<open>auto simp: null_defs sint_of_nat(1) [OF short] Let_def
        intro!: rk_underflows_bind rk_contig_short\<close>)
qed

lemma read_bytes_short:
  assumes at: "rk_at b r (take k (field_enc (F_bytes s)))" and k: "k < length (field_enc (F_bytes s))"
    and ok: "field_ok (F_bytes s)"
  shows "rk_underflows (rd_kafka_buf_read_bytes r)"
proof (cases "k < 4")
  case True
  then show ?thesis unfolding rd_kafka_buf_read_bytes_def
    using rk_word_short(2) [OF at] by (simp add: rk_underflows_bind)
next
  case False
  then obtain xs where s: "s = Some xs" using k by (cases s) auto
  have short: "length xs < 2 ^ 31" and size: "to_size (int (length xs)) = length xs"
    using ok s by simp_all
  have "rk_reads b (rd_kafka_buf_read_i32 r) (of_nat (length xs)) (take (k - 4) xs)"
    by (rule rk_read_ints) (use at s False in simp)
  then show ?thesis unfolding rd_kafka_buf_read_bytes_def
    by (rule rk_underflows_bind2)
      (use k s size False short in \<open>auto simp: null_defs read_bytes_body_def sint_of_nat(2) [OF short]
        intro!: rk_underflows_bind rk_contig_short\<close>)
qed

lemma read_field_short:
  assumes at: "rk_at b r (take k (field_enc f))" and k: "k < length (field_enc f)" and ok: "field_ok f"
  shows "rk_underflows (read_field r (field_kind f))"
proof (cases f)
  case (F_varint v)
  then show ?thesis using rk_varint_short at k
    by (simp only: field_enc.simps field_kind.simps read_field.simps rk_underflows_bind)
qed (use assms rk_word_short [OF at] read_str_short read_bytes_short in \<open>auto intro: rk_underflows_bind\<close>)

lemma read_fields_short:
  "rk_at b r (take k (fields_enc fs)) \<Longrightarrow> k < length (fields_enc fs) \<Longrightarrow> list_all field_ok fs \<Longrightarrow>
   rk_underflows (read_fields r (map field_kind fs))"
proof (induction fs arbitrary: r k)
  case (Cons f fs)
  show ?case
  proof (cases "k < length (field_enc f)")
    case True
    then show ?thesis using read_field_short [of b r k f] Cons.prems by (simp add: rk_underflows_bind)
  next
    case False
    let ?rest = "take (k - length (field_enc f)) (fields_enc fs)"
    have "rk_reads b (read_field r (field_kind f)) f ?rest"
      by (rule read_field_spec) (use Cons.prems False in simp_all)
    then show ?thesis unfolding list.map read_fields.simps
      by (rule rk_underflows_bind2)
        (use Cons False in \<open>auto intro!: rk_underflows_bind\<close>)
  qed
qed simp

section \<open>Buffers that receive and buffers that are sent\<close>

lemma new_shadow_at:
  assumes mem: "mem \<noteq> []" "length mem < SIZE_MOD"
  shows "\<exists>r. rd_kafka_buf_new_shadow fill mem free_cb = Return r \<and> rk_at (rkbuf_buf r) r mem"
proof -
  obtain b where init: "rd_buf_init 1 0 fill = Return b" "rbuf_segments b = []" "rbuf_wpos b = None"
    by (simp add: rd_buf_init_def Let_def)
  note b = buf_init_inv [OF init(1)]
  have "\<exists>b1. rd_buf_push b mem free_cb = Return b1 \<and> length (rbuf_segments b1) = 1"
    using init(2,3) by (simp add: rd_buf_push_def rd_buf_append_segment_def Let_def
        rd_buf_alloc_segment0_def extra_alloc_def)
  then obtain b1 where push: "rd_buf_push b mem free_cb = Return b1" "buf_inv b1" "buf_bytes b1 = mem"
    and one: "length (rbuf_segments b1) = 1"
    using rd_buf_push_spec [of b mem free_cb] b by auto
  have len: "rbuf_len b1 = length mem" using buf_inv_length [OF push(2)] push(3) by simp
  obtain sl where "rd_slice_init_full b1 = Return sl" "slice_inv sl" "slice_bytes sl = mem"
    "sl_buf sl = b1"
    using rd_slice_init_full_spec [OF push(2)] mem len push(3) by (auto simp: slice_window_def)
  then show ?thesis using init(1) push(1) one
    by (simp add: rd_kafka_buf_new_shadow_def zero_rkbuf_def rk_at_def one_seg_def)
qed

lemma new0_winv:
  assumes "0 < segcnt"
  obtains b where "rd_kafka_buf_new0 fill segcnt sz crc = Return b" "rk_winv b" "rk_wbytes b = []"
    "rkbuf_f_crc b = crc"
proof -
  obtain b where init: "rd_buf_init segcnt sz fill = Return b"
    using assms by (simp add: rd_buf_init_def Let_def)
  show ?thesis
    by (rule that [of "(zero_rkbuf b)\<lparr>rkbuf_f_crc := crc\<rparr>"])
      (use init buf_init_inv [OF init] in
        \<open>simp_all add: rd_kafka_buf_new0_def rk_winv_def rk_wbytes_def zero_rkbuf_def\<close>)
qed

lemma rk_at_remain: "rk_at b r rest \<Longrightarrow> rd_kafka_buf_read_remain r = length rest"
  using slice_remains_eq(2) [of "rkbuf_reader r"]
  by (simp add: rk_at_def one_seg_def rd_kafka_buf_read_remain_def)

section \<open>Properties of messages\<close>

text \<open>
  C8. Whatever protocol fields are written to a new buffer, in any order and over however many
  segments, are read back unchanged from a received copy of its bytes by the read calls of the
  same kinds: integers of all widths, varints, strings and byte arrays with their NULL and empty
  values. Nothing is left to read afterwards.
\<close>

theorem fields_roundtrip:
  assumes "length varint = RD_UVARINT_ENC_SIZEOF 8" "list_all field_ok fs" "0 < segcnt"
    and "fields_enc fs \<noteq> []" "length (fields_enc fs) < SIZE_MOD"
  shows "\<exists>b0 b r0 r. rd_kafka_buf_new0 fill segcnt sz False = Return b0 \<and>
    write_fields varint b0 fs = Some (Return b) \<and>
    rd_kafka_buf_new_shadow fill' (rk_wbytes b) free_cb = Return r0 \<and>
    read_fields r0 (map field_kind fs) = rk_return r fs \<and> rd_kafka_buf_read_remain r = 0"
proof -
  obtain b0 where b0: "rd_kafka_buf_new0 fill segcnt sz False = Return b0" "rk_winv b0"
    "rk_wbytes b0 = []" by (rule new0_winv [OF assms(3)])
  obtain b where b: "write_fields varint b0 fs = Some (Return b)" "rk_wbytes b = fields_enc fs"
    using write_fields_spec [OF assms(1) b0(2) assms(2)] b0(3) by auto
  obtain r0 where r0: "rd_kafka_buf_new_shadow fill' (rk_wbytes b) free_cb = Return r0"
    "rk_at (rkbuf_buf r0) r0 (fields_enc fs @ [])" using new_shadow_at [of "rk_wbytes b" fill' free_cb] assms(4,5) b(2) by auto
  obtain r where "read_fields r0 (map field_kind fs) = rk_return r fs" "rk_at (rkbuf_buf r0) r []"
    using read_fields_spec [OF r0(2) assms(2)] by (auto simp: rk_reads_def)
  then show ?thesis using b0(1) b(1) r0(1) rk_at_remain by fastforce
qed

theorem fields_roundtrip_witness:
  "\<exists>b0 b r0 r. rd_kafka_buf_new0 (\<lambda>_. 0) 1 16 False = Return b0 \<and>
    write_fields (replicate 10 0) b0 [F_i16 7, F_str (Some [104, 105]), F_bytes None] = Some (Return b) \<and>
    rd_kafka_buf_new_shadow (\<lambda>_. 0) (rk_wbytes b) None = Return r0 \<and>
    read_fields r0 [K_i16, K_str, K_bytes]
      = rk_return r [F_i16 7, F_str (Some [104, 105]), F_bytes None] \<and> rd_kafka_buf_read_remain r = 0"
  using fields_roundtrip [of "replicate 10 0" "[F_i16 7, F_str (Some [104, 105]), F_bytes None]" 1
      "\<lambda>_. 0" 16 "\<lambda>_. 0" None]
  by (simp add: RD_UVARINT_ENC_SIZEOF_def)

text \<open>
  C29. A message that was cut off anywhere is detected: reading its fields from a proper prefix
  neither reads past the end nor returns values for the missing fields, but stops with the
  error UNDERFLOW.
\<close>

theorem fields_cut_off:
  assumes "list_all field_ok fs" "0 < k" "k < length (fields_enc fs)" "k < SIZE_MOD"
  shows "\<exists>r0 r. rd_kafka_buf_new_shadow fill (take k (fields_enc fs)) free_cb = Return r0 \<and>
    read_fields r0 (map field_kind fs) = Some (Return (r, Err_Parse)) \<and> rkbuf_err r = RK_UNDERFLOW"
proof -
  have "fields_enc fs \<noteq> []" using assms(3) by auto
  then obtain r0 where r0: "rd_kafka_buf_new_shadow fill (take k (fields_enc fs)) free_cb = Return r0"
    "rk_at (rkbuf_buf r0) r0 (take k (fields_enc fs))"
    using new_shadow_at [of "take k (fields_enc fs)" fill free_cb] assms(2-4) by auto
  then show ?thesis using read_fields_short [OF r0(2) assms(3,1)] by (auto simp: rk_underflows_def)
qed

theorem fields_cut_off_witness:
  "\<exists>r0 r. rd_kafka_buf_new_shadow (\<lambda>_. 0) [0, 2, 104] None = Return r0 \<and>
    read_fields r0 [K_str] = Some (Return (r, Err_Parse)) \<and> rkbuf_err r = RK_UNDERFLOW"
proof -
  have enc: "fields_enc [F_str (Some [104, 105])] = [0, 2, 104, 105]"
    by code_simp
  show ?thesis using fields_cut_off [of "[F_str (Some [104, 105])]" 3 "\<lambda>_. 0" None] unfolding enc
    by simp
qed

section \<open>The request header\<close>

lemma rk_write_crc_flag:
  "rd_kafka_buf_write b xs = Some (Return (b', n)) \<Longrightarrow> rkbuf_f_crc b' = rkbuf_f_crc b"
  by (cases "rkbuf_f_crc b") (auto simp: rd_kafka_buf_write_def xbind_eq_Return)

lemma write_fields_crc_flag:
  assumes "length varint = RD_UVARINT_ENC_SIZEOF 8"
  shows "write_fields varint b fs = Some (Return b') \<Longrightarrow> rkbuf_f_crc b' = rkbuf_f_crc b"
proof (induction fs arbitrary: b)
  case (Cons f fs)
  then obtain b1 n where b1: "write_field varint b f = Some (Return (b1, n))"
    "write_fields varint b1 fs = Some (Return b')" by (auto simp: xbind_eq_Return)
  have "rkbuf_f_crc b1 = rkbuf_f_crc b"
    using b1(1) varint_written [OF assms]
    by (cases f) (auto simp: rd_kafka_buf_write_i8_def rd_kafka_buf_write_i16_def
      rd_kafka_buf_write_i32_def rd_kafka_buf_write_i64_def rd_kafka_buf_write_str_def
      rd_kafka_buf_write_bytes_def xbind_eq_Return Let_def dest!: rk_write_crc_flag
      split: option.splits if_splits)
  then show ?case using Cons.IH [OF b1(2)] by simp
qed simp

lemma rk_update_ok:
  assumes "rk_winv b" "\<not> rkbuf_f_crc b" "off + length xs \<le> length (rk_wbytes b)" "xs \<noteq> []"
  shows "\<exists>b'. rd_kafka_buf_update b off xs = Return b' \<and> rk_winv b' \<and> \<not> rkbuf_f_crc b' \<and>
    rkbuf_ApiVersion b' = rkbuf_ApiVersion b \<and> rk_wbytes b' = overwrite off xs (rk_wbytes b)"
proof -
  have "buf_inv (rkbuf_buf b)" "length (rk_wbytes b) = rbuf_len (rkbuf_buf b)"
    using assms(1) buf_inv_length by (auto simp: rk_winv_def rk_wbytes_def)
  then have "\<exists>b'. rd_buf_write_update (rkbuf_buf b) off xs = Return (b', length xs) \<and> buf_inv b' \<and>
      buf_bytes b' = overwrite off xs (rk_wbytes b)"
    using rd_buf_write_update_spec [of "rkbuf_buf b" off xs] assms(3,4)
    by (cases xs) (auto simp: rk_wbytes_def)
  then show ?thesis using assms(2)
    by (auto simp: rd_kafka_buf_update_def rk_winv_def rk_wbytes_def)
qed

lemma overwrite_field:
  "length pre = i \<Longrightarrow> length ys = length xs \<Longrightarrow> overwrite i xs (pre @ ys @ post) = pre @ xs @ post"
  by (auto simp: overwrite_def)

lemma kstr_ser:
  assumes "rd_kafkap_str_new str len = Return k" "ks_len k < 2 ^ 15"
  shows "take (nat (RD_KAFKAP_STR_SIZE0 (ks_len k))) (kser k) = field_enc (F_str (ks_str k))"
    "field_ok (F_str (ks_str k))"
  using assms
  by (auto simp: rd_kafkap_str_new_def Let_def RD_KAFKAP_STR_SIZE0_def null_defs nat_add_distrib
      split: option.splits if_splits)

definition request_header :: "nat \<Rightarrow> int \<Rightarrow> int \<Rightarrow> u32 \<Rightarrow> rd_kafkap_str \<Rightarrow> kfield list" where
  "request_header len ApiKey ApiVersion corrid client_id =
     [F_i32 (of_nat len), F_i16 (word_of_int ApiKey), F_i16 (word_of_int ApiVersion), F_i32 corrid,
      F_str (ks_str client_id)]"

lemma new_request_bytes:
  assumes k: "rd_kafkap_str_new str len = Return k" "ks_len k < 2 ^ 15"
  shows "\<exists>b. rd_kafka_buf_new_request fill k tmo ApiKey segcnt sz = Some (Return b) \<and> rk_winv b \<and>
    \<not> rkbuf_f_crc b \<and> rk_wbytes b = fields_enc (request_header 0 ApiKey 0 0 k)"
proof -
  define tot where "tot = sz + RD_KAFKAP_REQHDR_SIZE + nat (RD_KAFKAP_STR_SIZE0 (ks_len k))"
  obtain b where b: "rd_kafka_buf_new0 fill (segcnt + 1) tot False = Return b" "rk_winv b"
    "rk_wbytes b = []" "\<not> rkbuf_f_crc b" using new0_winv [of "segcnt + 1" fill tot False] by auto
  define b0 where "b0 = b\<lparr>rkbuf_rel_timeout := tmo, rkbuf_ApiKey := ApiKey\<rparr>"
  have b0: "rk_winv b0" "rk_wbytes b0 = []" "\<not> rkbuf_f_crc b0"
    using b(2-4) by (simp_all add: b0_def rk_winv_def rk_wbytes_def)
  let ?hdr = "[be_enc 4 (0 :: u32), be_enc 2 (word_of_int ApiKey :: u16), be_enc 2 (0 :: u16),
    be_enc 4 (0 :: u32), field_enc (F_str (ks_str k))]"
  obtain b5 where b5: "write_all rd_kafka_buf_write b0 ?hdr = Some (Return b5)" "rk_winv b5"
    "rk_wbytes b5 = concat ?hdr" using wk.write_all_spec [OF b0(1), of ?hdr] b0(2) by auto
  then have "rd_kafka_buf_new_request fill k tmo ApiKey segcnt sz = Some (Return b5)"
    using b(1) by (simp add: rd_kafka_buf_new_request_def tot_def [symmetric] b0_def [symmetric]
        rd_kafka_buf_write_i32_def rd_kafka_buf_write_i16_def rd_kafka_buf_write_kstr_def
        kstr_ser(1) [OF k])
  moreover have "\<not> rkbuf_f_crc b5"
    using b5(1) b0(3) by (auto simp: xbind_eq_Return dest!: rk_write_crc_flag)
  ultimately show ?thesis using b5(2,3) by (auto simp: request_header_def)
qed

lemma finalize_bytes:
  assumes b: "rk_winv b" "\<not> rkbuf_f_crc b" "rk_wbytes b = be_enc 4 x @ be_enc 2 y @ be_enc 2 z @ rest"
    and len: "length (rk_wbytes b) < SIZE_MOD" "length (rk_wbytes b) - 4 \<le> max_msg_size"
  shows "\<exists>b2. rd_kafka_buf_finalize max_msg_size b = Return b2 \<and> rk_winv b2 \<and> \<not> rkbuf_f_crc b2 \<and>
    rk_wbytes b2 = be_enc 4 (of_nat (length (rk_wbytes b) - 4) :: u32) @ be_enc 2 y @
      be_enc 2 (word_of_int (rkbuf_ApiVersion b) :: u16) @ rest"
proof -
  let ?n = "of_nat (length (rk_wbytes b) - 4) :: u32" and ?v = "word_of_int (rkbuf_ApiVersion b) :: u16"
  have inv: "buf_inv (rkbuf_buf b)" using b(1) by (simp add: rk_winv_def)
  have blen: "rbuf_len (rkbuf_buf b) = length (rk_wbytes b)"
    using buf_inv_length [OF inv] by (simp add: rk_wbytes_def)
  then have tot: "size_sub (rbuf_len (rkbuf_buf b)) 4 = length (rk_wbytes b) - 4"
    using len(1) b(3) by simp
  obtain sl where sl: "rd_slice_init_full (rkbuf_buf b) = Return sl"
    using rd_slice_init_full_spec [OF inv] blen len(1) b(3) by auto
  define b0 where "b0 = b\<lparr>rkbuf_reader := sl\<rparr>"
  have b0: "rk_winv b0" "\<not> rkbuf_f_crc b0" "rk_wbytes b0 = rk_wbytes b" "rkbuf_ApiVersion b0 = rkbuf_ApiVersion b"
    using b(1,2) by (simp_all add: b0_def rk_winv_def rk_wbytes_def)
  obtain b1 where b1: "rd_kafka_buf_update_i32 b0 0 ?n = Return b1" "rk_winv b1" "\<not> rkbuf_f_crc b1"
    "rkbuf_ApiVersion b1 = rkbuf_ApiVersion b"
    "rk_wbytes b1 = be_enc 4 ?n @ be_enc 2 y @ be_enc 2 z @ rest"
    using rk_update_ok [OF b0(1,2), of 0 "be_enc 4 ?n"] b(3) b0(3,4)
      overwrite_field [of "[]" 0 "be_enc 4 x" "be_enc 4 ?n" "be_enc 2 y @ be_enc 2 z @ rest"]
    by (auto simp: rd_kafka_buf_update_i32_def simp flip: length_greater_0_conv)
  obtain b2 where b2: "rd_kafka_buf_update_i16 b1 6 ?v = Return b2" "rk_winv b2" "\<not> rkbuf_f_crc b2"
    "rk_wbytes b2 = be_enc 4 ?n @ be_enc 2 y @ be_enc 2 ?v @ rest"
    using rk_update_ok [OF b1(2,3), of 6 "be_enc 2 ?v"] b1(5)
      overwrite_field [of "be_enc 4 ?n @ be_enc 2 y" 6 "be_enc 2 z" "be_enc 2 ?v" rest]
    by (auto simp: rd_kafka_buf_update_i16_def simp flip: length_greater_0_conv)
  show ?thesis
    by (rule exI [of _ b2]) (use b1(1) b2 tot sl len(2) in \<open>simp add: rd_kafka_buf_finalize_def b0_def\<close>)
qed

text \<open>
  C7. A request is framed correctly: after \<open>rd_kafka_buf_new_request\<close>, any writes of the request
  body, \<open>rd_kafka_buf_finalize\<close> and the assignment of a correlation id, the bytes on the wire
  parse as the total length of what follows the length field, the API key, the API version that
  was set, the correlation id, the client id and then the body.
\<close>

theorem request_framing:
  assumes k: "rd_kafkap_str_new str len = Return k" "ks_len k < 2 ^ 15"
    and body: "length varint = RD_UVARINT_ENC_SIZEOF 8" "list_all field_ok fs"
    and n: "n = length (fields_enc (request_header 0 ApiKey 0 0 k @ fs)) - 4" "n \<le> max_msg_size"
      "n + 4 < SIZE_MOD"
  shows "\<exists>b0 b1 b2 b3 r0 r. rd_kafka_buf_new_request fill k tmo ApiKey segcnt sz = Some (Return b0) \<and>
    write_fields varint b0 fs = Some (Return b1) \<and>
    rd_kafka_buf_finalize max_msg_size (rd_kafka_buf_ApiVersion_set b1 ver feat) = Return b2 \<and>
    rd_kafka_buf_update_i32 b2 (4 + 2 + 2) corrid = Return b3 \<and>
    rd_kafka_buf_new_shadow fill' (rk_wbytes b3) free_cb = Return r0 \<and>
    read_fields r0 ([K_i32, K_i16, K_i16, K_i32, K_str] @ map field_kind fs)
      = rk_return r (request_header n ApiKey ver corrid k @ fs) \<and> rd_kafka_buf_read_remain r = 0"
proof -
  obtain b0 where b0: "rd_kafka_buf_new_request fill k tmo ApiKey segcnt sz = Some (Return b0)"
    "rk_winv b0" "\<not> rkbuf_f_crc b0" "rk_wbytes b0 = fields_enc (request_header 0 ApiKey 0 0 k)"
    using new_request_bytes [OF k] by blast
  obtain b1 where b1: "write_fields varint b0 fs = Some (Return b1)" "rk_winv b1"
    "rk_wbytes b1 = fields_enc (request_header 0 ApiKey 0 0 k @ fs)"
    using write_fields_spec [OF body(1) b0(2) body(2)] b0(4) by (auto simp: fields_enc_def)
  define b1' where "b1' = rd_kafka_buf_ApiVersion_set b1 ver feat"
  have b1': "rk_winv b1'" "\<not> rkbuf_f_crc b1'" "rk_wbytes b1' = rk_wbytes b1" "rkbuf_ApiVersion b1' = ver"
    using b1(2) write_fields_crc_flag [OF body(1) b1(1)] b0(3)
    by (simp_all add: b1'_def rd_kafka_buf_ApiVersion_set_def rk_winv_def rk_wbytes_def)
  let ?key = "word_of_int ApiKey :: u16" and ?ver = "word_of_int ver :: u16"
  let ?rest = "field_enc (F_str (ks_str k)) @ fields_enc fs"
  have bytes: "rk_wbytes b1' = be_enc 4 (0 :: u32) @ be_enc 2 ?key @ be_enc 2 (0 :: u16) @
      be_enc 4 (0 :: u32) @ ?rest"
    using b1(3) b1'(3) by (simp add: request_header_def)
  then have len: "length (rk_wbytes b1') = n + 4" using n(1) b1(3) b1'(3) by simp
  obtain b2 where b2: "rd_kafka_buf_finalize max_msg_size b1' = Return b2" "rk_winv b2"
    "\<not> rkbuf_f_crc b2" "rk_wbytes b2 = be_enc 4 (of_nat n :: u32) @ be_enc 2 ?key @ be_enc 2 ?ver @
      be_enc 4 (0 :: u32) @ ?rest"
    using finalize_bytes [OF b1'(1,2) bytes] len n(2,3) b1'(4) by auto
  obtain b3 where b3: "rd_kafka_buf_update_i32 b2 8 corrid = Return b3"
    "rk_wbytes b3 = fields_enc (request_header n ApiKey ver corrid k @ fs) @ []"
    using rk_update_ok [OF b2(2,3), of 8 "be_enc 4 corrid"] b2(4)
      overwrite_field [of "be_enc 4 (of_nat n :: u32) @ be_enc 2 ?key @ be_enc 2 ?ver" 8
        "be_enc 4 (0 :: u32)" "be_enc 4 corrid" ?rest]
    by (auto simp: rd_kafka_buf_update_i32_def request_header_def simp flip: length_greater_0_conv)
  have "length (rk_wbytes b3) = length (rk_wbytes b2)" using b3(2) b2(4) by (simp add: request_header_def)
  also have "\<dots> = n + 4" using len b2(4) bytes by simp
  finally obtain r0 where r0: "rd_kafka_buf_new_shadow fill' (rk_wbytes b3) free_cb = Return r0"
    "rk_at (rkbuf_buf r0) r0 (rk_wbytes b3)"
    using new_shadow_at [of "rk_wbytes b3" fill' free_cb] n(3) by (auto simp flip: length_greater_0_conv)
  have ok: "list_all field_ok (request_header n ApiKey ver corrid k @ fs)"
    using kstr_ser(2) [OF k] body(2) by (simp add: request_header_def)
  have kinds: "map field_kind (request_header n ApiKey ver corrid k @ fs)
      = [K_i32, K_i16, K_i16, K_i32, K_str] @ map field_kind fs" by (simp add: request_header_def)
  obtain r where "read_fields r0 ([K_i32, K_i16, K_i16, K_i32, K_str] @ map field_kind fs)
      = rk_return r (request_header n ApiKey ver corrid k @ fs)" "rk_at (rkbuf_buf r0) r []"
    using read_fields_spec [OF r0(2) [unfolded b3(2)] ok] unfolding kinds rk_reads_def by blast
  then show ?thesis using b0(1) b1(1) b2(1) b3(1) r0(1) rk_at_remain [of "rkbuf_buf r0" r "[]"]
    by (auto simp: b1'_def)
qed

theorem request_framing_witness:
  "\<exists>k b0 b1 b2 b3 r0 r. rd_kafkap_str_new (Some [114, 100]) 2 = Return k \<and>
    rd_kafka_buf_new_request (\<lambda>_. 0) k 60000 3 1 20 = Some (Return b0) \<and>
    write_fields (replicate 10 0) b0 [F_i32 5] = Some (Return b1) \<and>
    rd_kafka_buf_finalize 1000 (rd_kafka_buf_ApiVersion_set b1 2 0) = Return b2 \<and>
    rd_kafka_buf_update_i32 b2 8 77 = Return b3 \<and>
    rd_kafka_buf_new_shadow (\<lambda>_. 0) (rk_wbytes b3) None = Return r0 \<and>
    read_fields r0 [K_i32, K_i16, K_i16, K_i32, K_str, K_i32]
      = rk_return r [F_i32 16, F_i16 3, F_i16 2, F_i32 77, F_str (Some [114, 100]), F_i32 5]"
proof -
  obtain k where k: "rd_kafkap_str_new (Some [114, 100]) 2 = Return k" "ks_len k = 2"
    "ks_str k = Some [114, 100]"
    by (simp add: rd_kafkap_str_new_def null_defs)
  have "16 = length (fields_enc (request_header 0 3 0 0 k @ [F_i32 5])) - 4"
    by (simp add: request_header_def k(3))
  from request_framing [OF k(1) _ _ _ this, where varint = "replicate 10 0" and max_msg_size = 1000
      and fill = "\<lambda>_. 0" and tmo = 60000 and segcnt = 1 and sz = 20 and ver = 2 and feat = 0
      and corrid = 77 and fill' = "\<lambda>_. 0" and free_cb = None]
  show ?thesis using k by (auto simp: RD_UVARINT_ENC_SIZEOF_def request_header_def)
qed

end
