(* ===== verification/Kbuf_State.thy ===== *)
theory Kbuf_State
  imports Kbuf_Fields
begin

text \<open>
  The state a protocol buffer keeps beside its bytes: the running CRC of the fields written to
  it, and the temporary buffer that responses are parsed into.
\<close>

section \<open>The running CRC\<close>

text \<open>Every field is one or two calls of \<open>rd_kafka_buf_write\<close>.\<close>

lemma write_all_1: "rd_kafka_buf_write b xs = Some (Return (b', n)) \<Longrightarrow>
  write_all rd_kafka_buf_write b [xs] = Some (Return b')"
  by simp

lemma write_field_writes:
  assumes "length varint = RD_UVARINT_ENC_SIZEOF 8" "field_ok f"
    "write_field varint b f = Some (Return (b', n))"
  shows "\<exists>xss. write_all rd_kafka_buf_write b xss = Some (Return b') \<and> concat xss = field_enc f"
proof (cases f)
  case (F_str s)
  show ?thesis
  proof (cases s)
    case (Some xs)
    have "length xs \<noteq> SIZE_MOD - 1" using assms(2) F_str Some by simp
    then show ?thesis using assms(3) F_str Some
      by (intro exI [of _ "[be_enc 2 (of_nat (length xs) :: u16), xs]"])
        (auto simp: rd_kafka_buf_write_str_def rd_kafka_buf_write_i16_def xbind_eq_Return)
  qed (use assms(3) F_str in \<open>auto simp: rd_kafka_buf_write_str_def rd_kafka_buf_write_i16_def
    minus_one_cut xbind_eq_Return intro!: exI [of _ "[be_enc 2 (- 1 :: u16)]"]\<close>)
next
  case (F_bytes s)
  show ?thesis
  proof (cases s)
    case (Some xs)
    then show ?thesis using assms(3) F_bytes
      by (intro exI [of _ "[be_enc 4 (of_nat (length xs) :: u32), xs]"])
        (auto simp: rd_kafka_buf_write_bytes_def rd_kafka_buf_write_i32_def xbind_eq_Return)
  qed (use assms(3) F_bytes in \<open>auto simp: rd_kafka_buf_write_bytes_def rd_kafka_buf_write_i32_def
    minus_one_cut xbind_eq_Return intro!: exI [of _ "[be_enc 4 (- 1 :: u32)]"]\<close>)
next
  case (F_varint v)
  then show ?thesis using assms(3) varint_written [OF assms(1), of b v]
    by (intro exI [of _ "[field_enc f]"]) simp
qed (use assms(3) in \<open>auto simp: rd_kafka_buf_write_i8_def rd_kafka_buf_write_i16_def
  rd_kafka_buf_write_i32_def rd_kafka_buf_write_i64_def intro!: exI [of _ "[field_enc f]"]\<close>)

lemma write_fields_crc:
  assumes "length varint = RD_UVARINT_ENC_SIZEOF 8"
  shows "rk_winv b \<Longrightarrow> rkbuf_f_crc b \<Longrightarrow> list_all field_ok fs \<Longrightarrow>
    write_fields varint b fs = Some (Return b') \<Longrightarrow>
    rkbuf_f_crc b' \<and> rkbuf_crc b' = rd_crc32_update (rkbuf_crc b) (fields_enc fs)"
proof (induction fs arbitrary: b)
  case (Cons f fs)
  then obtain b1 n where b1: "write_field varint b f = Some (Return (b1, n))"
    "write_fields varint b1 fs = Some (Return b')" by (auto simp: xbind_eq_Return)
  have "rk_winv b1" using write_field_spec [OF Cons.prems(1) assms, of f] Cons.prems(3) b1(1) by auto
  moreover have "rkbuf_f_crc b1 \<and> rkbuf_crc b1 = rd_crc32_update (rkbuf_crc b) (field_enc f)"
    using write_field_writes [OF assms _ b1(1)] Cons.prems write_all_crc by fastforce
  ultimately show ?case using Cons.IH [of b1] Cons.prems(3) b1(2) by (simp add: crc32_update_append)
qed simp

text \<open>
  C30. The CRC that \<open>rd_kafka_buf_crc_finalize\<close> returns is the CRC of exactly the bytes of the
  fields written since \<open>rd_kafka_buf_crc_init\<close>, whatever the buffer held before; and while it is
  being computed no byte already counted can be changed, since every update aborts.
\<close>

theorem running_crc:
  assumes "length varint = RD_UVARINT_ENC_SIZEOF 8" "list_all field_ok fs" "rk_winv b" "\<not> rkbuf_f_crc b"
  shows "\<exists>b1 b2 b3. rd_kafka_buf_crc_init b = Return b1 \<and> write_fields varint b1 fs = Some (Return b2) \<and>
    (\<forall>off xs. rd_kafka_buf_update b2 off xs = Assert_Failed) \<and>
    rd_kafka_buf_crc_finalize b2 = (b3, rd_crc32 (fields_enc fs)) \<and> \<not> rkbuf_f_crc b3 \<and>
    rk_wbytes b3 = rk_wbytes b @ fields_enc fs"
proof -
  define b1 where "b1 = b\<lparr>rkbuf_f_crc := True, rkbuf_crc := rd_crc32_init\<rparr>"
  have b1: "rk_winv b1" "rkbuf_f_crc b1" "rkbuf_crc b1 = rd_crc32_init" "rk_wbytes b1 = rk_wbytes b"
    using assms(3) by (simp_all add: b1_def rk_winv_def rk_wbytes_def)
  obtain b2 where b2: "write_fields varint b1 fs = Some (Return b2)"
    "rk_wbytes b2 = rk_wbytes b @ fields_enc fs"
    using write_fields_spec [OF assms(1) b1(1) assms(2)] b1(4) by auto
  note crc = write_fields_crc [OF assms(1) b1(1,2) assms(2) b2(1)]
  have "rd_kafka_buf_crc_init b = Return b1" using assms(4) by (simp add: rd_kafka_buf_crc_init_def b1_def)
  moreover have "rd_kafka_buf_update b2 off xs = Assert_Failed" for off xs
    using crc by (simp add: rd_kafka_buf_update_def)
  ultimately show ?thesis using b2 crc b1(3)
    by (auto simp: rd_kafka_buf_crc_finalize_def rd_crc32_def rk_wbytes_def)
qed

theorem running_crc_witness:
  "\<exists>b b1 b2 b3. rd_kafka_buf_new0 (\<lambda>_. 0) 1 16 False = Return b \<and> rd_kafka_buf_crc_init b = Return b1 \<and>
    write_fields (replicate 10 0) b1 [F_i8 49, F_i8 50] = Some (Return b2) \<and>
    rd_kafka_buf_crc_finalize b2 = (b3, rd_crc32 [49, 50])"
proof -
  obtain b where b: "rd_kafka_buf_new0 (\<lambda>_. 0) 1 16 False = Return b" "rk_winv b" "\<not> rkbuf_f_crc b"
    using new0_winv [of 1 "\<lambda>_. 0" 16 False] by auto
  have "fields_enc [F_i8 49, F_i8 50] = [49, 50]" by code_simp
  then show ?thesis using b running_crc [of "replicate 10 0" "[F_i8 49, F_i8 50]" b]
    by (auto simp: RD_UVARINT_ENC_SIZEOF_def)
qed

section \<open>The temporary buffer\<close>

text \<open>A sequence of allocations, and the ranges of bytes that were handed out.\<close>

fun tmpabuf_allocs :: "rd_tmpabuf \<Rightarrow> nat list \<Rightarrow> (rd_tmpabuf \<times> (nat \<times> nat) list) outcome" where
  "tmpabuf_allocs tab [] = Return (tab, [])"
| "tmpabuf_allocs tab (sz # szs) =
     obind (rd_tmpabuf_alloc0 tab sz) (\<lambda>(tab1, p).
     obind (tmpabuf_allocs tab1 szs) (\<lambda>(tab2, ranges).
       Return (tab2, case p of None \<Rightarrow> ranges | Some off \<Rightarrow> (off, sz) # ranges)))"

definition tab_inv :: "rd_tmpabuf \<Rightarrow> bool" where
  "tab_inv tab \<longleftrightarrow> 8 dvd tab_of tab \<and> tab_of tab \<le> tab_size tab + 7 \<and> tab_size tab < 2 ^ 62 \<and>
     \<not> tab_failed tab \<and> \<not> tab_assert_on_fail tab"

lemma roundup8:
  "8 dvd RD_ROUNDUP n 8" "n \<le> RD_ROUNDUP n 8" "RD_ROUNDUP n 8 \<le> n + 7"
  by (simp_all add: RD_ROUNDUP_8)

lemma tmpabuf_alloc_cases:
  assumes "tab_inv tab" "sz < 2 ^ 63"
  obtains (full) "rd_tmpabuf_alloc0 tab sz = Return (tab, None)" "tab_size tab < tab_of tab + sz"
  | (room) "rd_tmpabuf_alloc0 tab sz = Return (tab\<lparr>tab_of := tab_of tab + RD_ROUNDUP sz 8\<rparr>, Some (tab_of tab))"
      "tab_of tab + sz \<le> tab_size tab" "tab_inv (tab\<lparr>tab_of := tab_of tab + RD_ROUNDUP sz 8\<rparr>)"
proof -
  have "size_add (tab_of tab) sz = tab_of tab + sz"
    by (rule size_add_less) (use assms in \<open>simp add: tab_inv_def\<close>)
  then show thesis using assms that roundup8 [of sz]
    by (cases "tab_size tab < tab_of tab + sz") (auto simp: rd_tmpabuf_alloc0_def tab_inv_def)
qed

lemma tmpabuf_allocs_spec:
  "tab_inv tab \<Longrightarrow> \<forall>sz \<in> set szs. sz < 2 ^ 63 \<Longrightarrow>
   \<exists>tab' rs. tmpabuf_allocs tab szs = Return (tab', rs) \<and>
     (\<forall>(off, n) \<in> set rs. 8 dvd off \<and> tab_of tab \<le> off \<and> off + n \<le> tab_size tab) \<and>
     sorted_wrt (\<lambda>(off, n) (off', _). off + n \<le> off') rs \<and>
     (tab_of tab + (\<Sum>sz\<leftarrow>szs. RD_ROUNDUP sz 8) \<le> tab_size tab \<longrightarrow> map snd rs = szs)"
proof (induction szs arbitrary: tab)
  case (Cons sz szs)
  have sz: "sz < 2 ^ 63" using Cons.prems(2) by simp
  show ?case
  proof (rule tmpabuf_alloc_cases [OF Cons.prems(1) sz])
    assume full: "rd_tmpabuf_alloc0 tab sz = Return (tab, None)" "tab_size tab < tab_of tab + sz"
    then show ?thesis using Cons.IH [OF Cons.prems(1)] Cons.prems(2) roundup8(2) [of sz] by auto
  next
    let ?tab = "tab\<lparr>tab_of := tab_of tab + RD_ROUNDUP sz 8\<rparr>"
    assume room: "rd_tmpabuf_alloc0 tab sz = Return (?tab, Some (tab_of tab))"
      "tab_of tab + sz \<le> tab_size tab" "tab_inv ?tab"
    obtain tab' rs where rs: "tmpabuf_allocs ?tab szs = Return (tab', rs)"
      "\<forall>(off, n) \<in> set rs. 8 dvd off \<and> tab_of tab + RD_ROUNDUP sz 8 \<le> off \<and> off + n \<le> tab_size tab"
      "sorted_wrt (\<lambda>(off, n) (off', _). off + n \<le> off') rs"
      "tab_of tab + RD_ROUNDUP sz 8 + (\<Sum>sz\<leftarrow>szs. RD_ROUNDUP sz 8) \<le> tab_size tab \<longrightarrow> map snd rs = szs"
      using Cons.IH [OF room(3)] Cons.prems(2) by auto
    have "\<forall>(off, n) \<in> set rs. tab_of tab + sz \<le> off" using rs(2) roundup8(2) [of sz] by fastforce
    then show ?thesis using rs room Cons.prems(1) roundup8(2) [of sz]
      by (intro exI [of _ tab'] exI [of _ "(tab_of tab, sz) # rs"]) (fastforce simp: tab_inv_def)
  qed
qed simp

text \<open>
  The temporary buffer never hands out memory it does not have: the ranges returned by any
  sequence of allocations are 8-byte aligned, lie in the buffer and do not overlap, and if the
  rounded sizes fit into the buffer then no allocation fails.
\<close>

lemma tmpabuf_ranges:
  assumes "bufsz < 2 ^ 62" "\<forall>sz \<in> set szs. sz < 2 ^ 63"
  shows "\<exists>tab ranges. tmpabuf_allocs (rd_tmpabuf_new fill bufsz False) szs = Return (tab, ranges) \<and>
    (\<forall>(off, n) \<in> set ranges. 8 dvd off \<and> off + n \<le> bufsz) \<and>
    sorted_wrt (\<lambda>(off, n) (off', _). off + n \<le> off') ranges \<and>
    ((\<Sum>sz\<leftarrow>szs. RD_ROUNDUP sz 8) \<le> bufsz \<longrightarrow> map snd ranges = szs)"
proof -
  have "tab_inv (rd_tmpabuf_new fill bufsz False)"
    using assms(1) by (simp add: tab_inv_def rd_tmpabuf_new_def)
  from tmpabuf_allocs_spec [OF this assms(2)] show ?thesis
    by (auto simp: rd_tmpabuf_new_def)
qed

end
