(* ===== verification/Broker.thy ===== *)
theory Broker
  imports Kbuf_State
begin

text \<open>
  The request pipeline of a broker connection (\<open>rdkafka_broker.c\<close>): the queue of requests to be
  sent, the requests in flight, the requests that wait for a retry, and the functions of the
  broker thread that move requests between them.

  A request is handed back to its owner by \<open>rd_kafka_buf_callback\<close>, which for requests with a
  reply queue enqueues an op; the owner decides there whether to retry. The functions below
  return the list of callbacks they made, in order, and a retry is a later step. The clock is
  an argument, and so is what the transport did: \<open>Xmit_Fail\<close> for a return value of -1,
  \<open>Xmit_Sent n\<close> for \<open>n\<close> bytes that the socket accepted. The statistics averages
  (\<open>rd_avg_add\<close>), logging and the reference counts are left out.
\<close>

section \<open>State\<close>

definition RD_KAFKA_BROKER_STATE_INIT :: nat where "RD_KAFKA_BROKER_STATE_INIT = 0"
definition RD_KAFKA_BROKER_STATE_DOWN :: nat where "RD_KAFKA_BROKER_STATE_DOWN = 1"
definition RD_KAFKA_BROKER_STATE_TRY_CONNECT :: nat where "RD_KAFKA_BROKER_STATE_TRY_CONNECT = 2"
definition RD_KAFKA_BROKER_STATE_UP :: nat where "RD_KAFKA_BROKER_STATE_UP = 5"
definition RD_KAFKA_BROKER_STATE_UPDATE :: nat where "RD_KAFKA_BROKER_STATE_UPDATE = 6"
definition RD_KAFKA_BROKER_STATE_APIVERSION_QUERY :: nat where
  "RD_KAFKA_BROKER_STATE_APIVERSION_QUERY = 7"

definition RD_KAFKA_PRIO_NORMAL :: nat where "RD_KAFKA_PRIO_NORMAL = 0"

definition RD_KAFKA_FEATURE_APIVERSION :: int where "RD_KAFKA_FEATURE_APIVERSION = 0x2"

lemmas broker_state_defs = RD_KAFKA_BROKER_STATE_INIT_def RD_KAFKA_BROKER_STATE_DOWN_def
  RD_KAFKA_BROKER_STATE_TRY_CONNECT_def RD_KAFKA_BROKER_STATE_UP_def
  RD_KAFKA_BROKER_STATE_UPDATE_def RD_KAFKA_BROKER_STATE_APIVERSION_QUERY_def

text \<open>The settings the functions read.\<close>

record rk_conf =
  conf_sparse_connections :: bool
  conf_socket_timeout_ms :: int
  conf_retry_backoff_ms :: int
  conf_socket_max_fails :: int
  conf_max_retries :: int
  rk_terminating :: bool

record rd_kafka_ApiVersion =
  av_ApiKey :: int
  av_MinVer :: int
  av_MaxVer :: int

text \<open>
  The broker, with the counters of the client instance that its state changes move
  (\<open>rk_broker_down_cnt\<close> and the others); \<open>rkb_broadcasts\<close> counts the wake-ups sent by
  \<open>rd_kafka_brokers_broadcast_state_change\<close>.
\<close>

record rd_kafka_broker =
  rkb_source_internal :: bool
  rkb_is_logical :: bool
  rkb_state :: nat
  rkb_ts_state :: int
  rkb_down_reported :: bool
  rkb_transport :: bool
  rkb_outbufs :: rd_kafka_bufq
  rkb_waitresps :: rd_kafka_bufq
  rkb_retrybufs :: rd_kafka_bufq
  rkb_corrid :: int
  rkb_connid :: int
  rkb_max_inflight :: int
  rkb_blocking_request_cnt :: int
  rkb_features :: int
  rkb_ApiVersions :: "rd_kafka_ApiVersion list"
  rkb_req_timeouts :: int
  rkb_ts_tx_last :: int
  rkb_persistconn_internal :: int
  rkb_c_tx :: int
  rkb_c_tx_bytes :: int
  rkb_c_tx_err :: int
  rkb_c_tx_retries :: int
  rkb_c_req_timeouts :: int
  rkb_c_rx_corrid_err :: int
  rkb_c_disconnects :: int
  rk_broker_cnt :: int
  rk_broker_addrless_cnt :: int
  rk_broker_down_cnt :: int
  rk_broker_up_cnt :: int
  rk_logical_broker_up_cnt :: int
  rk_all_brokers_down_errs :: nat
  rkb_broadcasts :: nat

text \<open>A call of \<open>rd_kafka_buf_callback\<close>: the request, the error and the response.\<close>

record rk_callback =
  cb_addr :: nat
  cb_request :: rd_kafka_buf
  cb_err :: rk_err
  cb_response :: "rd_kafka_buf option"

definition rd_kafka_buf_callback :: "nat \<Rightarrow> rd_kafka_buf \<Rightarrow> rk_err \<Rightarrow> rd_kafka_buf option \<Rightarrow> rk_callback" where
  "rd_kafka_buf_callback addr request err response =
     \<lparr>cb_addr = addr, cb_request = request, cb_err = err, cb_response = response\<rparr>"

section \<open>State changes\<close>

definition rd_kafka_brokers_broadcast_state_change :: "rd_kafka_broker \<Rightarrow> rd_kafka_broker" where
  "rd_kafka_brokers_broadcast_state_change rkb = rkb\<lparr>rkb_broadcasts := rkb_broadcasts rkb + 1\<rparr>"

definition rd_kafka_broker_state_is_up :: "nat \<Rightarrow> bool" where
  "rd_kafka_broker_state_is_up state \<longleftrightarrow>
     state = RD_KAFKA_BROKER_STATE_UP \<or> state = RD_KAFKA_BROKER_STATE_UPDATE"

definition set_state_down_cnt :: "rk_conf \<Rightarrow> rd_kafka_broker \<Rightarrow> nat \<Rightarrow> rd_kafka_broker" where
  "set_state_down_cnt conf rkb state =
     (if rkb_source_internal rkb then rkb
      else if state = RD_KAFKA_BROKER_STATE_DOWN \<and> \<not> rkb_down_reported rkb \<and>
        rkb_state rkb \<noteq> RD_KAFKA_BROKER_STATE_APIVERSION_QUERY
      then let down = rk_broker_down_cnt rkb + 1
           in rkb\<lparr>rk_broker_down_cnt := down, rkb_down_reported := True,
                  rk_all_brokers_down_errs := rk_all_brokers_down_errs rkb +
                    (if down = rk_broker_cnt rkb - rk_broker_addrless_cnt rkb \<and> \<not> rk_terminating conf
                     then 1 else 0)\<rparr>
      else if RD_KAFKA_BROKER_STATE_UP \<le> state \<and> rkb_down_reported rkb
      then rkb\<lparr>rk_broker_down_cnt := rk_broker_down_cnt rkb - 1, rkb_down_reported := False\<rparr>
      else rkb)"

definition set_state_up_cnt :: "rd_kafka_broker \<Rightarrow> nat \<Rightarrow> rd_kafka_broker" where
  "set_state_up_cnt rkb state =
     (let change = (\<lambda>d. rkb\<lparr>rk_broker_up_cnt := rk_broker_up_cnt rkb + d,
             rk_logical_broker_up_cnt :=
               rk_logical_broker_up_cnt rkb + (if rkb_is_logical rkb then d else 0)\<rparr>)
      in if rkb_source_internal rkb then rkb
         else if rd_kafka_broker_state_is_up state \<and> \<not> rd_kafka_broker_state_is_up (rkb_state rkb)
         then change 1
         else if rd_kafka_broker_state_is_up (rkb_state rkb) \<and> \<not> rd_kafka_broker_state_is_up state
         then change (- 1)
         else rkb)"

definition rd_kafka_broker_set_state :: "rk_conf \<Rightarrow> int \<Rightarrow> rd_kafka_broker \<Rightarrow> nat \<Rightarrow> rd_kafka_broker" where
  "rd_kafka_broker_set_state conf clock rkb state =
     (if rkb_state rkb = state then rkb
      else rd_kafka_brokers_broadcast_state_change
        ((set_state_up_cnt (set_state_down_cnt conf rkb state) state)
           \<lparr>rkb_state := state, rkb_ts_state := clock\<rparr>))"

definition rd_kafka_broker_feature_disable :: "rd_kafka_broker \<Rightarrow> int \<Rightarrow> rd_kafka_broker" where
  "rd_kafka_broker_feature_disable rkb features =
     (if features AND rkb_features rkb = 0 then rkb
      else rkb\<lparr>rkb_features := rkb_features rkb AND NOT features\<rparr>)"

section \<open>Enqueuing requests\<close>

text \<open>
  Behind every request of the same or a higher priority, and behind every request that has a
  correlation id, which means that it may have been sent in part.
\<close>

definition insert_prio ::
  "nat \<times> rd_kafka_buf \<Rightarrow> (nat \<times> rd_kafka_buf) list \<Rightarrow> (nat \<times> rd_kafka_buf) list" where
  "insert_prio e q =
     (let stays = (\<lambda>(_, prev). \<not> (rkbuf_prio prev < rkbuf_prio (snd e) \<and> rkbuf_corrid prev = 0))
      in takeWhile stays q @ e # dropWhile stays q)"

definition rd_kafka_broker_buf_enq0 ::
  "rk_conf \<Rightarrow> int \<Rightarrow> rd_kafka_broker \<Rightarrow> nat \<Rightarrow> rd_kafka_buf \<Rightarrow> rd_kafka_broker outcome" where
  "rd_kafka_broker_buf_enq0 conf now rkb addr rkbuf =
     (let rkb1 = (if conf_sparse_connections conf \<and> rkb_state rkb = RD_KAFKA_BROKER_STATE_INIT
                  then rd_kafka_broker_set_state conf now
                         (rkb\<lparr>rkb_persistconn_internal := rkb_persistconn_internal rkb + 1\<rparr>)
                         RD_KAFKA_BROKER_STATE_TRY_CONNECT
                  else rkb)
      in obind (rd_kafka_buf_calc_timeout (conf_socket_timeout_ms conf)
                  (rkbuf\<lparr>rkbuf_ts_enq := now, rkbuf_f_sent := False\<rparr>) now) (\<lambda>b.
         let q = rkb_outbufs rkb1;
             bufs = (if rkbuf_prio b = RD_KAFKA_PRIO_NORMAL then rkbq_bufs q @ [(addr, b)]
                     else insert_prio (addr, b) (rkbq_bufs q))
         in Return (rkb1\<lparr>rkb_outbufs := q\<lparr>rkbq_bufs := bufs, rkbq_cnt := rkbq_cnt q + 1,
                      rkbq_msg_cnt := rkbq_msg_cnt q + buf_msgs b\<rparr>\<rparr>)))"

text \<open>The internal broker fails every request at once.\<close>

definition rd_kafka_broker_buf_enq2 ::
  "rk_conf \<Rightarrow> int \<Rightarrow> rd_kafka_broker \<Rightarrow> nat \<Rightarrow> rd_kafka_buf \<Rightarrow>
   (rd_kafka_broker \<times> rk_callback list) outcome" where
  "rd_kafka_broker_buf_enq2 conf now rkb addr rkbuf =
     (if rkb_source_internal rkb
      then Return (rkb, [rd_kafka_buf_callback addr rkbuf RK_TRANSPORT None])
      else obind (rd_kafka_broker_buf_enq0 conf now rkb addr rkbuf) (\<lambda>rkb1. Return (rkb1, [])))"

section \<open>Connection failure\<close>

definition purge_callbacks :: "rd_kafka_bufq \<Rightarrow> rk_err \<Rightarrow> rk_callback list" where
  "purge_callbacks q err = map (\<lambda>(addr, b). rd_kafka_buf_callback addr b err None) (rkbq_bufs q)"

text \<open>
  The requests in flight are called back before those that wait to be sent. The callbacks of the
  final \<open>rd_kafka_bufq_connection_reset\<close> are left out: it finds the output queue empty, since the
  owners enqueue requests again in later steps only. The error message for the log and the
  application, the partly received response and the request for new metadata are not modelled.
\<close>

definition rd_kafka_broker_fail ::
  "rk_conf \<Rightarrow> int \<Rightarrow> rd_kafka_broker \<Rightarrow> rk_err \<Rightarrow> (rd_kafka_broker \<times> rk_callback list) outcome" where
  "rd_kafka_broker_fail conf clock rkb err =
     (let rkb1 = (if rkb_transport rkb
                  then rkb\<lparr>rkb_transport := False,
                           rkb_c_disconnects := rkb_c_disconnects rkb +
                             (if RD_KAFKA_BROKER_STATE_UP \<le> rkb_state rkb then 1 else 0)\<rparr>
                  else rkb)\<lparr>rkb_req_timeouts := 0\<rparr>;
          rkb2 = (if rkb_state rkb1 = RD_KAFKA_BROKER_STATE_APIVERSION_QUERY
                  then rd_kafka_broker_feature_disable rkb1 RD_KAFKA_FEATURE_APIVERSION else rkb1);
          rkb3 = rd_kafka_broker_set_state conf clock rkb2 RD_KAFKA_BROKER_STATE_DOWN;
          (tmpq_waitresp, waitresps) = rd_kafka_bufq_concat rd_kafka_bufq_init (rkb_waitresps rkb3);
          (tmpq, outbufs) = rd_kafka_bufq_concat rd_kafka_bufq_init (rkb_outbufs rkb3)
      in obind (rd_kafka_bufq_connection_reset (conf_socket_timeout_ms conf) clock outbufs) (\<lambda>(outbufs1, _).
           Return (rkb3\<lparr>rkb_waitresps := waitresps, rkb_outbufs := outbufs1, rkb_blocking_request_cnt := 0\<rparr>,
             purge_callbacks tmpq_waitresp err @
             purge_callbacks tmpq (if err = RK_TIMED_OUT then RK_TIMED_OUT_QUEUE else err))))"

section \<open>Time-outs\<close>

record scan =
  sc_q :: rd_kafka_bufq
  sc_cnt :: int
  sc_partial :: int
  sc_blocking :: int
  sc_broadcasts :: nat
  sc_cbs :: "rk_callback list"

text \<open>\<open>sc_blocking\<close> is the broker's counter of blocking requests in flight.\<close>

fun bufq_timeout_loop ::
  "bool \<Rightarrow> int \<Rightarrow> rk_err \<Rightarrow> int \<Rightarrow> scan \<Rightarrow> (nat \<times> rd_kafka_buf) list \<Rightarrow> scan outcome" where
  "bufq_timeout_loop is_waitresp_q ApiKey err now sc [] = Return sc"
| "bufq_timeout_loop is_waitresp_q ApiKey err now sc ((addr, rkbuf) # rest) =
     (if (now \<noteq> 0 \<and> rkbuf_ts_timeout rkbuf > now) \<or> (ApiKey \<noteq> - 1 \<and> rkbuf_ApiKey rkbuf \<noteq> ApiKey)
      then bufq_timeout_loop is_waitresp_q ApiKey err now sc rest
      else obind (rd_kafka_bufq_deq (sc_q sc) addr) (\<lambda>(q1, _).
        let since = (if rkbuf_ts_sent rkbuf \<noteq> 0 then rkbuf_ts_sent rkbuf else rkbuf_ts_enq rkbuf);
            rkbuf1 = rkbuf\<lparr>rkbuf_ts_sent := now - since\<rparr>;
            blocking = (is_waitresp_q \<and> rkbuf_f_blocking rkbuf);
            blocking_cnt = (if blocking then sc_blocking sc - 1 else sc_blocking sc)
        in bufq_timeout_loop is_waitresp_q ApiKey err now
             (sc\<lparr>sc_q := q1, sc_cnt := sc_cnt sc + 1,
                 sc_partial := sc_partial sc +
                   (if 0 < rd_slice_offset (rkbuf_reader rkbuf) then 1 else 0),
                 sc_blocking := blocking_cnt,
                 sc_broadcasts := sc_broadcasts sc + (if blocking \<and> blocking_cnt = 0 then 1 else 0),
                 sc_cbs := sc_cbs sc @ [rd_kafka_buf_callback addr rkbuf1 err None]\<rparr>) rest))"

definition rd_kafka_broker_bufq_timeout_scan ::
  "rd_kafka_broker \<Rightarrow> bool \<Rightarrow> rd_kafka_bufq \<Rightarrow> int \<Rightarrow> rk_err \<Rightarrow> int \<Rightarrow> scan outcome" where
  "rd_kafka_broker_bufq_timeout_scan rkb is_waitresp_q q ApiKey err now =
     bufq_timeout_loop is_waitresp_q ApiKey err now
       \<lparr>sc_q = q, sc_cnt = 0, sc_partial = 0, sc_blocking = rkb_blocking_request_cnt rkb,
        sc_broadcasts = 0, sc_cbs = []\<rparr> (rkbq_bufs q)"

definition rd_kafka_broker_timeout_scan ::
  "rk_conf \<Rightarrow> rd_kafka_broker \<Rightarrow> int \<Rightarrow> (rd_kafka_broker \<times> rk_callback list) outcome" where
  "rd_kafka_broker_timeout_scan conf rkb now =
     obind (rd_kafka_broker_bufq_timeout_scan rkb True (rkb_waitresps rkb) (- 1) RK_TIMED_OUT now) (\<lambda>inflight.
     obind (rd_kafka_broker_bufq_timeout_scan rkb False (rkb_retrybufs rkb) (- 1) RK_TIMED_OUT_QUEUE now) (\<lambda>retry.
     obind (rd_kafka_broker_bufq_timeout_scan rkb False (rkb_outbufs rkb) (- 1) RK_TIMED_OUT_QUEUE now) (\<lambda>outq.
       let rkb1 = rkb\<lparr>rkb_waitresps := sc_q inflight, rkb_retrybufs := sc_q retry,
                      rkb_outbufs := sc_q outq, rkb_blocking_request_cnt := sc_blocking inflight,
                      rkb_broadcasts := rkb_broadcasts rkb + sc_broadcasts inflight\<rparr>;
           cbs = sc_cbs inflight @ sc_cbs retry @ sc_cbs outq;
           timeouts = sc_cnt inflight + sc_cnt outq;
           rkb2 = rkb1\<lparr>rkb_req_timeouts := rkb_req_timeouts rkb1 + timeouts,
                       rkb_c_req_timeouts := rkb_c_req_timeouts rkb1 + timeouts\<rparr>
       in if sc_cnt inflight + sc_cnt retry + sc_cnt outq + sc_partial outq \<le> 0 then Return (rkb1, cbs)
          else if 0 < sc_partial outq \<or>
            (conf_socket_max_fails conf \<noteq> 0 \<and> conf_socket_max_fails conf \<le> rkb_req_timeouts rkb2 \<and>
             RD_KAFKA_BROKER_STATE_UP \<le> rkb_state rkb2)
          then obind (rd_kafka_broker_fail conf now rkb2 RK_TIMED_OUT) (\<lambda>(rkb3, cbs'). Return (rkb3, cbs @ cbs'))
          else Return (rkb2, cbs))))"

text \<open>\<open>of_toppar\<close> tells which Produce requests are for the partition to be purged.\<close>

fun purge_by_toppar_loop ::
  "(rd_kafka_buf \<Rightarrow> bool) \<Rightarrow> rk_err \<Rightarrow> rd_kafka_bufq \<Rightarrow> (nat \<times> rd_kafka_buf) list \<Rightarrow>
   (rd_kafka_bufq \<times> rk_callback list) outcome" where
  "purge_by_toppar_loop of_toppar err q [] = Return (q, [])"
| "purge_by_toppar_loop of_toppar err q ((addr, rkbuf) # rest) =
     (if rkbuf_ApiKey rkbuf \<noteq> RD_KAFKAP_Produce \<or> \<not> of_toppar rkbuf \<or>
        0 < rd_slice_offset (rkbuf_reader rkbuf)
      then purge_by_toppar_loop of_toppar err q rest
      else obind (rd_kafka_bufq_deq q addr) (\<lambda>(q1, _).
           obind (purge_by_toppar_loop of_toppar err q1 rest) (\<lambda>(q2, cbs).
             Return (q2, rd_kafka_buf_callback addr rkbuf err None # cbs))))"

definition rd_kafka_broker_bufq_purge_by_toppar ::
  "rd_kafka_bufq \<Rightarrow> int \<Rightarrow> (rd_kafka_buf \<Rightarrow> bool) \<Rightarrow> rk_err \<Rightarrow>
   (rd_kafka_bufq \<times> rk_callback list) outcome" where
  "rd_kafka_broker_bufq_purge_by_toppar q ApiKey of_toppar err =
     obind (rd_assert (ApiKey = RD_KAFKAP_Produce)) (\<lambda>_.
       purge_by_toppar_loop of_toppar err q (rkbq_bufs q))"

section \<open>Responses\<close>

text \<open>
  A blocking request enters or leaves the requests in flight: the change is broadcast when the
  counter has become \<open>n\<close>.
\<close>

definition blocking_cnt_add :: "bool \<Rightarrow> int \<Rightarrow> int \<Rightarrow> rd_kafka_broker \<Rightarrow> rd_kafka_broker" where
  "blocking_cnt_add blocking d n rkb =
     (if blocking
      then (let cnt = rkb_blocking_request_cnt rkb + d;
                rkb' = rkb\<lparr>rkb_blocking_request_cnt := cnt\<rparr>
            in if cnt = n then rd_kafka_brokers_broadcast_state_change rkb' else rkb')
      else rkb)"

text \<open>
  The first request in flight with the correlation id. The state change is broadcast when the
  counter of blocking requests has become 1.
\<close>

definition rd_kafka_waitresp_find ::
  "int \<Rightarrow> rd_kafka_broker \<Rightarrow> int \<Rightarrow> (rd_kafka_broker \<times> (nat \<times> rd_kafka_buf) option) outcome" where
  "rd_kafka_waitresp_find now rkb corrid =
     (case find (\<lambda>(_, b). rkbuf_corrid b = corrid) (rkbq_bufs (rkb_waitresps rkb)) of
        None \<Rightarrow> Return (rkb, None)
      | Some (addr, b) \<Rightarrow>
          let b1 = b\<lparr>rkbuf_ts_sent := now - rkbuf_ts_sent b\<rparr>;
              rkb1 = blocking_cnt_add (rkbuf_f_blocking b) (- 1) 1 rkb
          in obind (rd_kafka_bufq_deq (rkb_waitresps rkb1) addr) (\<lambda>(q, _).
               Return (rkb1\<lparr>rkb_waitresps := q\<rparr>, Some (addr, b1))))"

definition RD_KAFKAP_RESHDR_SIZE :: nat where
  "RD_KAFKAP_RESHDR_SIZE = 4 + 4"

text \<open>
  \<open>corrid\<close> is the correlation id of the response header of \<open>rkbuf\<close>. For a response that ends
  with its header \<open>rd_slice_init\<close> fails and leaves the reader at the end of the header.
\<close>

definition rd_kafka_req_response ::
  "int \<Rightarrow> rd_kafka_broker \<Rightarrow> int \<Rightarrow> rd_kafka_buf \<Rightarrow> (rd_kafka_broker \<times> rk_callback list \<times> int) outcome" where
  "rd_kafka_req_response now rkb corrid rkbuf =
     obind (rd_kafka_waitresp_find now rkb corrid) (\<lambda>(rkb1, r).
       case r of
         None \<Rightarrow> Return (rkb1\<lparr>rkb_c_rx_corrid_err := rkb_c_rx_corrid_err rkb1 + 1\<rparr>, [], - 1)
       | Some (addr, req) \<Rightarrow>
           obind (rd_slice_init (rkbuf_buf rkbuf) RD_KAFKAP_RESHDR_SIZE
                    (size_sub (rbuf_len (rkbuf_buf rkbuf)) RD_KAFKAP_RESHDR_SIZE)) (\<lambda>sl.
             let reader = (case sl of None \<Rightarrow> rkbuf_reader rkbuf | Some sl' \<Rightarrow> sl');
                 rsp = rkbuf\<lparr>rkbuf_reader := reader, rkbuf_ApiKey := rkbuf_ApiKey req,
                             rkbuf_ApiVersion := rkbuf_ApiVersion req\<rparr>
             in Return (rkb1, [rd_kafka_buf_callback addr req RK_NO_ERROR (Some rsp)], 0)))"

section \<open>Sending\<close>

definition rd_kafka_broker_request_supported :: "rd_kafka_broker \<Rightarrow> rd_kafka_buf \<Rightarrow> bool" where
  "rd_kafka_broker_request_supported rkb rkbuf =
     (if rkbuf_ApiKey rkbuf = RD_KAFKAP_ApiVersion then True
      else if rkbuf_features rkbuf \<noteq> 0
      then rkb_features rkb AND rkbuf_features rkbuf = rkbuf_features rkbuf
      else case find (\<lambda>v. av_ApiKey v = rkbuf_ApiKey rkbuf) (rkb_ApiVersions rkb) of
             None \<Rightarrow> False
           | Some v \<Rightarrow> av_MinVer v \<le> rkbuf_ApiVersion rkbuf \<and> rkbuf_ApiVersion rkbuf \<le> av_MaxVer v)"

datatype xmit = Xmit_Fail | Xmit_Sent nat

text \<open>
  \<open>rd_kafka_broker_send\<close>: the bytes the transport accepted are read from the slice. The result
  has the slice, those bytes and the callbacks, None for a return value of -1.
\<close>

definition rd_kafka_broker_send ::
  "rk_conf \<Rightarrow> int \<Rightarrow> rd_kafka_broker \<Rightarrow> rd_slice \<Rightarrow> xmit \<Rightarrow>
   (rd_kafka_broker \<times> rk_callback list \<times> (rd_slice \<times> byte list) option) outcome option" where
  "rd_kafka_broker_send conf now rkb sl x =
     (if \<not> (RD_KAFKA_BROKER_STATE_UP \<le> rkb_state rkb \<and> rkb_transport rkb) then Some Assert_Failed
      else case x of
        Xmit_Fail \<Rightarrow>
          xbind (Some (rd_kafka_broker_fail conf now rkb RK_TRANSPORT)) (\<lambda>(rkb1, cbs).
            Some (Return (rkb1\<lparr>rkb_c_tx_err := rkb_c_tx_err rkb1 + 1\<rparr>, cbs, None)))
      | Xmit_Sent n \<Rightarrow>
          xbind (rd_slice_read sl n) (\<lambda>(sl1, r).
            Some (Return (rkb\<lparr>rkb_c_tx_bytes := rkb_c_tx_bytes rkb + int n, rkb_c_tx := rkb_c_tx rkb + 1\<rparr>,
                          [], Some (sl1, (case r of None \<Rightarrow> [] | Some bytes \<Rightarrow> bytes))))))"

text \<open>
  A correlation id is assigned on the first attempt on a connection. The broker's counter is a
  \<open>uint32_t\<close> that wraps around; the request keeps it as an \<open>int32_t\<close>.
\<close>

definition int32_of_u32 :: "int \<Rightarrow> int" where
  "int32_of_u32 c = (if c < 2 ^ 31 then c else c - 2 ^ 32)"

definition assign_corrid :: "rd_kafka_broker \<Rightarrow> rd_kafka_buf \<Rightarrow> (rd_kafka_broker \<times> rd_kafka_buf) outcome" where
  "assign_corrid rkb rkbuf =
     (if rkbuf_corrid rkbuf = 0 \<or> rkbuf_connid rkbuf \<noteq> rkb_connid rkb
      then obind (rd_assert (rd_slice_offset (rkbuf_reader rkbuf) = 0)) (\<lambda>_.
           let c = (rkb_corrid rkb + 1) mod 2 ^ 32;
               corrid = int32_of_u32 c
           in obind (rd_kafka_buf_update_i32 (rkbuf\<lparr>rkbuf_corrid := corrid\<rparr>) (4 + 2 + 2) (word_of_int corrid)) (\<lambda>b.
                Return (rkb\<lparr>rkb_corrid := c\<rparr>, b\<lparr>rkbuf_connid := rkb_connid rkb\<rparr>)))
      else obind (rd_assert (rd_slice_offset (rkbuf_reader rkbuf) \<le> RD_KAFKAP_REQHDR_SIZE \<or>
                             rkbuf_connid rkbuf = rkb_connid rkb)) (\<lambda>_. Return (rkb, rkbuf)))"

text \<open>The whole request has been sent: it moves to the requests in flight, or is called back.\<close>

definition request_sent ::
  "rd_kafka_broker \<Rightarrow> nat \<Rightarrow> rd_kafka_buf \<Rightarrow> int \<Rightarrow> (rd_kafka_broker \<times> rk_callback list) outcome" where
  "request_sent rkb addr b now =
     obind (rd_kafka_bufq_deq (rkb_outbufs rkb) addr) (\<lambda>(q, _).
       let b1 = b\<lparr>rkbuf_f_sent := True, rkbuf_ts_sent := now\<rparr>;
           rkb2 = blocking_cnt_add (rkbuf_f_blocking b1) 1 1 (rkb\<lparr>rkb_outbufs := q\<rparr>)
       in Return
         (if \<not> rkbuf_f_no_response b1
          then (rkb2\<lparr>rkb_waitresps := rd_kafka_bufq_enq (rkb_waitresps rkb2) addr b1\<rparr>, [])
          else (rkb2, [rd_kafka_buf_callback addr b1 RK_NO_ERROR None])))"

text \<open>
  One round of the loop of \<open>rd_kafka_send\<close> for the first request of the output queue. The last
  component tells how the loop goes on: Some is the return value, None another round.
\<close>

definition rd_kafka_send_round ::
  "rk_conf \<Rightarrow> xmit \<Rightarrow> int \<Rightarrow> rd_kafka_broker \<Rightarrow> nat \<Rightarrow> rd_kafka_buf \<Rightarrow>
   (rd_kafka_broker \<times> rk_callback list \<times> byte list \<times> int option) outcome option" where
  "rd_kafka_send_round conf x now rkb addr rkbuf =
     xbind (Some (assign_corrid rkb rkbuf)) (\<lambda>(rkb1, b1).
       let rkb1 = rkb1\<lparr>rkb_outbufs := replace_buf (rkb_outbufs rkb1) addr b1\<rparr>
       in xbind (rd_kafka_broker_send conf now rkb1 (rkbuf_reader b1) x) (\<lambda>(rkb2, cbs, r).
         case r of
           None \<Rightarrow> Some (Return (rkb2, cbs, [], Some (- 1)))
         | Some (sl, bytes) \<Rightarrow>
             let b2 = b1\<lparr>rkbuf_reader := sl\<rparr>;
                 rkb3 = rkb2\<lparr>rkb_ts_tx_last := now, rkb_outbufs := replace_buf (rkb_outbufs rkb2) addr b2\<rparr>
             in if 0 < rd_slice_remains sl then Some (Return (rkb3, cbs, bytes, Some 0))
                else xbind (Some (request_sent rkb3 addr b2 now)) (\<lambda>(rkb4, cbs').
                       Some (Return (rkb4, cbs @ cbs', bytes, None)))))"

text \<open>
  \<open>rd_kafka_send\<close>: \<open>xs\<close> has what the transport does and the clock shows in the successive calls;
  after the last entry the socket accepts nothing more. Every round that does not return takes
  a request off the output queue, so that its length plus one rounds are enough; running out of
  them would be the result None.
\<close>

fun rd_kafka_send_loop ::
  "nat \<Rightarrow> rk_conf \<Rightarrow> (xmit \<times> int) list \<Rightarrow> int \<Rightarrow> rd_kafka_broker \<Rightarrow>
   (rd_kafka_broker \<times> rk_callback list \<times> byte list \<times> int) outcome option" where
  "rd_kafka_send_loop 0 conf xs cnt rkb = None"
| "rd_kafka_send_loop (Suc fuel) conf xs cnt rkb =
     (if \<not> (RD_KAFKA_BROKER_STATE_UP \<le> rkb_state rkb \<and> rkbq_cnt (rkb_waitresps rkb) < rkb_max_inflight rkb)
      then Some (Return (rkb, [], [], cnt))
      else case rkbq_bufs (rkb_outbufs rkb) of
        [] \<Rightarrow> Some (Return (rkb, [], [], cnt))
      | (addr, rkbuf) # _ \<Rightarrow>
          if \<not> rd_kafka_broker_request_supported rkb rkbuf
          then xbind (Some (rd_kafka_bufq_deq (rkb_outbufs rkb) addr)) (\<lambda>(q, _).
               xbind (rd_kafka_send_loop fuel conf xs cnt (rkb\<lparr>rkb_outbufs := q\<rparr>)) (\<lambda>(rkb1, cbs, bytes, r).
                 Some (Return (rkb1, rd_kafka_buf_callback addr rkbuf RK_UNSUPPORTED_FEATURE None # cbs,
                               bytes, r))))
          else let (x, now) = (case xs of [] \<Rightarrow> (Xmit_Sent 0, rkb_ts_tx_last rkb) | e # _ \<Rightarrow> e)
               in xbind (rd_kafka_send_round conf x now rkb addr rkbuf) (\<lambda>(rkb1, cbs, bytes, r).
                    case r of
                      Some ret \<Rightarrow> Some (Return (rkb1, cbs, bytes, ret))
                    | None \<Rightarrow>
                        xbind (rd_kafka_send_loop fuel conf (tl xs) (cnt + 1) rkb1) (\<lambda>(rkb2, cbs', bytes', ret).
                          Some (Return (rkb2, cbs @ cbs', bytes @ bytes', ret)))))"

definition rd_kafka_send ::
  "rk_conf \<Rightarrow> (xmit \<times> int) list \<Rightarrow> rd_kafka_broker \<Rightarrow>
   (rd_kafka_broker \<times> rk_callback list \<times> byte list \<times> int) outcome option" where
  "rd_kafka_send conf xs rkb =
     rd_kafka_send_loop (length (rkbq_bufs (rkb_outbufs rkb)) + 1) conf xs 0 rkb"

section \<open>Retries\<close>

definition rd_kafka_broker_buf_retry ::
  "rk_conf \<Rightarrow> int \<Rightarrow> rd_kafka_broker \<Rightarrow> nat \<Rightarrow> rd_kafka_buf \<Rightarrow> rd_kafka_broker outcome" where
  "rd_kafka_broker_buf_retry conf clock rkb addr rkbuf =
     obind (int_mul (conf_retry_backoff_ms conf) 1000) (\<lambda>backoff.
     obind (rd_slice_seek (rkbuf_reader rkbuf) 0) (\<lambda>(sl, _).
       let b = rkbuf\<lparr>rkbuf_ts_retry := clock + backoff, rkbuf_ts_timeout := clock + backoff + 5 * 1000 * 1000,
                     rkbuf_reader := sl, rkbuf_corrid := 0\<rparr>
       in Return (rkb\<lparr>rkb_c_tx_retries := rkb_c_tx_retries rkb + 1,
                      rkb_retrybufs := rd_kafka_bufq_enq (rkb_retrybufs rkb) addr b\<rparr>)))"

text \<open>What an owner of a failed request does that wants it to be tried again.\<close>

definition retry_request ::
  "rk_conf \<Rightarrow> int \<Rightarrow> rd_kafka_broker \<Rightarrow> nat \<Rightarrow> rd_kafka_buf \<Rightarrow> (rd_kafka_broker \<times> bool) outcome" where
  "retry_request conf clock rkb addr rkbuf =
     (let rb = \<lparr>rb_internal = rkb_source_internal rkb, rb_terminating = rk_terminating conf,
                rb_max_retries = conf_max_retries conf\<rparr>
      in case rd_kafka_buf_retry clock (Some rb) rkbuf of
           (b, False) \<Rightarrow> Return (rkb, False)
         | (b, True) \<Rightarrow>
             obind (rd_kafka_broker_buf_retry conf clock rkb addr b) (\<lambda>rkb1. Return (rkb1, True)))"

fun retry_bufs_move_loop ::
  "rk_conf \<Rightarrow> int \<Rightarrow> rd_kafka_broker \<Rightarrow> (nat \<times> rd_kafka_buf) list \<Rightarrow> rd_kafka_broker outcome" where
  "retry_bufs_move_loop conf now rkb [] = Return rkb"
| "retry_bufs_move_loop conf now rkb ((addr, rkbuf) # rest) =
     (if rkbuf_ts_retry rkbuf > now then Return rkb
      else obind (rd_kafka_bufq_deq (rkb_retrybufs rkb) addr) (\<lambda>(q, _).
           obind (rd_kafka_broker_buf_enq0 conf now (rkb\<lparr>rkb_retrybufs := q\<rparr>) addr rkbuf) (\<lambda>rkb1.
             retry_bufs_move_loop conf now rkb1 rest)))"

definition rd_kafka_broker_retry_bufs_move :: "rk_conf \<Rightarrow> int \<Rightarrow> rd_kafka_broker \<Rightarrow> rd_kafka_broker outcome" where
  "rd_kafka_broker_retry_bufs_move conf now rkb =
     retry_bufs_move_loop conf now rkb (rkbq_bufs (rkb_retrybufs rkb))"

end
