(* ===== verification/Broker_Inv.thy ===== *)
theory Broker_Inv
  imports Broker "HOL-Library.Multiset"
begin

text \<open>
  The invariant of the request pipeline of \<open>Broker\<close>: the counters of the queues, the ownership
  of requests, the correlation ids in flight and the position of a partly sent request; and
  what each operation does to the three queues, stated on their lists of requests.
\<close>

section \<open>Queues\<close>

lemma filter_key: "a \<notin> fst ` set xs \<Longrightarrow> filter (\<lambda>(a', _). a' \<noteq> a) xs = xs"
  by (induction xs) auto

text \<open>What the pipeline relies on of a queue: the order of its entries and removal by key.\<close>

locale keyed_queue =
  fixes kq_inv :: "'q \<Rightarrow> bool"
    and kq_list :: "'q \<Rightarrow> (nat \<times> 'b) list"
    and kq_enq :: "'q \<Rightarrow> nat \<Rightarrow> 'b \<Rightarrow> 'q"
    and kq_deq :: "'q \<Rightarrow> nat \<Rightarrow> ('q \<times> 'b) outcome"
  assumes keys_distinct: "kq_inv q \<Longrightarrow> distinct (map fst (kq_list q))"
    and enq_law: "kq_inv q \<Longrightarrow> a \<notin> fst ` set (kq_list q) \<Longrightarrow>
      kq_inv (kq_enq q a b) \<and> kq_list (kq_enq q a b) = kq_list q @ [(a, b)]"
    and deq_law: "kq_inv q \<Longrightarrow> (a, b) \<in> set (kq_list q) \<Longrightarrow>
      \<exists>q'. kq_deq q a = Return (q', b) \<and> kq_inv q' \<and> kq_list q' = filter (\<lambda>(a', _). a' \<noteq> a) (kq_list q)"
begin

lemma deq_middle:
  assumes "kq_inv q" "kq_list q = pre @ (a, b) # post"
  shows "\<exists>q'. kq_deq q a = Return (q', b) \<and> kq_inv q' \<and> kq_list q' = pre @ post"
proof -
  have "a \<notin> fst ` set pre" "a \<notin> fst ` set post" using keys_distinct [OF assms(1)] assms(2) by auto
  then have "filter (\<lambda>(a', _). a' \<noteq> a) (kq_list q) = pre @ post"
    unfolding assms(2) by (simp add: filter_key)
  then show ?thesis using deq_law [OF assms(1), of a b] assms(2) by auto
qed

end

definition bufq_ok :: "rd_kafka_bufq \<Rightarrow> bool" where
  "bufq_ok q \<longleftrightarrow> rkbq_cnt q = int (length (rkbq_bufs q)) \<and>
     rkbq_msg_cnt q = (\<Sum>(_, b)\<leftarrow>rkbq_bufs q. buf_msgs b) \<and> distinct (map fst (rkbq_bufs q))"

lemma bufq_split:
  assumes "distinct (map fst xs)" "(a, b) \<in> set xs"
  obtains pre post where "xs = pre @ (a, b) # post" "filter (\<lambda>(a', _). a' \<noteq> a) xs = pre @ post"
    "map_of xs a = Some b"
proof -
  obtain pre post where xs: "xs = pre @ (a, b) # post" using assms(2) by (auto simp: in_set_conv_decomp)
  then have "a \<notin> fst ` set pre" "a \<notin> fst ` set post" using assms(1) by auto
  then have "filter (\<lambda>(a', _). a' \<noteq> a) xs = pre @ post" unfolding xs by (simp add: filter_key)
  moreover have "map_of xs a = Some b" using assms by (rule map_of_is_SomeI)
  ultimately show thesis using that xs by blast
qed

interpretation bq: keyed_queue bufq_ok rkbq_bufs rd_kafka_bufq_enq rd_kafka_bufq_deq
proof
  show "distinct (map fst (rkbq_bufs q))" if "bufq_ok q" for q using that by (simp add: bufq_ok_def)
  show "bufq_ok (rd_kafka_bufq_enq q a b) \<and>
      rkbq_bufs (rd_kafka_bufq_enq q a b) = rkbq_bufs q @ [(a, b)]"
    if "bufq_ok q" "a \<notin> fst ` set (rkbq_bufs q)" for q a b
    using that by (auto simp: bufq_ok_def rd_kafka_bufq_enq_def)
  show "\<exists>q'. rd_kafka_bufq_deq q a = Return (q', b) \<and> bufq_ok q' \<and>
      rkbq_bufs q' = filter (\<lambda>(a', _). a' \<noteq> a) (rkbq_bufs q)"
    if q: "bufq_ok q" "(a, b) \<in> set (rkbq_bufs q)" for q a b
  proof -
    have d: "distinct (map fst (rkbq_bufs q))" using q(1) by (simp add: bufq_ok_def)
    obtain pre post where xs: "rkbq_bufs q = pre @ (a, b) # post"
      "filter (\<lambda>(a', _). a' \<noteq> a) (rkbq_bufs q) = pre @ post" "map_of (rkbq_bufs q) a = Some b"
      by (rule bufq_split [OF d q(2)])
    have "0 < rkbq_cnt q" using q(1) xs(1) by (simp add: bufq_ok_def)
    then show ?thesis using q(1) xs d by (simp add: rd_kafka_bufq_deq_def bufq_ok_def)
  qed
qed

section \<open>Requests\<close>

text \<open>The bytes of a request start with the length of what follows the length field.\<close>

definition framed :: "byte list \<Rightarrow> bool" where
  "framed bs \<longleftrightarrow> 12 \<le> length bs \<and> length bs - 4 < 2 ^ 32 \<and>
     take 4 bs = be_enc 4 (of_nat (length bs - 4) :: u32)"

text \<open>A finalized request: the reader covers the whole buffer, of which a part may be sent.\<close>

definition rq_ok :: "rd_kafka_buf \<Rightarrow> bool" where
  "rq_ok b \<longleftrightarrow> \<not> rkbuf_f_crc b \<and> slice_inv (rkbuf_reader b) \<and> sl_buf (rkbuf_reader b) = rkbuf_buf b \<and>
     sl_start (rkbuf_reader b) = 0 \<and> sl_end (rkbuf_reader b) = rbuf_len (rkbuf_buf b) \<and>
     RD_KAFKAP_REQHDR_SIZE \<le> rbuf_len (rkbuf_buf b) \<and> framed (buf_bytes (rkbuf_buf b))"

definition rq_off :: "rd_kafka_buf \<Rightarrow> nat" where
  "rq_off b = rd_slice_offset (rkbuf_reader b)"

definition rq_bytes :: "rd_kafka_buf \<Rightarrow> byte list" where
  "rq_bytes b = buf_bytes (rkbuf_buf b)"

lemma rq_facts:
  assumes "rq_ok b"
  shows "slice_inv (rkbuf_reader b)" "rq_off b = rd_slice_abs_offset (rkbuf_reader b)"
    "length (rq_bytes b) = rbuf_len (rkbuf_buf b)" "slice_bytes (rkbuf_reader b) = drop (rq_off b) (rq_bytes b)"
    "slice_all (rkbuf_reader b) = rq_bytes b" "12 \<le> length (rq_bytes b)" "rq_off b \<le> length (rq_bytes b)"
proof -
  have inv: "slice_inv (rkbuf_reader b)" "buf_inv (rkbuf_buf b)" "sl_buf (rkbuf_reader b) = rkbuf_buf b"
    "sl_start (rkbuf_reader b) = 0" "sl_end (rkbuf_reader b) = rbuf_len (rkbuf_buf b)"
    using assms by (auto simp: rq_ok_def slice_inv_def)
  show "slice_inv (rkbuf_reader b)" by (rule inv(1))
  show off: "rq_off b = rd_slice_abs_offset (rkbuf_reader b)"
    using slice_offset_eq [OF inv(1)] inv(4) by (simp add: rq_off_def)
  show len: "length (rq_bytes b) = rbuf_len (rkbuf_buf b)"
    using buf_inv_length [OF inv(2)] by (simp add: rq_bytes_def)
  show "slice_bytes (rkbuf_reader b) = drop (rq_off b) (rq_bytes b)"
    using inv(3,5) off len by (simp add: slice_bytes_def rq_bytes_def)
  show "slice_all (rkbuf_reader b) = rq_bytes b"
    using inv(3-5) len by (simp add: slice_all_def rq_bytes_def)
  show "12 \<le> length (rq_bytes b)" using assms len by (simp add: rq_ok_def RD_KAFKAP_REQHDR_SIZE_def)
  show "rq_off b \<le> length (rq_bytes b)" using inv off len by (simp add: slice_inv_def)
qed

lemma rq_seek0:
  assumes "rq_ok b"
  shows "\<exists>sl. rd_slice_seek (rkbuf_reader b) 0 = Return (sl, True) \<and> rq_ok (b\<lparr>rkbuf_reader := sl\<rparr>) \<and>
    rq_off (b\<lparr>rkbuf_reader := sl\<rparr>) = 0"
proof -
  note f = rq_facts [OF assms]
  have ne: "rq_bytes b \<noteq> []" using f(6) by auto
  obtain sl where sl: "rd_slice_seek (rkbuf_reader b) 0 = Return (sl, True)" "slice_inv sl"
    "slice_bytes sl = slice_all (rkbuf_reader b)" "slice_window sl = slice_window (rkbuf_reader b)"
    using rd_slice_seek_spec [OF f(1), of 0] f(5) ne by auto
  have ok: "rq_ok (b\<lparr>rkbuf_reader := sl\<rparr>)" using assms sl(2,4) by (simp add: rq_ok_def slice_window_def)
  have "drop (rq_off (b\<lparr>rkbuf_reader := sl\<rparr>)) (rq_bytes b) = rq_bytes b"
    using rq_facts(4) [OF ok] sl(3) f(5) by (simp add: rq_bytes_def)
  then have "length (rq_bytes b) - rq_off (b\<lparr>rkbuf_reader := sl\<rparr>) = length (rq_bytes b)"
    by (metis length_drop)
  then have "rq_off (b\<lparr>rkbuf_reader := sl\<rparr>) = 0" using f(6) by linarith
  then show ?thesis using sl(1) ok by blast
qed

lemma rq_transmit:
  assumes "rq_ok b" "n \<le> rd_slice_remains (rkbuf_reader b)"
  shows "\<exists>sl. rd_slice_read (rkbuf_reader b) n
      = Some (Return (sl, Some (take n (drop (rq_off b) (rq_bytes b))))) \<and>
    rq_ok (b\<lparr>rkbuf_reader := sl\<rparr>) \<and> rq_off (b\<lparr>rkbuf_reader := sl\<rparr>) = rq_off b + n"
proof -
  note f = rq_facts [OF assms(1)]
  obtain sl where sl: "rd_slice_read (rkbuf_reader b) n = Some (Return (sl, Some (take n (slice_bytes (rkbuf_reader b)))))"
    "slice_inv sl" "rd_slice_abs_offset sl = rd_slice_abs_offset (rkbuf_reader b) + n"
    "slice_window sl = slice_window (rkbuf_reader b)"
    using rd_slice_read_spec [OF f(1), of n] slice_remains_eq(2) [OF f(1)] assms(2) by auto
  have ok: "rq_ok (b\<lparr>rkbuf_reader := sl\<rparr>)" using assms(1) sl(2,4) by (simp add: rq_ok_def slice_window_def)
  then show ?thesis using sl f(2,4) rq_facts(2) [OF ok] by auto
qed

lemma rq_remains: "rq_ok b \<Longrightarrow> rd_slice_remains (rkbuf_reader b) = length (rq_bytes b) - rq_off b"
  using slice_remains_eq(2) [OF rq_facts(1)] rq_facts(4) by simp

text \<open>A buffer that its own reader covers, and an update of its bytes.\<close>

definition reads_all :: "rd_kafka_buf \<Rightarrow> bool" where
  "reads_all b \<longleftrightarrow> \<not> rkbuf_f_crc b \<and> slice_inv (rkbuf_reader b) \<and> sl_buf (rkbuf_reader b) = rkbuf_buf b \<and>
     sl_start (rkbuf_reader b) = 0 \<and> sl_end (rkbuf_reader b) = rbuf_len (rkbuf_buf b)"

lemma rq_ok_iff: "rq_ok b \<longleftrightarrow> reads_all b \<and> 12 \<le> rbuf_len (rkbuf_buf b) \<and> framed (rq_bytes b)"
  by (auto simp: rq_ok_def reads_all_def RD_KAFKAP_REQHDR_SIZE_def rq_bytes_def)

lemma reads_all_off: "reads_all b \<Longrightarrow> rq_off b = rd_slice_abs_offset (rkbuf_reader b)"
  by (simp add: reads_all_def rq_off_def slice_offset_eq)

lemma update_reads_all:
  assumes b: "reads_all b"
    and upd: "off < rbuf_len (rkbuf_buf b)" "off + length xs \<le> rbuf_len (rkbuf_buf b)"
  obtains b' where "rd_kafka_buf_update b off xs = Return b'" "reads_all b'" "rq_off b' = rq_off b"
    "rq_bytes b' = overwrite off xs (rq_bytes b)" "rbuf_len (rkbuf_buf b') = rbuf_len (rkbuf_buf b)"
    "b' = b\<lparr>rkbuf_buf := rkbuf_buf b', rkbuf_reader := rkbuf_reader b'\<rparr>"
proof -
  have inv: "slice_inv (rkbuf_reader b)" "sl_buf (rkbuf_reader b) = rkbuf_buf b" "\<not> rkbuf_f_crc b"
    using b by (simp_all add: reads_all_def)
  obtain c where c: "rd_buf_write_update (rkbuf_buf b) off xs = Return (c, length xs)"
    "slice_inv ((rkbuf_reader b)\<lparr>sl_buf := c\<rparr>)" "rbuf_len c = rbuf_len (rkbuf_buf b)"
    "rd_slice_abs_offset ((rkbuf_reader b)\<lparr>sl_buf := c\<rparr>) = rd_slice_abs_offset (rkbuf_reader b)"
    "buf_bytes c = overwrite off xs (buf_bytes (rkbuf_buf b))"
    using slice_sees_update [OF inv(1), of off xs] inv(2) upd by auto
  let ?b = "b\<lparr>rkbuf_buf := c, rkbuf_reader := (rkbuf_reader b)\<lparr>sl_buf := c\<rparr>\<rparr>"
  have all: "reads_all ?b" using b c(2,3) by (simp add: reads_all_def)
  show thesis
    by (rule that [of ?b])
      (use all reads_all_off [OF all] reads_all_off [OF b] c inv(3) in
        \<open>simp_all add: rd_kafka_buf_update_def rq_bytes_def\<close>)
qed

lemma rq_set_corrid:
  assumes "rq_ok b"
  shows "\<exists>b'. rd_kafka_buf_update_i32 b 8 v = Return b' \<and> rq_ok b' \<and> rq_off b' = rq_off b \<and>
    rq_bytes b' = overwrite 8 (be_enc 4 v) (rq_bytes b) \<and>
    b' = b\<lparr>rkbuf_buf := rkbuf_buf b', rkbuf_reader := rkbuf_reader b'\<rparr>"
proof -
  have b: "reads_all b" "8 < rbuf_len (rkbuf_buf b)" "8 + length (be_enc 4 v) \<le> rbuf_len (rkbuf_buf b)"
    "framed (rq_bytes b)" using assms by (auto simp: rq_ok_iff)
  obtain b' where b': "rd_kafka_buf_update b 8 (be_enc 4 v) = Return b'" "reads_all b'" "rq_off b' = rq_off b"
    "rq_bytes b' = overwrite 8 (be_enc 4 v) (rq_bytes b)" "rbuf_len (rkbuf_buf b') = rbuf_len (rkbuf_buf b)"
    "b' = b\<lparr>rkbuf_buf := rkbuf_buf b', rkbuf_reader := rkbuf_reader b'\<rparr>"
    by (rule update_reads_all [OF b(1-3)])
  have "framed (rq_bytes b')" using b(4) b'(4) by (simp add: framed_def overwrite_def)
  then have "rq_ok b'" using b'(2,5) b(3) by (simp add: rq_ok_iff)
  then show ?thesis using b'(1,3,4,6) by (auto simp: rd_kafka_buf_update_i32_def)
qed

text \<open>\<open>rd_kafka_buf_finalize\<close> makes a request that the pipeline takes.\<close>

lemma init_reads_all:
  assumes "buf_inv (rkbuf_buf b)" "0 < rbuf_len (rkbuf_buf b)" "rbuf_len (rkbuf_buf b) < SIZE_MOD" "\<not> rkbuf_f_crc b"
  obtains sl where "rd_slice_init_full (rkbuf_buf b) = Return sl" "reads_all (b\<lparr>rkbuf_reader := sl\<rparr>)"
    "rq_off (b\<lparr>rkbuf_reader := sl\<rparr>) = 0"
proof -
  obtain sl where sl: "rd_slice_init_full (rkbuf_buf b) = Return sl" "slice_inv sl"
    "slice_bytes sl = buf_bytes (rkbuf_buf b)" "slice_window sl = (rkbuf_buf b, 0, rbuf_len (rkbuf_buf b))"
    using rd_slice_init_full_spec [OF assms(1,3,2)] by auto
  have all: "reads_all (b\<lparr>rkbuf_reader := sl\<rparr>)" using sl(2,4) assms(4) by (simp add: reads_all_def slice_window_def)
  have "rbuf_len (rkbuf_buf b) - rd_slice_abs_offset sl = rbuf_len (rkbuf_buf b)"
    using slice_remains_eq [OF sl(2)] sl(3,4) buf_inv_length [OF assms(1)] by (simp add: slice_window_def)
  then have "rd_slice_abs_offset sl = 0" using assms(2) by linarith
  then show thesis using that sl(1) all reads_all_off [OF all] by simp
qed

lemma finalize_ok:
  assumes b: "rk_winv b" "\<not> rkbuf_f_crc b"
    and len: "12 \<le> length (rk_wbytes b)" "length (rk_wbytes b) - 4 < 2 ^ 32" "length (rk_wbytes b) - 4 \<le> max_msg_size"
  shows "\<exists>b2. rd_kafka_buf_finalize max_msg_size b = Return b2 \<and> rq_ok b2 \<and> rq_off b2 = 0 \<and>
    b2 = b\<lparr>rkbuf_buf := rkbuf_buf b2, rkbuf_reader := rkbuf_reader b2\<rparr>"
proof -
  let ?n = "length (rk_wbytes b) - 4" and ?v = "word_of_int (rkbuf_ApiVersion b) :: u16"
  have inv: "buf_inv (rkbuf_buf b)" using b(1) by (simp add: rk_winv_def)
  have blen: "rbuf_len (rkbuf_buf b) = length (rk_wbytes b)" "length (rk_wbytes b) < SIZE_MOD"
    using buf_inv_length [OF inv] len by (simp_all add: rk_wbytes_def)
  obtain sl where sl: "rd_slice_init_full (rkbuf_buf b) = Return sl" "reads_all (b\<lparr>rkbuf_reader := sl\<rparr>)"
    "rq_off (b\<lparr>rkbuf_reader := sl\<rparr>) = 0"
    using init_reads_all [OF inv _ _ b(2)] blen len(1) by (metis le_zero_eq not_gr_zero zero_neq_numeral)
  obtain b1 where b1: "rd_kafka_buf_update (b\<lparr>rkbuf_reader := sl\<rparr>) 0 (be_enc 4 (of_nat ?n :: u32)) = Return b1"
    "reads_all b1" "rq_off b1 = rq_off (b\<lparr>rkbuf_reader := sl\<rparr>)"
    "rq_bytes b1 = overwrite 0 (be_enc 4 (of_nat ?n :: u32)) (rq_bytes (b\<lparr>rkbuf_reader := sl\<rparr>))"
    "rbuf_len (rkbuf_buf b1) = rbuf_len (rkbuf_buf (b\<lparr>rkbuf_reader := sl\<rparr>))"
    "b1 = b\<lparr>rkbuf_reader := sl, rkbuf_buf := rkbuf_buf b1, rkbuf_reader := rkbuf_reader b1\<rparr>"
    by (rule update_reads_all [OF sl(2), of 0 "be_enc 4 (of_nat ?n :: u32)"]) (use blen len(1) in auto)
  obtain b2 where b2: "rd_kafka_buf_update b1 6 (be_enc 2 ?v) = Return b2" "reads_all b2" "rq_off b2 = rq_off b1"
    "rq_bytes b2 = overwrite 6 (be_enc 2 ?v) (rq_bytes b1)" "rbuf_len (rkbuf_buf b2) = rbuf_len (rkbuf_buf b1)"
    "b2 = b1\<lparr>rkbuf_buf := rkbuf_buf b2, rkbuf_reader := rkbuf_reader b2\<rparr>"
    by (rule update_reads_all [OF b1(2), of 6 "be_enc 2 ?v"]) (use b1(5) blen len(1) in auto)
  have "framed (rq_bytes b2)"
    using b1(4) b2(4) len(1,2) by (simp add: framed_def overwrite_def rq_bytes_def rk_wbytes_def min_def) linarith
  then have "rq_ok b2" using b2(2,5) b1(5) blen len(1) by (simp add: rq_ok_iff)
  moreover have "rd_kafka_buf_finalize max_msg_size b = Return b2"
    using blen len sl(1) b1(1) b2(1)
    by (simp add: rd_kafka_buf_finalize_def rd_kafka_buf_update_i32_def rd_kafka_buf_update_i16_def)
  moreover have "b2 = b\<lparr>rkbuf_buf := rkbuf_buf b2, rkbuf_reader := rkbuf_reader b2\<rparr>"
    by (subst b2(6), subst b1(6)) simp
  ultimately show ?thesis using b2(3) b1(3) sl(3) by auto
qed

section \<open>The pipeline\<close>

type_synonym reqs = "(nat \<times> rd_kafka_buf) list"

definition rq_fresh :: "rd_kafka_buf \<Rightarrow> bool" where
  "rq_fresh b \<longleftrightarrow> rq_ok b \<and> \<not> (rkbuf_f_blocking b \<and> rkbuf_f_no_response b) \<and> rkbuf_corrid b = 0 \<and> rq_off b = 0"

text \<open>The header of the request carries its correlation id.\<close>

definition rq_tagged :: "rd_kafka_buf \<Rightarrow> bool" where
  "rq_tagged b \<longleftrightarrow> take 4 (drop 8 (rq_bytes b)) = be_enc 4 (word_of_int (rkbuf_corrid b) :: u32)"

text \<open>A request of the output queue that has a correlation id was tried on this connection.\<close>

definition out_ok :: "(rd_kafka_buf \<Rightarrow> bool) \<Rightarrow> int \<Rightarrow> int \<Rightarrow> rd_kafka_buf \<Rightarrow> bool" where
  "out_ok S connid corrid b \<longleftrightarrow> rq_ok b \<and> \<not> (rkbuf_f_blocking b \<and> rkbuf_f_no_response b) \<and>
     (if rkbuf_corrid b = 0 then rq_off b = 0
      else S b \<and> rq_tagged b \<and> rkbuf_connid b = connid \<and> 0 < rkbuf_corrid b \<and> rkbuf_corrid b \<le> corrid)"

definition wait_ok :: "int \<Rightarrow> rd_kafka_buf \<Rightarrow> bool" where
  "wait_ok corrid b \<longleftrightarrow> rq_ok b \<and> rq_tagged b \<and> 0 < rkbuf_corrid b \<and> rkbuf_corrid b \<le> corrid"

definition pipe_ok :: "(rd_kafka_buf \<Rightarrow> bool) \<Rightarrow> int \<Rightarrow> int \<Rightarrow> reqs \<Rightarrow> reqs \<Rightarrow> reqs \<Rightarrow> bool" where
  "pipe_ok S connid corrid out wait retry \<longleftrightarrow>
     distinct (map fst (out @ wait @ retry)) \<and>
     (\<forall>e \<in> set out. out_ok S connid corrid (snd e)) \<and> (\<forall>e \<in> set (tl out). rkbuf_corrid (snd e) = 0) \<and>
     (\<forall>e \<in> set wait. wait_ok corrid (snd e)) \<and> distinct (map (rkbuf_corrid \<circ> snd) wait) \<and>
     (\<forall>e \<in> set out. \<forall>w \<in> set wait. rkbuf_corrid (snd e) \<noteq> rkbuf_corrid (snd w)) \<and>
     (\<forall>e \<in> set retry. rq_fresh (snd e))"

lemma fresh_out_ok: "rq_fresh b \<Longrightarrow> out_ok S connid corrid b"
  by (simp add: rq_fresh_def out_ok_def)

lemma set_tl_subset: "set (tl xs) \<subseteq> set xs"
  by (cases xs) auto

lemma set_tl_filter: "set (tl (filter P xs)) \<subseteq> set (tl xs)"
proof (cases xs)
  case (Cons x xs')
  then show ?thesis using set_tl_subset [of "filter P xs'"] by auto
qed simp

lemma pipe_okD:
  assumes "pipe_ok S connid corrid out wait retry"
  shows "distinct (map fst out)" "distinct (map fst wait)" "distinct (map fst retry)"
    "fst ` set out \<inter> fst ` set wait = {}" "fst ` set out \<inter> fst ` set retry = {}"
    "fst ` set wait \<inter> fst ` set retry = {}"
    "\<And>e. e \<in> set out \<Longrightarrow> out_ok S connid corrid (snd e)"
    "\<And>e. e \<in> set (tl out) \<Longrightarrow> rkbuf_corrid (snd e) = 0"
    "\<And>e. e \<in> set wait \<Longrightarrow> wait_ok corrid (snd e)" "distinct (map (rkbuf_corrid \<circ> snd) wait)"
    "\<And>e w. e \<in> set out \<Longrightarrow> w \<in> set wait \<Longrightarrow> rkbuf_corrid (snd e) \<noteq> rkbuf_corrid (snd w)"
    "\<And>e. e \<in> set retry \<Longrightarrow> rq_fresh (snd e)"
  using assms unfolding pipe_ok_def by auto

lemma pipe_okI:
  assumes "distinct (map fst out)" "distinct (map fst wait)" "distinct (map fst retry)"
    "fst ` set out \<inter> fst ` set wait = {}" "fst ` set out \<inter> fst ` set retry = {}"
    "fst ` set wait \<inter> fst ` set retry = {}"
    "\<And>e. e \<in> set out \<Longrightarrow> out_ok S connid corrid (snd e)"
    "\<And>e. e \<in> set (tl out) \<Longrightarrow> rkbuf_corrid (snd e) = 0"
    "\<And>e. e \<in> set wait \<Longrightarrow> wait_ok corrid (snd e)" "distinct (map (rkbuf_corrid \<circ> snd) wait)"
    "\<And>e w. e \<in> set out \<Longrightarrow> w \<in> set wait \<Longrightarrow> rkbuf_corrid (snd e) \<noteq> rkbuf_corrid (snd w)"
    "\<And>e. e \<in> set retry \<Longrightarrow> rq_fresh (snd e)"
  shows "pipe_ok S connid corrid out wait retry"
proof -
  have "distinct (map fst (out @ wait @ retry))"
    using assms(1-6) by (simp add: Int_Un_distrib)
  then show ?thesis unfolding pipe_ok_def using assms(7-12) by blast
qed

lemma wait_corrid_nonzero: "pipe_ok S connid corrid out wait retry \<Longrightarrow> w \<in> set wait \<Longrightarrow> rkbuf_corrid (snd w) \<noteq> 0"
  using pipe_okD(9) [of S connid corrid out wait retry w] by (auto simp: wait_ok_def)

lemma image_fst_filter: "fst ` set (filter P xs) \<subseteq> fst ` set xs"
  by auto

lemma disjoint_sub: "A \<inter> B = {} \<Longrightarrow> A' \<subseteq> A \<Longrightarrow> B' \<subseteq> B \<Longrightarrow> A' \<inter> B' = {}"
  by blast

lemma pipe_filter:
  assumes "pipe_ok S connid corrid out wait retry"
  shows "pipe_ok S connid corrid (filter P out) (filter Q wait) (filter R retry)"
proof (rule pipe_okI)
  note p = pipe_okD [OF assms]
  show "distinct (map fst (filter P out))" "distinct (map fst (filter Q wait))"
    "distinct (map fst (filter R retry))" "distinct (map (rkbuf_corrid \<circ> snd) (filter Q wait))"
    using p(1,2,3,10) by (simp_all add: distinct_map_filter)
  show "fst ` set (filter P out) \<inter> fst ` set (filter Q wait) = {}"
    by (rule disjoint_sub [OF p(4) image_fst_filter image_fst_filter])
  show "fst ` set (filter P out) \<inter> fst ` set (filter R retry) = {}"
    by (rule disjoint_sub [OF p(5) image_fst_filter image_fst_filter])
  show "fst ` set (filter Q wait) \<inter> fst ` set (filter R retry) = {}"
    by (rule disjoint_sub [OF p(6) image_fst_filter image_fst_filter])
  show "rkbuf_corrid (snd e) = 0" if "e \<in> set (tl (filter P out))" for e
    using p(8) [of e] set_tl_filter [of P out] that by auto
  show "out_ok S connid corrid (snd e)" if "e \<in> set (filter P out)" for e using p(7) that by simp
  show "wait_ok corrid (snd e)" if "e \<in> set (filter Q wait)" for e using p(9) that by simp
  show "rkbuf_corrid (snd e) \<noteq> rkbuf_corrid (snd w)"
    if "e \<in> set (filter P out)" "w \<in> set (filter Q wait)" for e w using p(11) [of e w] that by simp
  show "rq_fresh (snd e)" if "e \<in> set (filter R retry)" for e using p(12) that by simp
qed

lemma pipe_insert:
  assumes "pipe_ok S connid corrid (xs @ ys) wait retry" "rq_fresh b"
    "a \<notin> fst ` (set xs \<union> set ys \<union> set wait \<union> set retry)"
    "xs = [] \<Longrightarrow> \<forall>e \<in> set ys. rkbuf_corrid (snd e) = 0"
  shows "pipe_ok S connid corrid (xs @ (a, b) # ys) wait retry"
proof (rule pipe_okI)
  note p = pipe_okD [OF assms(1)]
  show "distinct (map fst (xs @ (a, b) # ys))" using p(1) assms(3) by auto
  show "out_ok S connid corrid (snd e)" if "e \<in> set (xs @ (a, b) # ys)" for e
    using that p(7) [of e] fresh_out_ok [OF assms(2)] by auto
  show "rkbuf_corrid (snd e) = 0" if "e \<in> set (tl (xs @ (a, b) # ys))" for e
    using that p(8) [of e] assms(2,4) by (cases xs) (auto simp: rq_fresh_def)
  show "rkbuf_corrid (snd e) \<noteq> rkbuf_corrid (snd w)"
    if "e \<in> set (xs @ (a, b) # ys)" "w \<in> set wait" for e w
    using that p(11) [of e w] wait_corrid_nonzero [OF assms(1) that(2)] assms(2) by (auto simp: rq_fresh_def)
  show "fst ` set (xs @ (a, b) # ys) \<inter> fst ` set wait = {}"
    "fst ` set (xs @ (a, b) # ys) \<inter> fst ` set retry = {}" using p(4,5) assms(3) by auto
qed (use pipe_okD [OF assms(1)] in auto)

lemma pipe_retry:
  assumes "pipe_ok S connid corrid out wait retry" "rq_fresh b"
    "a \<notin> fst ` (set out \<union> set wait \<union> set retry)"
  shows "pipe_ok S connid corrid out wait (retry @ [(a, b)])"
  by (rule pipe_okI) (use pipe_okD [OF assms(1)] assms(2,3) in auto)

lemma pipe_head_update:
  assumes "pipe_ok S connid corrid ((a, b) # rest) wait retry" "corrid \<le> corrid'"
    "out_ok S connid corrid' b'" "\<And>w. w \<in> set wait \<Longrightarrow> rkbuf_corrid b' \<noteq> rkbuf_corrid (snd w)"
  shows "pipe_ok S connid corrid' ((a, b') # rest) wait retry"
proof (rule pipe_okI)
  note p = pipe_okD [OF assms(1)]
  show "out_ok S connid corrid' (snd e)" if "e \<in> set ((a, b') # rest)" for e
    using that p(7,8) [of e] assms(3) by (auto simp: out_ok_def)
  show "wait_ok corrid' (snd e)" if "e \<in> set wait" for e
    using p(9) [OF that] assms(2) by (simp add: wait_ok_def)
  show "rkbuf_corrid (snd e) \<noteq> rkbuf_corrid (snd w)" if "e \<in> set ((a, b') # rest)" "w \<in> set wait" for e w
    using that p(11) [of e w] assms(4) [of w] by auto
qed (use pipe_okD [OF assms(1)] in auto)

lemma pipe_head_sent:
  assumes "pipe_ok S connid corrid ((a, b) # rest) wait retry" "wait_ok corrid b'"
    "rkbuf_corrid b' = rkbuf_corrid b"
  shows "pipe_ok S connid corrid rest (wait @ [(a, b')]) retry"
proof (rule pipe_okI)
  note p = pipe_okD [OF assms(1)]
  have zero: "rkbuf_corrid (snd e) = 0" if "e \<in> set rest" for e using p(8) that by simp
  then show "rkbuf_corrid (snd e) = 0" if "e \<in> set (tl rest)" for e using that set_tl_subset [of rest] by blast
  show "rkbuf_corrid (snd e) \<noteq> rkbuf_corrid (snd w)"
    if "e \<in> set rest" "w \<in> set (wait @ [(a, b')])" for e w
    using that zero assms(2) p(11) [of e w] by (auto simp: wait_ok_def)
  have "rkbuf_corrid b \<noteq> rkbuf_corrid (snd w)" if "w \<in> set wait" for w
    using p(11) [of "(a, b)" w] that by simp
  then show "distinct (map (rkbuf_corrid \<circ> snd) (wait @ [(a, b')]))" using p(10) assms(3) by auto
  show "wait_ok corrid (snd e)" if "e \<in> set (wait @ [(a, b')])" for e using that p(9) [of e] assms(2) by auto
qed (use pipe_okD [OF assms(1)] in auto)

lemma pipe_drop_head:
  assumes "pipe_ok S connid corrid ((a, b) # rest) wait retry"
  shows "pipe_ok S connid corrid rest wait retry"
proof -
  have "filter (\<lambda>(a', _). a' \<noteq> a) ((a, b) # rest) = rest"
    using pipe_okD(1) [OF assms] filter_key [of a rest] by simp
  then show ?thesis
    using pipe_filter [OF assms, of "\<lambda>(a', _). a' \<noteq> a" "\<lambda>_. True" "\<lambda>_. True"] by simp
qed

section \<open>The invariant of the broker\<close>

abbreviation out_list :: "rd_kafka_broker \<Rightarrow> reqs" where "out_list rkb \<equiv> rkbq_bufs (rkb_outbufs rkb)"
abbreviation wait_list :: "rd_kafka_broker \<Rightarrow> reqs" where "wait_list rkb \<equiv> rkbq_bufs (rkb_waitresps rkb)"
abbreviation retry_list :: "rd_kafka_broker \<Rightarrow> reqs" where "retry_list rkb \<equiv> rkbq_bufs (rkb_retrybufs rkb)"

definition blocking_cnt :: "reqs \<Rightarrow> int" where
  "blocking_cnt q = int (length (filter (rkbuf_f_blocking \<circ> snd) q))"

definition broker_inv :: "rd_kafka_broker \<Rightarrow> bool" where
  "broker_inv rkb \<longleftrightarrow> bufq_ok (rkb_outbufs rkb) \<and> bufq_ok (rkb_waitresps rkb) \<and> bufq_ok (rkb_retrybufs rkb) \<and>
     pipe_ok (rd_kafka_broker_request_supported rkb) (rkb_connid rkb) (rkb_corrid rkb)
       (out_list rkb) (wait_list rkb) (retry_list rkb) \<and>
     0 \<le> rkb_corrid rkb \<and> rkb_blocking_request_cnt rkb = blocking_cnt (wait_list rkb) \<and>
     (RD_KAFKA_BROKER_STATE_UP \<le> rkb_state rkb \<longrightarrow> rkb_transport rkb) \<and>
     (\<not> rkb_transport rkb \<longrightarrow> (\<forall>e \<in> set (out_list rkb). rkbuf_corrid (snd e) = 0))"

text \<open>The requests the pipeline owns, and the bytes of the current request that were sent.\<close>

definition owned :: "rd_kafka_broker \<Rightarrow> nat multiset" where
  "owned rkb = mset (map fst (out_list rkb @ wait_list rkb @ retry_list rkb))"

definition partly_sent :: "rd_kafka_broker \<Rightarrow> byte list" where
  "partly_sent rkb = (case out_list rkb of [] \<Rightarrow> [] | (_, b) # _ \<Rightarrow> take (rq_off b) (rq_bytes b))"

definition called :: "rk_callback list \<Rightarrow> nat multiset" where
  "called cbs = mset (map cb_addr cbs)"

lemma called_simps [simp]:
  "called [] = {#}" "called (cb # cbs) = add_mset (cb_addr cb) (called cbs)"
  "called (cbs @ cbs') = called cbs + called cbs'"
  by (simp_all add: called_def)

lemma cb_addr_callback [simp]: "cb_addr (rd_kafka_buf_callback a b e r) = a"
  by (simp add: rd_kafka_buf_callback_def)

lemma partly_sent_Nil:
  assumes "pipe_ok S connid corrid (out_list rkb) wait retry"
    "out_list rkb \<noteq> [] \<Longrightarrow>
      rkbuf_corrid (snd (hd (out_list rkb))) = 0 \<or> rq_off (snd (hd (out_list rkb))) = 0"
  shows "partly_sent rkb = []"
proof (cases "out_list rkb")
  case (Cons e rest)
  then have "rq_off (snd e) = 0"
    using assms(2) pipe_okD(7) [OF assms(1), of e] by (auto simp: out_ok_def)
  then show ?thesis using Cons by (cases e) (simp add: partly_sent_def)
qed (simp add: partly_sent_def)

text \<open>
  The bytes on the wire are the whole requests \<open>frames\<close> and the part of the current request
  that was sent, as long as the connection lasts.
\<close>

definition wire_step :: "rd_kafka_broker \<Rightarrow> byte list \<Rightarrow> byte list list \<Rightarrow> rd_kafka_broker \<Rightarrow> bool" where
  "wire_step rkb bytes frames rkb' \<longleftrightarrow>
     (if rkb_transport rkb'
      then rkb_transport rkb \<and> partly_sent rkb @ bytes = concat frames @ partly_sent rkb' \<and> list_all framed frames
      else partly_sent rkb' = [])"

end
