(* ===== verification/Broker_Steps.thy ===== *)
theory Broker_Steps
  imports Broker_Inv
begin

text \<open>
  What each operation of the request pipeline does: that it keeps the invariant, which requests
  it takes over and which it hands back, and what happens to the bytes on the wire.
\<close>

section \<open>Fields that do not matter\<close>

lemma supported_cong:
  "rkb_features rkb = rkb_features rkb' \<Longrightarrow> rkb_ApiVersions rkb = rkb_ApiVersions rkb' \<Longrightarrow>
   rd_kafka_broker_request_supported rkb = rd_kafka_broker_request_supported rkb'"
  by (simp add: fun_eq_iff rd_kafka_broker_request_supported_def)

text \<open>Support depends on the request's API and features only.\<close>

lemma supported_request:
  "rkbuf_ApiKey b = rkbuf_ApiKey b' \<Longrightarrow> rkbuf_ApiVersion b = rkbuf_ApiVersion b' \<Longrightarrow>
   rkbuf_features b = rkbuf_features b' \<Longrightarrow>
   rd_kafka_broker_request_supported rkb b = rd_kafka_broker_request_supported rkb b'"
  by (simp add: rd_kafka_broker_request_supported_def split: option.split)

lemma broker_invI:
  assumes "bufq_ok (rkb_outbufs rkb')" "bufq_ok (rkb_waitresps rkb')" "bufq_ok (rkb_retrybufs rkb')"
    "pipe_ok (rd_kafka_broker_request_supported rkb) (rkb_connid rkb) (rkb_corrid rkb')
       (out_list rkb') (wait_list rkb') (retry_list rkb')"
    "rkb_features rkb' = rkb_features rkb" "rkb_ApiVersions rkb' = rkb_ApiVersions rkb"
    "rkb_connid rkb' = rkb_connid rkb" "0 \<le> rkb_corrid rkb'"
    "rkb_blocking_request_cnt rkb' = blocking_cnt (wait_list rkb')"
    "RD_KAFKA_BROKER_STATE_UP \<le> rkb_state rkb' \<Longrightarrow> rkb_transport rkb'"
    "\<And>e. \<not> rkb_transport rkb' \<Longrightarrow> e \<in> set (out_list rkb') \<Longrightarrow> rkbuf_corrid (snd e) = 0"
  shows "broker_inv rkb'"
  using assms supported_cong [of rkb' rkb] by (simp add: broker_inv_def)

lemma broker_invD:
  assumes "broker_inv rkb"
  shows "bufq_ok (rkb_outbufs rkb)" "bufq_ok (rkb_waitresps rkb)" "bufq_ok (rkb_retrybufs rkb)"
    "pipe_ok (rd_kafka_broker_request_supported rkb) (rkb_connid rkb) (rkb_corrid rkb)
       (out_list rkb) (wait_list rkb) (retry_list rkb)"
    "0 \<le> rkb_corrid rkb" "rkb_blocking_request_cnt rkb = blocking_cnt (wait_list rkb)"
    "RD_KAFKA_BROKER_STATE_UP \<le> rkb_state rkb \<Longrightarrow> rkb_transport rkb"
    "\<And>e. \<not> rkb_transport rkb \<Longrightarrow> e \<in> set (out_list rkb) \<Longrightarrow> rkbuf_corrid (snd e) = 0"
  using assms by (simp_all add: broker_inv_def)

lemma broker_inv_keep:
  assumes "broker_inv rkb"
    "rkb_outbufs rkb' = rkb_outbufs rkb" "rkb_waitresps rkb' = rkb_waitresps rkb"
    "rkb_retrybufs rkb' = rkb_retrybufs rkb" "rkb_features rkb' = rkb_features rkb"
    "rkb_ApiVersions rkb' = rkb_ApiVersions rkb" "rkb_connid rkb' = rkb_connid rkb"
    "rkb_corrid rkb' = rkb_corrid rkb" "rkb_blocking_request_cnt rkb' = rkb_blocking_request_cnt rkb"
    "RD_KAFKA_BROKER_STATE_UP \<le> rkb_state rkb' \<Longrightarrow> rkb_transport rkb'"
    "rkb_transport rkb' = rkb_transport rkb"
  shows "broker_inv rkb'"
  by (rule broker_invI [of rkb' rkb]) (use broker_invD [OF assms(1)] assms(2-) in simp_all)

lemma set_state_keeps [simp]:
  "rkb_outbufs (rd_kafka_broker_set_state conf now rkb st) = rkb_outbufs rkb"
  "rkb_waitresps (rd_kafka_broker_set_state conf now rkb st) = rkb_waitresps rkb"
  "rkb_retrybufs (rd_kafka_broker_set_state conf now rkb st) = rkb_retrybufs rkb"
  "rkb_features (rd_kafka_broker_set_state conf now rkb st) = rkb_features rkb"
  "rkb_ApiVersions (rd_kafka_broker_set_state conf now rkb st) = rkb_ApiVersions rkb"
  "rkb_connid (rd_kafka_broker_set_state conf now rkb st) = rkb_connid rkb"
  "rkb_corrid (rd_kafka_broker_set_state conf now rkb st) = rkb_corrid rkb"
  "rkb_blocking_request_cnt (rd_kafka_broker_set_state conf now rkb st) = rkb_blocking_request_cnt rkb"
  "rkb_transport (rd_kafka_broker_set_state conf now rkb st) = rkb_transport rkb"
  "rkb_state (rd_kafka_broker_set_state conf now rkb st) = st"
  by (auto simp: rd_kafka_broker_set_state_def set_state_up_cnt_def set_state_down_cnt_def Let_def
      rd_kafka_brokers_broadcast_state_change_def)

lemma owned_elems: "a \<in># owned rkb \<longleftrightarrow> a \<in> fst ` (set (out_list rkb) \<union> set (wait_list rkb) \<union> set (retry_list rkb))"
  by (auto simp: owned_def)

section \<open>Enqueuing\<close>

lemma calc_timeout_eq:
  assumes "rd_kafka_buf_calc_timeout tmo b now = Return b'"
  obtains t where "b' = b\<lparr>rkbuf_ts_timeout := t\<rparr>"
  using assms by (auto simp: rd_kafka_buf_calc_timeout_def obind_eq_Return split: if_splits)

lemma rq_fresh_times [simp]:
  "rq_fresh (b\<lparr>rkbuf_ts_enq := t\<rparr>) = rq_fresh b" "rq_fresh (b\<lparr>rkbuf_ts_timeout := t\<rparr>) = rq_fresh b"
  "rq_fresh (b\<lparr>rkbuf_ts_sent := t\<rparr>) = rq_fresh b" "rq_fresh (b\<lparr>rkbuf_f_sent := f\<rparr>) = rq_fresh b"
  by (simp_all add: rq_fresh_def rq_ok_def rq_off_def)

lemma buf_msgs_times [simp]:
  "buf_msgs (b\<lparr>rkbuf_ts_enq := t\<rparr>) = buf_msgs b" "buf_msgs (b\<lparr>rkbuf_ts_timeout := t\<rparr>) = buf_msgs b"
  "buf_msgs (b\<lparr>rkbuf_ts_sent := t\<rparr>) = buf_msgs b" "buf_msgs (b\<lparr>rkbuf_f_sent := f\<rparr>) = buf_msgs b"
  by (simp_all add: buf_msgs_def)

text \<open>Where a request goes: behind a request that was tried already, if there is one.\<close>

definition enq_split :: "rd_kafka_buf \<Rightarrow> reqs \<Rightarrow> reqs \<times> reqs" where
  "enq_split b q =
     (if rkbuf_prio b = RD_KAFKA_PRIO_NORMAL then (q, [])
      else let stays = (\<lambda>(_, prev). \<not> (rkbuf_prio prev < rkbuf_prio b \<and> rkbuf_corrid prev = 0))
           in (takeWhile stays q, dropWhile stays q))"

lemma enq_split_append: "enq_split b q = (xs, ys) \<Longrightarrow> q = xs @ ys"
  by (auto simp: enq_split_def Let_def split: if_splits)

lemma enq_split_head:
  "enq_split b q = ([], ys) \<Longrightarrow> q = [] \<or> rkbuf_corrid (snd (hd q)) = 0"
  by (cases q) (auto simp: enq_split_def Let_def split: if_splits)

lemma enq0_eq:
  assumes "rd_kafka_broker_buf_enq0 conf now rkb a b = Return rkb'"
  obtains t xs ys rkb1 where "enq_split b (out_list rkb) = (xs, ys)"
    "rkb' = rkb1\<lparr>rkb_outbufs := (rkb_outbufs rkb)\<lparr>rkbq_bufs :=
        xs @ (a, b\<lparr>rkbuf_ts_enq := now, rkbuf_f_sent := False, rkbuf_ts_timeout := t\<rparr>) # ys,
      rkbq_cnt := rkbq_cnt (rkb_outbufs rkb) + 1,
      rkbq_msg_cnt := rkbq_msg_cnt (rkb_outbufs rkb) + buf_msgs b\<rparr>\<rparr>"
    "rkb1 = rkb \<or> (rkb_state rkb = RD_KAFKA_BROKER_STATE_INIT \<and> rkb1 = rd_kafka_broker_set_state conf now
        (rkb\<lparr>rkb_persistconn_internal := rkb_persistconn_internal rkb + 1\<rparr>) RD_KAFKA_BROKER_STATE_TRY_CONNECT)"
proof -
  define rkb1 where "rkb1 = (if conf_sparse_connections conf \<and> rkb_state rkb = RD_KAFKA_BROKER_STATE_INIT
    then rd_kafka_broker_set_state conf now
      (rkb\<lparr>rkb_persistconn_internal := rkb_persistconn_internal rkb + 1\<rparr>) RD_KAFKA_BROKER_STATE_TRY_CONNECT
    else rkb)"
  have out: "rkb_outbufs rkb1 = rkb_outbufs rkb" by (simp add: rkb1_def)
  let ?b = "b\<lparr>rkbuf_ts_enq := now, rkbuf_f_sent := False\<rparr>"
  obtain b' where b': "rd_kafka_buf_calc_timeout (conf_socket_timeout_ms conf) ?b now = Return b'"
    "rkb' = rkb1\<lparr>rkb_outbufs := (rkb_outbufs rkb)\<lparr>rkbq_bufs :=
        (if rkbuf_prio b' = RD_KAFKA_PRIO_NORMAL then out_list rkb @ [(a, b')]
         else insert_prio (a, b') (out_list rkb)),
      rkbq_cnt := rkbq_cnt (rkb_outbufs rkb) + 1,
      rkbq_msg_cnt := rkbq_msg_cnt (rkb_outbufs rkb) + buf_msgs b'\<rparr>\<rparr>"
    using assms unfolding rd_kafka_broker_buf_enq0_def rkb1_def [symmetric]
    by (auto simp: obind_eq_Return Let_def out)
  obtain t where t: "b' = ?b\<lparr>rkbuf_ts_timeout := t\<rparr>" by (rule calc_timeout_eq [OF b'(1)])
  obtain xs ys where xs: "enq_split b (out_list rkb) = (xs, ys)" by fastforce
  show thesis
    by (rule that [where xs = xs and ys = ys and t = t and ?rkb1.0 = rkb1])
      (use b'(2) t xs rkb1_def in \<open>auto simp: enq_split_def insert_prio_def Let_def split: if_splits\<close>)
qed

lemma enq0_spec:
  assumes inv: "broker_inv rkb" and b: "rq_fresh b" "a \<notin># owned rkb"
    and enq: "rd_kafka_broker_buf_enq0 conf now rkb a b = Return rkb'"
  shows "broker_inv rkb'" "owned rkb' = add_mset a (owned rkb)" "partly_sent rkb' = partly_sent rkb"
    "rkb_transport rkb' = rkb_transport rkb" "retry_list rkb' = retry_list rkb"
proof -
  obtain t xs ys rkb1 where xs: "enq_split b (out_list rkb) = (xs, ys)"
    and eq: "rkb' = rkb1\<lparr>rkb_outbufs := (rkb_outbufs rkb)\<lparr>rkbq_bufs :=
        xs @ (a, b\<lparr>rkbuf_ts_enq := now, rkbuf_f_sent := False, rkbuf_ts_timeout := t\<rparr>) # ys,
      rkbq_cnt := rkbq_cnt (rkb_outbufs rkb) + 1,
      rkbq_msg_cnt := rkbq_msg_cnt (rkb_outbufs rkb) + buf_msgs b\<rparr>\<rparr>"
    and rkb1: "rkb1 = rkb \<or> (rkb_state rkb = RD_KAFKA_BROKER_STATE_INIT \<and> rkb1 = rd_kafka_broker_set_state conf now
        (rkb\<lparr>rkb_persistconn_internal := rkb_persistconn_internal rkb + 1\<rparr>) RD_KAFKA_BROKER_STATE_TRY_CONNECT)"
    by (rule enq0_eq [OF enq])
  let ?b = "b\<lparr>rkbuf_ts_enq := now, rkbuf_f_sent := False, rkbuf_ts_timeout := t\<rparr>"
  note i = broker_invD [OF inv] and app = enq_split_append [OF xs]
  have keep: "rkb_waitresps rkb1 = rkb_waitresps rkb" "rkb_retrybufs rkb1 = rkb_retrybufs rkb"
    "rkb_features rkb1 = rkb_features rkb" "rkb_ApiVersions rkb1 = rkb_ApiVersions rkb"
    "rkb_connid rkb1 = rkb_connid rkb" "rkb_corrid rkb1 = rkb_corrid rkb"
    "rkb_blocking_request_cnt rkb1 = rkb_blocking_request_cnt rkb" "rkb_transport rkb1 = rkb_transport rkb"
    "RD_KAFKA_BROKER_STATE_UP \<le> rkb_state rkb1 \<Longrightarrow> RD_KAFKA_BROKER_STATE_UP \<le> rkb_state rkb"
    using rkb1 by (auto simp: broker_state_defs)
  have zero: "\<forall>e \<in> set ys. rkbuf_corrid (snd e) = 0" if "xs = []"
    using enq_split_head [of b "out_list rkb" ys] xs app that pipe_okD(8) [OF i(4)]
    by (cases ys) auto
  have new: "a \<notin> fst ` (set xs \<union> set ys \<union> set (wait_list rkb) \<union> set (retry_list rkb))"
    using b(2) app by (auto simp: owned_elems)
  have pipe: "pipe_ok (rd_kafka_broker_request_supported rkb) (rkb_connid rkb) (rkb_corrid rkb)
      (xs @ (a, ?b) # ys) (wait_list rkb) (retry_list rkb)"
    by (rule pipe_insert [OF _ _ new zero]) (use i(4) app b(1) in simp_all)
  have q: "bufq_ok (rkb_outbufs rkb')" using i(1) new app eq by (auto simp: bufq_ok_def)
  show "broker_inv rkb'"
    by (rule broker_invI [of _ rkb]) (use i q pipe eq keep app b(1) in \<open>auto simp: rq_fresh_def\<close>)
  show "owned rkb' = add_mset a (owned rkb)" using eq app keep(1,2) by (simp add: owned_def)
  show "rkb_transport rkb' = rkb_transport rkb" "retry_list rkb' = retry_list rkb" using eq keep(2,8) by simp_all
  show "partly_sent rkb' = partly_sent rkb"
  proof (cases xs)
    case Nil
    have "rq_off (snd e) = 0" if "e \<in> set ys" for e
      using zero [OF Nil] pipe_okD(7) [OF i(4), of e] app that by (auto simp: out_ok_def)
    from this [of "hd ys"] have "partly_sent rkb = []"
      using app Nil by (cases ys) (auto simp: partly_sent_def)
    moreover have "rq_off ?b = 0" using b(1) by (simp add: rq_fresh_def rq_off_def)
    ultimately show ?thesis using eq Nil by (simp add: partly_sent_def)
  next
    case (Cons x xs')
    then show ?thesis using eq app by (auto simp: partly_sent_def)
  qed
qed

section \<open>Failure\<close>

lemma purge_called: "called (purge_callbacks q err) = mset (map fst (rkbq_bufs q))"
  by (simp add: purge_callbacks_def called_def case_prod_beta comp_def)

lemma bufq_init_ok [simp]: "bufq_ok rd_kafka_bufq_init" "rkbq_bufs rd_kafka_bufq_init = []"
  by (simp_all add: bufq_ok_def rd_kafka_bufq_init_def)

lemma feature_disable_keeps [simp]:
  "rkb_outbufs (rd_kafka_broker_feature_disable rkb f) = rkb_outbufs rkb"
  "rkb_waitresps (rd_kafka_broker_feature_disable rkb f) = rkb_waitresps rkb"
  "rkb_retrybufs (rd_kafka_broker_feature_disable rkb f) = rkb_retrybufs rkb"
  "rkb_corrid (rd_kafka_broker_feature_disable rkb f) = rkb_corrid rkb"
  "rkb_connid (rd_kafka_broker_feature_disable rkb f) = rkb_connid rkb"
  "rkb_transport (rd_kafka_broker_feature_disable rkb f) = rkb_transport rkb"
  "rkb_state (rd_kafka_broker_feature_disable rkb f) = rkb_state rkb"
  by (simp_all add: rd_kafka_broker_feature_disable_def)

lemma fail_lists:
  assumes "rd_kafka_broker_fail conf clock rkb err = Return (rkb', cbs)"
  shows "out_list rkb' = []" "wait_list rkb' = []" "rkb_retrybufs rkb' = rkb_retrybufs rkb"
    "bufq_ok (rkb_outbufs rkb')" "bufq_ok (rkb_waitresps rkb')" "rkb_corrid rkb' = rkb_corrid rkb"
    "rkb_blocking_request_cnt rkb' = 0" "rkb_state rkb' = RD_KAFKA_BROKER_STATE_DOWN"
    "called cbs = mset (map fst (wait_list rkb @ out_list rkb))" "\<not> rkb_transport rkb'"
proof -
  define rkb1 where "rkb1 = (if rkb_transport rkb
      then rkb\<lparr>rkb_transport := False, rkb_c_disconnects := rkb_c_disconnects rkb +
        (if RD_KAFKA_BROKER_STATE_UP \<le> rkb_state rkb then 1 else 0)\<rparr>
      else rkb)\<lparr>rkb_req_timeouts := 0\<rparr>"
  have r1: "rkb_outbufs rkb1 = rkb_outbufs rkb" "rkb_waitresps rkb1 = rkb_waitresps rkb"
    "rkb_retrybufs rkb1 = rkb_retrybufs rkb" "rkb_corrid rkb1 = rkb_corrid rkb" "\<not> rkb_transport rkb1"
    by (simp_all add: rkb1_def)
  define rkb2 where "rkb2 = (if rkb_state rkb1 = RD_KAFKA_BROKER_STATE_APIVERSION_QUERY
      then rd_kafka_broker_feature_disable rkb1 RD_KAFKA_FEATURE_APIVERSION else rkb1)"
  have r2: "rkb_outbufs rkb2 = rkb_outbufs rkb" "rkb_waitresps rkb2 = rkb_waitresps rkb"
    "rkb_retrybufs rkb2 = rkb_retrybufs rkb" "rkb_corrid rkb2 = rkb_corrid rkb" "\<not> rkb_transport rkb2"
    using r1 by (simp_all add: rkb2_def)
  show "out_list rkb' = []" "wait_list rkb' = []" "rkb_retrybufs rkb' = rkb_retrybufs rkb"
    "bufq_ok (rkb_outbufs rkb')" "bufq_ok (rkb_waitresps rkb')" "rkb_corrid rkb' = rkb_corrid rkb"
    "rkb_blocking_request_cnt rkb' = 0" "rkb_state rkb' = RD_KAFKA_BROKER_STATE_DOWN"
    "called cbs = mset (map fst (wait_list rkb @ out_list rkb))" "\<not> rkb_transport rkb'"
    using assms r2 unfolding rd_kafka_broker_fail_def rkb1_def [symmetric]
    by (auto simp: Let_def rd_kafka_bufq_concat_def purge_called rkb2_def [symmetric]
        rd_kafka_bufq_connection_reset_def)
qed

lemma fail_returns: obtains rkb' cbs where "rd_kafka_broker_fail conf clock rkb err = Return (rkb', cbs)"
  by (simp add: rd_kafka_broker_fail_def Let_def rd_kafka_bufq_concat_def rd_kafka_bufq_connection_reset_def)

lemma fail_spec:
  assumes inv: "broker_inv rkb" and fail: "rd_kafka_broker_fail conf clock rkb err = Return (rkb', cbs)"
  shows "broker_inv rkb'" "owned rkb' + called cbs = owned rkb" "\<not> rkb_transport rkb'" "partly_sent rkb' = []"
proof -
  note l = fail_lists [OF fail] and i = broker_invD [OF inv]
  have "pipe_ok S c (rkb_corrid rkb) [] [] (retry_list rkb)" for S c
    using pipe_okD [OF i(4)] by (simp add: pipe_ok_def)
  then show "broker_inv rkb'" unfolding broker_inv_def using l i(3,5)
    by (simp add: blocking_cnt_def broker_state_defs)
  show "owned rkb' + called cbs = owned rkb" using l by (simp add: owned_def)
  show "\<not> rkb_transport rkb'" "partly_sent rkb' = []" using l by (simp_all add: partly_sent_def)
qed

section \<open>Time-outs\<close>

definition not_due :: "int \<Rightarrow> int \<Rightarrow> rd_kafka_buf \<Rightarrow> bool" where
  "not_due ApiKey now b \<longleftrightarrow>
     (now \<noteq> 0 \<and> rkbuf_ts_timeout b > now) \<or> (ApiKey \<noteq> - 1 \<and> rkbuf_ApiKey b \<noteq> ApiKey)"

lemma timeout_loop_spec:
  "bufq_ok (sc_q sc) \<Longrightarrow> rkbq_bufs (sc_q sc) = pre @ rest \<Longrightarrow>
   \<exists>sc'. bufq_timeout_loop w ApiKey err now sc rest = Return sc' \<and> bufq_ok (sc_q sc') \<and>
     rkbq_bufs (sc_q sc') = pre @ filter (not_due ApiKey now \<circ> snd) rest \<and>
     called (sc_cbs sc') = called (sc_cbs sc) + mset (map fst (filter (\<lambda>e. \<not> not_due ApiKey now (snd e)) rest)) \<and>
     sc_cnt sc' = sc_cnt sc + int (length (filter (\<lambda>e. \<not> not_due ApiKey now (snd e)) rest)) \<and>
     sc_partial sc' = sc_partial sc + int (length (filter (\<lambda>e. \<not> not_due ApiKey now (snd e) \<and> 0 < rq_off (snd e)) rest)) \<and>
     sc_blocking sc' = sc_blocking sc -
       (if w then blocking_cnt (filter (\<lambda>e. \<not> not_due ApiKey now (snd e)) rest) else 0)"
proof (induction rest arbitrary: sc pre)
  case (Cons e rest)
  obtain a b where e: "e = (a, b)" by fastforce
  show ?case
  proof (cases "not_due ApiKey now b")
    case True
    then have skip: "bufq_timeout_loop w ApiKey err now sc (e # rest) = bufq_timeout_loop w ApiKey err now sc rest"
      by (simp add: e not_due_def)
    show ?thesis unfolding skip using Cons.IH [of sc "pre @ [e]"] Cons.prems True
      by (auto simp: e comp_def)
  next
    case False
    obtain q1 where q1: "rd_kafka_bufq_deq (sc_q sc) a = Return (q1, b)" "bufq_ok q1" "rkbq_bufs q1 = pre @ rest"
      using bq.deq_middle [OF Cons.prems(1), of pre a b rest] Cons.prems(2) e by auto
    obtain sc1 where sc1: "bufq_timeout_loop w ApiKey err now sc (e # rest) = bufq_timeout_loop w ApiKey err now sc1 rest"
      "sc_q sc1 = q1" "sc_cnt sc1 = sc_cnt sc + 1" "called (sc_cbs sc1) = add_mset a (called (sc_cbs sc))"
      "sc_partial sc1 = sc_partial sc + (if 0 < rq_off b then 1 else 0)"
      "sc_blocking sc1 = sc_blocking sc - (if w \<and> rkbuf_f_blocking b then 1 else 0)"
      using False q1(1) by (auto simp: e not_due_def Let_def rq_off_def)
    show ?thesis unfolding sc1(1) using Cons.IH [of sc1 pre] q1(2,3) sc1(2-) False
      by (auto simp: e blocking_cnt_def)
  qed
qed (simp add: blocking_cnt_def)

lemma blocking_cnt_split:
  "blocking_cnt q = blocking_cnt (filter P q) + blocking_cnt (filter (\<lambda>e. \<not> P e) q)"
  by (induction q) (auto simp: blocking_cnt_def)

lemma mset_fst_split:
  "mset (map fst q) = mset (map fst (filter P q)) + mset (map fst (filter (\<lambda>e. \<not> P e) q))"
  by (induction q) auto

text \<open>Requests leave the three queues, but not one that was sent in part.\<close>

lemma leave_spec:
  assumes inv: "broker_inv rkb"
    and q: "bufq_ok (rkb_outbufs rkb')" "bufq_ok (rkb_waitresps rkb')" "bufq_ok (rkb_retrybufs rkb')"
    and l: "out_list rkb' = filter P (out_list rkb)" "wait_list rkb' = filter Q (wait_list rkb)"
      "retry_list rkb' = filter R (retry_list rkb)"
    and keep: "rkb_features rkb' = rkb_features rkb" "rkb_ApiVersions rkb' = rkb_ApiVersions rkb"
      "rkb_connid rkb' = rkb_connid rkb" "rkb_corrid rkb' = rkb_corrid rkb"
      "rkb_transport rkb' = rkb_transport rkb" "rkb_state rkb' = rkb_state rkb"
      "rkb_blocking_request_cnt rkb' = blocking_cnt (filter Q (wait_list rkb))"
  shows "broker_inv rkb'"
    and "(\<And>e. e \<in> set (out_list rkb) \<Longrightarrow> 0 < rq_off (snd e) \<Longrightarrow> P e) \<Longrightarrow> partly_sent rkb' = partly_sent rkb"
    and "owned rkb' + mset (map fst (filter (\<lambda>e. \<not> P e) (out_list rkb))) +
      mset (map fst (filter (\<lambda>e. \<not> Q e) (wait_list rkb))) +
      mset (map fst (filter (\<lambda>e. \<not> R e) (retry_list rkb))) = owned rkb"
proof -
  note i = broker_invD [OF inv]
  show "broker_inv rkb'"
    by (rule broker_invI [of _ rkb]) (use i q l keep pipe_filter [OF i(4)] in auto)
  show "owned rkb' + mset (map fst (filter (\<lambda>e. \<not> P e) (out_list rkb))) +
      mset (map fst (filter (\<lambda>e. \<not> Q e) (wait_list rkb))) +
      mset (map fst (filter (\<lambda>e. \<not> R e) (retry_list rkb))) = owned rkb"
    using mset_fst_split [of "out_list rkb" P] mset_fst_split [of "wait_list rkb" Q]
      mset_fst_split [of "retry_list rkb" R] l
    by (simp add: owned_def ac_simps)
  show "partly_sent rkb' = partly_sent rkb"
    if part: "\<And>e. e \<in> set (out_list rkb) \<Longrightarrow> 0 < rq_off (snd e) \<Longrightarrow> P e"
  proof (cases "out_list rkb")
    case (Cons e rest)
    show ?thesis
    proof (cases "P e")
      case True
      then show ?thesis using l(1) Cons by (simp add: partly_sent_def)
    next
      case False
      then have "rq_off (snd e) = 0" using part [of e] Cons by auto
      then have "partly_sent rkb = []" using Cons by (cases e) (simp add: partly_sent_def)
      moreover have "partly_sent rkb' = []"
        by (rule partly_sent_Nil [OF broker_invD(4) [OF \<open>broker_inv rkb'\<close>]])
          (use l(1) Cons False pipe_okD(8) [OF i(4), of "hd (filter P rest)"] in \<open>auto dest!: hd_in_set\<close>)
      ultimately show ?thesis by simp
    qed
  qed (use l in \<open>simp add: partly_sent_def\<close>)
qed

lemma bufq_timeout_scan_spec:
  assumes "bufq_ok q"
  shows "\<exists>sc. rd_kafka_broker_bufq_timeout_scan rkb w q (- 1) err now = Return sc \<and> bufq_ok (sc_q sc) \<and>
     rkbq_bufs (sc_q sc) = filter (not_due (- 1) now \<circ> snd) (rkbq_bufs q) \<and>
     called (sc_cbs sc) = mset (map fst (filter (\<lambda>e. \<not> not_due (- 1) now (snd e)) (rkbq_bufs q))) \<and>
     sc_cnt sc = int (length (filter (\<lambda>e. \<not> not_due (- 1) now (snd e)) (rkbq_bufs q))) \<and>
     sc_partial sc = int (length (filter (\<lambda>e. \<not> not_due (- 1) now (snd e) \<and> 0 < rq_off (snd e)) (rkbq_bufs q))) \<and>
     (w \<longrightarrow> sc_blocking sc = rkb_blocking_request_cnt rkb -
       blocking_cnt (filter (\<lambda>e. \<not> not_due (- 1) now (snd e)) (rkbq_bufs q)))"
  using timeout_loop_spec [of "\<lparr>sc_q = q, sc_cnt = 0, sc_partial = 0, sc_blocking = rkb_blocking_request_cnt rkb,
        sc_broadcasts = 0, sc_cbs = []\<rparr>" "[]" "rkbq_bufs q" w "- 1" err now] assms
  by (auto simp: rd_kafka_broker_bufq_timeout_scan_def)

lemma timeout_scan_spec:
  assumes inv: "broker_inv rkb"
  shows "\<exists>rkb' cbs. rd_kafka_broker_timeout_scan conf rkb now = Return (rkb', cbs) \<and> broker_inv rkb' \<and>
    owned rkb' + called cbs = owned rkb \<and> wire_step rkb [] [] rkb'"
proof -
  note i = broker_invD [OF inv]
  let ?due = "\<lambda>e. \<not> not_due (- 1) now (snd e)" and ?keep = "not_due (- 1) now \<circ> snd"
  obtain inflight where inflight: "rd_kafka_broker_bufq_timeout_scan rkb True (rkb_waitresps rkb) (- 1) RK_TIMED_OUT now = Return inflight"
    "bufq_ok (sc_q inflight)" "rkbq_bufs (sc_q inflight) = filter ?keep (wait_list rkb)"
    "called (sc_cbs inflight) = mset (map fst (filter ?due (wait_list rkb)))"
    "sc_blocking inflight = rkb_blocking_request_cnt rkb - blocking_cnt (filter ?due (wait_list rkb))"
    "0 \<le> sc_cnt inflight"
    using bufq_timeout_scan_spec [OF i(2), of rkb True RK_TIMED_OUT now] by auto
  obtain retry where retry: "rd_kafka_broker_bufq_timeout_scan rkb False (rkb_retrybufs rkb) (- 1) RK_TIMED_OUT_QUEUE now = Return retry"
    "bufq_ok (sc_q retry)" "rkbq_bufs (sc_q retry) = filter ?keep (retry_list rkb)"
    "called (sc_cbs retry) = mset (map fst (filter ?due (retry_list rkb)))" "0 \<le> sc_cnt retry"
    using bufq_timeout_scan_spec [OF i(3), of rkb False RK_TIMED_OUT_QUEUE now] by auto
  obtain outq where outq: "rd_kafka_broker_bufq_timeout_scan rkb False (rkb_outbufs rkb) (- 1) RK_TIMED_OUT_QUEUE now = Return outq"
    "bufq_ok (sc_q outq)" "rkbq_bufs (sc_q outq) = filter ?keep (out_list rkb)"
    "called (sc_cbs outq) = mset (map fst (filter ?due (out_list rkb)))" "0 \<le> sc_cnt outq"
    "sc_partial outq = int (length (filter (\<lambda>e. ?due e \<and> 0 < rq_off (snd e)) (out_list rkb)))"
    using bufq_timeout_scan_spec [OF i(1), of rkb False RK_TIMED_OUT_QUEUE now] by auto
  define rkb1 where "rkb1 = rkb\<lparr>rkb_waitresps := sc_q inflight, rkb_retrybufs := sc_q retry,
    rkb_outbufs := sc_q outq, rkb_blocking_request_cnt := sc_blocking inflight,
    rkb_broadcasts := rkb_broadcasts rkb + sc_broadcasts inflight\<rparr>"
  define rkb2 where "rkb2 = rkb1\<lparr>rkb_req_timeouts := rkb_req_timeouts rkb1 + (sc_cnt inflight + sc_cnt outq),
    rkb_c_req_timeouts := rkb_c_req_timeouts rkb1 + (sc_cnt inflight + sc_cnt outq)\<rparr>"
  let ?cbs = "sc_cbs inflight @ sc_cbs retry @ sc_cbs outq"
  have leave: "broker_inv r" "owned r + called ?cbs = owned rkb" "rkb_transport r = rkb_transport rkb"
    "sc_partial outq \<le> 0 \<Longrightarrow> partly_sent r = partly_sent rkb" if r: "r = rkb1 \<or> r = rkb2" for r
  proof -
    have part: "?keep e" if "sc_partial outq \<le> 0" "e \<in> set (out_list rkb)" "0 < rq_off (snd e)" for e
      using that outq(6) by (auto simp: filter_empty_conv)
    have blk: "sc_blocking inflight = blocking_cnt (filter ?keep (wait_list rkb))"
      using inflight(5) i(6) blocking_cnt_split [of "wait_list rkb" ?keep] by simp
    have f: "bufq_ok (rkb_outbufs r)" "bufq_ok (rkb_waitresps r)" "bufq_ok (rkb_retrybufs r)"
      "out_list r = filter ?keep (out_list rkb)" "wait_list r = filter ?keep (wait_list rkb)"
      "retry_list r = filter ?keep (retry_list rkb)" "rkb_features r = rkb_features rkb"
      "rkb_ApiVersions r = rkb_ApiVersions rkb" "rkb_connid r = rkb_connid rkb" "rkb_corrid r = rkb_corrid rkb"
      "rkb_transport r = rkb_transport rkb" "rkb_state r = rkb_state rkb"
      "rkb_blocking_request_cnt r = blocking_cnt (filter ?keep (wait_list rkb))"
      using r inflight(2,3) retry(2,3) outq(2,3) blk by (auto simp: rkb1_def rkb2_def)
    note l = leave_spec [OF inv f]
    show "broker_inv r" "rkb_transport r = rkb_transport rkb" using l(1) f(11) by simp_all
    show "owned r + called ?cbs = owned rkb"
      using l(3) inflight(4) retry(4) outq(4) by (simp add: ac_simps)
    show "partly_sent r = partly_sent rkb" if "sc_partial outq \<le> 0" using l(2) part [OF that] by blast
  qed
  obtain rkb3 cbs3 where fail: "rd_kafka_broker_fail conf now rkb2 RK_TIMED_OUT = Return (rkb3, cbs3)"
    by (rule fail_returns)
  note f3 = fail_spec [OF leave(1) [of rkb2] fail]
  have res: "rd_kafka_broker_timeout_scan conf rkb now = Return
      (if sc_cnt inflight + sc_cnt retry + sc_cnt outq + sc_partial outq \<le> 0 then (rkb1, ?cbs)
       else if 0 < sc_partial outq \<or>
         (conf_socket_max_fails conf \<noteq> 0 \<and> conf_socket_max_fails conf \<le> rkb_req_timeouts rkb2 \<and>
          RD_KAFKA_BROKER_STATE_UP \<le> rkb_state rkb2)
       then (rkb3, ?cbs @ cbs3) else (rkb2, ?cbs))"
    unfolding rd_kafka_broker_timeout_scan_def
    by (simp add: inflight(1) retry(1) outq(1) Let_def rkb1_def [symmetric] rkb2_def [symmetric] fail)
  have "broker_inv r \<and> owned r + called ?cbs = owned rkb \<and> wire_step rkb [] [] r"
    if "r = rkb1 \<or> r = rkb2" "sc_partial outq \<le> 0" for r
    using leave [OF that(1)] that(2) partly_sent_Nil [OF i(4)] i(8)
    by (auto simp: wire_step_def dest!: hd_in_set)
  moreover have "owned rkb3 + called (?cbs @ cbs3) = owned rkb"
  proof -
    have "owned rkb3 + called (?cbs @ cbs3) = (owned rkb3 + called cbs3) + called ?cbs"
      by (simp add: ac_simps)
    also have "\<dots> = owned rkb" by (simp only: f3(2) leave(2) simp_thms)
    finally show ?thesis .
  qed
  then have "broker_inv rkb3 \<and> owned rkb3 + called (?cbs @ cbs3) = owned rkb \<and> wire_step rkb [] [] rkb3"
    using f3(1,3,4) by (simp add: wire_step_def)
  ultimately show ?thesis unfolding res using inflight(6) retry(5) outq(5) by auto
qed

definition toppar_stays :: "(rd_kafka_buf \<Rightarrow> bool) \<Rightarrow> nat \<times> rd_kafka_buf \<Rightarrow> bool" where
  "toppar_stays sel e \<longleftrightarrow> rkbuf_ApiKey (snd e) \<noteq> RD_KAFKAP_Produce \<or> \<not> sel (snd e) \<or> 0 < rq_off (snd e)"

lemma purge_by_toppar_loop_spec:
  "bufq_ok q \<Longrightarrow> rkbq_bufs q = pre @ rest \<Longrightarrow>
   \<exists>q' cbs. purge_by_toppar_loop sel err q rest = Return (q', cbs) \<and> bufq_ok q' \<and>
     rkbq_bufs q' = pre @ filter (toppar_stays sel) rest \<and>
     called cbs = mset (map fst (filter (\<lambda>e. \<not> toppar_stays sel e) rest))"
proof (induction rest arbitrary: q pre)
  case (Cons e rest)
  obtain a b where e: "e = (a, b)" by fastforce
  show ?case
  proof (cases "toppar_stays sel e")
    case True
    then have skip: "purge_by_toppar_loop sel err q (e # rest) = purge_by_toppar_loop sel err q rest"
      by (auto simp: e toppar_stays_def rq_off_def)
    show ?thesis unfolding skip using Cons.IH [of q "pre @ [e]"] Cons.prems True by auto
  next
    case False
    obtain q1 where q1: "rd_kafka_bufq_deq q a = Return (q1, b)" "bufq_ok q1" "rkbq_bufs q1 = pre @ rest"
      using bq.deq_middle [OF Cons.prems(1), of pre a b rest] Cons.prems(2) e by auto
    have step: "purge_by_toppar_loop sel err q (e # rest) = obind (purge_by_toppar_loop sel err q1 rest)
        (\<lambda>(q2, cbs). Return (q2, rd_kafka_buf_callback a b err None # cbs))"
      using False q1(1) by (auto simp: e toppar_stays_def rq_off_def)
    show ?thesis unfolding step using Cons.IH [OF q1(2,3)] False by (auto simp: e)
  qed
qed simp

lemma purge_by_toppar_spec:
  assumes inv: "broker_inv rkb"
    and purge: "rd_kafka_broker_bufq_purge_by_toppar (rkb_outbufs rkb) ApiKey sel err = Return (q, cbs)"
  shows "broker_inv (rkb\<lparr>rkb_outbufs := q\<rparr>)" "owned (rkb\<lparr>rkb_outbufs := q\<rparr>) + called cbs = owned rkb"
    "partly_sent (rkb\<lparr>rkb_outbufs := q\<rparr>) = partly_sent rkb"
proof -
  note i = broker_invD [OF inv]
  have q: "bufq_ok q" "rkbq_bufs q = filter (toppar_stays sel) (out_list rkb)"
    "called cbs = mset (map fst (filter (\<lambda>e. \<not> toppar_stays sel e) (out_list rkb)))"
    using purge purge_by_toppar_loop_spec [OF i(1), of "[]" "out_list rkb" sel err]
    by (auto simp: rd_kafka_broker_bufq_purge_by_toppar_def split: if_splits)
  have all: "wait_list rkb = filter (\<lambda>_. True) (wait_list rkb)" "retry_list rkb = filter (\<lambda>_. True) (retry_list rkb)"
    by simp_all
  note l = leave_spec [OF inv, of "rkb\<lparr>rkb_outbufs := q\<rparr>" "toppar_stays sel" "\<lambda>_. True" "\<lambda>_. True"]
  show "broker_inv (rkb\<lparr>rkb_outbufs := q\<rparr>)" using l(1) i q by simp
  show "owned (rkb\<lparr>rkb_outbufs := q\<rparr>) + called cbs = owned rkb" using l(3) i q by simp
  show "partly_sent (rkb\<lparr>rkb_outbufs := q\<rparr>) = partly_sent rkb"
    using l(2) i q by (simp add: toppar_stays_def)
qed

section \<open>Responses\<close>

lemma find_split:
  "find P xs = Some x \<Longrightarrow> \<exists>pre post. xs = pre @ x # post \<and> P x"
  by (induction xs) (auto split: if_splits intro: Cons_eq_appendI)

lemma broadcast_keeps [simp]:
  "rkb_outbufs (rd_kafka_brokers_broadcast_state_change rkb) = rkb_outbufs rkb"
  "rkb_waitresps (rd_kafka_brokers_broadcast_state_change rkb) = rkb_waitresps rkb"
  "rkb_retrybufs (rd_kafka_brokers_broadcast_state_change rkb) = rkb_retrybufs rkb"
  "rkb_features (rd_kafka_brokers_broadcast_state_change rkb) = rkb_features rkb"
  "rkb_ApiVersions (rd_kafka_brokers_broadcast_state_change rkb) = rkb_ApiVersions rkb"
  "rkb_connid (rd_kafka_brokers_broadcast_state_change rkb) = rkb_connid rkb"
  "rkb_corrid (rd_kafka_brokers_broadcast_state_change rkb) = rkb_corrid rkb"
  "rkb_blocking_request_cnt (rd_kafka_brokers_broadcast_state_change rkb) = rkb_blocking_request_cnt rkb"
  "rkb_transport (rd_kafka_brokers_broadcast_state_change rkb) = rkb_transport rkb"
  "rkb_state (rd_kafka_brokers_broadcast_state_change rkb) = rkb_state rkb"
  by (simp_all add: rd_kafka_brokers_broadcast_state_change_def)

lemma blocking_add_keeps [simp]:
  "rkb_outbufs (blocking_cnt_add f d n rkb) = rkb_outbufs rkb"
  "rkb_waitresps (blocking_cnt_add f d n rkb) = rkb_waitresps rkb"
  "rkb_retrybufs (blocking_cnt_add f d n rkb) = rkb_retrybufs rkb"
  "rkb_features (blocking_cnt_add f d n rkb) = rkb_features rkb"
  "rkb_ApiVersions (blocking_cnt_add f d n rkb) = rkb_ApiVersions rkb"
  "rkb_connid (blocking_cnt_add f d n rkb) = rkb_connid rkb"
  "rkb_corrid (blocking_cnt_add f d n rkb) = rkb_corrid rkb"
  "rkb_blocking_request_cnt (blocking_cnt_add f d n rkb) = rkb_blocking_request_cnt rkb + (if f then d else 0)"
  "rkb_transport (blocking_cnt_add f d n rkb) = rkb_transport rkb"
  "rkb_state (blocking_cnt_add f d n rkb) = rkb_state rkb"
  by (simp_all add: blocking_cnt_add_def Let_def)

text \<open>At most one request in flight has the correlation id of a response.\<close>

lemma waitresp_find_spec:
  assumes inv: "broker_inv rkb" and mem: "(a, b) \<in> set (wait_list rkb)"
  shows "\<exists>rkb'. rd_kafka_waitresp_find now rkb (rkbuf_corrid b)
      = Return (rkb', Some (a, b\<lparr>rkbuf_ts_sent := now - rkbuf_ts_sent b\<rparr>)) \<and>
    broker_inv rkb' \<and> owned rkb = add_mset a (owned rkb') \<and> partly_sent rkb' = partly_sent rkb \<and>
    rkb_transport rkb' = rkb_transport rkb \<and> wait_list rkb' = filter (\<lambda>(a', _). a' \<noteq> a) (wait_list rkb) \<and>
    out_list rkb' = out_list rkb \<and> retry_list rkb' = retry_list rkb"
proof -
  note i = broker_invD [OF inv]
  obtain a' b' where found: "find (\<lambda>(_, b'). rkbuf_corrid b' = rkbuf_corrid b) (wait_list rkb) = Some (a', b')"
    using mem find_None_iff [of "\<lambda>(_, b'). rkbuf_corrid b' = rkbuf_corrid b" "wait_list rkb"]
    by (cases "find (\<lambda>(_, b'). rkbuf_corrid b' = rkbuf_corrid b) (wait_list rkb)") auto
  then have "(a', b') \<in> set (wait_list rkb)" "rkbuf_corrid b' = rkbuf_corrid b"
    using find_split by fastforce+
  moreover have "inj_on (rkbuf_corrid \<circ> snd) (set (wait_list rkb))"
    using pipe_okD(10) [OF i(4)] by (simp add: distinct_map)
  ultimately have "(a', b') = (a, b)" using mem by (auto dest: inj_onD [where x = "(a', b')" and y = "(a, b)"])
  then have a': "a' = a" "b' = b" by simp_all
  obtain q where q: "rd_kafka_bufq_deq (rkb_waitresps rkb) a = Return (q, b)" "bufq_ok q"
    "rkbq_bufs q = filter (\<lambda>(a', _). a' \<noteq> a) (wait_list rkb)"
    using bq.deq_law [OF i(2) mem] by blast
  obtain pre post where w: "wait_list rkb = pre @ (a, b) # post" "rkbq_bufs q = pre @ post"
    using bufq_split [OF bq.keys_distinct [OF i(2)] mem] q(3) by metis
  let ?r = "(blocking_cnt_add (rkbuf_f_blocking b) (- 1) 1 rkb)\<lparr>rkb_waitresps := q\<rparr>"
  have res: "rd_kafka_waitresp_find now rkb (rkbuf_corrid b)
      = Return (?r, Some (a, b\<lparr>rkbuf_ts_sent := now - rkbuf_ts_sent b\<rparr>))"
    using found a' q(1) by (simp add: rd_kafka_waitresp_find_def Let_def)
  have "rkb_blocking_request_cnt ?r = blocking_cnt (rkbq_bufs q)"
    using i(6) w by (simp add: blocking_cnt_def)
  then have "broker_inv ?r"
    using leave_spec(1) [OF inv, of ?r "\<lambda>_. True" "\<lambda>(a', _). a' \<noteq> a" "\<lambda>_. True"] q i by simp
  moreover have "owned rkb = add_mset a (owned ?r)" using w by (simp add: owned_def)
  ultimately show ?thesis using res q(3) by (intro exI [of _ ?r]) (simp add: partly_sent_def)
qed

lemma waitresp_find_unknown:
  assumes "\<forall>e \<in> set (wait_list rkb). rkbuf_corrid (snd e) \<noteq> corrid"
  shows "rd_kafka_waitresp_find now rkb corrid = Return (rkb, None)"
proof -
  have "find (\<lambda>(_, b). rkbuf_corrid b = corrid) (wait_list rkb) = None"
    using assms by (auto simp: find_None_iff)
  then show ?thesis by (simp add: rd_kafka_waitresp_find_def)
qed

section \<open>Retries\<close>

lemma retry_kept:
  assumes "rd_kafka_buf_retry clock rb b = (b', True)"
  shows "rkbuf_reader b' = rkbuf_reader b" "rkbuf_buf b' = rkbuf_buf b" "rkbuf_f_crc b' = rkbuf_f_crc b"
    "rkbuf_f_blocking b' = rkbuf_f_blocking b" "rkbuf_f_no_response b' = rkbuf_f_no_response b"
  using assms by (auto simp: rd_kafka_buf_retry_def Let_def split: option.splits if_splits)

lemma retry_request_spec:
  assumes inv: "broker_inv rkb" and b: "rq_ok b" "\<not> (rkbuf_f_blocking b \<and> rkbuf_f_no_response b)" "a \<notin># owned rkb"
    and retry: "retry_request conf clock rkb a b = Return (rkb', True)"
  shows "broker_inv rkb'" "owned rkb' = add_mset a (owned rkb)"
    "partly_sent rkb' = partly_sent rkb" "rkb_transport rkb' = rkb_transport rkb"
proof -
  note i = broker_invD [OF inv]
  obtain b1 rb where b1: "rd_kafka_buf_retry clock (Some rb) b = (b1, True)"
    "rd_kafka_broker_buf_retry conf clock rkb a b1 = Return rkb'"
    using retry by (auto simp: retry_request_def Let_def obind_eq_Return split: prod.splits bool.splits)
  have ok: "rq_ok b1" "\<not> (rkbuf_f_blocking b1 \<and> rkbuf_f_no_response b1)"
    using b(1,2) retry_kept [OF b1(1)] by (simp_all add: rq_ok_def)
  obtain sl where sl: "rd_slice_seek (rkbuf_reader b1) 0 = Return (sl, True)"
    "rq_ok (b1\<lparr>rkbuf_reader := sl\<rparr>)" "rq_off (b1\<lparr>rkbuf_reader := sl\<rparr>) = 0"
    using rq_seek0 [OF ok(1)] by blast
  obtain t b2 where b2: "b2 = b1\<lparr>rkbuf_ts_retry := t, rkbuf_ts_timeout := t + 5 * 1000 * 1000,
      rkbuf_reader := sl, rkbuf_corrid := 0\<rparr>"
    "rkb' = rkb\<lparr>rkb_c_tx_retries := rkb_c_tx_retries rkb + 1,
      rkb_retrybufs := rd_kafka_bufq_enq (rkb_retrybufs rkb) a b2\<rparr>"
    using b1(2) sl(1) by (auto simp: rd_kafka_broker_buf_retry_def obind_eq_Return)
  have fresh: "rq_fresh b2" using sl(2,3) ok(2) by (simp add: b2(1) rq_fresh_def rq_ok_def rq_off_def)
  have new: "a \<notin> fst ` (set (out_list rkb) \<union> set (wait_list rkb) \<union> set (retry_list rkb))"
    using b(3) by (simp add: owned_elems)
  have q: "bufq_ok (rd_kafka_bufq_enq (rkb_retrybufs rkb) a b2)"
    "rkbq_bufs (rd_kafka_bufq_enq (rkb_retrybufs rkb) a b2) = retry_list rkb @ [(a, b2)]"
    using bq.enq_law [OF i(3), of a b2] new by auto
  show "broker_inv rkb'"
    by (rule broker_invI [of _ rkb]) (use i q b2(2) pipe_retry [OF i(4) fresh new] in simp_all)
  show "owned rkb' = add_mset a (owned rkb)" "partly_sent rkb' = partly_sent rkb"
    "rkb_transport rkb' = rkb_transport rkb"
    using q(2) b2(2) by (simp_all add: owned_def partly_sent_def)
qed

lemma retry_move_spec:
  "broker_inv rkb \<Longrightarrow> retry_list rkb = rest \<Longrightarrow> retry_bufs_move_loop conf now rkb rest = Return rkb' \<Longrightarrow>
   broker_inv rkb' \<and> owned rkb' = owned rkb \<and> partly_sent rkb' = partly_sent rkb \<and>
   rkb_transport rkb' = rkb_transport rkb"
proof (induction rest arbitrary: rkb)
  case (Cons e rest)
  obtain a b where e: "e = (a, b)" by fastforce
  note i = broker_invD [OF Cons.prems(1)]
  show ?case
  proof (cases "rkbuf_ts_retry b > now")
    case False
    obtain q where q: "rd_kafka_bufq_deq (rkb_retrybufs rkb) a = Return (q, b)" "bufq_ok q" "rkbq_bufs q = rest"
      using bq.deq_middle [OF i(3), of "[]" a b rest] Cons.prems(2) e by auto
    let ?r = "rkb\<lparr>rkb_retrybufs := q\<rparr>"
    have d: "a \<notin> fst ` set rest" using pipe_okD(3) [OF i(4)] Cons.prems(2) e by simp
    have rest: "rest = filter (\<lambda>(a', _). a' \<noteq> a) (retry_list rkb)"
      using Cons.prems(2) e filter_key [OF d] by simp
    have inv: "broker_inv ?r"
      using leave_spec(1) [OF Cons.prems(1), of ?r "\<lambda>_. True" "\<lambda>_. True" "\<lambda>(a', _). a' \<noteq> a"] q rest i
      by simp
    have own: "owned rkb = add_mset a (owned ?r)" using q(3) Cons.prems(2) e by (simp add: owned_def)
    have new: "a \<notin># owned ?r"
      using pipe_okD(5,6) [OF i(4)] d q(3) Cons.prems(2) e by (auto simp: owned_elems)
    have fresh: "rq_fresh b" using pipe_okD(12) [OF i(4), of e] Cons.prems(2) e by simp
    have "retry_bufs_move_loop conf now rkb (e # rest)
        = obind (rd_kafka_broker_buf_enq0 conf now ?r a b) (\<lambda>rkb1. retry_bufs_move_loop conf now rkb1 rest)"
      using False q(1) by (simp add: e)
    then obtain rkb1 where rkb1: "rd_kafka_broker_buf_enq0 conf now ?r a b = Return rkb1"
      "retry_bufs_move_loop conf now rkb1 rest = Return rkb'"
      using Cons.prems(3) by (cases "rd_kafka_broker_buf_enq0 conf now ?r a b") auto
    note enq = enq0_spec [OF inv fresh new rkb1(1)]
    have "broker_inv rkb' \<and> owned rkb' = owned rkb1 \<and> partly_sent rkb' = partly_sent rkb1 \<and>
        rkb_transport rkb' = rkb_transport rkb1"
      by (rule Cons.IH [OF enq(1) _ rkb1(2)]) (use enq(5) q(3) in simp)
    then show ?thesis using enq own by (simp add: partly_sent_def)
  qed (use Cons.prems e in simp)
qed simp

end
