(* ===== verification/Broker_Wire.thy ===== *)
theory Broker_Wire
  imports Broker_Steps
begin

text \<open>
  Sending requests: the bytes that \<open>rd_kafka_send\<close> passes to the transport, and the
  effect of the whole send loop on the invariant, the ownership of requests and the wire.
\<close>

section \<open>One request\<close>

lemma replace_head:
  assumes "bufq_ok q" "rkbq_bufs q = (a, b) # rest" "buf_msgs b' = buf_msgs b"
  shows "bufq_ok (replace_buf q a b')" "rkbq_bufs (replace_buf q a b') = (a, b') # rest"
proof -
  have "a \<notin> fst ` set rest" using bq.keys_distinct [OF assms(1)] assms(2) by simp
  then have "map (\<lambda>(x, y). if x = a then (x, b') else (x, y)) rest = rest"
    by (induction rest) auto
  then show eq: "rkbq_bufs (replace_buf q a b') = (a, b') # rest" using assms(2) by (simp add: replace_buf_def)
  have "rkbq_cnt (replace_buf q a b') = rkbq_cnt q" "rkbq_msg_cnt (replace_buf q a b') = rkbq_msg_cnt q"
    by (simp_all add: replace_buf_def)
  then show "bufq_ok (replace_buf q a b')"
    using assms unfolding bufq_ok_def eq by simp
qed

text \<open>The head of the output queue is replaced by the same request in a new state.\<close>

definition same_request :: "rd_kafka_buf \<Rightarrow> rd_kafka_buf \<Rightarrow> bool" where
  "same_request b b' \<longleftrightarrow> rkbuf_ApiKey b' = rkbuf_ApiKey b \<and> rkbuf_ApiVersion b' = rkbuf_ApiVersion b \<and>
     rkbuf_features b' = rkbuf_features b \<and> rkbuf_batch_len b' = rkbuf_batch_len b \<and>
     rkbuf_f_blocking b' = rkbuf_f_blocking b \<and> rkbuf_f_no_response b' = rkbuf_f_no_response b"

lemma same_request_msgs: "same_request b b' \<Longrightarrow> buf_msgs b' = buf_msgs b"
  by (simp add: same_request_def buf_msgs_def)

lemma same_request_supported:
  "same_request b b' \<Longrightarrow> rd_kafka_broker_request_supported rkb b' = rd_kafka_broker_request_supported rkb b"
  by (rule supported_request) (simp_all add: same_request_def)

lemma head_update:
  assumes inv: "broker_inv rkb" and out: "out_list rkb = (a, b) # rest" and tr: "rkb_transport rkb"
    and b': "same_request b b'" "rd_kafka_broker_request_supported rkb b" "rq_ok b'" "rq_tagged b'"
      "rkbuf_connid b' = rkb_connid rkb" "0 < rkbuf_corrid b'" "rkbuf_corrid b' \<le> c" "rkb_corrid rkb \<le> c"
      "rkbuf_corrid b' = rkbuf_corrid b \<or> rkb_corrid rkb < rkbuf_corrid b'"
    and r: "rkb' = rkb\<lparr>rkb_corrid := c, rkb_ts_tx_last := t, rkb_c_tx := n1, rkb_c_tx_bytes := n2,
      rkb_outbufs := replace_buf (rkb_outbufs rkb) a b'\<rparr>"
  shows "broker_inv rkb'" "out_list rkb' = (a, b') # rest" "owned rkb' = owned rkb"
proof -
  note i = broker_invD [OF inv]
  have rep: "bufq_ok (rkb_outbufs rkb')" "out_list rkb' = (a, b') # rest"
    using replace_head [OF i(1) out same_request_msgs [OF b'(1)]] r by simp_all
  have p: "pipe_ok (rd_kafka_broker_request_supported rkb) (rkb_connid rkb) (rkb_corrid rkb)
      ((a, b) # rest) (wait_list rkb) (retry_list rkb)" using i(4) out by simp
  have nb: "\<not> (rkbuf_f_blocking b' \<and> rkbuf_f_no_response b')"
    using pipe_okD(7) [OF p, of "(a, b)"] b'(1) by (auto simp: out_ok_def same_request_def)
  have "out_ok (rd_kafka_broker_request_supported rkb) (rkb_connid rkb) c b'"
    using b' nb same_request_supported [OF b'(1)] by (simp add: out_ok_def)
  moreover have "rkbuf_corrid b' \<noteq> rkbuf_corrid (snd w)" if "w \<in> set (wait_list rkb)" for w
    using pipe_okD(9) [OF p that] pipe_okD(11) [OF p, of "(a, b)" w] that b'(9) by (auto simp: wait_ok_def)
  ultimately have "pipe_ok (rd_kafka_broker_request_supported rkb) (rkb_connid rkb) c
      ((a, b') # rest) (wait_list rkb) (retry_list rkb)" by (rule pipe_head_update [OF p b'(8)])
  then show "broker_inv rkb'"
    by (intro broker_invI [of _ rkb]) (use i r rep b'(8) tr in simp_all)
  show "out_list rkb' = (a, b') # rest" by (rule rep(2))
  show "owned rkb' = owned rkb" using rep(2) out r by (simp add: owned_def)
qed

lemma assign_corrid_spec:
  assumes inv: "broker_inv rkb" and out: "out_list rkb = (a, b) # rest"
    and lim: "rkb_corrid rkb < 2 ^ 31 - 1"
  shows "\<exists>c b1. assign_corrid rkb b = Return (rkb\<lparr>rkb_corrid := c\<rparr>, b1) \<and> same_request b b1 \<and> rq_ok b1 \<and>
    rq_tagged b1 \<and> rkbuf_connid b1 = rkb_connid rkb \<and> 0 < rkbuf_corrid b1 \<and> rkbuf_corrid b1 \<le> c \<and>
    rkb_corrid rkb \<le> c \<and> c \<le> rkb_corrid rkb + 1 \<and>
    (rkbuf_corrid b1 = rkbuf_corrid b \<or> rkb_corrid rkb < rkbuf_corrid b1) \<and>
    rq_off b1 = rq_off b \<and> take (rq_off b) (rq_bytes b1) = take (rq_off b) (rq_bytes b) \<and>
    length (rq_bytes b1) = length (rq_bytes b)"
proof -
  note i = broker_invD [OF inv]
  have ok: "out_ok (rd_kafka_broker_request_supported rkb) (rkb_connid rkb) (rkb_corrid rkb) b"
    using pipe_okD(7) [OF i(4), of "(a, b)"] out by simp
  show ?thesis
  proof (cases "rkbuf_corrid b = 0")
    case True
    then have b: "rq_ok b" "rq_off b = 0" using ok by (simp_all add: out_ok_def)
    let ?c = "rkb_corrid rkb + 1" and ?w = "word_of_int (rkb_corrid rkb + 1) :: u32"
    have c: "(rkb_corrid rkb + 1) mod 4294967296 = ?c" "int32_of_u32 ?c = ?c"
      using lim i(5) by (simp_all add: int32_of_u32_def)
    have ok0: "rq_ok (b\<lparr>rkbuf_corrid := ?c\<rparr>)" using b(1) by (simp add: rq_ok_def)
    obtain b1 where b1: "rd_kafka_buf_update_i32 (b\<lparr>rkbuf_corrid := ?c\<rparr>) 8 ?w = Return b1" "rq_ok b1"
      "rq_off b1 = 0" "rq_bytes b1 = overwrite 8 (be_enc 4 ?w) (rq_bytes b)"
      "b1 = b\<lparr>rkbuf_corrid := ?c, rkbuf_buf := rkbuf_buf b1, rkbuf_reader := rkbuf_reader b1\<rparr>"
      using rq_set_corrid [OF ok0, of ?w] b(2) by (auto simp: rq_off_def rq_bytes_def)
    let ?b = "b1\<lparr>rkbuf_connid := rkb_connid rkb\<rparr>"
    have flds: "rkbuf_corrid ?b = ?c" "same_request b ?b"
      by (subst b1(5); simp add: same_request_def)+
    have "assign_corrid rkb b = Return (rkb\<lparr>rkb_corrid := ?c\<rparr>, ?b)"
      using True b(2) b1(1) by (simp add: assign_corrid_def rq_off_def Let_def c)
    moreover have "rq_ok ?b" "rq_off ?b = 0" using b1(2,3) by (simp_all add: rq_ok_def rq_off_def)
    moreover have "rq_tagged ?b"
      using flds(1) b1(4) rq_facts(6) [OF b(1)] by (simp add: rq_tagged_def rq_bytes_def overwrite_def)
    moreover have "length (rq_bytes ?b) = length (rq_bytes b)"
      using b1(4) rq_facts(6) [OF b(1)] by (simp add: rq_bytes_def)
    ultimately show ?thesis using flds i(5) b(2)
      by (intro exI [of _ ?c] exI [of _ ?b]) simp
  next
    case False
    then have "rkbuf_connid b = rkb_connid rkb" "rq_ok b" "rq_tagged b" "0 < rkbuf_corrid b"
      "rkbuf_corrid b \<le> rkb_corrid rkb" using ok by (simp_all add: out_ok_def)
    then show ?thesis
      by (intro exI [of _ "rkb_corrid rkb"] exI [of _ b]) (simp add: assign_corrid_def same_request_def)
  qed
qed

text \<open>What the transport took of a request, whatever it claims to have taken.\<close>

lemma transport_took:
  assumes "rq_ok b"
  obtains sl m r where "rd_slice_read (rkbuf_reader b) n = Some (Return (sl, r))"
    "(case r of None \<Rightarrow> [] | Some bytes \<Rightarrow> bytes) = take m (drop (rq_off b) (rq_bytes b))"
    "rq_ok (b\<lparr>rkbuf_reader := sl\<rparr>)" "rq_off (b\<lparr>rkbuf_reader := sl\<rparr>) = rq_off b + m"
proof (cases "n \<le> rd_slice_remains (rkbuf_reader b)")
  case True
  then show thesis using rq_transmit [OF assms True] that by fastforce
next
  case False
  then have "rd_slice_read (rkbuf_reader b) n = Some (Return (rkbuf_reader b, None))"
    using rd_slice_read_short [OF rq_facts(1) [OF assms]] slice_remains_eq(2) [OF rq_facts(1) [OF assms]] by simp
  then show thesis using that [of "rkbuf_reader b" None 0] assms by simp
qed

lemma request_sent_spec:
  assumes inv: "broker_inv rkb" and out: "out_list rkb = (a, b) # rest" and tr: "rkb_transport rkb"
    and b: "rkbuf_corrid b \<noteq> 0"
  shows "\<exists>rkb' cbs. request_sent rkb a b now = Return (rkb', cbs) \<and> broker_inv rkb' \<and> out_list rkb' = rest \<and>
    owned rkb' + called cbs = owned rkb \<and> partly_sent rkb' = [] \<and> rkb_transport rkb' \<and>
    rkb_corrid rkb' = rkb_corrid rkb \<and> rkb_state rkb' = rkb_state rkb"
proof -
  note i = broker_invD [OF inv]
  have p: "pipe_ok (rd_kafka_broker_request_supported rkb) (rkb_connid rkb) (rkb_corrid rkb)
      ((a, b) # rest) (wait_list rkb) (retry_list rkb)" using i(4) out by simp
  have ob: "out_ok (rd_kafka_broker_request_supported rkb) (rkb_connid rkb) (rkb_corrid rkb) b"
    using pipe_okD(7) [OF p, of "(a, b)"] by simp
  obtain q where q: "rd_kafka_bufq_deq (rkb_outbufs rkb) a = Return (q, b)" "bufq_ok q" "rkbq_bufs q = rest"
    using bq.deq_middle [OF i(1), of "[]" a b rest] out by auto
  let ?b = "b\<lparr>rkbuf_f_sent := True, rkbuf_ts_sent := now\<rparr>"
  let ?r = "blocking_cnt_add (rkbuf_f_blocking b) 1 1 (rkb\<lparr>rkb_outbufs := q\<rparr>)"
  have wait: "wait_ok (rkb_corrid rkb) ?b"
    using ob b by (simp add: out_ok_def wait_ok_def rq_ok_def rq_tagged_def rq_bytes_def)
  have zero: "rkbuf_corrid (snd (hd rest)) = 0" if "rest \<noteq> []" using pipe_okD(8) [OF p, of "hd rest"] that by simp
  show ?thesis
  proof (cases "rkbuf_f_no_response b")
    case False
    let ?r' = "?r\<lparr>rkb_waitresps := rd_kafka_bufq_enq (rkb_waitresps rkb) a ?b\<rparr>"
    have "a \<notin> fst ` set (wait_list rkb)" using pipe_okD(4) [OF p] by auto
    then have w: "bufq_ok (rkb_waitresps ?r')" "wait_list ?r' = wait_list rkb @ [(a, ?b)]"
      using bq.enq_law [OF i(2)] by simp_all
    have inv': "broker_inv ?r'"
      by (rule broker_invI [of _ rkb])
        (use i q w tr pipe_head_sent [OF p wait] in \<open>simp_all add: blocking_cnt_def\<close>)
    have "request_sent rkb a b now = Return (?r', [])"
      using False q(1) by (simp add: request_sent_def Let_def)
    moreover have "partly_sent ?r' = []"
      by (rule partly_sent_Nil [OF broker_invD(4) [OF inv']]) (use q(3) zero in simp)
    ultimately show ?thesis using inv' q(3) w(2) tr out by (simp add: owned_def)
  next
    case True
    then have nb: "\<not> rkbuf_f_blocking b" using ob by (simp add: out_ok_def)
    have inv': "broker_inv ?r"
      by (rule broker_invI [of _ rkb]) (use i q tr pipe_drop_head [OF p] nb in simp_all)
    have "request_sent rkb a b now = Return (?r, [rd_kafka_buf_callback a ?b RK_NO_ERROR None])"
      using True q(1) by (simp add: request_sent_def Let_def)
    moreover have "partly_sent ?r = []"
      by (rule partly_sent_Nil [OF broker_invD(4) [OF inv']]) (use q(3) zero in simp)
    ultimately show ?thesis using inv' q(3) tr out by (simp add: owned_def)
  qed
qed

text \<open>The result of a round: what was put on the wire and whether the loop goes on.\<close>

lemma send_round_spec:
  assumes inv: "broker_inv rkb" and out: "out_list rkb = (a, b) # rest"
    and sup: "rd_kafka_broker_request_supported rkb b" and up: "RD_KAFKA_BROKER_STATE_UP \<le> rkb_state rkb"
    and lim: "rkb_corrid rkb < 2 ^ 31 - 1"
  shows "\<exists>rkb' cbs bytes r frames. rd_kafka_send_round conf x now rkb a b = Some (Return (rkb', cbs, bytes, r)) \<and>
    broker_inv rkb' \<and> owned rkb' + called cbs = owned rkb \<and> wire_step rkb bytes frames rkb' \<and>
    (r = None \<longrightarrow> out_list rkb' = rest \<and> rkb_corrid rkb' \<le> rkb_corrid rkb + 1)"
proof -
  have tr: "rkb_transport rkb" using broker_invD(7) [OF inv up] .
  obtain c b1 where ac: "assign_corrid rkb b = Return (rkb\<lparr>rkb_corrid := c\<rparr>, b1)" "same_request b b1"
    "rq_ok b1" "rq_tagged b1" "rkbuf_connid b1 = rkb_connid rkb" "0 < rkbuf_corrid b1"
    "rkbuf_corrid b1 \<le> c" "rkb_corrid rkb \<le> c" "c \<le> rkb_corrid rkb + 1"
    "rkbuf_corrid b1 = rkbuf_corrid b \<or> rkb_corrid rkb < rkbuf_corrid b1" "rq_off b1 = rq_off b"
    "take (rq_off b) (rq_bytes b1) = take (rq_off b) (rq_bytes b)"
    using assign_corrid_spec [OF inv out lim] by blast
  define rkb1 where "rkb1 = rkb\<lparr>rkb_corrid := c, rkb_outbufs := replace_buf (rkb_outbufs rkb) a b1\<rparr>"
  have h1: "broker_inv rkb1" "out_list rkb1 = (a, b1) # rest" "owned rkb1 = owned rkb"
    by (rule head_update [OF inv out tr ac(2) sup ac(3-8,10), where t = "rkb_ts_tx_last rkb"
          and ?n1.0 = "rkb_c_tx rkb" and ?n2.0 = "rkb_c_tx_bytes rkb"]; simp add: rkb1_def)+
  have f1: "rkb_state rkb1 = rkb_state rkb" "rkb_transport rkb1" "rkb_connid rkb1 = rkb_connid rkb"
    "rkb_corrid rkb1 = c" "rd_kafka_broker_request_supported rkb1 b1"
    using tr sup same_request_supported [OF ac(2), of rkb1] supported_cong [of rkb1 rkb]
    by (simp_all add: rkb1_def)
  have part: "partly_sent rkb = take (rq_off b1) (rq_bytes b1)" using out ac(11,12) by (simp add: partly_sent_def)
  show ?thesis
  proof (cases x)
    case Xmit_Fail
    obtain rkb2 cbs where fail: "rd_kafka_broker_fail conf now rkb1 RK_TRANSPORT = Return (rkb2, cbs)"
      by (rule fail_returns)
    note f = fail_spec [OF h1(1) fail]
    let ?r = "rkb2\<lparr>rkb_c_tx_err := rkb_c_tx_err rkb2 + 1\<rparr>"
    have "rd_kafka_send_round conf x now rkb a b = Some (Return (?r, cbs, [], Some (- 1)))"
      using Xmit_Fail ac(1) tr up fail
      by (simp add: rd_kafka_send_round_def rd_kafka_broker_send_def Let_def rkb1_def [symmetric])
    moreover have "broker_inv ?r"
      by (rule broker_inv_keep [OF f(1)]) (use f(3) broker_invD(7) [OF f(1)] in auto)
    moreover have "wire_step rkb [] [] ?r" using f(3,4) by (simp add: wire_step_def partly_sent_def)
    moreover have "owned ?r + called cbs = owned rkb" using f(2) h1(3) by (simp add: owned_def)
    ultimately show ?thesis by blast
  next
    case (Xmit_Sent n)
    obtain sl m r where took: "rd_slice_read (rkbuf_reader b1) n = Some (Return (sl, r))"
      "(case r of None \<Rightarrow> [] | Some bytes \<Rightarrow> bytes) = take m (drop (rq_off b1) (rq_bytes b1))"
      "rq_ok (b1\<lparr>rkbuf_reader := sl\<rparr>)" "rq_off (b1\<lparr>rkbuf_reader := sl\<rparr>) = rq_off b1 + m"
      by (rule transport_took [OF ac(3)])
    let ?bytes = "take m (drop (rq_off b1) (rq_bytes b1))"
    define b2 where "b2 = b1\<lparr>rkbuf_reader := sl\<rparr>"
    define rkb3 where "rkb3 = rkb1\<lparr>rkb_ts_tx_last := now, rkb_c_tx := rkb_c_tx rkb1 + 1,
      rkb_c_tx_bytes := rkb_c_tx_bytes rkb1 + int n, rkb_outbufs := replace_buf (rkb_outbufs rkb1) a b2\<rparr>"
    have b2: "same_request b1 b2" "rq_ok b2" "rq_tagged b2" "rkbuf_connid b2 = rkb_connid rkb1"
      "0 < rkbuf_corrid b2" "rkbuf_corrid b2 \<le> c" "rkb_corrid rkb1 \<le> c" "rkbuf_corrid b2 = rkbuf_corrid b1 \<or> rkb_corrid rkb1 < rkbuf_corrid b2"
      "rq_bytes b2 = rq_bytes b1" "rq_off b2 = rq_off b1 + m" "rkbuf_reader b2 = sl"
      using took(3,4) ac f1(3,4) by (simp_all add: b2_def same_request_def rq_tagged_def rq_bytes_def)
    have h3: "broker_inv rkb3" "out_list rkb3 = (a, b2) # rest" "owned rkb3 = owned rkb1"
      by (rule head_update [OF h1(1,2) f1(2) b2(1) f1(5) b2(2-8), where t = now
            and ?n1.0 = "rkb_c_tx rkb1 + 1" and ?n2.0 = "rkb_c_tx_bytes rkb1 + int n"];
          use f1(4) in \<open>simp add: rkb3_def\<close>)+
    have f3: "rkb_transport rkb3" "rkb_corrid rkb3 = c" using f1(2,4) by (simp_all add: rkb3_def)
    have bytes: "partly_sent rkb @ ?bytes = take (rq_off b2) (rq_bytes b2)"
      using part b2(9,10) by (simp add: take_add)
    have rkb3_eq: "rkb1\<lparr>rkb_c_tx_bytes := rkb_c_tx_bytes rkb + int n, rkb_c_tx := rkb_c_tx rkb + 1,
        rkb_ts_tx_last := now, rkb_outbufs := replace_buf (rkb_outbufs rkb1) a b2\<rparr> = rkb3"
      by (simp add: rkb3_def rkb1_def)
    have send: "rd_kafka_send_round conf x now rkb a b =
        (if 0 < rd_slice_remains sl then Some (Return (rkb3, [], ?bytes, Some 0))
         else xbind (Some (request_sent rkb3 a b2 now)) (\<lambda>(rkb4, cbs'). Some (Return (rkb4, cbs', ?bytes, None))))"
      using Xmit_Sent ac(1) tr up took(1,2)
      by (simp add: rd_kafka_send_round_def rd_kafka_broker_send_def Let_def rkb1_def [symmetric]
          b2_def [symmetric] rkb3_eq)
    show ?thesis
    proof (cases "0 < rd_slice_remains sl")
      case True
      have "wire_step rkb ?bytes [] rkb3" using bytes tr f3(1) h3(2) by (simp add: wire_step_def partly_sent_def)
      then show ?thesis using send True h3 h1(3) by force
    next
      case False
      then have all: "take (rq_off b2) (rq_bytes b2) = rq_bytes b2" using rq_remains [OF b2(2)] b2(11) by simp
      obtain rkb4 cbs where s4: "request_sent rkb3 a b2 now = Return (rkb4, cbs)" "broker_inv rkb4"
        "out_list rkb4 = rest" "owned rkb4 + called cbs = owned rkb3" "partly_sent rkb4 = []" "rkb_transport rkb4"
        "rkb_corrid rkb4 = rkb_corrid rkb3"
        using request_sent_spec [OF h3(1,2) f3(1), of now] b2(5) by auto
      have "framed (rq_bytes b2)" using b2(2) by (simp add: rq_ok_def rq_bytes_def)
      then have "wire_step rkb ?bytes [rq_bytes b2] rkb4" using bytes all tr s4(5,6) by (simp add: wire_step_def)
      then show ?thesis using send False s4 h3(3) h1(3) f3(2) ac(9) by force
    qed
  qed
qed

section \<open>The send loop\<close>

lemma wire_step_trans:
  "wire_step rkb xs fs rkb1 \<Longrightarrow> wire_step rkb1 ys gs rkb2 \<Longrightarrow> wire_step rkb (xs @ ys) (fs @ gs) rkb2"
  by (auto simp: wire_step_def split: if_splits)
    (metis append.assoc)

lemma wire_step_refl: "broker_inv rkb \<Longrightarrow> wire_step rkb [] [] rkb"
  using partly_sent_Nil [OF broker_invD(4)] broker_invD(8) [of rkb "hd (out_list rkb)"]
  by (auto simp: wire_step_def)

lemma drop_unsupported:
  assumes inv: "broker_inv rkb" and out: "out_list rkb = (a, b) # rest"
    and sup: "\<not> rd_kafka_broker_request_supported rkb b"
  shows "\<exists>q. rd_kafka_bufq_deq (rkb_outbufs rkb) a = Return (q, b) \<and> broker_inv (rkb\<lparr>rkb_outbufs := q\<rparr>) \<and>
    rkbq_bufs q = rest \<and> owned rkb = add_mset a (owned (rkb\<lparr>rkb_outbufs := q\<rparr>)) \<and>
    wire_step rkb [] [] (rkb\<lparr>rkb_outbufs := q\<rparr>)"
proof -
  note i = broker_invD [OF inv]
  obtain q where q: "rd_kafka_bufq_deq (rkb_outbufs rkb) a = Return (q, b)" "bufq_ok q" "rkbq_bufs q = rest"
    using bq.deq_middle [OF i(1), of "[]" a b rest] out by auto
  let ?r = "rkb\<lparr>rkb_outbufs := q\<rparr>"
  have p: "pipe_ok (rd_kafka_broker_request_supported rkb) (rkb_connid rkb) (rkb_corrid rkb)
      ((a, b) # rest) (wait_list rkb) (retry_list rkb)" using i(4) out by simp
  have inv': "broker_inv ?r"
    by (rule broker_invI [of _ rkb]) (use i q out pipe_drop_head [OF p] in auto)
  have "rkbuf_corrid b = 0" using pipe_okD(7) [OF p, of "(a, b)"] sup by (auto simp: out_ok_def split: if_splits)
  then have "partly_sent rkb = []" by (intro partly_sent_Nil [OF i(4)]) (simp add: out)
  moreover have "partly_sent ?r = []"
    by (rule partly_sent_Nil [OF broker_invD(4) [OF inv']]) (use q(3) pipe_okD(8) [OF p, of "hd rest"] in auto)
  ultimately show ?thesis using q inv' out by (simp add: wire_step_def owned_def)
qed

lemma send_loop_spec:
  "broker_inv rkb \<Longrightarrow> length (out_list rkb) < fuel \<Longrightarrow>
   rkb_corrid rkb + int (length (out_list rkb)) \<le> 2 ^ 31 - 1 \<Longrightarrow>
   \<exists>rkb' cbs bytes ret frames. rd_kafka_send_loop fuel conf xs cnt rkb = Some (Return (rkb', cbs, bytes, ret)) \<and>
     broker_inv rkb' \<and> owned rkb' + called cbs = owned rkb \<and> wire_step rkb bytes frames rkb'"
proof (induction fuel arbitrary: rkb xs cnt)
  case (Suc fuel)
  note i = broker_invD [OF Suc.prems(1)]
  let ?go = "RD_KAFKA_BROKER_STATE_UP \<le> rkb_state rkb \<and> rkbq_cnt (rkb_waitresps rkb) < rkb_max_inflight rkb"
  show ?case
  proof (cases "?go \<and> out_list rkb \<noteq> []")
    case False
    then have "rd_kafka_send_loop (Suc fuel) conf xs cnt rkb = Some (Return (rkb, [], [], cnt))"
      by (auto split: list.split)
    then show ?thesis using Suc.prems(1) wire_step_refl [OF Suc.prems(1)] by force
  next
    case True
    then obtain a b rest where go: ?go and out: "out_list rkb = (a, b) # rest" by (cases "out_list rkb") auto
    show ?thesis
    proof (cases "rd_kafka_broker_request_supported rkb b")
      case False
      obtain q where q: "rd_kafka_bufq_deq (rkb_outbufs rkb) a = Return (q, b)" "rkbq_bufs q = rest"
        "broker_inv (rkb\<lparr>rkb_outbufs := q\<rparr>)" "owned rkb = add_mset a (owned (rkb\<lparr>rkb_outbufs := q\<rparr>))"
        "wire_step rkb [] [] (rkb\<lparr>rkb_outbufs := q\<rparr>)" using drop_unsupported [OF Suc.prems(1) out False] by auto
      obtain rkb' cbs bytes ret frames where ih:
        "rd_kafka_send_loop fuel conf xs cnt (rkb\<lparr>rkb_outbufs := q\<rparr>) = Some (Return (rkb', cbs, bytes, ret))"
        "broker_inv rkb'" "owned rkb' + called cbs = owned (rkb\<lparr>rkb_outbufs := q\<rparr>)"
        "wire_step (rkb\<lparr>rkb_outbufs := q\<rparr>) bytes frames rkb'"
        using Suc.IH [OF q(3), of xs cnt] Suc.prems(2,3) out q(2) by auto
      have "rd_kafka_send_loop (Suc fuel) conf xs cnt rkb
          = Some (Return (rkb', rd_kafka_buf_callback a b RK_UNSUPPORTED_FEATURE None # cbs, bytes, ret))"
        using go False by (simp add: out q(1) ih(1))
      then show ?thesis using ih(2,3) q(4) wire_step_trans [OF q(5) ih(4)] by force
    next
      case True
      obtain x now where x: "(case xs of [] \<Rightarrow> (Xmit_Sent 0, rkb_ts_tx_last rkb) | e # _ \<Rightarrow> e) = (x, now)" by fastforce
      obtain rkb1 cbs bytes r frames where rd:
        "rd_kafka_send_round conf x now rkb a b = Some (Return (rkb1, cbs, bytes, r))" "broker_inv rkb1"
        "owned rkb1 + called cbs = owned rkb" "wire_step rkb bytes frames rkb1"
        "r = None \<longrightarrow> out_list rkb1 = rest \<and> rkb_corrid rkb1 \<le> rkb_corrid rkb + 1"
        using send_round_spec [OF Suc.prems(1) out True, of conf x now] go Suc.prems(3) out by auto
      have step: "rd_kafka_send_loop (Suc fuel) conf xs cnt rkb =
          (case r of Some ret \<Rightarrow> Some (Return (rkb1, cbs, bytes, ret))
           | None \<Rightarrow> xbind (rd_kafka_send_loop fuel conf (tl xs) (cnt + 1) rkb1) (\<lambda>(rkb2, cbs', bytes', ret).
               Some (Return (rkb2, cbs @ cbs', bytes @ bytes', ret))))"
        using go True by (simp add: out x rd(1))
      show ?thesis
      proof (cases r)
        case (Some ret)
        then show ?thesis unfolding step using rd by auto
      next
        case None
        then have o1: "out_list rkb1 = rest" "rkb_corrid rkb1 \<le> rkb_corrid rkb + 1" using rd(5) by auto
        obtain rkb2 cbs' bytes' ret frames' where ih:
          "rd_kafka_send_loop fuel conf (tl xs) (cnt + 1) rkb1 = Some (Return (rkb2, cbs', bytes', ret))"
          "broker_inv rkb2" "owned rkb2 + called cbs' = owned rkb1" "wire_step rkb1 bytes' frames' rkb2"
          using Suc.IH [OF rd(2), of "tl xs" "cnt + 1"] Suc.prems(2,3) out o1 by auto
        have "owned rkb2 + called (cbs @ cbs') = (owned rkb2 + called cbs') + called cbs"
          by (simp add: ac_simps)
        then have "owned rkb2 + called (cbs @ cbs') = owned rkb" by (simp only: ih(3) rd(3))
        then show ?thesis unfolding step None using ih(1,2) wire_step_trans [OF rd(4) ih(4)] by auto
      qed
    qed
  qed
qed simp

end
