(* ===== verification/Broker_Run.thy ===== *)
theory Broker_Run
  imports Broker_Wire
begin

text \<open>
  Runs of the request pipeline as sequences of the broker thread's operations. In every run the
  counters are right, no request is lost or handed back twice, the bytes on a connection are
  whole requests, and a response finds the request it answers.
\<close>

section \<open>Steps and runs\<close>

text \<open>A broker as \<open>rd_kafka_broker_add\<close> leaves it: no requests, no connection.\<close>

definition broker_start :: "rd_kafka_broker \<Rightarrow> bool" where
  "broker_start rkb \<longleftrightarrow> rkb_outbufs rkb = rd_kafka_bufq_init \<and> rkb_waitresps rkb = rd_kafka_bufq_init \<and>
     rkb_retrybufs rkb = rd_kafka_bufq_init \<and> rkb_corrid rkb = 0 \<and> rkb_blocking_request_cnt rkb = 0 \<and>
     \<not> rkb_transport rkb \<and> rkb_state rkb < RD_KAFKA_BROKER_STATE_UP"

text \<open>
  A step has the requests that their owners passed in, the callbacks that handed requests back
  and the bytes that the transport took. Owners pass in finalized requests that are not in the
  pipeline; a retried request may have been sent before. Connecting is a step of the
  environment, which also settles what the broker supports.
\<close>

inductive broker_step ::
  "rk_conf \<Rightarrow> rd_kafka_broker \<Rightarrow> nat multiset \<Rightarrow> rk_callback list \<Rightarrow> byte list \<Rightarrow> rd_kafka_broker \<Rightarrow> bool"
  for conf where
  step_enq: "rq_fresh b \<Longrightarrow> a \<notin># owned rkb \<Longrightarrow>
    rd_kafka_broker_buf_enq2 conf now rkb a b = Return (rkb', cbs) \<Longrightarrow>
    broker_step conf rkb {#a#} cbs [] rkb'"
| step_send: "rkb_corrid rkb + int (length (out_list rkb)) \<le> 2 ^ 31 - 1 \<Longrightarrow>
    rd_kafka_send conf xs rkb = Some (Return (rkb', cbs, bytes, ret)) \<Longrightarrow>
    broker_step conf rkb {#} cbs bytes rkb'"
| step_response: "rd_kafka_req_response now rkb corrid rsp = Return (rkb', cbs, ret) \<Longrightarrow>
    broker_step conf rkb {#} cbs [] rkb'"
| step_timeout: "rd_kafka_broker_timeout_scan conf rkb now = Return (rkb', cbs) \<Longrightarrow>
    broker_step conf rkb {#} cbs [] rkb'"
| step_retry: "rq_ok b \<Longrightarrow> \<not> (rkbuf_f_blocking b \<and> rkbuf_f_no_response b) \<Longrightarrow> a \<notin># owned rkb \<Longrightarrow>
    retry_request conf clock rkb a b = Return (rkb', True) \<Longrightarrow>
    broker_step conf rkb {#a#} [] [] rkb'"
| step_retry_move: "rd_kafka_broker_retry_bufs_move conf now rkb = Return rkb' \<Longrightarrow>
    broker_step conf rkb {#} [] [] rkb'"
| step_fail: "rd_kafka_broker_fail conf now rkb err = Return (rkb', cbs) \<Longrightarrow> broker_step conf rkb {#} cbs [] rkb'"
| step_purge: "rd_kafka_broker_bufq_purge_by_toppar (rkb_outbufs rkb) ApiKey sel err = Return (q, cbs) \<Longrightarrow>
    broker_step conf rkb {#} cbs [] (rkb\<lparr>rkb_outbufs := q\<rparr>)"
| step_connect: "\<not> rkb_transport rkb \<Longrightarrow> RD_KAFKA_BROKER_STATE_UP \<le> st \<Longrightarrow>
    broker_step conf rkb {#} [] [] (rkb\<lparr>rkb_transport := True, rkb_state := st, rkb_connid := rkb_connid rkb + 1,
      rkb_features := feat, rkb_ApiVersions := vers, rkb_max_inflight := n\<rparr>)"

text \<open>
  A state of a run has the requests that were passed in and handed back so far and the bytes
  sent on the current connection.
\<close>

inductive broker_run ::
  "rk_conf \<Rightarrow> rd_kafka_broker \<Rightarrow> nat multiset \<Rightarrow> nat multiset \<Rightarrow> byte list \<Rightarrow> bool"
  for conf where
  run_start: "broker_start rkb \<Longrightarrow> broker_run conf rkb {#} {#} []"
| run_step: "broker_run conf rkb ins outs wire \<Longrightarrow> broker_step conf rkb new cbs bytes rkb' \<Longrightarrow>
    broker_run conf rkb' (ins + new) (outs + called cbs) (if rkb_transport rkb' then wire @ bytes else [])"

definition wire_ok :: "rd_kafka_broker \<Rightarrow> byte list \<Rightarrow> bool" where
  "wire_ok rkb wire \<longleftrightarrow> (if rkb_transport rkb
     then \<exists>frames. list_all framed frames \<and> wire = concat frames @ partly_sent rkb else wire = [])"

section \<open>Every step\<close>

lemma wire_step_keep:
  assumes "broker_inv rkb'" "partly_sent rkb' = partly_sent rkb" "rkb_transport rkb' = rkb_transport rkb"
  shows "wire_step rkb [] [] rkb'"
proof -
  have "partly_sent rkb' @ [] = concat [] @ partly_sent rkb'" by simp
  then show ?thesis using wire_step_refl [OF assms(1)] assms(2,3) by (simp add: wire_step_def split: if_splits)
qed

lemma response_spec:
  assumes inv: "broker_inv rkb"
    and rsp: "rd_kafka_req_response now rkb corrid rsp = Return (rkb', cbs, ret)"
  shows "broker_inv rkb' \<and> owned rkb' + called cbs = owned rkb \<and> partly_sent rkb' = partly_sent rkb \<and>
    rkb_transport rkb' = rkb_transport rkb"
proof (cases "\<exists>e \<in> set (wait_list rkb). rkbuf_corrid (snd e) = corrid")
  case False
  then have "rkb' = rkb\<lparr>rkb_c_rx_corrid_err := rkb_c_rx_corrid_err rkb + 1\<rparr>" "cbs = []"
    using rsp waitresp_find_unknown [of rkb corrid now] by (auto simp: rd_kafka_req_response_def)
  moreover have "broker_inv (rkb\<lparr>rkb_c_rx_corrid_err := rkb_c_rx_corrid_err rkb + 1\<rparr>)"
    by (rule broker_inv_keep [OF inv]) (use broker_invD(7) [OF inv] in simp_all)
  ultimately show ?thesis by (simp add: owned_def partly_sent_def)
next
  case True
  then obtain a b where mem: "(a, b) \<in> set (wait_list rkb)" "rkbuf_corrid b = corrid" by auto
  obtain rkb1 where w: "rd_kafka_waitresp_find now rkb corrid
      = Return (rkb1, Some (a, b\<lparr>rkbuf_ts_sent := now - rkbuf_ts_sent b\<rparr>))" "broker_inv rkb1"
    "owned rkb = add_mset a (owned rkb1)" "partly_sent rkb1 = partly_sent rkb" "rkb_transport rkb1 = rkb_transport rkb"
    using waitresp_find_spec [OF inv mem(1), of now] mem(2) by auto
  then have "rkb' = rkb1" "called cbs = {#a#}"
    using rsp by (auto simp: rd_kafka_req_response_def obind_eq_Return Let_def)
  then show ?thesis using w by simp
qed

lemma connect_spec:
  assumes inv: "broker_inv rkb" and down: "\<not> rkb_transport rkb"
    and r: "rkb' = rkb\<lparr>rkb_transport := True, rkb_state := st, rkb_connid := rkb_connid rkb + 1,
      rkb_features := feat, rkb_ApiVersions := vers, rkb_max_inflight := n\<rparr>"
  shows "broker_inv rkb'" "owned rkb' = owned rkb" "partly_sent rkb' = []"
proof -
  note i = broker_invD [OF inv]
  note p = pipe_okD [OF i(4)]
  have zero: "rkbuf_corrid (snd e) = 0" if "e \<in> set (out_list rkb)" for e using i(8) [OF down that] .
  have "pipe_ok S c (rkb_corrid rkb) (out_list rkb) (wait_list rkb) (retry_list rkb)" for S c
    by (rule pipe_okI) (use p zero in \<open>auto simp: out_ok_def\<close>)
  then show inv': "broker_inv rkb'" using i r by (simp add: broker_inv_def)
  show "owned rkb' = owned rkb" using r by (simp add: owned_def)
  show "partly_sent rkb' = []"
    by (rule partly_sent_Nil [OF broker_invD(4) [OF inv']]) (use zero r in simp)
qed

lemma enq2_spec:
  assumes inv: "broker_inv rkb" and b: "rq_fresh b" "a \<notin># owned rkb"
    and enq: "rd_kafka_broker_buf_enq2 conf now rkb a b = Return (rkb', cbs)"
  shows "broker_inv rkb' \<and> owned rkb' + called cbs = owned rkb + {#a#} \<and> partly_sent rkb' = partly_sent rkb \<and>
    rkb_transport rkb' = rkb_transport rkb"
proof (cases "rkb_source_internal rkb")
  case True
  then show ?thesis using enq inv by (auto simp: rd_kafka_broker_buf_enq2_def)
next
  case False
  then have "rd_kafka_broker_buf_enq0 conf now rkb a b = Return rkb'" "cbs = []"
    using enq by (auto simp: rd_kafka_broker_buf_enq2_def obind_eq_Return)
  then show ?thesis using enq0_spec [OF inv b, of conf now rkb'] by simp
qed

definition step_ok :: "rd_kafka_broker \<Rightarrow> nat multiset \<Rightarrow> rk_callback list \<Rightarrow> byte list \<Rightarrow> rd_kafka_broker \<Rightarrow> bool" where
  "step_ok rkb new cbs bytes rkb' \<longleftrightarrow> broker_inv rkb' \<and> owned rkb' + called cbs = owned rkb + new \<and>
     ((\<exists>frames. wire_step rkb bytes frames rkb') \<or> (\<not> rkb_transport rkb \<and> bytes = [] \<and> partly_sent rkb' = []))"

lemma step_ok_quiet:
  assumes "broker_inv rkb' \<and> owned rkb' + called cbs = owned rkb + new \<and> partly_sent rkb' = partly_sent rkb \<and>
    rkb_transport rkb' = rkb_transport rkb"
  shows "step_ok rkb new cbs [] rkb'"
  unfolding step_ok_def using assms wire_step_keep by blast

lemma step_ok_wire:
  "broker_inv rkb' \<Longrightarrow> owned rkb' + called cbs = owned rkb + new \<Longrightarrow> wire_step rkb bytes frames rkb' \<Longrightarrow>
   step_ok rkb new cbs bytes rkb'"
  by (auto simp: step_ok_def)

theorem broker_step_ok:
  "broker_step conf rkb new cbs bytes rkb' \<Longrightarrow> broker_inv rkb \<Longrightarrow> step_ok rkb new cbs bytes rkb'"
proof (induction rule: broker_step.induct)
  case (step_enq b a rkb now rkb' cbs)
  then show ?case by (intro step_ok_quiet enq2_spec)
next
  case (step_send rkb xs rkb' cbs bytes ret)
  then show ?case
    using send_loop_spec [of rkb "length (out_list rkb) + 1" conf xs 0]
    by (auto simp: rd_kafka_send_def intro: step_ok_wire)
next
  case (step_response now rkb corrid rsp rkb' cbs ret)
  then show ?case using response_spec [of rkb now corrid rsp rkb' cbs ret] by (auto intro: step_ok_quiet)
next
  case (step_timeout rkb now rkb' cbs)
  then show ?case using timeout_scan_spec [of rkb conf now] by (auto intro: step_ok_wire)
next
  case (step_retry b a rkb clock rkb')
  then show ?case using retry_request_spec [of rkb b a conf clock rkb'] by (intro step_ok_quiet) simp
next
  case (step_retry_move now rkb rkb')
  then show ?case using retry_move_spec [of rkb "retry_list rkb" conf now rkb']
    by (intro step_ok_quiet) (simp add: rd_kafka_broker_retry_bufs_move_def)
next
  case (step_fail now rkb err rkb' cbs)
  note f = fail_spec [OF step_fail(2,1)]
  show ?case by (rule step_ok_wire [where frames = "[]"]) (use f in \<open>simp_all add: wire_step_def\<close>)
next
  case (step_purge rkb ApiKey sel err q cbs)
  note p = purge_by_toppar_spec [OF step_purge(2,1)]
  show ?case by (rule step_ok_quiet) (use p in simp)
next
  case (step_connect rkb st feat vers n)
  note c = connect_spec [OF step_connect(3,1) refl]
  show ?case using c step_connect(1) by (simp add: step_ok_def)
qed

lemma wire_ok_step:
  assumes "wire_ok rkb wire" "step_ok rkb new cbs bytes rkb'"
  shows "wire_ok rkb' (if rkb_transport rkb' then wire @ bytes else [])"
proof (cases "rkb_transport rkb' \<and> rkb_transport rkb")
  case True
  then obtain frames where frames: "partly_sent rkb @ bytes = concat frames @ partly_sent rkb'" "list_all framed frames"
    using assms(2) by (auto simp: step_ok_def wire_step_def)
  obtain pre where pre: "list_all framed pre" "wire = concat pre @ partly_sent rkb"
    using assms(1) True by (auto simp: wire_ok_def)
  have "wire @ bytes = concat (pre @ frames) @ partly_sent rkb'" using pre(2) frames(1) by simp
  then show ?thesis using True pre(1) frames(2) unfolding wire_ok_def
    by (metis list_all_append)
next
  case False
  then show ?thesis using assms by (auto simp: wire_ok_def step_ok_def wire_step_def intro!: exI [of _ "[]"])
qed

lemma broker_run_ok:
  "broker_run conf rkb ins outs wire \<Longrightarrow> broker_inv rkb \<and> ins = outs + owned rkb \<and> wire_ok rkb wire"
proof (induction rule: broker_run.induct)
  case (run_start rkb)
  then show ?case
    by (auto simp: broker_start_def broker_inv_def pipe_ok_def owned_def wire_ok_def blocking_cnt_def)
next
  case (run_step rkb ins outs wire new cbs bytes rkb')
  then have ok: "step_ok rkb new cbs bytes rkb'" by (blast intro: broker_step_ok)
  moreover have "ins + new = outs + called cbs + owned rkb'"
    using ok run_step.IH by (simp add: step_ok_def ac_simps)
  ultimately show ?case using run_step.IH wire_ok_step [OF _ ok] by (simp add: step_ok_def)
qed

section \<open>The properties of every run\<close>

text \<open>
  C5. In every run the counters of the three queues are the numbers of their requests and
  messages, the counter of blocking requests counts those in flight, the correlation ids in
  flight are distinct and are the ones in the headers that were sent, and only the first request
  of the output queue can have been sent in part.
\<close>

theorem pipeline_invariant:
  assumes "broker_run conf rkb ins outs wire"
  shows "(\<forall>q \<in> {rkb_outbufs rkb, rkb_waitresps rkb, rkb_retrybufs rkb}.
      rkbq_cnt q = int (length (rkbq_bufs q)) \<and> rkbq_msg_cnt q = (\<Sum>(_, b)\<leftarrow>rkbq_bufs q. buf_msgs b)) \<and>
    rkb_blocking_request_cnt rkb = int (length (filter (rkbuf_f_blocking \<circ> snd) (wait_list rkb))) \<and>
    distinct (map (rkbuf_corrid \<circ> snd) (wait_list rkb)) \<and>
    (\<forall>(_, b) \<in> set (wait_list rkb). 0 < rkbuf_corrid b \<and> rkbuf_corrid b \<le> rkb_corrid rkb \<and>
      take 4 (drop 8 (rq_bytes b)) = be_enc 4 (word_of_int (rkbuf_corrid b) :: u32)) \<and>
    (\<forall>(_, b) \<in> set (tl (out_list rkb)). rd_slice_offset (rkbuf_reader b) = 0)"
proof -
  have inv: "broker_inv rkb" using broker_run_ok [OF assms] by simp
  note i = broker_invD [OF inv]
  note p = pipe_okD [OF i(4)]
  have "rq_off (snd e) = 0" if "e \<in> set (tl (out_list rkb))" for e
    using p(7) [of e] p(8) [OF that] that set_tl_subset [of "out_list rkb"] by (auto simp: out_ok_def)
  then show ?thesis using i(1-3,6) p(9,10)
    by (auto simp: bufq_ok_def blocking_cnt_def wait_ok_def rq_tagged_def rq_off_def)
qed

text \<open>
  C3. No request is lost and none is handed back twice: in every run the requests that were
  passed in are the requests that were handed back and the requests that wait in exactly one of
  the three queues.
\<close>

theorem pipeline_conserves_requests:
  assumes "broker_run conf rkb ins outs wire"
  shows "ins = outs + mset (map fst (out_list rkb @ wait_list rkb @ retry_list rkb)) \<and>
    distinct (map fst (out_list rkb @ wait_list rkb @ retry_list rkb))"
proof -
  have "broker_inv rkb" "ins = outs + owned rkb" using broker_run_ok [OF assms] by simp_all
  then show ?thesis by (simp only: broker_inv_def pipe_ok_def owned_def simp_thms)
qed

text \<open>
  C4. The bytes that were sent on a connection are whole requests, each starting with the length
  of the rest, followed by the part of the first request of the output queue that was sent; so
  the broker can always tell the requests apart.
\<close>

theorem pipeline_wire_framing:
  assumes "broker_run conf rkb ins outs wire" "rkb_transport rkb"
  shows "\<exists>frames. wire = concat frames @ partly_sent rkb \<and> list_all framed frames \<and>
    (partly_sent rkb \<noteq> [] \<longrightarrow> (\<exists>a b rest rem. out_list rkb = (a, b) # rest \<and>
       partly_sent rkb @ rem = rq_bytes b \<and> framed (rq_bytes b)))"
proof -
  have ok: "broker_inv rkb" "wire_ok rkb wire" using broker_run_ok [OF assms(1)] by simp_all
  obtain frames where frames: "list_all framed frames" "wire = concat frames @ partly_sent rkb"
    using ok(2) assms(2) by (auto simp: wire_ok_def)
  have "\<exists>a b rest rem. out_list rkb = (a, b) # rest \<and> partly_sent rkb @ rem = rq_bytes b \<and> framed (rq_bytes b)"
    if part: "partly_sent rkb \<noteq> []"
  proof -
    obtain a b rest where out: "out_list rkb = (a, b) # rest"
      using part by (cases "out_list rkb") (auto simp: partly_sent_def)
    have "rq_ok b" using pipe_okD(7) [OF broker_invD(4) [OF ok(1)], of "(a, b)"] out by (simp add: out_ok_def)
    then have "partly_sent rkb @ drop (rq_off b) (rq_bytes b) = rq_bytes b \<and> framed (rq_bytes b)"
      using out by (simp add: partly_sent_def rq_ok_iff)
    then show ?thesis using out by blast
  qed
  then show ?thesis using frames by blast
qed

text \<open>
  C6. A response is matched to the request it answers: in every run, for a request in flight and
  a response with its correlation id, \<open>rd_kafka_req_response\<close> calls back that request and no
  other, without an error, with the bytes behind the response header and the request's API key
  and version; a second response with the same correlation id is refused.
\<close>

theorem response_matches_request:
  assumes run: "broker_run conf rkb ins outs wire" and mem: "(a, b) \<in> set (wait_list rkb)"
    and rsp: "buf_inv (rkbuf_buf rsp)" "8 < rbuf_len (rkbuf_buf rsp)" "rbuf_len (rkbuf_buf rsp) < SIZE_MOD"
  shows "\<exists>rkb' rsp'. rd_kafka_req_response now rkb (rkbuf_corrid b) rsp = Return (rkb',
      [rd_kafka_buf_callback a (b\<lparr>rkbuf_ts_sent := now - rkbuf_ts_sent b\<rparr>) RK_NO_ERROR (Some rsp')], 0) \<and>
    slice_bytes (rkbuf_reader rsp') = drop 8 (buf_bytes (rkbuf_buf rsp)) \<and>
    rkbuf_ApiKey rsp' = rkbuf_ApiKey b \<and> rkbuf_ApiVersion rsp' = rkbuf_ApiVersion b \<and>
    wait_list rkb' = filter (\<lambda>(a', _). a' \<noteq> a) (wait_list rkb) \<and>
    rd_kafka_req_response now' rkb' (rkbuf_corrid b) rsp2
      = Return (rkb'\<lparr>rkb_c_rx_corrid_err := rkb_c_rx_corrid_err rkb' + 1\<rparr>, [], - 1)"
proof -
  have inv: "broker_inv rkb" using broker_run_ok [OF run] by simp
  obtain rkb' where w: "rd_kafka_waitresp_find now rkb (rkbuf_corrid b)
      = Return (rkb', Some (a, b\<lparr>rkbuf_ts_sent := now - rkbuf_ts_sent b\<rparr>))"
    "wait_list rkb' = filter (\<lambda>(a', _). a' \<noteq> a) (wait_list rkb)"
    using waitresp_find_spec [OF inv mem, of now] by blast
  have sub: "size_sub (rbuf_len (rkbuf_buf rsp)) RD_KAFKAP_RESHDR_SIZE = rbuf_len (rkbuf_buf rsp) - 8"
    using rsp(2,3) by (simp add: RD_KAFKAP_RESHDR_SIZE_def)
  obtain sl where sl: "rd_slice_init (rkbuf_buf rsp) 8 (rbuf_len (rkbuf_buf rsp) - 8) = Return (Some sl)"
    "slice_bytes sl = drop 8 (buf_bytes (rkbuf_buf rsp))"
    using rd_slice_init_spec [OF rsp(1,3), of 8 "rbuf_len (rkbuf_buf rsp) - 8"] rsp(2) buf_inv_length [OF rsp(1)]
    by auto
  have "inj_on (rkbuf_corrid \<circ> snd) (set (wait_list rkb))"
    using pipe_okD(10) [OF broker_invD(4) [OF inv]] by (simp add: distinct_map)
  then have "rkbuf_corrid (snd e) \<noteq> rkbuf_corrid b" if "e \<in> set (wait_list rkb')" for e
    using that w(2) mem inj_onD [of "rkbuf_corrid \<circ> snd" "set (wait_list rkb)" e "(a, b)"] by auto
  then have "rd_kafka_waitresp_find now' rkb' (rkbuf_corrid b) = Return (rkb', None)"
    by (intro waitresp_find_unknown) blast
  moreover define rsp' where "rsp' = rsp\<lparr>rkbuf_reader := sl, rkbuf_ApiKey := rkbuf_ApiKey b, rkbuf_ApiVersion := rkbuf_ApiVersion b\<rparr>"
  ultimately show ?thesis using w sub sl
    by (intro exI [of _ rkb'] exI [of _ rsp'])
      (simp add: rd_kafka_req_response_def Let_def RD_KAFKAP_RESHDR_SIZE_def rsp'_def)
qed

text \<open>
  C19. Sending always returns: whatever the transport does, \<open>rd_kafka_send\<close> ends after at most as
  many rounds as there are requests to be sent, without a failed assertion and without undefined
  behaviour, as long as the correlation ids do not wrap around.
\<close>

theorem send_returns:
  assumes "broker_run conf rkb ins outs wire" "rkb_corrid rkb + int (length (out_list rkb)) \<le> 2 ^ 31 - 1"
  shows "\<exists>rkb' cbs bytes ret. rd_kafka_send conf xs rkb = Some (Return (rkb', cbs, bytes, ret))"
proof -
  have "broker_inv rkb" using broker_run_ok [OF assms(1)] by simp
  then show ?thesis
    using send_loop_spec [of rkb "length (out_list rkb) + 1" conf xs 0] assms(2)
    by (auto simp: rd_kafka_send_def)
qed

section \<open>A run\<close>

text \<open>One request is sent in one go and moves to the requests in flight.\<close>

lemma send_whole:
  assumes inv: "broker_inv rkb" and out: "out_list rkb = [(a, b)]"
    and b: "rd_kafka_broker_request_supported rkb b" "\<not> rkbuf_f_no_response b"
    and up: "RD_KAFKA_BROKER_STATE_UP \<le> rkb_state rkb" "rkbq_cnt (rkb_waitresps rkb) < rkb_max_inflight rkb"
    and lim: "rkb_corrid rkb < 2 ^ 31 - 1"
  shows "\<exists>rkb' b'. rd_kafka_send conf [(Xmit_Sent (length (rq_bytes b) - rq_off b), now)] rkb
      = Some (Return (rkb', [], drop (rq_off b) (rq_bytes b'), 1)) \<and>
    wait_list rkb' = wait_list rkb @ [(a, b')] \<and> out_list rkb' = [] \<and> rkb_transport rkb'"
proof -
  note i = broker_invD [OF inv]
  obtain c b1 where ac: "assign_corrid rkb b = Return (rkb\<lparr>rkb_corrid := c\<rparr>, b1)" "same_request b b1"
    "rq_ok b1" "rq_off b1 = rq_off b" "length (rq_bytes b1) = length (rq_bytes b)"
    using assign_corrid_spec [OF inv out lim] by blast
  let ?n = "length (rq_bytes b) - rq_off b" and ?q = "replace_buf (rkb_outbufs rkb) a"
  obtain sl where sl: "rd_slice_read (rkbuf_reader b1) ?n
      = Some (Return (sl, Some (take ?n (drop (rq_off b) (rq_bytes b1)))))" "rq_ok (b1\<lparr>rkbuf_reader := sl\<rparr>)"
    "rq_off (b1\<lparr>rkbuf_reader := sl\<rparr>) = rq_off b + ?n"
    using rq_transmit [OF ac(3), of ?n] rq_remains [OF ac(3)] ac(4,5) by auto
  define b2 where "b2 = b1\<lparr>rkbuf_reader := sl\<rparr>"
  have b2: "same_request b b2" "rq_bytes b2 = rq_bytes b1" "rd_slice_remains sl = 0" "rkbuf_f_no_response b2 = rkbuf_f_no_response b"
    using sl ac(2,5) rq_remains [OF sl(2)] by (simp_all add: b2_def same_request_def rq_bytes_def)
  have q1: "bufq_ok (?q b1)" "rkbq_bufs (?q b1) = [(a, b1)]"
    using replace_head [OF i(1) out same_request_msgs [OF ac(2)]] by simp_all
  have msgs: "buf_msgs b2 = buf_msgs b1" using same_request_msgs [OF ac(2)] same_request_msgs [OF b2(1)] by simp
  have q2: "bufq_ok (replace_buf (?q b1) a b2)" "rkbq_bufs (replace_buf (?q b1) a b2) = [(a, b2)]"
    using replace_head [OF q1 msgs] by simp_all
  obtain q where q: "rd_kafka_bufq_deq (replace_buf (?q b1) a b2) a = Return (q, b2)" "rkbq_bufs q = []"
    using bq.deq_middle [OF q2(1), of "[]" a b2 "[]"] q2(2) by auto
  have tr: "rkb_transport rkb" using i(7) [OF up(1)] .
  have "a \<notin> fst ` set (wait_list rkb)" using pipe_okD(4) [OF i(4)] out by auto
  moreover have "rq_bytes (b2\<lparr>rkbuf_f_sent := True, rkbuf_ts_sent := now\<rparr>) = rq_bytes b1"
    using b2(2) by (simp add: rq_bytes_def)
  ultimately show ?thesis
    using b up tr ac(1,5) sl(1) b2(2-4) q out
    by (auto simp: rd_kafka_send_def rd_kafka_send_round_def rd_kafka_broker_send_def request_sent_def Let_def
        b2_def [symmetric] bq.enq_law [OF i(2)])
qed

text \<open>A concrete client and broker, and an \<open>ApiVersion\<close> request, which every broker supports.\<close>

definition demo_conf :: rk_conf where
  "demo_conf = \<lparr>conf_sparse_connections = True, conf_socket_timeout_ms = 60000, conf_retry_backoff_ms = 100,
     conf_socket_max_fails = 1, conf_max_retries = 2, rk_terminating = False\<rparr>"

definition demo_broker :: rd_kafka_broker where
  "demo_broker = \<lparr>rkb_source_internal = False, rkb_is_logical = False, rkb_state = RD_KAFKA_BROKER_STATE_INIT,
     rkb_ts_state = 0, rkb_down_reported = False, rkb_transport = False, rkb_outbufs = rd_kafka_bufq_init,
     rkb_waitresps = rd_kafka_bufq_init, rkb_retrybufs = rd_kafka_bufq_init, rkb_corrid = 0, rkb_connid = 0,
     rkb_max_inflight = 1, rkb_blocking_request_cnt = 0, rkb_features = 0, rkb_ApiVersions = [],
     rkb_req_timeouts = 0, rkb_ts_tx_last = 0, rkb_persistconn_internal = 0, rkb_c_tx = 0, rkb_c_tx_bytes = 0,
     rkb_c_tx_err = 0, rkb_c_tx_retries = 0, rkb_c_req_timeouts = 0, rkb_c_rx_corrid_err = 0,
     rkb_c_disconnects = 0, rk_broker_cnt = 1, rk_broker_addrless_cnt = 0, rk_broker_down_cnt = 0,
     rk_broker_up_cnt = 0, rk_logical_broker_up_cnt = 0, rk_all_brokers_down_errs = 0, rkb_broadcasts = 0\<rparr>"

lemma demo_request:
  "\<exists>b. rq_fresh b \<and> rkbuf_ApiKey b = RD_KAFKAP_ApiVersion \<and> \<not> rkbuf_f_no_response b \<and>
     rkbuf_prio b = RD_KAFKA_PRIO_NORMAL \<and> rkbuf_rel_timeout b = 1000"
proof -
  obtain k where k: "rd_kafkap_str_new (Some [114, 100]) 2 = Return k" "ks_len k = 2" "ks_str k = Some [114, 100]"
    by (simp add: rd_kafkap_str_new_def null_defs)
  obtain b where b: "rk_winv b" "\<not> rkbuf_f_crc b" "rk_wbytes b = fields_enc (request_header 0 18 0 0 k)"
    using new_request_bytes [OF k(1), of "\<lambda>_. 0" 1000 18 1 20] k(2) by auto
  let ?b = "b\<lparr>rkbuf_ApiKey := RD_KAFKAP_ApiVersion, rkbuf_corrid := 0, rkbuf_f_blocking := True,
    rkbuf_f_no_response := False, rkbuf_prio := RD_KAFKA_PRIO_NORMAL, rkbuf_rel_timeout := 1000\<rparr>"
  have "length (rk_wbytes ?b) = 16" using b(3) k(3) by (simp add: rk_wbytes_def request_header_def)
  then obtain b2 where b2: "rq_ok b2" "rq_off b2 = 0"
    "b2 = ?b\<lparr>rkbuf_buf := rkbuf_buf b2, rkbuf_reader := rkbuf_reader b2\<rparr>"
    using finalize_ok [of ?b 1000] b(1,2) by (auto simp: rk_winv_def)
  have "rkbuf_ApiKey b2 = RD_KAFKAP_ApiVersion" "rkbuf_corrid b2 = 0" "\<not> rkbuf_f_no_response b2"
    "rkbuf_prio b2 = RD_KAFKA_PRIO_NORMAL" "rkbuf_rel_timeout b2 = 1000"
    by (subst b2(3); simp)+
  then show ?thesis using b2(1,2) by (auto simp: rq_fresh_def)
qed

text \<open>The request is enqueued before there is a connection.\<close>

lemma demo_run_ready:
  "\<exists>rkb b. broker_run demo_conf rkb {#7#} {#} [] \<and> out_list rkb = [(7, b)] \<and> wait_list rkb = [] \<and>
     rkb_corrid rkb = 0 \<and> rkb_transport rkb \<and> RD_KAFKA_BROKER_STATE_UP \<le> rkb_state rkb \<and>
     rkbq_cnt (rkb_waitresps rkb) < rkb_max_inflight rkb \<and> rkbuf_ApiKey b = RD_KAFKAP_ApiVersion \<and>
     \<not> rkbuf_f_no_response b \<and> rq_off b = 0"
proof -
  obtain b where b: "rq_fresh b" "rkbuf_ApiKey b = RD_KAFKAP_ApiVersion" "\<not> rkbuf_f_no_response b"
    "rkbuf_prio b = RD_KAFKA_PRIO_NORMAL" "rkbuf_rel_timeout b = 1000" using demo_request by blast
  have "broker_start demo_broker"
    by (simp add: broker_start_def demo_broker_def broker_state_defs)
  then have run0: "broker_run demo_conf demo_broker {#} {#} []" by (rule run_start)
  have fields: "rkb_source_internal demo_broker = False" "rkb_outbufs demo_broker = rd_kafka_bufq_init"
    "rkb_waitresps demo_broker = rd_kafka_bufq_init" "rkb_retrybufs demo_broker = rd_kafka_bufq_init"
    "rkb_corrid demo_broker = 0" "\<not> rkb_transport demo_broker" by (simp_all add: demo_broker_def)
  obtain b' rkb1 where rkb1: "rd_kafka_broker_buf_enq2 demo_conf 5 demo_broker 7 b = Return (rkb1, [])"
    "out_list rkb1 = [(7, b')]" "wait_list rkb1 = []" "rkbq_cnt (rkb_waitresps rkb1) = 0" "rkb_corrid rkb1 = 0"
    "\<not> rkb_transport rkb1" "b' = b\<lparr>rkbuf_ts_enq := 5, rkbuf_f_sent := False, rkbuf_ts_timeout := 1000005\<rparr>"
    using b fields
    by (auto simp: rd_kafka_broker_buf_enq2_def rd_kafka_broker_buf_enq0_def Let_def
        rd_kafka_buf_calc_timeout_def int_mul_def rd_kafka_bufq_init_def)
  have "broker_step demo_conf demo_broker {#7#} [] [] rkb1"
    by (rule step_enq [OF b(1) _ rkb1(1)]) (simp add: owned_def fields)
  from run_step [OF run0 this] have run1: "broker_run demo_conf rkb1 {#7#} {#} []" by (simp split: if_splits)
  let ?rkb = "rkb1\<lparr>rkb_transport := True, rkb_state := RD_KAFKA_BROKER_STATE_UP, rkb_connid := rkb_connid rkb1 + 1,
    rkb_features := 0, rkb_ApiVersions := [], rkb_max_inflight := 1\<rparr>"
  have "broker_step demo_conf rkb1 {#} [] [] ?rkb" by (rule step_connect) (use rkb1(6) in simp_all)
  from run_step [OF run1 this] have "broker_run demo_conf ?rkb {#7#} {#} []" by simp
  moreover have "rq_off b' = 0" using b(1) rkb1(7) by (simp add: rq_fresh_def rq_off_def)
  ultimately show ?thesis using rkb1 b(2,3) by (intro exI [of _ ?rkb] exI [of _ b']) simp
qed

text \<open>And then sent.\<close>

lemma demo_run_sent:
  "\<exists>rkb b. broker_run demo_conf rkb {#7#} {#} (rq_bytes b) \<and> wait_list rkb = [(7, b)] \<and> out_list rkb = [] \<and>
     rkb_transport rkb"
proof -
  obtain rkb b where r: "broker_run demo_conf rkb {#7#} {#} []" "out_list rkb = [(7, b)]" "wait_list rkb = []"
    "rkb_corrid rkb = 0" "RD_KAFKA_BROKER_STATE_UP \<le> rkb_state rkb" "rkbq_cnt (rkb_waitresps rkb) < rkb_max_inflight rkb"
    "rkbuf_ApiKey b = RD_KAFKAP_ApiVersion" "\<not> rkbuf_f_no_response b" "rq_off b = 0"
    using demo_run_ready by blast
  have inv: "broker_inv rkb" using broker_run_ok [OF r(1)] by simp
  obtain rkb' b' where s: "rd_kafka_send demo_conf [(Xmit_Sent (length (rq_bytes b) - rq_off b), 6)] rkb
      = Some (Return (rkb', [], rq_bytes b', 1))" "wait_list rkb' = [(7, b')]" "out_list rkb' = []" "rkb_transport rkb'"
    using send_whole [OF inv r(2) _ r(8,5,6), of demo_conf 6] r(3,4,7,9)
    by (auto simp: rd_kafka_broker_request_supported_def)
  have "broker_step demo_conf rkb {#} [] (rq_bytes b') rkb'"
    by (rule step_send [OF _ s(1)]) (use r(2,4) in simp)
  from run_step [OF r(1) this] show ?thesis using s by auto
qed

theorem pipeline_invariant_witness:
  "\<exists>rkb ins outs wire b. broker_run demo_conf rkb ins outs wire \<and> wait_list rkb = [(7, b)] \<and> 0 < rkbuf_corrid b \<and>
     take 4 (drop 8 (rq_bytes b)) = be_enc 4 (word_of_int (rkbuf_corrid b) :: u32) \<and> rkbq_cnt (rkb_waitresps rkb) = 1"
proof -
  obtain rkb b where r: "broker_run demo_conf rkb {#7#} {#} (rq_bytes b)" "wait_list rkb = [(7, b)]"
    using demo_run_sent by blast
  then show ?thesis using pipeline_invariant [OF r(1)] by fastforce
qed

theorem pipeline_conserves_requests_witness:
  "\<exists>rkb wire. broker_run demo_conf rkb {#7#} {#} wire \<and>
     {#7#} = mset (map fst (out_list rkb @ wait_list rkb @ retry_list rkb))"
proof -
  obtain rkb b where r: "broker_run demo_conf rkb {#7#} {#} (rq_bytes b)" using demo_run_sent by blast
  then show ?thesis using pipeline_conserves_requests [OF r] by auto
qed

theorem pipeline_wire_framing_witness:
  "\<exists>rkb wire frames. broker_run demo_conf rkb {#7#} {#} wire \<and> rkb_transport rkb \<and> out_list rkb = [] \<and>
     wire = concat frames \<and> list_all framed frames"
proof -
  obtain rkb b where r: "broker_run demo_conf rkb {#7#} {#} (rq_bytes b)" "out_list rkb = []" "rkb_transport rkb"
    using demo_run_sent by blast
  obtain frames where "rq_bytes b = concat frames @ partly_sent rkb" "list_all framed frames"
    using pipeline_wire_framing [OF r(1,3)] by blast
  then show ?thesis using r by (auto simp: partly_sent_def)
qed

theorem response_matches_request_witness:
  "\<exists>rkb b rsp rkb' cb. broker_run demo_conf rkb {#7#} {#} (rq_bytes b) \<and> (7, b) \<in> set (wait_list rkb) \<and>
     buf_bytes (rkbuf_buf rsp) = replicate 12 1 \<and>
     rd_kafka_req_response 9 rkb (rkbuf_corrid b) rsp = Return (rkb', [cb], 0) \<and> wait_list rkb' = []"
proof -
  obtain rkb b where r: "broker_run demo_conf rkb {#7#} {#} (rq_bytes b)" "wait_list rkb = [(7, b)]"
    using demo_run_sent by blast
  obtain c0 where c0: "rd_buf_init 1 0 (\<lambda>_. 0) = Return c0" by (simp add: rd_buf_init_def Let_def)
  obtain c where c: "buf_inv c" "buf_bytes c = replicate 12 1"
    using rd_buf_push_spec [of c0 "replicate 12 1" None] buf_init_inv [OF c0] by auto
  have "rbuf_len c = 12" using buf_inv_length [OF c(1)] c(2) by simp
  then obtain rkb' cb where "rd_kafka_req_response 9 rkb (rkbuf_corrid b) (zero_rkbuf c) = Return (rkb', [cb], 0)"
    "wait_list rkb' = []"
    using response_matches_request [OF r(1), of 7 b "zero_rkbuf c" 9 9 "zero_rkbuf c"] r(2) c(1)
    by (auto simp: zero_rkbuf_def)
  then show ?thesis using r c(2)
    by (intro exI [of _ rkb] exI [of _ b] exI [of _ "zero_rkbuf c"] exI [of _ rkb'] exI [of _ cb])
      (simp add: zero_rkbuf_def)
qed

theorem send_returns_witness:
  "\<exists>rkb b ret. broker_run demo_conf rkb {#7#} {#} [] \<and> out_list rkb = [(7, b)] \<and>
     rd_kafka_send demo_conf [(Xmit_Sent 9, 6), (Xmit_Fail, 7)] rkb = Some (Return ret)"
proof -
  obtain rkb b where r: "broker_run demo_conf rkb {#7#} {#} []" "out_list rkb = [(7, b)]" "rkb_corrid rkb = 0"
    using demo_run_ready by blast
  then show ?thesis using send_returns [OF r(1), of "[(Xmit_Sent 9, 6), (Xmit_Fail, 7)]"] by force
qed

end
