(* ===== verification/Tailq.thy ===== *)
theory Tailq
  imports Prelude "HOL-Library.Multiset"
begin

text \<open>
  The doubly linked tail queues of \<open>rdsysqueue.h\<close> as lists, with the macros that the code adds to
  those of the C library. An element is inserted before the first one it is less than; two queues
  are joined in the middle after an element.
\<close>

fun TAILQ_INSERT_SORTED :: "('b \<Rightarrow> 'b \<Rightarrow> int) \<Rightarrow> 'b \<Rightarrow> 'b list \<Rightarrow> 'b list" where
  "TAILQ_INSERT_SORTED cmpfunc elm [] = [elm]"
| "TAILQ_INSERT_SORTED cmpfunc elm (tmp # rest) =
     (if cmpfunc elm tmp < 0 then elm # tmp # rest
      else if rest = [] then [tmp, elm]
      else tmp # TAILQ_INSERT_SORTED cmpfunc elm rest)"

text \<open>The element is given by its position; after the last one the queues are joined.\<close>

definition TAILQ_INSERT_LIST :: "'b list \<Rightarrow> nat \<Rightarrow> 'b list \<Rightarrow> 'b list" where
  "TAILQ_INSERT_LIST dhead listelm shead =
     (if listelm + 1 = length dhead then dhead @ shead
      else take (listelm + 1) dhead @ shead @ drop (listelm + 1) dhead)"

lemma set_insert_sorted [simp]: "set (TAILQ_INSERT_SORTED cmp x xs) = insert x (set xs)"
  by (induction xs) auto

lemma distinct_insert_sorted [simp]: "distinct (TAILQ_INSERT_SORTED cmp x xs) \<longleftrightarrow> x \<notin> set xs \<and> distinct xs"
  by (induction xs) auto

lemma sorted_insert_sorted:
  assumes "\<forall>y \<in> set xs. cmp x y < 0 \<longleftrightarrow> f x < (f y :: 'c :: linorder)" "sorted (map f xs)"
  shows "sorted (map f (TAILQ_INSERT_SORTED cmp x xs))"
  using assms by (induction xs) (auto simp: not_less)

lemma mset_insert_sorted [simp]: "mset (TAILQ_INSERT_SORTED cmp x xs) = add_mset x (mset xs)"
  by (induction xs) auto

lemma mset_insert_list: "mset (TAILQ_INSERT_LIST xs i ys) = mset xs + mset ys"
proof -
  have "mset (take (i + 1) xs) + mset (drop (i + 1) xs) = mset xs"
    unfolding mset_append [symmetric] append_take_drop_id by (rule refl)
  then show ?thesis unfolding TAILQ_INSERT_LIST_def by (simp add: ac_simps)
qed

end
