(* ===== verification/Timer.thy ===== *)
theory Timer
  imports Tailq
begin

text \<open>
  The timer engine of \<open>rdkafka_timer.c\<close>: a queue of timers in the order of their next expiry.

  A timer is an address, and the state has the timers at all addresses (\<open>rkts_store\<close>) with the
  queue of those that are scheduled. The state is extensible, so that a client can embed the
  engine and a callback can act on the client's state. \<open>clk n\<close> is the n-th reading of
  \<open>rd_clock\<close>, and \<open>rkts_reads\<close> counts the readings. Times are in microseconds, far from the
  limits of \<open>int64_t\<close>. The lock is not modelled: each function is one step, except that
  \<open>rd_kafka_timers_run\<close> releases the lock during a callback. A callback is a function of the
  state; the number \<open>rtmr_callback\<close> stands for the function and its argument.
\<close>

section \<open>The code\<close>

record rd_kafka_timer =
  rtmr_next :: int
  rtmr_interval :: int
  rtmr_oneshot :: bool
  rtmr_callback :: nat

record rd_kafka_timers =
  rkts_timers :: "nat list"
  rkts_enabled :: bool
  rkts_store :: "nat \<Rightarrow> rd_kafka_timer"
  rkts_reads :: nat

definition set_timer :: "nat \<Rightarrow> (rd_kafka_timer \<Rightarrow> rd_kafka_timer) \<Rightarrow> 'a rd_kafka_timers_scheme \<Rightarrow> 'a rd_kafka_timers_scheme" where
  "set_timer t f s = s\<lparr>rkts_store := (rkts_store s)(t := f (rkts_store s t))\<rparr>"

definition rd_clock :: "(nat \<Rightarrow> int) \<Rightarrow> 'a rd_kafka_timers_scheme \<Rightarrow> int \<times> 'a rd_kafka_timers_scheme" where
  "rd_clock clk s = (clk (rkts_reads s), s\<lparr>rkts_reads := rkts_reads s + 1\<rparr>)"

definition rd_kafka_timer_started :: "'a rd_kafka_timers_scheme \<Rightarrow> nat \<Rightarrow> bool" where
  "rd_kafka_timer_started s t \<longleftrightarrow> rtmr_interval (rkts_store s t) \<noteq> 0"

definition rd_kafka_timer_scheduled :: "'a rd_kafka_timers_scheme \<Rightarrow> nat \<Rightarrow> bool" where
  "rd_kafka_timer_scheduled s t \<longleftrightarrow> rtmr_next (rkts_store s t) \<noteq> 0"

text \<open>The difference is converted to a 32-bit \<open>int\<close>, which wraps around.\<close>

definition int32_cast :: "int \<Rightarrow> int" where
  "int32_cast x = (x + 2 ^ 31) mod 2 ^ 32 - 2 ^ 31"

definition rd_kafka_timer_cmp :: "rd_kafka_timer \<Rightarrow> rd_kafka_timer \<Rightarrow> int" where
  "rd_kafka_timer_cmp a b = int32_cast (rtmr_next a - rtmr_next b)"

text \<open>Removing a timer that is not in the queue, and inserting one that is, corrupts the queue.\<close>

definition rd_kafka_timer_unschedule ::
  "'a rd_kafka_timers_scheme \<Rightarrow> nat \<Rightarrow> 'a rd_kafka_timers_scheme outcome" where
  "rd_kafka_timer_unschedule s t =
     (if t \<notin> set (rkts_timers s) then Undefined
      else Return (set_timer t (rtmr_next_update (\<lambda>_. 0)) (s\<lparr>rkts_timers := remove1 t (rkts_timers s)\<rparr>)))"

definition timer_before :: "'a rd_kafka_timers_scheme \<Rightarrow> nat \<Rightarrow> nat \<Rightarrow> int" where
  "timer_before s a b = rd_kafka_timer_cmp (rkts_store s a) (rkts_store s b)"

definition rd_kafka_timer_schedule ::
  "(nat \<Rightarrow> int) \<Rightarrow> 'a rd_kafka_timers_scheme \<Rightarrow> nat \<Rightarrow> int \<Rightarrow> 'a rd_kafka_timers_scheme outcome" where
  "rd_kafka_timer_schedule clk s t extra_us =
     (if rtmr_interval (rkts_store s t) = 0 then Return s
      else if \<not> rkts_enabled s then Return s
      else if t \<in> set (rkts_timers s) then Undefined
      else let (now, s1) = rd_clock clk s;
               nxt = now + rtmr_interval (rkts_store s t) + extra_us;
               s2 = set_timer t (rtmr_next_update (\<lambda>_. nxt)) s1
           in Return (case rkts_timers s2 of
                [] \<Rightarrow> s2\<lparr>rkts_timers := [t]\<rparr>
              | first # _ \<Rightarrow>
                  if nxt < rtmr_next (rkts_store s2 first) then s2\<lparr>rkts_timers := t # rkts_timers s2\<rparr>
                  else s2\<lparr>rkts_timers := TAILQ_INSERT_SORTED (timer_before s2) t (rkts_timers s2)\<rparr>))"

text \<open>The state and whether the timer was started.\<close>

definition rd_kafka_timer_stop ::
  "'a rd_kafka_timers_scheme \<Rightarrow> nat \<Rightarrow> ('a rd_kafka_timers_scheme \<times> bool) outcome" where
  "rd_kafka_timer_stop s t =
     (if \<not> rd_kafka_timer_started s t then Return (s, False)
      else obind (if rd_kafka_timer_scheduled s t then rd_kafka_timer_unschedule s t else Return s) (\<lambda>s1.
             Return (set_timer t (rtmr_interval_update (\<lambda>_. 0)) s1, True)))"

definition rd_kafka_timer_start0 ::
  "(nat \<Rightarrow> int) \<Rightarrow> 'a rd_kafka_timers_scheme \<Rightarrow> nat \<Rightarrow> int \<Rightarrow> bool \<Rightarrow> nat \<Rightarrow> 'a rd_kafka_timers_scheme outcome" where
  "rd_kafka_timer_start0 clk s t interval oneshot callback =
     obind (rd_kafka_timer_stop s t) (\<lambda>(s1, _).
       rd_kafka_timer_schedule clk
         (set_timer t (\<lambda>r. r\<lparr>rtmr_interval := interval, rtmr_callback := callback, rtmr_oneshot := oneshot\<rparr>) s1) t 0)"

definition rd_kafka_timer_start where
  "rd_kafka_timer_start clk s t interval callback = rd_kafka_timer_start0 clk s t interval False callback"

definition rd_kafka_timer_start_oneshot where
  "rd_kafka_timer_start_oneshot clk s t interval callback = rd_kafka_timer_start0 clk s t interval True callback"

definition rd_kafka_timer_backoff ::
  "(nat \<Rightarrow> int) \<Rightarrow> 'a rd_kafka_timers_scheme \<Rightarrow> nat \<Rightarrow> int \<Rightarrow> 'a rd_kafka_timers_scheme outcome" where
  "rd_kafka_timer_backoff clk s t backoff_us =
     obind (if rd_kafka_timer_scheduled s t then rd_kafka_timer_unschedule s t else Return s) (\<lambda>s1.
       rd_kafka_timer_schedule clk s1 t backoff_us)"

definition rd_kafka_timer_next ::
  "(nat \<Rightarrow> int) \<Rightarrow> 'a rd_kafka_timers_scheme \<Rightarrow> nat \<Rightarrow> int \<times> 'a rd_kafka_timers_scheme" where
  "rd_kafka_timer_next clk s t =
     (let (now, s1) = rd_clock clk s
      in (if rd_kafka_timer_scheduled s t then max 0 (rtmr_next (rkts_store s t) - now) else - 1, s1))"

definition rd_kafka_timers_next ::
  "(nat \<Rightarrow> int) \<Rightarrow> 'a rd_kafka_timers_scheme \<Rightarrow> int \<Rightarrow> int \<times> 'a rd_kafka_timers_scheme" where
  "rd_kafka_timers_next clk s timeout_us =
     (let (now, s1) = rd_clock clk s
      in (case rkts_timers s of
            t # _ \<Rightarrow>
              (let sleeptime = rtmr_next (rkts_store s t) - now
               in if sleeptime < 0 then 0 else if timeout_us < sleeptime then timeout_us else sleeptime)
          | [] \<Rightarrow> timeout_us, s1))"

text \<open>
  One timer: it is unscheduled and, if it fires only once, stopped; it is called back without
  the lock; and it is restarted, unless the callback stopped or scheduled it.
\<close>

definition timer_expire :: "'a rd_kafka_timers_scheme \<Rightarrow> nat \<Rightarrow> 'a rd_kafka_timers_scheme outcome" where
  "timer_expire s t =
     obind (rd_kafka_timer_unschedule s t) (\<lambda>s1.
       Return (if rtmr_oneshot (rkts_store s1 t) then set_timer t (rtmr_interval_update (\<lambda>_. 0)) s1 else s1))"

definition timer_restart ::
  "(nat \<Rightarrow> int) \<Rightarrow> 'a rd_kafka_timers_scheme \<Rightarrow> nat \<Rightarrow> 'a rd_kafka_timers_scheme outcome" where
  "timer_restart clk s t =
     (if rd_kafka_timer_started s t \<and> \<not> rd_kafka_timer_scheduled s t
      then rd_kafka_timer_schedule clk s t 0 else Return s)"

definition timer_fire ::
  "(nat \<Rightarrow> int) \<Rightarrow> (nat \<Rightarrow> 'a rd_kafka_timers_scheme \<Rightarrow> 'a rd_kafka_timers_scheme outcome) \<Rightarrow>
   'a rd_kafka_timers_scheme \<Rightarrow> nat \<Rightarrow> 'a rd_kafka_timers_scheme outcome" where
  "timer_fire clk callback s t =
     obind (timer_expire s t) (\<lambda>s1.
     obind (callback (rtmr_callback (rkts_store s1 t)) s1) (\<lambda>s2.
       timer_restart clk s2 t))"

text \<open>The inner loop of \<open>rd_kafka_timers_run\<close>, with the timers that fired.\<close>

partial_function (option) timers_dispatch ::
  "(nat \<Rightarrow> int) \<Rightarrow> (nat \<Rightarrow> 'a rd_kafka_timers_scheme \<Rightarrow> 'a rd_kafka_timers_scheme outcome) \<Rightarrow> int \<Rightarrow>
   'a rd_kafka_timers_scheme \<Rightarrow> nat list \<Rightarrow> ('a rd_kafka_timers_scheme \<times> nat list) outcome option" where
  "timers_dispatch clk callback now s fired =
     (case rkts_timers s of
        [] \<Rightarrow> Some (Return (s, fired))
      | t # _ \<Rightarrow>
          if rtmr_next (rkts_store s t) \<le> now
          then (case timer_fire clk callback s t of
                  Return s1 \<Rightarrow> timers_dispatch clk callback now s1 (fired @ [t])
                | Assert_Failed \<Rightarrow> Some Assert_Failed
                | Undefined \<Rightarrow> Some Undefined)
          else Some (Return (s, fired)))"

text \<open>
  The outer loop. \<open>terminating\<close> is \<open>rd_kafka_terminating\<close>, and \<open>wait\<close> is what other threads do
  while \<open>cnd_timedwait_ms\<close> waits for at most the given number of milliseconds.
\<close>

partial_function (option) timers_run_loop ::
  "(nat \<Rightarrow> int) \<Rightarrow> (nat \<Rightarrow> 'a rd_kafka_timers_scheme \<Rightarrow> 'a rd_kafka_timers_scheme outcome) \<Rightarrow>
   ('a rd_kafka_timers_scheme \<Rightarrow> bool) \<Rightarrow> (int \<Rightarrow> 'a rd_kafka_timers_scheme \<Rightarrow> 'a rd_kafka_timers_scheme) \<Rightarrow>
   int \<Rightarrow> int \<Rightarrow> int \<Rightarrow> 'a rd_kafka_timers_scheme \<Rightarrow> nat list \<Rightarrow>
   ('a rd_kafka_timers_scheme \<times> nat list) outcome option" where
  "timers_run_loop clk callback terminating wait timeout_us stop now s fired =
     (if terminating s \<or> stop < now then Some (Return (s, fired))
      else let s1 = (if timeout_us \<noteq> 0
                     then let (sleeptime, sa) = rd_kafka_timers_next clk s timeout_us
                          in if 0 < sleeptime then wait (sleeptime div 1000) sa else sa
                     else s);
               (now', s2) = rd_clock clk s1
           in Option.bind (timers_dispatch clk callback now' s2 fired) (\<lambda>r.
                case r of
                  Return (s3, fired') \<Rightarrow>
                    if timeout_us = 0 then Some (Return (s3, fired'))
                    else timers_run_loop clk callback terminating wait timeout_us stop now' s3 fired'
                | Assert_Failed \<Rightarrow> Some Assert_Failed
                | Undefined \<Rightarrow> Some Undefined))"

definition rd_kafka_timers_run ::
  "(nat \<Rightarrow> int) \<Rightarrow> (nat \<Rightarrow> 'a rd_kafka_timers_scheme \<Rightarrow> 'a rd_kafka_timers_scheme outcome) \<Rightarrow>
   ('a rd_kafka_timers_scheme \<Rightarrow> bool) \<Rightarrow> (int \<Rightarrow> 'a rd_kafka_timers_scheme \<Rightarrow> 'a rd_kafka_timers_scheme) \<Rightarrow>
   int \<Rightarrow> 'a rd_kafka_timers_scheme \<Rightarrow> ('a rd_kafka_timers_scheme \<times> nat list) outcome option" where
  "rd_kafka_timers_run clk callback terminating wait timeout_us s =
     (let (now, s1) = rd_clock clk s
      in timers_run_loop clk callback terminating wait timeout_us (now + timeout_us) now s1 [])"

text \<open>The timers in the queue are stopped; one that is not started would be stopped for ever.\<close>

partial_function (option) timers_stop_all ::
  "'a rd_kafka_timers_scheme \<Rightarrow> 'a rd_kafka_timers_scheme outcome option" where
  "timers_stop_all s =
     (case rkts_timers s of
        [] \<Rightarrow> Some (Return s)
      | t # _ \<Rightarrow>
          (case rd_kafka_timer_stop s t of
             Return (s1, _) \<Rightarrow> timers_stop_all s1
           | Assert_Failed \<Rightarrow> Some Assert_Failed
           | Undefined \<Rightarrow> Some Undefined))"

definition rd_kafka_timers_destroy ::
  "'a rd_kafka_timers_scheme \<Rightarrow> 'a rd_kafka_timers_scheme outcome option" where
  "rd_kafka_timers_destroy s =
     xbind (timers_stop_all (s\<lparr>rkts_enabled := False\<rparr>)) (\<lambda>s1.
       Some (obind (rd_assert (rkts_timers s1 = [])) (\<lambda>_. Return s1)))"

definition rd_kafka_timers_init :: "'a rd_kafka_timers_scheme \<Rightarrow> 'a rd_kafka_timers_scheme" where
  "rd_kafka_timers_init s = s\<lparr>rkts_timers := [], rkts_enabled := True\<rparr>"

lemmas [timer_defs] = rd_kafka_timer_start0_def rd_kafka_timer_stop_def rd_kafka_timer_schedule_def
  rd_kafka_timer_started_def rd_kafka_timer_scheduled_def rd_kafka_timers_init_def rd_clock_def

section \<open>The queue of timers\<close>

abbreviation next_of :: "'a rd_kafka_timers_scheme \<Rightarrow> nat \<Rightarrow> int" where
  "next_of s t \<equiv> rtmr_next (rkts_store s t)"

abbreviation interval_of :: "'a rd_kafka_timers_scheme \<Rightarrow> nat \<Rightarrow> int" where
  "interval_of s t \<equiv> rtmr_interval (rkts_store s t)"

abbreviation queued :: "'a rd_kafka_timers_scheme \<Rightarrow> nat set" where
  "queued s \<equiv> set (rkts_timers s)"

text \<open>The queue holds exactly the scheduled timers, each once, and these are started.\<close>

definition timers_inv :: "'a rd_kafka_timers_scheme \<Rightarrow> bool" where
  "timers_inv s \<longleftrightarrow> distinct (rkts_timers s) \<and> (\<forall>t. t \<in> queued s \<longleftrightarrow> next_of s t \<noteq> 0) \<and>
     (\<forall>t. 0 \<le> interval_of s t) \<and> (\<forall>t \<in> queued s. interval_of s t \<noteq> 0)"

definition timers_sorted :: "'a rd_kafka_timers_scheme \<Rightarrow> bool" where
  "timers_sorted s \<longleftrightarrow> sorted (map (next_of s) (rkts_timers s))"

lemma set_timer_sel [simp]:
  "rkts_timers (set_timer t f s) = rkts_timers s" "rkts_enabled (set_timer t f s) = rkts_enabled s"
  "rkts_reads (set_timer t f s) = rkts_reads s"
  "rkts_store (set_timer t f s) = (rkts_store s)(t := f (rkts_store s t))"
  by (simp_all add: set_timer_def)

text \<open>Within \<open>2 ^ 31\<close> microseconds the conversion keeps the sign.\<close>

lemma int32_cast_id: "- (2 ^ 31) \<le> x \<Longrightarrow> x < 2 ^ 31 \<Longrightarrow> int32_cast x = x"
  by (simp add: int32_cast_def)

lemma unschedule_spec:
  assumes "timers_inv s" "t \<in> queued s"
  obtains s' where "rd_kafka_timer_unschedule s t = Return s'" "timers_inv s'"
    "rkts_timers s' = remove1 t (rkts_timers s)" "rkts_reads s' = rkts_reads s" "rkts_enabled s' = rkts_enabled s"
    "rkts_store s' = (rkts_store s)(t := (rkts_store s t)\<lparr>rtmr_next := 0\<rparr>)"
    "timers_sorted s \<longrightarrow> timers_sorted s'"
proof -
  let ?s = "set_timer t (rtmr_next_update (\<lambda>_. 0)) (s\<lparr>rkts_timers := remove1 t (rkts_timers s)\<rparr>)"
  have "timers_inv ?s" using assms by (auto simp: timers_inv_def set_remove1_eq)
  moreover have "timers_sorted ?s" if "timers_sorted s"
  proof -
    have eq: "map (next_of ?s) (remove1 t (rkts_timers s)) = map (next_of s) (remove1 t (rkts_timers s))"
      using assms by (auto simp: timers_inv_def set_remove1_eq)
    have "rkts_timers ?s = remove1 t (rkts_timers s)" by simp
    then show ?thesis using that sorted_map_remove1 [of "next_of s" "rkts_timers s" t]
      unfolding timers_sorted_def by (simp only: eq)
  qed
  ultimately show thesis
    using that [of ?s] assms(2) by (simp add: rd_kafka_timer_unschedule_def)
qed

lemma schedule_spec:
  assumes "timers_inv s" "t \<notin> queued s" "0 < clk (rkts_reads s)" "0 \<le> extra"
  obtains (off) "interval_of s t = 0 \<or> \<not> rkts_enabled s" "rd_kafka_timer_schedule clk s t extra = Return s"
  | (on) s' n where "interval_of s t \<noteq> 0" "rkts_enabled s" "rd_kafka_timer_schedule clk s t extra = Return s'"
      "n = clk (rkts_reads s) + interval_of s t + extra" "timers_inv s'" "queued s' = insert t (queued s)"
      "rkts_reads s' = rkts_reads s + 1" "rkts_enabled s' = rkts_enabled s"
      "rkts_store s' = (rkts_store s)(t := (rkts_store s t)\<lparr>rtmr_next := n\<rparr>)"
      "timers_sorted s \<Longrightarrow> \<forall>u \<in> queued s. - (2 ^ 31) \<le> n - next_of s u \<and> n - next_of s u < 2 ^ 31 \<Longrightarrow> timers_sorted s'"
proof (cases "interval_of s t = 0 \<or> \<not> rkts_enabled s")
  case True
  then show thesis using off by (auto simp: rd_kafka_timer_schedule_def)
next
  case False
  define n where "n = clk (rkts_reads s) + interval_of s t + extra"
  define s2 where "s2 = set_timer t (rtmr_next_update (\<lambda>_. n)) (s\<lparr>rkts_reads := rkts_reads s + 1\<rparr>)"
  define q where "q = (case rkts_timers s of [] \<Rightarrow> [t] | first # _ \<Rightarrow>
     if n < next_of s first then t # rkts_timers s else TAILQ_INSERT_SORTED (timer_before s2) t (rkts_timers s))"
  have n: "n \<noteq> 0" using assms(1,3,4) False by (auto simp: n_def timers_inv_def) (smt (verit))
  have q: "set q = insert t (queued s)" "distinct q"
    using assms(1,2) by (auto simp: q_def timers_inv_def split: list.splits)
  have first: "next_of s2 u = next_of s u" if "u \<in> queued s" for u using that assms(2) by (auto simp: s2_def)
  have run: "rd_kafka_timer_schedule clk s t extra = Return (s2\<lparr>rkts_timers := q\<rparr>)"
    using False assms(2)
    by (auto simp: rd_kafka_timer_schedule_def rd_clock_def n_def [symmetric] s2_def q_def Let_def split: list.splits)
  have inv: "timers_inv (s2\<lparr>rkts_timers := q\<rparr>)"
    using assms(1) n q False by (auto simp: timers_inv_def s2_def)
  have srt: "timers_sorted (s2\<lparr>rkts_timers := q\<rparr>)"
    if "timers_sorted s" "\<forall>u \<in> queued s. - (2 ^ 31) \<le> n - next_of s u \<and> n - next_of s u < 2 ^ 31"
  proof -
    have map: "map (next_of s2) (rkts_timers s) = map (next_of s) (rkts_timers s)" using first by simp
    have "\<forall>u \<in> queued s. timer_before s2 t u < 0 \<longleftrightarrow> next_of s2 t < next_of s2 u"
    proof
      fix u assume u: "u \<in> queued s"
      then have "timer_before s2 t u = n - next_of s u"
        using that(2) first [OF u] by (simp add: timer_before_def rd_kafka_timer_cmp_def int32_cast_id s2_def)
      then show "timer_before s2 t u < 0 \<longleftrightarrow> next_of s2 t < next_of s2 u" using first [OF u] by (simp add: s2_def)
    qed
    then have "sorted (map (next_of s2) (TAILQ_INSERT_SORTED (timer_before s2) t (rkts_timers s)))"
      using that(1) unfolding timers_sorted_def map [symmetric] by (rule sorted_insert_sorted)
    moreover have "sorted (map (next_of s2) (t # rkts_timers s))" if "rkts_timers s = f # r" "n < next_of s f" for f r
    proof -
      have "\<forall>u \<in> queued s. n \<le> next_of s u" using \<open>timers_sorted s\<close> that by (auto simp: timers_sorted_def)
      moreover have "next_of s2 t = n" by (simp add: s2_def)
      ultimately show ?thesis using \<open>timers_sorted s\<close> unfolding timers_sorted_def list.map map by simp
    qed
    ultimately show ?thesis by (auto simp: timers_sorted_def q_def split: list.splits)
  qed
  show thesis
    by (rule on [OF _ _ run n_def inv _ _ _ _ srt]) (use False q in \<open>auto simp: s2_def\<close>)
qed

text \<open>A timer outside the queue can be changed.\<close>

lemma set_timer_spec:
  assumes "timers_inv s" "t \<notin> queued s" "\<And>r. rtmr_next (f r) = rtmr_next r" "0 \<le> rtmr_interval (f (rkts_store s t))"
  shows "timers_inv (set_timer t f s)" "timers_sorted (set_timer t f s) = timers_sorted s"
proof -
  show "timers_inv (set_timer t f s)" using assms by (auto simp: timers_inv_def)
  have "next_of (set_timer t f s) = next_of s" using assms(3) by (auto simp: fun_eq_iff)
  then show "timers_sorted (set_timer t f s) = timers_sorted s" by (simp only: timers_sorted_def set_timer_sel(1))
qed

lemma stop_spec:
  assumes "timers_inv s"
  obtains s' where "rd_kafka_timer_stop s t = Return (s', rd_kafka_timer_started s t)" "timers_inv s'"
    "queued s' = queued s - {t}" "rkts_reads s' = rkts_reads s" "rkts_enabled s' = rkts_enabled s"
    "interval_of s' t = 0" "\<forall>u. u \<noteq> t \<longrightarrow> rkts_store s' u = rkts_store s u" "timers_sorted s \<longrightarrow> timers_sorted s'"
    "length (rkts_timers s') \<le> length (rkts_timers s)" "t \<in> queued s \<longrightarrow> length (rkts_timers s') < length (rkts_timers s)"
proof (cases "rd_kafka_timer_started s t")
  case False
  then have "t \<notin> queued s" using assms by (auto simp: timers_inv_def rd_kafka_timer_started_def)
  then show thesis using that [of s] False assms by (simp add: rd_kafka_timer_stop_def rd_kafka_timer_started_def)
next
  case started: True
  let ?f = "rtmr_interval_update (\<lambda>_. 0)"
  show thesis
  proof (cases "rd_kafka_timer_scheduled s t")
    case True
    then have t: "t \<in> queued s" using assms by (simp add: timers_inv_def rd_kafka_timer_scheduled_def)
    obtain s1 where s1: "rd_kafka_timer_unschedule s t = Return s1" "timers_inv s1"
      "rkts_timers s1 = remove1 t (rkts_timers s)" "rkts_reads s1 = rkts_reads s" "rkts_enabled s1 = rkts_enabled s"
      "rkts_store s1 = (rkts_store s)(t := (rkts_store s t)\<lparr>rtmr_next := 0\<rparr>)" "timers_sorted s \<longrightarrow> timers_sorted s1"
      by (rule unschedule_spec [OF assms t])
    have q: "queued s1 = queued s - {t}" "length (rkts_timers s1) < length (rkts_timers s)"
      using s1(3) assms t length_pos_if_in_set [OF t] by (auto simp: timers_inv_def set_remove1_eq length_remove1)
    then have "t \<notin> queued s1" by simp
    note st = set_timer_spec [OF s1(2) this, of ?f]
    show thesis
      by (rule that [of "set_timer t ?f s1"]) (use started True s1 st q in \<open>auto simp: rd_kafka_timer_stop_def\<close>)
  next
    case False
    then have t: "t \<notin> queued s" using assms by (simp add: timers_inv_def rd_kafka_timer_scheduled_def)
    note st = set_timer_spec [OF assms t, of ?f]
    show thesis
      by (rule that [of "set_timer t ?f s"]) (use started False st t in \<open>auto simp: rd_kafka_timer_stop_def\<close>)
  qed
qed

text \<open>
  What every operation keeps: the queue is well formed, and a timer in it was there before, with
  the same expiry, or expires after the time at which the operation began.
\<close>

definition timers_fresh :: "(nat \<Rightarrow> int) \<Rightarrow> 'a rd_kafka_timers_scheme \<Rightarrow> 'a rd_kafka_timers_scheme \<Rightarrow> bool" where
  "timers_fresh clk s s' \<longleftrightarrow> timers_inv s' \<and> rkts_reads s \<le> rkts_reads s' \<and>
     (\<forall>u \<in> queued s'. u \<in> queued s \<and> next_of s' u = next_of s u \<or> clk (rkts_reads s) < next_of s' u)"

lemma timers_fresh_trans:
  assumes "mono clk" "timers_fresh clk s s1" "timers_fresh clk s1 s2"
  shows "timers_fresh clk s s2"
proof -
  have "clk (rkts_reads s) \<le> clk (rkts_reads s1)" using assms(1,2) by (simp add: timers_fresh_def monoD)
  moreover have "u \<in> queued s \<and> next_of s2 u = next_of s u \<or> clk (rkts_reads s) < next_of s2 u"
    if "u \<in> queued s2" "clk (rkts_reads s) \<le> clk (rkts_reads s1)" for u
  proof (cases "clk (rkts_reads s1) < next_of s2 u")
    case False
    then have "u \<in> queued s1" "next_of s2 u = next_of s1 u" using that(1) assms(3) unfolding timers_fresh_def by blast+
    then show ?thesis using assms(2) unfolding timers_fresh_def by metis
  qed (use that(2) in linarith)
  ultimately show ?thesis using assms(2,3) unfolding timers_fresh_def by (metis order.trans)
qed

lemma schedule_fresh:
  assumes "timers_inv s" "t \<notin> queued s" "0 < clk (rkts_reads s)" "0 \<le> extra"
  shows "\<exists>s'. rd_kafka_timer_schedule clk s t extra = Return s' \<and> timers_fresh clk s s'"
  using assms
proof (cases rule: schedule_spec)
  case off
  then show ?thesis using assms(1) by (auto simp: timers_fresh_def)
next
  case (on s' n)
  have "0 < interval_of s t" using assms(1) on(1) by (simp add: timers_inv_def order_less_le)
  then have "clk (rkts_reads s) < n" using on(4) assms(4) by linarith
  then have "timers_fresh clk s s'" using on(5,6,7,9) assms(2) by (auto simp: timers_fresh_def)
  then show ?thesis using on(3) by blast
qed

lemma stop_fresh:
  assumes "timers_inv s"
  shows "\<exists>s' b. rd_kafka_timer_stop s t = Return (s', b) \<and> timers_fresh clk s s' \<and> t \<notin> queued s'"
proof -
  obtain s' where "rd_kafka_timer_stop s t = Return (s', rd_kafka_timer_started s t)" "timers_inv s'"
    "queued s' = queued s - {t}" "rkts_reads s' = rkts_reads s" "\<forall>u. u \<noteq> t \<longrightarrow> rkts_store s' u = rkts_store s u"
    by (rule stop_spec [OF assms, of t]) blast
  then show ?thesis by (intro exI [of _ s']) (auto simp: timers_fresh_def)
qed

lemma start_fresh:
  assumes clk: "mono clk" "\<And>n. 0 < clk n" and s: "timers_inv s" "0 \<le> interval"
  shows "\<exists>s'. rd_kafka_timer_start0 clk s t interval oneshot cb = Return s' \<and> timers_fresh clk s s'"
proof -
  obtain s1 b where s1: "rd_kafka_timer_stop s t = Return (s1, b)" "timers_fresh clk s s1" "t \<notin> queued s1"
    using stop_fresh [OF s(1)] by blast
  let ?f = "\<lambda>r. r\<lparr>rtmr_interval := interval, rtmr_callback := cb, rtmr_oneshot := oneshot\<rparr>"
  have inv: "timers_inv (set_timer t ?f s1)"
    by (rule set_timer_spec(1)) (use s1(2,3) s(2) in \<open>simp_all add: timers_fresh_def\<close>)
  then have f: "timers_fresh clk s1 (set_timer t ?f s1)" using s1(3) by (auto simp: timers_fresh_def)
  obtain s' where s': "rd_kafka_timer_schedule clk (set_timer t ?f s1) t 0 = Return s'"
    "timers_fresh clk (set_timer t ?f s1) s'"
    using schedule_fresh [OF inv, of t clk 0] s1(3) clk(2) by auto
  then show ?thesis using s1(1) timers_fresh_trans [OF clk(1) timers_fresh_trans [OF clk(1) s1(2) f] s'(2)]
    by (simp add: rd_kafka_timer_start0_def)
qed

lemma unschedule_fresh:
  assumes "timers_inv s" "t \<in> queued s"
  shows "\<exists>s'. rd_kafka_timer_unschedule s t = Return s' \<and> timers_fresh clk s s' \<and> queued s' = queued s - {t}"
proof -
  obtain s' where "rd_kafka_timer_unschedule s t = Return s'" "timers_inv s'"
    "rkts_timers s' = remove1 t (rkts_timers s)" "rkts_reads s' = rkts_reads s"
    "rkts_store s' = (rkts_store s)(t := (rkts_store s t)\<lparr>rtmr_next := 0\<rparr>)"
    by (rule unschedule_spec [OF assms]) blast
  then show ?thesis using assms(1) by (intro exI [of _ s']) (auto simp: timers_fresh_def timers_inv_def set_remove1_eq)
qed

lemma backoff_fresh:
  assumes clk: "mono clk" "\<And>n. 0 < clk n" and s: "timers_inv s" "0 \<le> us"
  shows "\<exists>s'. rd_kafka_timer_backoff clk s t us = Return s' \<and> timers_fresh clk s s'"
proof -
  have sched: "rd_kafka_timer_scheduled s t \<longleftrightarrow> t \<in> queued s" using s(1) by (simp add: timers_inv_def rd_kafka_timer_scheduled_def)
  obtain s1 where s1: "(if rd_kafka_timer_scheduled s t then rd_kafka_timer_unschedule s t else Return s) = Return s1"
    "timers_fresh clk s s1" "t \<notin> queued s1"
    using unschedule_fresh [OF s(1), of t clk] s(1) unfolding sched
    by (cases "t \<in> queued s") (auto simp: timers_fresh_def)
  obtain s' where "rd_kafka_timer_schedule clk s1 t us = Return s'" "timers_fresh clk s1 s'"
    using schedule_fresh [of s1 t clk us] s1(2,3) clk(2) s(2) by (auto simp: timers_fresh_def)
  then show ?thesis using s1(1) timers_fresh_trans [OF clk(1) s1(2)] by (simp add: rd_kafka_timer_backoff_def)
qed

lemma restart_fresh:
  assumes clk: "mono clk" "\<And>n. 0 < clk n" and s: "timers_inv s"
  shows "\<exists>s'. timer_restart clk s t = Return s' \<and> timers_fresh clk s s'"
  using schedule_fresh [OF s, of t clk 0] s clk(2) 
  by (auto simp: timer_restart_def rd_kafka_timer_scheduled_def timers_inv_def timers_fresh_def)

lemma expire_fresh:
  assumes "timers_inv s" "t \<in> queued s"
  shows "\<exists>s'. timer_expire s t = Return s' \<and> timers_fresh clk s s' \<and> queued s' = queued s - {t}"
proof -
  obtain s1 where s1: "rd_kafka_timer_unschedule s t = Return s1" "timers_fresh clk s s1" "queued s1 = queued s - {t}"
    using unschedule_fresh [OF assms] by blast
  have "timers_inv (set_timer t (rtmr_interval_update (\<lambda>_. 0)) s1)"
    by (rule set_timer_spec(1)) (use s1 in \<open>simp_all add: timers_fresh_def\<close>)
  then show ?thesis using s1 by (auto simp: timer_expire_def timers_fresh_def)
qed

end
