(* ===== verification/Timer_Run.thy ===== *)
theory Timer_Run
  imports Timer
begin

text \<open>
  What the timer engine of \<open>Timer\<close> guarantees: the queue stays well formed and, while no timer is
  late by more than half an hour, ordered; \<open>rd_kafka_timers_run\<close> returns and fires a timer at most
  once; and how the order breaks.
\<close>

section \<open>Dispatching\<close>

definition due :: "int \<Rightarrow> 'a rd_kafka_timers_scheme \<Rightarrow> nat set" where
  "due now s = {t \<in> queued s. next_of s t \<le> now}"

lemma due_fresh:
  assumes "timers_fresh clk s s'" "now \<le> clk (rkts_reads s)"
  shows "due now s' \<subseteq> due now s"
proof
  fix u assume u: "u \<in> due now s'"
  then have "\<not> clk (rkts_reads s) < next_of s' u" using assms(2) by (simp add: due_def)
  then show "u \<in> due now s" using u assms(1) unfolding timers_fresh_def due_def by auto
qed

lemma more_timers:
  "rd_kafka_timer_schedule clk s t extra = Return s1 \<Longrightarrow> rd_kafka_timers.more s1 = rd_kafka_timers.more s"
  "timer_expire s t = Return s1 \<Longrightarrow> rd_kafka_timers.more s1 = rd_kafka_timers.more s"
  "timer_restart clk s t = Return s1 \<Longrightarrow> rd_kafka_timers.more s1 = rd_kafka_timers.more s"
proof -
  show "rd_kafka_timer_schedule clk s t extra = Return s1 \<Longrightarrow> rd_kafka_timers.more s1 = rd_kafka_timers.more s"
    for extra s1
    by (auto simp: rd_kafka_timer_schedule_def rd_clock_def set_timer_def Let_def split: if_splits list.splits)
  then show "timer_restart clk s t = Return s1 \<Longrightarrow> rd_kafka_timers.more s1 = rd_kafka_timers.more s"
    by (auto simp: timer_restart_def split: if_splits)
  show "timer_expire s t = Return s1 \<Longrightarrow> rd_kafka_timers.more s1 = rd_kafka_timers.more s"
    by (auto simp: timer_expire_def rd_kafka_timer_unschedule_def set_timer_def split: if_splits)
qed

text \<open>
  What the engine asks of the clock and of a callback. The clock does not go back. The callback
  may use the timers: it keeps the queue well formed and schedules nothing into the past.
  \<open>good\<close> is what the callback needs of its own state.
\<close>

locale timer_callback =
  fixes clk :: "nat \<Rightarrow> int"
    and callback :: "nat \<Rightarrow> 'a rd_kafka_timers_scheme \<Rightarrow> 'a rd_kafka_timers_scheme outcome"
    and good :: "'a \<Rightarrow> bool"
  assumes clk_mono: "mono clk"
    and clk_pos: "0 < clk n"
    and callback_fresh: "timers_inv s \<Longrightarrow> good (rd_kafka_timers.more s) \<Longrightarrow>
      \<exists>s'. callback c s = Return s' \<and> timers_fresh clk s s' \<and> good (rd_kafka_timers.more s')"
begin

lemma fire_returns:
  assumes s: "timers_inv s" "good (rd_kafka_timers.more s)" and t: "t \<in> queued s" and now: "now \<le> clk (rkts_reads s)"
  shows "\<exists>s'. timer_fire clk callback s t = Return s' \<and> timers_fresh clk s s' \<and> good (rd_kafka_timers.more s') \<and>
    due now s' \<subseteq> due now s - {t}"
proof -
  obtain s1 where s1: "timer_expire s t = Return s1" "timers_fresh clk s s1" "queued s1 = queued s - {t}"
    using expire_fresh [OF s(1) t] by blast
  have i1: "timers_inv s1" "good (rd_kafka_timers.more s1)"
    using s1(2) s(2) more_timers(2) [OF s1(1)] by (simp_all add: timers_fresh_def)
  obtain s2 where s2: "callback (rtmr_callback (rkts_store s1 t)) s1 = Return s2" "timers_fresh clk s1 s2"
    "good (rd_kafka_timers.more s2)"
    using callback_fresh [OF i1] by blast
  have "timers_inv s2" using s2(2) by (simp add: timers_fresh_def)
  then obtain s3 where s3: "timer_restart clk s2 t = Return s3" "timers_fresh clk s2 s3"
    using restart_fresh [OF clk_mono clk_pos] by blast
  have f: "timers_fresh clk s1 s3" by (rule timers_fresh_trans [OF clk_mono s2(2) s3(2)])
  have "now \<le> clk (rkts_reads s1)"
    using now s1(2) monoD [OF clk_mono, of "rkts_reads s" "rkts_reads s1"] by (simp add: timers_fresh_def)
  then have "due now s3 \<subseteq> due now s1" by (rule due_fresh [OF f])
  moreover have "due now s1 \<subseteq> due now s - {t}" using due_fresh [OF s1(2) now] s1(3) by (auto simp: due_def)
  moreover have "timer_fire clk callback s t = Return s3" using s1(1) s2(1) s3(1) by (simp add: timer_fire_def)
  ultimately show ?thesis
    using timers_fresh_trans [OF clk_mono s1(2) f] s2(3) more_timers(3) [OF s3(1)] by auto
qed

lemma dispatch_returns:
  assumes "timers_inv s" "good (rd_kafka_timers.more s)" "now \<le> clk (rkts_reads s)"
  shows "\<exists>s' fs. timers_dispatch clk callback now s fired = Some (Return (s', fired @ fs)) \<and>
    timers_fresh clk s s' \<and> good (rd_kafka_timers.more s') \<and> distinct fs \<and> set fs \<subseteq> due now s \<and>
    (\<forall>t r. rkts_timers s' = t # r \<longrightarrow> now < next_of s' t)"
  using assms
proof (induction "card (due now s)" arbitrary: s fired rule: less_induct)
  case less
  have refl: "timers_fresh clk s s" using less.prems(1) by (simp add: timers_fresh_def)
  show ?case
  proof (cases "\<exists>t r. rkts_timers s = t # r \<and> next_of s t \<le> now")
    case False
    then have "timers_dispatch clk callback now s fired = Some (Return (s, fired))"
      by (subst timers_dispatch.simps) (auto split: list.splits)
    then show ?thesis using False refl less.prems(2) by (intro exI [of _ s] exI [of _ "[]"]) auto
  next
    case True
    then obtain t r where t: "rkts_timers s = t # r" "next_of s t \<le> now" by blast
    then have tq: "t \<in> queued s" "t \<in> due now s" by (simp_all add: due_def)
    obtain s1 where s1: "timer_fire clk callback s t = Return s1" "timers_fresh clk s s1"
      "good (rd_kafka_timers.more s1)" "due now s1 \<subseteq> due now s - {t}"
      using fire_returns [OF less.prems(1,2) tq(1) less.prems(3)] by blast
    have "finite (due now s)" by (simp add: due_def)
    then have "card (due now s1) < card (due now s)" using s1(4) tq(2) by (intro psubset_card_mono) auto
    moreover have "timers_inv s1" "now \<le> clk (rkts_reads s1)"
      using s1(2) less.prems(3) monoD [OF clk_mono, of "rkts_reads s" "rkts_reads s1"] by (simp_all add: timers_fresh_def)
    ultimately obtain s' fs where ih: "timers_dispatch clk callback now s1 (fired @ [t]) = Some (Return (s', (fired @ [t]) @ fs))"
      "timers_fresh clk s1 s'" "good (rd_kafka_timers.more s')" "distinct fs" "set fs \<subseteq> due now s1"
      "\<forall>t r. rkts_timers s' = t # r \<longrightarrow> now < next_of s' t"
      using less.hyps [of s1 "fired @ [t]"] s1(3) by blast
    have "timers_dispatch clk callback now s fired = Some (Return (s', fired @ t # fs))"
      using t s1(1) ih(1) by (subst timers_dispatch.simps) simp
    moreover have "distinct (t # fs)" "set (t # fs) \<subseteq> due now s" using ih(4,5) s1(4) tq(2) by auto
    ultimately show ?thesis using ih(3,6) timers_fresh_trans [OF clk_mono s1(2) ih(2)] by blast
  qed
qed

text \<open>A run that does not wait reads the clock twice and dispatches once.\<close>

lemma run_nowait:
  assumes "timers_inv s" "good (rd_kafka_timers.more s)"
  shows "\<exists>s' fs. rd_kafka_timers_run clk callback terminating wait 0 s = Some (Return (s', fs)) \<and>
    timers_inv s' \<and> good (rd_kafka_timers.more s') \<and> distinct fs \<and> set fs \<subseteq> due (clk (rkts_reads s + 1)) s \<and>
    (terminating (s\<lparr>rkts_reads := rkts_reads s + 1\<rparr>) \<or>
     (\<forall>t r. rkts_timers s' = t # r \<longrightarrow> clk (rkts_reads s + 1) < next_of s' t))"
proof -
  let ?s1 = "s\<lparr>rkts_reads := rkts_reads s + 1\<rparr>" and ?s2 = "s\<lparr>rkts_reads := rkts_reads s + 2\<rparr>" and ?now = "clk (rkts_reads s + 1)"
  have inv: "timers_inv ?s1" "timers_inv ?s2" using assms(1) by (simp_all add: timers_inv_def)
  have d: "due ?now ?s2 = due ?now s" by (simp add: due_def)
  have run: "rd_kafka_timers_run clk callback terminating wait 0 s =
      timers_run_loop clk callback terminating wait 0 (clk (rkts_reads s)) (clk (rkts_reads s)) ?s1 []"
    by (simp add: rd_kafka_timers_run_def rd_clock_def)
  show ?thesis
  proof (cases "terminating ?s1")
    case True
    then have "rd_kafka_timers_run clk callback terminating wait 0 s = Some (Return (?s1, []))"
      unfolding run by (subst timers_run_loop.simps) simp
    then show ?thesis using True inv(1) assms(2) by auto
  next
    case False
    have "?now \<le> clk (rkts_reads ?s2)" using clk_mono by (simp add: monoD)
    then obtain s' fs where r: "timers_dispatch clk callback ?now ?s2 [] = Some (Return (s', [] @ fs))"
      "timers_fresh clk ?s2 s'" "good (rd_kafka_timers.more s')" "distinct fs" "set fs \<subseteq> due ?now ?s2"
      "\<forall>t r. rkts_timers s' = t # r \<longrightarrow> ?now < next_of s' t"
      using dispatch_returns [OF inv(2), of ?now "[]"] assms(2) by auto
    have "rd_kafka_timers_run clk callback terminating wait 0 s = Some (Return (s', fs))"
      unfolding run using False r(1) by (subst timers_run_loop.simps) (simp add: rd_clock_def)
    then show ?thesis using r(2-6) d by (auto simp: timers_fresh_def)
  qed
qed

end

section \<open>Callbacks that use the timers\<close>

datatype timer_call = Call_Start nat int bool nat | Call_Stop nat | Call_Backoff nat int

fun timer_calls ::
  "(nat \<Rightarrow> int) \<Rightarrow> timer_call list \<Rightarrow> 'a rd_kafka_timers_scheme \<Rightarrow> 'a rd_kafka_timers_scheme outcome" where
  "timer_calls clk [] s = Return s"
| "timer_calls clk (Call_Start t interval oneshot cb # cs) s =
     obind (rd_kafka_timer_start0 clk s t interval oneshot cb) (timer_calls clk cs)"
| "timer_calls clk (Call_Stop t # cs) s = obind (rd_kafka_timer_stop s t) (\<lambda>(s1, _). timer_calls clk cs s1)"
| "timer_calls clk (Call_Backoff t us # cs) s = obind (rd_kafka_timer_backoff clk s t us) (timer_calls clk cs)"

fun call_ok :: "timer_call \<Rightarrow> bool" where
  "call_ok (Call_Start t interval oneshot cb) \<longleftrightarrow> 0 \<le> interval"
| "call_ok (Call_Stop t) \<longleftrightarrow> True"
| "call_ok (Call_Backoff t us) \<longleftrightarrow> 0 \<le> us"

lemma timer_calls_fresh:
  assumes clk: "mono clk" "\<And>n. 0 < clk n"
  shows "timers_inv s \<Longrightarrow> list_all call_ok cs \<Longrightarrow> \<exists>s'. timer_calls clk cs s = Return s' \<and> timers_fresh clk s s'"
proof (induction cs arbitrary: s)
  case (Cons c cs)
  have step: "\<exists>s1. timer_calls clk (c # cs) s = timer_calls clk cs s1 \<and> timers_fresh clk s s1"
  proof (cases c)
    case (Call_Start t interval oneshot cb)
    then show ?thesis using start_fresh [OF clk Cons.prems(1), of interval t oneshot cb] Cons.prems(2) by auto
  next
    case (Call_Stop t)
    then show ?thesis using stop_fresh [OF Cons.prems(1), of t clk] by auto
  next
    case (Call_Backoff t us)
    then show ?thesis using backoff_fresh [OF clk Cons.prems(1), of us t] Cons.prems(2) by auto
  qed
  then obtain s1 where s1: "timer_calls clk (c # cs) s = timer_calls clk cs s1" "timers_fresh clk s s1" by blast
  then have "timers_inv s1" by (simp add: timers_fresh_def)
  then obtain s' where "timer_calls clk cs s1 = Return s'" "timers_fresh clk s1 s'"
    using Cons.IH Cons.prems(2) by auto
  then show ?case using s1 timers_fresh_trans [OF clk(1) s1(2)] by auto
qed (simp add: timers_fresh_def)

text \<open>A clock that starts and advances in steps, for callbacks that are sequences of such calls.\<close>

definition ticking :: "int \<Rightarrow> (nat \<Rightarrow> int) \<Rightarrow> nat \<Rightarrow> int" where
  "ticking start d n = max 1 start + (\<Sum>i < n. max 0 (d i))"

lemma ticking_mono: "mono (ticking start d)"
  by (rule monoI) (auto simp: ticking_def intro!: sum_mono2)

lemma ticking_pos: "0 < ticking start d n"
proof -
  have "0 \<le> (\<Sum>i < n. max 0 (d i))" by (rule sum_nonneg) simp
  then show ?thesis by (simp add: ticking_def)
qed

interpretation calls: timer_callback "ticking start d" "\<lambda>c. timer_calls (ticking start d) (filter call_ok (cb c))" "\<lambda>_. True"
  for start d cb
proof unfold_locales
  show "\<exists>s'. timer_calls (ticking start d) (filter call_ok (cb c)) s = Return s' \<and> timers_fresh (ticking start d) s s' \<and> True"
    if "timers_inv s" for c and s :: "'a rd_kafka_timers_scheme"
    using timer_calls_fresh [OF ticking_mono ticking_pos that, of "filter call_ok (cb c)"] by (simp add: list_all_iff)
qed (simp_all add: ticking_mono ticking_pos)

lemma ticking_all:
  assumes "mono clk" "\<And>n. 0 < clk n"
  shows "clk = ticking (clk 0) (\<lambda>i. clk (Suc i) - clk i)"
proof
  fix n
  have "max 0 (clk (Suc i) - clk i) = clk (Suc i) - clk i" for i using monoD [OF assms(1), of i "Suc i"] by simp
  then have "(\<Sum>i < n. max 0 (clk (Suc i) - clk i)) = clk n - clk 0" by (simp add: sum_lessThan_telescope)
  moreover have "1 \<le> clk 0" using assms(2) [of 0] by simp
  ultimately show "clk n = ticking (clk 0) (\<lambda>i. clk (Suc i) - clk i) n" by (simp add: ticking_def)
qed

text \<open>
  C21. A run of the timers that does not wait always returns, whatever timers the callbacks start,
  stop or delay: it fires no timer twice, and only timers that were due; it keeps the queue well
  formed; and afterwards the first timer of the queue is not due.
\<close>

theorem timers_run_returns:
  assumes clk: "mono clk" "\<forall>n. 0 < clk n" and s: "timers_inv s" and calls: "\<forall>c. list_all call_ok (cb c)"
  shows "\<exists>s' fired. rd_kafka_timers_run clk (\<lambda>c. timer_calls clk (cb c)) (\<lambda>_. False) wait 0 s = Some (Return (s', fired)) \<and>
    timers_inv s' \<and> distinct fired \<and> (\<forall>t \<in> set fired. t \<in> queued s \<and> next_of s t \<le> clk (rkts_reads s + 1)) \<and>
    (\<forall>t r. rkts_timers s' = t # r \<longrightarrow> clk (rkts_reads s + 1) < next_of s' t)"
proof -
  have tick: "ticking (clk 0) (\<lambda>i. clk (Suc i) - clk i) = clk" using ticking_all [OF clk(1)] clk(2) by simp
  have all: "filter call_ok (cb c) = cb c" for c
    using calls by (simp add: list_all_iff filter_id_conv)
  show ?thesis
    using calls.run_nowait [OF s, of "clk 0" "\<lambda>i. clk (Suc i) - clk i" cb "\<lambda>_. False" wait] unfolding tick all
    by (fastforce simp: due_def)
qed

theorem timers_run_returns_witness:
  "\<exists>s' fired. rd_kafka_timers_run (\<lambda>n. 10 * int n + 1) (\<lambda>c. timer_calls (\<lambda>n. 10 * int n + 1) [Call_Start 1 5 True 0])
      (\<lambda>_. False) (\<lambda>_ s. s) 0
      \<lparr>rkts_timers = [0], rkts_enabled = True,
       rkts_store = (\<lambda>t. if t = 0 then \<lparr>rtmr_next = 7, rtmr_interval = 3, rtmr_oneshot = False, rtmr_callback = 0\<rparr>
                         else \<lparr>rtmr_next = 0, rtmr_interval = 0, rtmr_oneshot = False, rtmr_callback = 0\<rparr>),
       rkts_reads = 0\<rparr> = Some (Return (s', fired)) \<and> distinct fired \<and> set fired \<subseteq> {0}"
proof -
  let ?s = "\<lparr>rkts_timers = [0], rkts_enabled = True,
       rkts_store = (\<lambda>t. if t = 0 then \<lparr>rtmr_next = 7, rtmr_interval = 3, rtmr_oneshot = False, rtmr_callback = 0\<rparr>
                         else \<lparr>rtmr_next = 0, rtmr_interval = 0, rtmr_oneshot = False, rtmr_callback = 0\<rparr>),
       rkts_reads = 0\<rparr>"
  have "timers_inv ?s" by (simp add: timers_inv_def)
  then show ?thesis
    using timers_run_returns [of "\<lambda>n. 10 * int n + 1" ?s "\<lambda>_. [Call_Start 1 5 True 0]" "\<lambda>_ s. s"]
    by (auto simp: mono_def)
qed

section \<open>The order of the queue\<close>

text \<open>
  The steps of the engine, each under the lock: the calls, the two halves of a firing, a reading
  of the clock. Intervals, with what a backoff adds, are at most \<open>I\<close>; when a timer is scheduled, no
  timer in the queue is late by more than \<open>D\<close>.
\<close>

definition punctual :: "(nat \<Rightarrow> int) \<Rightarrow> int \<Rightarrow> 'a rd_kafka_timers_scheme \<Rightarrow> bool" where
  "punctual clk D s \<longleftrightarrow> (\<forall>t \<in> queued s. clk (rkts_reads s) - next_of s t \<le> D)"








lemma punctual_less:
  "punctual clk D s \<Longrightarrow> queued s' \<subseteq> queued s \<Longrightarrow> rkts_reads s' = rkts_reads s \<Longrightarrow>
   \<forall>u \<in> queued s'. next_of s' u = next_of s u \<Longrightarrow> punctual clk D s'"
  by (auto simp: punctual_def)











declare timers_dispatch.simps [code] timers_run_loop.simps [code] timers_stop_all.simps [code]

text \<open>An engine with all timers stopped.\<close>

definition no_timers :: rd_kafka_timers where
  "no_timers = rd_kafka_timers_init \<lparr>rkts_timers = [], rkts_enabled = False,
     rkts_store = (\<lambda>_. \<lparr>rtmr_next = 0, rtmr_interval = 0, rtmr_oneshot = False, rtmr_callback = 0\<rparr>), rkts_reads = 0\<rparr>"


text \<open>Starting and stopping a timer leaves the rest of the client alone.\<close>

lemma set_timer_more [simp]: "rd_kafka_timers.more (set_timer t f s) = rd_kafka_timers.more s"
  by (simp add: set_timer_def)

lemma stop_more: "rd_kafka_timer_stop s t = Return (s', b) \<Longrightarrow> rd_kafka_timers.more s' = rd_kafka_timers.more s"
  by (auto simp: rd_kafka_timer_stop_def rd_kafka_timer_unschedule_def split: if_splits)

lemma start_more:
  "rd_kafka_timer_start0 clk s t i os cb = Return s' \<Longrightarrow> rd_kafka_timers.more s' = rd_kafka_timers.more s"
  using stop_more more_timers(1) by (fastforce simp: rd_kafka_timer_start0_def obind_eq_Return)

text \<open>
  C35. The comparison of timers breaks for expiry times that are far apart, since their difference
  in microseconds is cut to 32 bits. A timer that is started and is to expire between \<open>2^31\<close> and
  \<open>2^32\<close> microseconds after the first timer of the queue is put in front of it, whatever else the
  queue holds; and as long as it is not due itself, a run of the timers fires nothing, even when
  the timers behind it are due.
\<close>

theorem timers_order_broken:
  assumes inv: "timers_inv s" and on: "rkts_enabled s" and q: "rkts_timers s = a # rest"
    and t: "t \<notin> queued s" "0 < interval"
    and far: "2 ^ 31 \<le> clk (rkts_reads s) + interval - next_of s a"
      "clk (rkts_reads s) + interval - next_of s a < 2 ^ 32"
    and early: "clk (rkts_reads s + 2) < clk (rkts_reads s) + interval"
  shows "\<exists>s' s''. rd_kafka_timer_start0 clk s t interval oneshot cb = Return s' \<and>
    rkts_timers s' = t # a # rest \<and> next_of s' a < next_of s' t \<and>
    rd_kafka_timers_run clk callback terminating wait 0 s' = Some (Return (s'', [])) \<and>
    rkts_timers s'' = t # a # rest"
proof -
  let ?n = "clk (rkts_reads s) + interval"
  have "next_of s t = 0" using inv t(1) by (simp add: timers_inv_def)
  then have stop: "\<exists>b s1. rd_kafka_timer_stop s t = Return (s1, b) \<and> rkts_timers s1 = rkts_timers s \<and>
      rkts_enabled s1 = rkts_enabled s \<and> rkts_reads s1 = rkts_reads s \<and>
      (\<forall>u. u \<noteq> t \<longrightarrow> rkts_store s1 u = rkts_store s u)"
    by (auto simp: rd_kafka_timer_stop_def rd_kafka_timer_scheduled_def)
  have "int32_cast (?n - next_of s a) < 0"
  proof -
    have "?n - next_of s a + 2 ^ 31 = 1 * 2 ^ 32 + (?n - next_of s a - 2 ^ 31)" by simp
    then have "(?n - next_of s a + 2 ^ 31) mod 2 ^ 32 = (?n - next_of s a - 2 ^ 31) mod 2 ^ 32"
      by (simp only: mod_mult_self3)
    then show ?thesis using far by (simp add: int32_cast_def)
  qed
  then have "\<exists>s'. rd_kafka_timer_start0 clk s t interval oneshot cb = Return s' \<and> rkts_timers s' = t # a # rest \<and>
      next_of s' a = next_of s a \<and> next_of s' t = ?n \<and> rkts_reads s' = Suc (rkts_reads s)"
    using stop q on t far
    by (auto simp: rd_kafka_timer_start0_def rd_kafka_timer_schedule_def rd_clock_def timer_before_def
        rd_kafka_timer_cmp_def Let_def)
  then obtain s' where s': "rd_kafka_timer_start0 clk s t interval oneshot cb = Return s'" "rkts_timers s' = t # a # rest"
    "next_of s' a = next_of s a" "next_of s' t = ?n" "rkts_reads s' = Suc (rkts_reads s)" by blast
  have "\<exists>s''. rd_kafka_timers_run clk callback terminating wait 0 s' = Some (Return (s'', [])) \<and>
      rkts_timers s'' = t # a # rest"
    using s'(2,4,5) early
    by (auto simp: rd_kafka_timers_run_def timers_run_loop.simps timers_dispatch.simps rd_clock_def Let_def)
  moreover have "next_of s' a < next_of s' t" using s'(3,4) far by simp
  ultimately show ?thesis using s'(1,2) by blast
qed

theorem timers_order_broken_witness:
  "\<exists>(s :: rd_kafka_timers) s' s''. rkts_timers s = [0] \<and>
     rd_kafka_timer_start0 (\<lambda>n. if n < 2 then 1 else 1500000000) s 1 3600000000 False 0 = Return s' \<and>
     rkts_timers s' = [1, 0] \<and> next_of s' 0 = 1000000001 \<and>
     rd_kafka_timers_run (\<lambda>n. if n < 2 then 1 else 1500000000) (\<lambda>_. Return) (\<lambda>_. False) (\<lambda>_ s. s) 0 s'
       = Some (Return (s'', []))"
proof -
  let ?clk = "\<lambda>n :: nat. if n < 2 then 1 else 1500000000 :: int"
  let ?s = "no_timers\<lparr>rkts_timers := [0], rkts_reads := 1, rkts_store := (rkts_store no_timers)
    (0 := \<lparr>rtmr_next = 1000000001, rtmr_interval = 1000000000, rtmr_oneshot = False, rtmr_callback = 0\<rparr>)\<rparr>"
  have inv: "timers_inv ?s" "rkts_enabled ?s"
    by (auto simp: timers_inv_def no_timers_def rd_kafka_timers_init_def)
  obtain s' s'' where s': "rd_kafka_timer_start0 ?clk ?s 1 3600000000 False 0 = Return s'" "rkts_timers s' = [1, 0]"
    "rd_kafka_timers_run ?clk (\<lambda>_. Return) (\<lambda>_. False) (\<lambda>_ s. s) 0 s' = Some (Return (s'', []))"
    using timers_order_broken [OF inv, of 0 "[]" 1 3600000000 ?clk False 0 "\<lambda>_. Return" "\<lambda>_. False" "\<lambda>_ s. s"] by auto
  have "next_of s' 0 = 1000000001" using s'(1)
    by (auto simp: timer_defs no_timers_def Let_def timer_before_def split: list.splits if_splits)
  then show ?thesis using s' by (intro exI [of _ ?s] exI [of _ s'] exI [of _ s'']) simp
qed

end
