(* ===== verification/Idempotence.thy ===== *)
theory Idempotence
  imports Timer_Run Proto
begin

text \<open>
  The idempotent producer of \<open>rdkafka_idempotence.c\<close>: the state machine that acquires a producer
  id, resets it and bumps its epoch, with the handler of the response to the request for the id
  (\<open>rdkafka_request.c\<close>).

  The client instance embeds the timer engine and has the fields of \<open>rk_eos\<close>. The functions are
  called with the locks they document, and those of the main thread by that thread, so that the
  assertions on the thread hold. What the brokers are and do is the argument \<open>env\<close>. Counters
  stay in the range of \<open>int\<close>.
\<close>

section \<open>The code\<close>

datatype rd_kafka_idemp_state =
    RD_KAFKA_IDEMP_STATE_INIT
  | RD_KAFKA_IDEMP_STATE_TERM
  | RD_KAFKA_IDEMP_STATE_REQ_PID
  | RD_KAFKA_IDEMP_STATE_WAIT_PID
  | RD_KAFKA_IDEMP_STATE_ASSIGNED
  | RD_KAFKA_IDEMP_STATE_DRAIN_RESET
  | RD_KAFKA_IDEMP_STATE_DRAIN_BUMP

text \<open>
  \<open>rk_op_errs\<close> are the errors that are reported to the application, \<open>rk_pid_requests\<close> counts the
  requests for a producer id that are given to a broker, \<open>rk_wakeups\<close> the times all brokers are woken.
\<close>

record rd_kafka = rd_kafka_timers +
  idemp_state :: rd_kafka_idemp_state
  ts_idemp_state :: int
  eos_pid :: rd_kafka_pid
  epoch_cnt :: int
  inflight_toppar_cnt :: int
  rk_fatal :: bool
  rk_op_errs :: "int list"
  rk_pid_requests :: nat
  rk_wakeups :: nat

text \<open>
  The broker that \<open>rd_kafka_broker_any\<close> finds, the number of brokers that are up, whether
  \<open>rd_interval\<close> lets the warning through, and the error of \<open>rd_kafka_InitProducerIdRequest\<close>.
\<close>

record broker_env =
  be_any :: "nat option"
  be_up_cnt :: int
  be_interval :: bool
  be_err :: "nat \<Rightarrow> int"

definition RD_KAFKA_RESP_ERR__BAD_MSG :: int where "RD_KAFKA_RESP_ERR__BAD_MSG = - 199"

definition RD_KAFKA_RESP_ERR__DESTROY :: int where "RD_KAFKA_RESP_ERR__DESTROY = - 197"

definition RD_KAFKA_RESP_ERR__UNSUPPORTED_FEATURE :: int where "RD_KAFKA_RESP_ERR__UNSUPPORTED_FEATURE = - 165"

text \<open>The timer for the request, and the number of its callback.\<close>

definition request_pid_tmr :: nat where "request_pid_tmr = 0"

definition request_pid_tmr_cb_no :: nat where "request_pid_tmr_cb_no = 0"

definition rd_kafka_idemp_get_pid :: "rd_kafka \<Rightarrow> rd_kafka_pid" where
  "rd_kafka_idemp_get_pid rk =
     (if idemp_state rk = RD_KAFKA_IDEMP_STATE_ASSIGNED then eos_pid rk
      else rd_kafka_pid_reset (eos_pid rk))"

definition rd_kafka_idemp_set_state :: "(nat \<Rightarrow> int) \<Rightarrow> rd_kafka \<Rightarrow> rd_kafka_idemp_state \<Rightarrow> rd_kafka" where
  "rd_kafka_idemp_set_state clk rk new_state =
     (if idemp_state rk = new_state then rk
      else let (now, rk1) = rd_clock clk rk in rk1\<lparr>idemp_state := new_state, ts_idemp_state := now\<rparr>)"

definition rd_kafka_idemp_restart_request_pid_tmr :: "(nat \<Rightarrow> int) \<Rightarrow> rd_kafka \<Rightarrow> bool \<Rightarrow> rd_kafka outcome" where
  "rd_kafka_idemp_restart_request_pid_tmr clk rk immediate =
     rd_kafka_timer_start_oneshot clk rk request_pid_tmr (1000 * (if immediate then 1 else 500)) request_pid_tmr_cb_no"

text \<open>The request to a broker; the result is whether it was enqueued.\<close>

definition request_pid_from :: "(nat \<Rightarrow> int) \<Rightarrow> broker_env \<Rightarrow> rd_kafka \<Rightarrow> nat \<Rightarrow> (rd_kafka \<times> bool) outcome" where
  "request_pid_from clk env rk rkb =
     (if be_err env rkb = 0
      then Return ((rd_kafka_idemp_set_state clk rk RD_KAFKA_IDEMP_STATE_WAIT_PID)
                     \<lparr>rk_pid_requests := rk_pid_requests rk + 1\<rparr>, True)
      else obind (rd_kafka_idemp_restart_request_pid_tmr clk rk False) (\<lambda>rk1. Return (rk1, False)))"

definition rd_kafka_idemp_request_pid ::
  "(nat \<Rightarrow> int) \<Rightarrow> broker_env \<Rightarrow> rd_kafka \<Rightarrow> nat option \<Rightarrow> (rd_kafka \<times> bool) outcome" where
  "rd_kafka_idemp_request_pid clk env rk rkb =
     (if rk_fatal rk then Return (rk, False)
      else if idemp_state rk \<noteq> RD_KAFKA_IDEMP_STATE_REQ_PID then Return (rk, False)
      else case rkb of
        Some b \<Rightarrow> request_pid_from clk env rk b
      | None \<Rightarrow>
          (case be_any env of
             Some b \<Rightarrow> request_pid_from clk env rk b
           | None \<Rightarrow>
               obind (rd_kafka_idemp_restart_request_pid_tmr clk rk False) (\<lambda>rk1.
                 Return (if 0 < be_up_cnt env \<and> be_interval env
                         then rk1\<lparr>rk_op_errs := rk_op_errs rk1 @ [RD_KAFKA_RESP_ERR__UNSUPPORTED_FEATURE]\<rparr>
                         else rk1, False))))"

definition rd_kafka_idemp_request_pid_tmr_cb ::
  "(nat \<Rightarrow> int) \<Rightarrow> broker_env \<Rightarrow> nat \<Rightarrow> rd_kafka \<Rightarrow> rd_kafka outcome" where
  "rd_kafka_idemp_request_pid_tmr_cb clk env cb rk =
     (if cb = request_pid_tmr_cb_no
      then obind (rd_kafka_idemp_request_pid clk env rk None) (\<lambda>(rk1, _). Return rk1)
      else Return rk)"

definition rd_kafka_idemp_request_pid_failed :: "(nat \<Rightarrow> int) \<Rightarrow> rd_kafka \<Rightarrow> int \<Rightarrow> rd_kafka outcome" where
  "rd_kafka_idemp_request_pid_failed clk rk err =
     (if err = RD_KAFKA_RESP_ERR__DESTROY then Return rk
      else rd_kafka_idemp_restart_request_pid_tmr clk rk False)"

definition rd_kafka_idemp_pid_update :: "(nat \<Rightarrow> int) \<Rightarrow> rd_kafka \<Rightarrow> rd_kafka_pid \<Rightarrow> rd_kafka outcome" where
  "rd_kafka_idemp_pid_update clk rk pid =
     (if idemp_state rk \<noteq> RD_KAFKA_IDEMP_STATE_WAIT_PID then Return rk
      else if \<not> rd_kafka_pid_valid pid then rd_kafka_idemp_request_pid_failed clk rk RD_KAFKA_RESP_ERR__BAD_MSG
      else let rk1 = rk\<lparr>eos_pid := pid, epoch_cnt := epoch_cnt rk + 1\<rparr>;
               rk2 = rd_kafka_idemp_set_state clk rk1 RD_KAFKA_IDEMP_STATE_ASSIGNED
           in Return (rk2\<lparr>rk_wakeups := rk_wakeups rk2 + 1\<rparr>))"

text \<open>
  The response: the error of the request, or what the response holds, the error code and the id;
  \<open>Inl\<close> is the error of a response that cannot be parsed.
\<close>

definition rd_kafka_handle_InitProducerId ::
  "(nat \<Rightarrow> int) \<Rightarrow> rd_kafka \<Rightarrow> int \<Rightarrow> int + int \<times> rd_kafka_pid \<Rightarrow> rd_kafka outcome" where
  "rd_kafka_handle_InitProducerId clk rk err rkbuf =
     (if err \<noteq> 0 then rd_kafka_idemp_request_pid_failed clk rk err
      else case rkbuf of
        Inl rkbuf_err \<Rightarrow> rd_kafka_idemp_request_pid_failed clk rk rkbuf_err
      | Inr (error_code, pid) \<Rightarrow>
          if error_code \<noteq> 0 then rd_kafka_idemp_request_pid_failed clk rk error_code
          else rd_kafka_idemp_pid_update clk rk pid)"

definition rd_kafka_idemp_drain_done :: "(nat \<Rightarrow> int) \<Rightarrow> rd_kafka \<Rightarrow> rd_kafka outcome" where
  "rd_kafka_idemp_drain_done clk rk =
     (if idemp_state rk = RD_KAFKA_IDEMP_STATE_DRAIN_RESET
      then rd_kafka_idemp_restart_request_pid_tmr clk (rd_kafka_idemp_set_state clk rk RD_KAFKA_IDEMP_STATE_REQ_PID) True
      else if idemp_state rk = RD_KAFKA_IDEMP_STATE_DRAIN_BUMP \<and> rd_kafka_pid_valid (eos_pid rk)
      then let rk1 = rk\<lparr>eos_pid := rd_kafka_pid_bump (eos_pid rk)\<rparr>;
               rk2 = rd_kafka_idemp_set_state clk rk1 RD_KAFKA_IDEMP_STATE_ASSIGNED
           in Return (rk2\<lparr>rk_wakeups := rk_wakeups rk2 + 1\<rparr>)
      else Return rk)"

definition rd_kafka_idemp_check_drain_done :: "(nat \<Rightarrow> int) \<Rightarrow> rd_kafka \<Rightarrow> rd_kafka outcome" where
  "rd_kafka_idemp_check_drain_done clk rk =
     (if inflight_toppar_cnt rk = 0 then rd_kafka_idemp_drain_done clk rk else Return rk)"

definition rd_kafka_idemp_drain_reset :: "(nat \<Rightarrow> int) \<Rightarrow> rd_kafka \<Rightarrow> rd_kafka outcome" where
  "rd_kafka_idemp_drain_reset clk rk =
     rd_kafka_idemp_check_drain_done clk (rd_kafka_idemp_set_state clk rk RD_KAFKA_IDEMP_STATE_DRAIN_RESET)"

definition rd_kafka_idemp_drain_epoch_bump :: "(nat \<Rightarrow> int) \<Rightarrow> rd_kafka \<Rightarrow> rd_kafka outcome" where
  "rd_kafka_idemp_drain_epoch_bump clk rk =
     rd_kafka_idemp_check_drain_done clk (rd_kafka_idemp_set_state clk rk RD_KAFKA_IDEMP_STATE_DRAIN_BUMP)"

definition rd_kafka_idemp_inflight_toppar_sub :: "(nat \<Rightarrow> int) \<Rightarrow> rd_kafka \<Rightarrow> rd_kafka outcome" where
  "rd_kafka_idemp_inflight_toppar_sub clk rk =
     (let r = inflight_toppar_cnt rk - 1;
          rk1 = rk\<lparr>inflight_toppar_cnt := r\<rparr>
      in if r = 0 then rd_kafka_idemp_drain_done clk rk1
         else obind (rd_assert (0 \<le> r)) (\<lambda>_. Return rk1))"

definition rd_kafka_idemp_inflight_toppar_add :: "rd_kafka \<Rightarrow> rd_kafka" where
  "rd_kafka_idemp_inflight_toppar_add rk = rk\<lparr>inflight_toppar_cnt := inflight_toppar_cnt rk + 1\<rparr>"

definition rd_kafka_idemp_init :: "(nat \<Rightarrow> int) \<Rightarrow> rd_kafka \<Rightarrow> rd_kafka outcome" where
  "rd_kafka_idemp_init clk rk =
     rd_kafka_idemp_restart_request_pid_tmr clk
       (rd_kafka_idemp_set_state clk (rk\<lparr>inflight_toppar_cnt := 0, eos_pid := rd_kafka_pid_reset (eos_pid rk)\<rparr>)
          RD_KAFKA_IDEMP_STATE_REQ_PID) False"

definition rd_kafka_idemp_term :: "(nat \<Rightarrow> int) \<Rightarrow> rd_kafka \<Rightarrow> rd_kafka outcome" where
  "rd_kafka_idemp_term clk rk =
     obind (rd_kafka_timer_stop (rd_kafka_idemp_set_state clk rk RD_KAFKA_IDEMP_STATE_TERM) request_pid_tmr)
       (\<lambda>(rk1, _). Return rk1)"

lemmas [idemp_defs] = rd_kafka_idemp_request_pid_def request_pid_from_def rd_kafka_idemp_request_pid_failed_def
  rd_kafka_idemp_pid_update_def rd_kafka_handle_InitProducerId_def rd_kafka_idemp_drain_done_def
  rd_kafka_idemp_check_drain_done_def rd_kafka_idemp_drain_reset_def rd_kafka_idemp_drain_epoch_bump_def
  rd_kafka_idemp_inflight_toppar_sub_def rd_kafka_idemp_inflight_toppar_add_def rd_kafka_idemp_get_pid_def

text \<open>A partition that waits for its requests to end.\<close>

definition rd_kafka_idemp_drain_toppar :: "bool \<Rightarrow> bool" where
  "rd_kafka_idemp_drain_toppar wait_drain = (if wait_drain then wait_drain else True)"

section \<open>The timers of the producer\<close>

text \<open>The part of the state that is not the timers'.\<close>

definition eos_of :: "rd_kafka \<Rightarrow> rd_kafka_idemp_state \<times> rd_kafka_pid \<times> int \<times> bool \<times> nat" where
  "eos_of rk = (idemp_state rk, eos_pid rk, inflight_toppar_cnt rk, rk_fatal rk, rk_pid_requests rk)"

lemma eos_of_more:
  assumes "rd_kafka_timers.more rk' = rd_kafka_timers.more rk"
  shows "eos_of rk' = eos_of rk"
  using assms by (cases rk; cases rk') (simp add: eos_of_def)

lemma eos_of_extend: "eos_of (rd_kafka_timers.extend s (rd_kafka_timers.more rk)) = eos_of rk"
  by (rule eos_of_more) (simp add: rd_kafka_timers.defs)

lemma set_state_fresh:
  assumes "timers_inv rk"
  shows "timers_fresh clk rk (rd_kafka_idemp_set_state clk rk st)"
    "eos_of (rd_kafka_idemp_set_state clk rk st) = (st, snd (eos_of rk))"
  using assms by (auto simp: rd_kafka_idemp_set_state_def rd_clock_def timers_fresh_def timers_inv_def eos_of_def)

lemma restart_tmr_fresh:
  assumes "mono clk" "\<And>n. 0 < clk n" "timers_inv rk"
  shows "\<exists>rk'. rd_kafka_idemp_restart_request_pid_tmr clk rk im = Return rk' \<and> timers_fresh clk rk rk' \<and> eos_of rk' = eos_of rk"
proof -
  obtain rk' where rk': "rd_kafka_timer_start0 clk rk request_pid_tmr (1000 * (if im then 1 else 500)) True request_pid_tmr_cb_no
      = Return rk'" "timers_fresh clk rk rk'"
    using start_fresh [OF assms, of "1000 * (if im then 1 else 500)" request_pid_tmr True request_pid_tmr_cb_no] by auto
  then show ?thesis using eos_of_more [OF start_more [OF rk'(1)]]
    by (simp add: rd_kafka_idemp_restart_request_pid_tmr_def rd_kafka_timer_start_oneshot_def)
qed

lemma fresh_update:
  assumes "timers_fresh clk rk rk'" "rkts_timers rk'' = rkts_timers rk'" "rkts_store rk'' = rkts_store rk'"
    "rkts_reads rk'' = rkts_reads rk'"
  shows "timers_fresh clk rk rk''"
  using assms by (simp add: timers_fresh_def timers_inv_def)

lemma request_pid_fresh:
  assumes clk: "mono clk" "\<And>n. 0 < clk n" and rk: "timers_inv rk"
  shows "\<exists>rk' b. rd_kafka_idemp_request_pid clk env rk rkb = Return (rk', b) \<and> timers_fresh clk rk rk' \<and>
    (eos_of rk' = eos_of rk \<or> idemp_state rk = RD_KAFKA_IDEMP_STATE_REQ_PID \<and>
       eos_of rk' = (RD_KAFKA_IDEMP_STATE_WAIT_PID, eos_pid rk, inflight_toppar_cnt rk, rk_fatal rk, rk_pid_requests rk + 1))"
proof -
  have refl: "timers_fresh clk rk rk" using rk by (simp add: timers_fresh_def)
  obtain rk1 where rk1: "rd_kafka_idemp_restart_request_pid_tmr clk rk False = Return rk1" "timers_fresh clk rk rk1"
    "eos_of rk1 = eos_of rk"
    using restart_tmr_fresh [OF clk rk] by blast
  let ?w = "(rd_kafka_idemp_set_state clk rk RD_KAFKA_IDEMP_STATE_WAIT_PID)\<lparr>rk_pid_requests := rk_pid_requests rk + 1\<rparr>"
  let ?e = "rk1\<lparr>rk_op_errs := rk_op_errs rk1 @ [RD_KAFKA_RESP_ERR__UNSUPPORTED_FEATURE]\<rparr>"
  have w: "timers_fresh clk rk ?w" by (rule fresh_update [OF set_state_fresh(1) [OF rk]]) simp_all
  have e: "timers_fresh clk rk ?e" "eos_of ?e = eos_of rk"
    by (rule fresh_update [OF rk1(2)]) (use rk1(3) in \<open>simp_all add: eos_of_def\<close>)
  have "eos_of ?w = (RD_KAFKA_IDEMP_STATE_WAIT_PID, eos_pid rk, inflight_toppar_cnt rk, rk_fatal rk, rk_pid_requests rk + 1)"
    using set_state_fresh(2) [OF rk, of clk RD_KAFKA_IDEMP_STATE_WAIT_PID] by (simp add: eos_of_def)
  then show ?thesis
    using refl rk1 w e
    by (cases rkb; cases "be_any env") (auto simp: rd_kafka_idemp_request_pid_def request_pid_from_def)
qed

section \<open>The producer id and the requests in flight\<close>

text \<open>
  The ids under which the partitions in flight have sent their requests are \<open>fl\<close>, each with whether it was
  the current id at the time: a broker thread copies the id once for a pass over its partitions, and the id can
  change before a partition of the pass sends. All of them are valid. One that was current when it was sent is
  still the current id, and while there is any, no new id is requested or awaited.
\<close>

fun eos_ok :: "(rd_kafka_pid \<times> bool) list \<Rightarrow> rd_kafka_idemp_state \<times> rd_kafka_pid \<times> int \<times> bool \<times> nat \<Rightarrow> bool" where
  "eos_ok fl (st, pid, cnt, fatal, reqs) \<longleftrightarrow>
     cnt = int (length fl) \<and> (\<forall>p \<in> set fl. rd_kafka_pid_valid (fst p) \<and> (snd p \<longrightarrow> fst p = pid)) \<and>
     (st = RD_KAFKA_IDEMP_STATE_ASSIGNED \<longrightarrow> rd_kafka_pid_valid pid) \<and>
     (True \<in> snd ` set fl \<longrightarrow>
        st \<notin> {RD_KAFKA_IDEMP_STATE_INIT, RD_KAFKA_IDEMP_STATE_REQ_PID, RD_KAFKA_IDEMP_STATE_WAIT_PID})"

definition idemp_inv :: "(rd_kafka_pid \<times> bool) list \<Rightarrow> rd_kafka \<Rightarrow> bool" where
  "idemp_inv fl rk \<longleftrightarrow> timers_inv rk \<and> eos_ok fl (eos_of rk)"

lemma eos_of_eq: "eos_of rk = (idemp_state rk, eos_pid rk, inflight_toppar_cnt rk, rk_fatal rk, rk_pid_requests rk)"
  by (simp add: eos_of_def)

lemma request_pid_inv:
  assumes clk: "mono clk" "\<And>n. 0 < clk n" and inv: "idemp_inv fl rk"
  shows "\<exists>rk' b. rd_kafka_idemp_request_pid clk env rk rkb = Return (rk', b) \<and> timers_fresh clk rk rk' \<and> idemp_inv fl rk'"
proof -
  obtain rk' b where r: "rd_kafka_idemp_request_pid clk env rk rkb = Return (rk', b)" "timers_fresh clk rk rk'"
    "eos_of rk' = eos_of rk \<or> idemp_state rk = RD_KAFKA_IDEMP_STATE_REQ_PID \<and>
       eos_of rk' = (RD_KAFKA_IDEMP_STATE_WAIT_PID, eos_pid rk, inflight_toppar_cnt rk, rk_fatal rk, rk_pid_requests rk + 1)"
    using request_pid_fresh [OF clk] inv unfolding idemp_inv_def by blast
  have "eos_ok fl (eos_of rk')" using r(3) inv by (auto simp: idemp_inv_def eos_of_eq [of rk])
  then show ?thesis using r(1,2) by (simp add: idemp_inv_def timers_fresh_def)
qed

interpretation idemp: timer_callback "ticking start d" "rd_kafka_idemp_request_pid_tmr_cb (ticking start d) env"
  "\<lambda>m. eos_ok fl (eos_of (rd_kafka_timers.extend no_timers m))" for start d env fl
proof unfold_locales
  show "\<exists>s'. rd_kafka_idemp_request_pid_tmr_cb (ticking start d) env c s = Return s' \<and> timers_fresh (ticking start d) s s' \<and>
      eos_ok fl (eos_of (rd_kafka_timers.extend no_timers (rd_kafka_timers.more s')))"
    if "timers_inv s" "eos_ok fl (eos_of (rd_kafka_timers.extend no_timers (rd_kafka_timers.more s)))" for s c
  proof (cases "c = request_pid_tmr_cb_no")
    case True
    have "idemp_inv fl s" using that by (simp add: eos_of_extend idemp_inv_def)
    then obtain s' b where "rd_kafka_idemp_request_pid (ticking start d) env s None = Return (s', b)"
      "timers_fresh (ticking start d) s s'" "idemp_inv fl s'"
      using request_pid_inv [OF ticking_mono ticking_pos] by blast
    then show ?thesis using True by (simp add: rd_kafka_idemp_request_pid_tmr_cb_def eos_of_extend idemp_inv_def)
  qed (use that in \<open>simp add: rd_kafka_idemp_request_pid_tmr_cb_def timers_fresh_def\<close>)
qed (simp_all add: ticking_mono ticking_pos)

lemma run_inv:
  assumes clk: "mono clk" "\<And>n. 0 < clk n" and inv: "idemp_inv fl rk"
  shows "\<exists>rk' fired. rd_kafka_timers_run clk (rd_kafka_idemp_request_pid_tmr_cb clk env) terminating wait 0 rk
    = Some (Return (rk', fired)) \<and> idemp_inv fl rk'"
proof -
  have tick: "ticking (clk 0) (\<lambda>i. clk (Suc i) - clk i) = clk" by (rule ticking_all [OF clk, symmetric])
  show ?thesis
    using idemp.run_nowait [of rk fl "clk 0" "\<lambda>i. clk (Suc i) - clk i" env terminating wait] inv
    unfolding tick by (auto simp: eos_of_extend idemp_inv_def)
qed

lemma set_state_inv:
  assumes "timers_inv rk" "eos_ok fl (st, snd (eos_of rk))"
  shows "idemp_inv fl (rd_kafka_idemp_set_state clk rk st)"
  using set_state_fresh [OF assms(1)] assms(2) by (simp add: idemp_inv_def timers_fresh_def)

lemma idemp_inv_update:
  assumes "idemp_inv fl rk" "rkts_timers rk' = rkts_timers rk" "rkts_store rk' = rkts_store rk" "eos_of rk' = eos_of rk"
  shows "idemp_inv fl rk'"
  using assms by (simp add: idemp_inv_def timers_inv_def)

lemma restart_tmr_inv:
  assumes "mono clk" "\<And>n. 0 < clk n" "idemp_inv fl rk"
  shows "\<exists>rk'. rd_kafka_idemp_restart_request_pid_tmr clk rk im = Return rk' \<and> idemp_inv fl rk' \<and> eos_of rk' = eos_of rk"
  using restart_tmr_fresh [OF assms(1,2), of rk im] assms(3) by (auto simp: idemp_inv_def timers_fresh_def)

lemma failed_inv:
  assumes "mono clk" "\<And>n. 0 < clk n" "idemp_inv fl rk"
  shows "\<exists>rk'. rd_kafka_idemp_request_pid_failed clk rk err = Return rk' \<and> idemp_inv fl rk' \<and> eos_of rk' = eos_of rk"
  using restart_tmr_inv [OF assms] assms(3) by (simp add: rd_kafka_idemp_request_pid_failed_def)

lemma drain_done_inv:
  assumes clk: "mono clk" "\<And>n. 0 < clk n" and inv: "timers_inv rk" "eos_ok [] (eos_of rk)"
  shows "\<exists>rk'. rd_kafka_idemp_drain_done clk rk = Return rk' \<and> idemp_inv [] rk'"
proof -
  have "idemp_inv [] (rd_kafka_idemp_set_state clk rk RD_KAFKA_IDEMP_STATE_REQ_PID)"
    by (rule set_state_inv [OF inv(1)]) (use inv(2) in \<open>simp add: eos_of_eq\<close>)
  note reset = restart_tmr_inv [OF clk this, of True]
  let ?rk = "rk\<lparr>eos_pid := rd_kafka_pid_bump (eos_pid rk)\<rparr>"
  let ?rk2 = "rd_kafka_idemp_set_state clk ?rk RD_KAFKA_IDEMP_STATE_ASSIGNED"
  have bump: "idemp_inv [] (?rk2\<lparr>rk_wakeups := rk_wakeups ?rk2 + 1\<rparr>)" if "rd_kafka_pid_valid (eos_pid rk)"
  proof (rule idemp_inv_update [where rk = ?rk2])
    show "idemp_inv [] ?rk2"
      by (rule set_state_inv)
        (use inv that in \<open>simp_all add: timers_inv_def eos_of_eq rd_kafka_pid_bump_def rd_kafka_pid_valid_def\<close>)
  qed (simp_all add: eos_of_eq)
  show ?thesis using reset bump inv by (auto simp: rd_kafka_idemp_drain_done_def Let_def idemp_inv_def)
qed

lemma check_drain_inv:
  assumes clk: "mono clk" "\<And>n. 0 < clk n" and inv: "idemp_inv fl rk"
  shows "\<exists>rk'. rd_kafka_idemp_check_drain_done clk rk = Return rk' \<and> idemp_inv fl rk'"
proof (cases "inflight_toppar_cnt rk = 0")
  case True
  then have "fl = []" using inv by (simp add: idemp_inv_def eos_of_eq)
  then show ?thesis using True drain_done_inv [OF clk, of rk] inv
    by (simp add: rd_kafka_idemp_check_drain_done_def idemp_inv_def)
qed (use inv in \<open>simp add: rd_kafka_idemp_check_drain_done_def\<close>)

lemma drain_inv:
  assumes clk: "mono clk" "\<And>n. 0 < clk n" and inv: "idemp_inv fl rk"
  shows "\<exists>rk'. rd_kafka_idemp_drain_reset clk rk = Return rk' \<and> idemp_inv fl rk'"
    and "\<exists>rk'. rd_kafka_idemp_drain_epoch_bump clk rk = Return rk' \<and> idemp_inv fl rk'"
proof -
  have "idemp_inv fl (rd_kafka_idemp_set_state clk rk st)"
    if "st = RD_KAFKA_IDEMP_STATE_DRAIN_RESET \<or> st = RD_KAFKA_IDEMP_STATE_DRAIN_BUMP" for st
    by (rule set_state_inv) (use inv that in \<open>auto simp: idemp_inv_def eos_of_eq\<close>)
  then show "\<exists>rk'. rd_kafka_idemp_drain_reset clk rk = Return rk' \<and> idemp_inv fl rk'"
    "\<exists>rk'. rd_kafka_idemp_drain_epoch_bump clk rk = Return rk' \<and> idemp_inv fl rk'"
    unfolding rd_kafka_idemp_drain_reset_def rd_kafka_idemp_drain_epoch_bump_def by (intro check_drain_inv [OF clk]; simp)+
qed

lemma sub_inv:
  assumes clk: "mono clk" "\<And>n. 0 < clk n" and inv: "idemp_inv (xs @ p # ys) rk"
  shows "\<exists>rk'. rd_kafka_idemp_inflight_toppar_sub clk rk = Return rk' \<and> idemp_inv (xs @ ys) rk'"
proof -
  let ?rk = "rk\<lparr>inflight_toppar_cnt := inflight_toppar_cnt rk - 1\<rparr>"
  have cnt: "inflight_toppar_cnt rk - 1 = int (length (xs @ ys))" using inv by (simp add: idemp_inv_def eos_of_eq)
  have i: "idemp_inv (xs @ ys) ?rk" using inv by (auto simp: idemp_inv_def timers_inv_def eos_of_eq)
  show ?thesis
  proof (cases "xs @ ys = []")
    case True
    then show ?thesis using drain_done_inv [OF clk, of ?rk] i cnt
      by (simp add: rd_kafka_idemp_inflight_toppar_sub_def Let_def idemp_inv_def)
  next
    case False
    then have "inflight_toppar_cnt rk - 1 \<noteq> 0" using cnt by (metis length_0_conv of_nat_eq_0_iff)
    then show ?thesis using i cnt by (simp add: rd_kafka_idemp_inflight_toppar_sub_def Let_def)
  qed
qed

lemma response_inv:
  assumes clk: "mono clk" "\<And>n. 0 < clk n" and inv: "idemp_inv fl rk"
  shows "\<exists>rk'. rd_kafka_handle_InitProducerId clk rk err rkbuf = Return rk' \<and> idemp_inv fl rk'"
proof -
  have upd: "\<exists>rk'. rd_kafka_idemp_pid_update clk rk pid = Return rk' \<and> idemp_inv fl rk'" for pid
  proof (cases "idemp_state rk = RD_KAFKA_IDEMP_STATE_WAIT_PID \<and> rd_kafka_pid_valid pid")
    case True
    let ?rk = "rk\<lparr>eos_pid := pid, epoch_cnt := epoch_cnt rk + 1\<rparr>"
    let ?rk2 = "rd_kafka_idemp_set_state clk ?rk RD_KAFKA_IDEMP_STATE_ASSIGNED"
    have "\<forall>p \<in> set fl. \<not> snd p" using True inv by (force simp: idemp_inv_def eos_of_eq image_iff)
    then have "idemp_inv fl ?rk2"
      by (intro set_state_inv) (use inv True in \<open>auto simp: idemp_inv_def timers_inv_def eos_of_eq\<close>)
    then have "idemp_inv fl (?rk2\<lparr>rk_wakeups := rk_wakeups ?rk2 + 1\<rparr>)"
      by (rule idemp_inv_update) (simp_all add: eos_of_eq)
    then show ?thesis using True by (simp add: rd_kafka_idemp_pid_update_def Let_def)
  next
    case False
    then show ?thesis using inv failed_inv [OF clk inv] by (auto simp: rd_kafka_idemp_pid_update_def)
  qed
  show ?thesis
    using upd failed_inv [OF clk inv]
    by (auto simp: rd_kafka_handle_InitProducerId_def split: sum.splits)
qed

text \<open>A copy of the producer id is current: it is the id of the client, which is not being replaced.\<close>

definition pid_current :: "rd_kafka \<Rightarrow> rd_kafka_pid \<Rightarrow> bool" where
  "pid_current rk pid \<longleftrightarrow> pid = eos_pid rk \<and>
     idemp_state rk \<notin> {RD_KAFKA_IDEMP_STATE_INIT, RD_KAFKA_IDEMP_STATE_REQ_PID, RD_KAFKA_IDEMP_STATE_WAIT_PID}"

text \<open>
  The steps of the producer: the timers run, metadata arrives, a response arrives, an error or a message timeout
  asks for a reset or a bump, the last request of a partition ends, other timers are used, a fatal error is raised,
  the instance terminates.

  The broker threads serve their partitions in passes (\<open>rd_kafka_broker_produce_toppars\<close>): a pass begins with a
  copy of the id, which is given to every partition of the pass, and goes on with it only if it is valid. The copies
  of the passes that are under way are \<open>ps\<close>. A partition without requests in flight sends one with the copy of its
  pass, at any time before the pass ends: the other steps, those of the same pass and those of other threads, may
  come in between.
\<close>

inductive idemp_reach :: "(nat \<Rightarrow> int) \<Rightarrow> rd_kafka \<Rightarrow> rd_kafka_pid list \<Rightarrow> (rd_kafka_pid \<times> bool) list \<Rightarrow> bool" for clk where
  idemp_start: "timers_inv rk \<Longrightarrow> rd_kafka_idemp_init clk rk = Return rk' \<Longrightarrow> idemp_reach clk rk' [] []"
| idemp_timers: "idemp_reach clk rk ps fl \<Longrightarrow>
    rd_kafka_timers_run clk (rd_kafka_idemp_request_pid_tmr_cb clk env) terminating wait 0 rk = Some (Return (rk', fired)) \<Longrightarrow>
    idemp_reach clk rk' ps fl"
| idemp_metadata: "idemp_reach clk rk ps fl \<Longrightarrow> rd_kafka_idemp_request_pid clk env rk (Some rkb) = Return (rk', b) \<Longrightarrow>
    idemp_reach clk rk' ps fl"
| idemp_response: "idemp_reach clk rk ps fl \<Longrightarrow> rd_kafka_handle_InitProducerId clk rk err rkbuf = Return rk' \<Longrightarrow>
    idemp_reach clk rk' ps fl"
| idemp_reset: "idemp_reach clk rk ps fl \<Longrightarrow> rd_kafka_idemp_drain_reset clk rk = Return rk' \<Longrightarrow> idemp_reach clk rk' ps fl"
| idemp_bump: "idemp_reach clk rk ps fl \<Longrightarrow> rd_kafka_idemp_drain_epoch_bump clk rk = Return rk' \<Longrightarrow> idemp_reach clk rk' ps fl"
| idemp_pass: "idemp_reach clk rk ps fl \<Longrightarrow> rd_kafka_pid_valid (rd_kafka_idemp_get_pid rk) \<Longrightarrow>
    idemp_reach clk rk (rd_kafka_idemp_get_pid rk # ps) fl"
| idemp_send: "idemp_reach clk rk ps fl \<Longrightarrow> pid \<in> set ps \<Longrightarrow>
    idemp_reach clk (rd_kafka_idemp_inflight_toppar_add rk) ps ((pid, pid_current rk pid) # fl)"
| idemp_pass_end: "idemp_reach clk rk (xs @ pid # ys) fl \<Longrightarrow> idemp_reach clk rk (xs @ ys) fl"
| idemp_done: "idemp_reach clk rk ps (xs @ p # ys) \<Longrightarrow> rd_kafka_idemp_inflight_toppar_sub clk rk = Return rk' \<Longrightarrow>
    idemp_reach clk rk' ps (xs @ ys)"
| idemp_fatal: "idemp_reach clk rk ps fl \<Longrightarrow> idemp_reach clk (rk\<lparr>rk_fatal := True\<rparr>) ps fl"
| idemp_others: "idemp_reach clk rk ps fl \<Longrightarrow> list_all call_ok cs \<Longrightarrow> timer_calls clk cs rk = Return rk' \<Longrightarrow>
    rd_kafka_timers.more rk' = rd_kafka_timers.more rk \<Longrightarrow> idemp_reach clk rk' ps fl"
| idemp_end: "idemp_reach clk rk ps fl \<Longrightarrow> rd_kafka_idemp_term clk rk = Return rk' \<Longrightarrow> idemp_reach clk rk' ps fl"


lemma pass_valid: "idemp_reach clk rk ps fl \<Longrightarrow> pid \<in> set ps \<Longrightarrow> rd_kafka_pid_valid pid"
  by (induction rule: idemp_reach.induct) auto

lemma reach_inv:
  assumes clk: "mono clk" "\<And>n. 0 < clk n"
  shows "idemp_reach clk rk ps fl \<Longrightarrow> idemp_inv fl rk"
proof (induction rule: idemp_reach.induct)
  case (idemp_start rk rk')
  let ?rk = "rk\<lparr>inflight_toppar_cnt := 0, eos_pid := rd_kafka_pid_reset (eos_pid rk)\<rparr>"
  have "idemp_inv [] (rd_kafka_idemp_set_state clk ?rk RD_KAFKA_IDEMP_STATE_REQ_PID)"
    by (rule set_state_inv) (use idemp_start in \<open>simp_all add: timers_inv_def eos_of_eq\<close>)
  from restart_tmr_inv [OF clk this, of False] show ?case using idemp_start(2) by (auto simp: rd_kafka_idemp_init_def)
next
  case (idemp_timers rk ps fl env terminating wait rk' fired)
  then show ?case using run_inv [OF clk idemp_timers.IH, of env terminating wait] by auto
next
  case (idemp_metadata rk ps fl env rkb rk' b)
  then show ?case using request_pid_inv [OF clk idemp_metadata.IH, of env "Some rkb"] by auto
next
  case (idemp_response rk ps fl err rkbuf rk')
  then show ?case using response_inv [OF clk idemp_response.IH, of err rkbuf] by auto
next
  case (idemp_reset rk ps fl rk')
  then show ?case using drain_inv(1) [OF clk idemp_reset.IH] by auto
next
  case (idemp_bump rk ps fl rk')
  then show ?case using drain_inv(2) [OF clk idemp_bump.IH] by auto
next
  case (idemp_pass rk ps fl)
  then show ?case by blast
next
  case (idemp_send rk ps fl pid)
  then show ?case using pass_valid [OF idemp_send.hyps]
    by (auto simp: idemp_inv_def timers_inv_def eos_of_eq rd_kafka_idemp_inflight_toppar_add_def pid_current_def)
next
  case (idemp_pass_end rk xs pid ys fl)
  then show ?case by blast
next
  case (idemp_done rk ps xs p ys rk')
  then show ?case using sub_inv [OF clk idemp_done.IH] by auto
next
  case (idemp_fatal rk ps fl)
  then show ?case by (simp add: idemp_inv_def timers_inv_def eos_of_eq)
next
  case (idemp_others rk ps fl cs rk')
  then show ?case using timer_calls_fresh [OF clk, of rk cs] eos_of_more [of rk' rk]
    by (auto simp: idemp_inv_def timers_fresh_def)
next
  case (idemp_end rk ps fl rk')
  let ?rk = "rd_kafka_idemp_set_state clk rk RD_KAFKA_IDEMP_STATE_TERM"
  have i: "idemp_inv fl ?rk"
    by (rule set_state_inv) (use idemp_end.IH in \<open>auto simp: idemp_inv_def eos_of_eq\<close>)
  then have "timers_inv ?rk" by (simp add: idemp_inv_def)
  then obtain rk1 b where "rd_kafka_timer_stop ?rk request_pid_tmr = Return (rk1, b)" "timers_fresh clk ?rk rk1"
    using stop_fresh by blast
  then show ?case using i idemp_end.hyps(2) eos_of_more [OF stop_more]
    by (auto simp: rd_kafka_idemp_term_def idemp_inv_def timers_fresh_def)
qed


text \<open>A client whose producer is not initialised yet, a broker that is up, a clock.\<close>

definition new_client :: rd_kafka where
  "new_client = rd_kafka_timers.extend no_timers (rd_kafka.fields RD_KAFKA_IDEMP_STATE_INIT 0 RD_KAFKA_PID_INITIALIZER 0 0 False [] 0 0)"

definition one_broker :: broker_env where
  "one_broker = \<lparr>be_any = Some 1, be_up_cnt = 1, be_interval = False, be_err = (\<lambda>_. 0)\<rparr>"

abbreviation clock :: "nat \<Rightarrow> int" where
  "clock n \<equiv> int n + 1"

lemma clock_simps [simp]: "mono (\<lambda>n. clock n)" "0 < clock n"
  by (simp_all add: mono_def)

lemma new_client_inv: "timers_inv new_client"
  by (simp add: timers_inv_def new_client_def rd_kafka_timers.defs no_timers_def rd_kafka_timers_init_def)

text \<open>A producer that has asked for its id.\<close>

lemma waiting_reached:
  obtains rk where "idemp_reach clock rk [] []" "idemp_state rk = RD_KAFKA_IDEMP_STATE_WAIT_PID" "timers_inv rk"
proof -
  let ?rk = "rd_kafka_idemp_set_state clock (new_client\<lparr>inflight_toppar_cnt := 0, eos_pid := rd_kafka_pid_reset (eos_pid new_client)\<rparr>)
      RD_KAFKA_IDEMP_STATE_REQ_PID"
  have "timers_inv (new_client\<lparr>inflight_toppar_cnt := 0, eos_pid := rd_kafka_pid_reset (eos_pid new_client)\<rparr>)"
    using new_client_inv by (simp add: timers_inv_def)
  note st = set_state_fresh [OF this, of clock RD_KAFKA_IDEMP_STATE_REQ_PID]
  obtain rk1 where rk1: "rd_kafka_idemp_init clock new_client = Return rk1" "timers_inv rk1" "eos_of rk1 = eos_of ?rk"
    using restart_tmr_fresh [OF clock_simps, of ?rk False] st(1) by (auto simp: timers_fresh_def rd_kafka_idemp_init_def)
  have req: "idemp_state rk1 = RD_KAFKA_IDEMP_STATE_REQ_PID" "\<not> rk_fatal rk1"
    using rk1(3) st(2) by (simp_all add: eos_of_eq new_client_def rd_kafka_timers.defs rd_kafka.defs)
  let ?rk2 = "(rd_kafka_idemp_set_state clock rk1 RD_KAFKA_IDEMP_STATE_WAIT_PID)\<lparr>rk_pid_requests := rk_pid_requests rk1 + 1\<rparr>"
  have r2: "rd_kafka_idemp_request_pid clock one_broker rk1 (Some 1) = Return (?rk2, True)"
    using req by (simp add: rd_kafka_idemp_request_pid_def request_pid_from_def one_broker_def)
  have "idemp_reach clock ?rk2 [] []"
    by (rule idemp_metadata [OF idemp_start [OF new_client_inv rk1(1)] r2])
  moreover have "idemp_state ?rk2 = RD_KAFKA_IDEMP_STATE_WAIT_PID"
    using set_state_fresh(2) [OF rk1(2), of clock RD_KAFKA_IDEMP_STATE_WAIT_PID] by (simp add: eos_of_eq)
  moreover have "timers_inv ?rk2"
    using set_state_fresh(1) [OF rk1(2), of clock RD_KAFKA_IDEMP_STATE_WAIT_PID] by (simp add: timers_fresh_def timers_inv_def)
  ultimately show thesis by (rule that)
qed



section \<open>A request under an epoch that has ended\<close>

lemma pid_bump_neq: "rd_kafka_pid_bump pid \<noteq> pid"
proof
  assume "rd_kafka_pid_bump pid = pid"
  then have "(pid_epoch pid + 1) AND 32767 = pid_epoch pid" by (metis rd_kafka_pid_bump_def rd_kafka_pid.select_convs(2))
  then have h: "(pid_epoch pid + 1) mod 32768 = pid_epoch pid"
    using take_bit_eq_mask [of 15 "pid_epoch pid + 1"] by (simp add: take_bit_eq_mod mask_eq_exp_minus_1)
  have "0 \<le> pid_epoch pid" "pid_epoch pid < 32768"
    using h pos_mod_bound [of 32768 "pid_epoch pid + 1"] pos_mod_sign [of 32768 "pid_epoch pid + 1"] by simp_all
  then show False using h by (cases "pid_epoch pid = 32767") simp_all
qed

text \<open>
  Nothing ties the copy of a pass to the id: whenever no request is in flight, a message timeout in the middle of a
  pass bumps the epoch at once, and the partitions that the pass comes to next still send under the epoch before it,
  counted as requests of the new one.
\<close>

lemma stale_epoch_sent:
  assumes reach: "idemp_reach clk rk ps []" and pid: "eos_pid rk \<in> set ps" "idemp_state rk = RD_KAFKA_IDEMP_STATE_ASSIGNED"
    and clk: "mono clk" "\<And>n. 0 < clk n"
  shows "\<exists>rk'. rd_kafka_idemp_drain_epoch_bump clk rk = Return rk' \<and>
    idemp_state rk' = RD_KAFKA_IDEMP_STATE_ASSIGNED \<and> eos_pid rk' = rd_kafka_pid_bump (eos_pid rk) \<and>
    eos_pid rk' \<noteq> eos_pid rk \<and>
    idemp_reach clk (rd_kafka_idemp_inflight_toppar_add rk') ps [(eos_pid rk, False)]"
proof -
  have inv: "idemp_inv [] rk" by (rule reach_inv [OF clk reach])
  let ?rk1 = "rd_kafka_idemp_set_state clk rk RD_KAFKA_IDEMP_STATE_DRAIN_BUMP"
  have tm: "timers_inv rk" using inv by (simp add: idemp_inv_def)
  have e1: "eos_of ?rk1 = (RD_KAFKA_IDEMP_STATE_DRAIN_BUMP, eos_pid rk, 0, rk_fatal rk, rk_pid_requests rk)"
    using set_state_fresh(2) [OF tm, of clk RD_KAFKA_IDEMP_STATE_DRAIN_BUMP] inv by (simp add: idemp_inv_def eos_of_eq)
  let ?rk2 = "?rk1\<lparr>eos_pid := rd_kafka_pid_bump (eos_pid ?rk1)\<rparr>"
  let ?rk3 = "rd_kafka_idemp_set_state clk ?rk2 RD_KAFKA_IDEMP_STATE_ASSIGNED"
  let ?rk4 = "?rk3\<lparr>rk_wakeups := rk_wakeups ?rk3 + 1\<rparr>"
  have "rd_kafka_pid_valid (eos_pid rk)" using inv pid(2) by (simp add: idemp_inv_def eos_of_eq)
  then have bump: "rd_kafka_idemp_drain_epoch_bump clk rk = Return ?rk4"
    using e1 by (simp add: idemp_defs Let_def eos_of_eq)
  have "timers_inv ?rk2" using set_state_fresh(1) [OF tm] by (simp add: timers_fresh_def timers_inv_def)
  from set_state_fresh(2) [OF this, of clk RD_KAFKA_IDEMP_STATE_ASSIGNED] e1
  have e4: "idemp_state ?rk4 = RD_KAFKA_IDEMP_STATE_ASSIGNED" "eos_pid ?rk4 = rd_kafka_pid_bump (eos_pid rk)"
    by (simp_all add: eos_of_eq)
  have ne: "rd_kafka_pid_bump (eos_pid rk) \<noteq> eos_pid rk" by (rule pid_bump_neq)
  from idemp_send [OF idemp_bump [OF reach bump] pid(1)]
  have "idemp_reach clk (rd_kafka_idemp_inflight_toppar_add ?rk4) ps [(eos_pid rk, False)]"
    using e4(2) ne by (simp add: pid_current_def)
  with bump e4 ne show ?thesis by metis
qed

section \<open>A failed request is not repeated\<close>

text \<open>While an id is awaited, the timer of the producer does nothing.\<close>

lemma request_pid_waiting:
  "idemp_state rk = RD_KAFKA_IDEMP_STATE_WAIT_PID \<Longrightarrow> rd_kafka_idemp_request_pid clk env rk rkb = Return (rk, False)"
  by (simp add: rd_kafka_idemp_request_pid_def)

interpretation waiting: timer_callback "ticking start d" "rd_kafka_idemp_request_pid_tmr_cb (ticking start d) env"
  "\<lambda>m. fst e = RD_KAFKA_IDEMP_STATE_WAIT_PID \<and> eos_of (rd_kafka_timers.extend no_timers m) = e" for start d env e
proof unfold_locales
  show "\<exists>s'. rd_kafka_idemp_request_pid_tmr_cb (ticking start d) env c s = Return s' \<and> timers_fresh (ticking start d) s s' \<and>
      fst e = RD_KAFKA_IDEMP_STATE_WAIT_PID \<and> eos_of (rd_kafka_timers.extend no_timers (rd_kafka_timers.more s')) = e"
    if "timers_inv s" "fst e = RD_KAFKA_IDEMP_STATE_WAIT_PID \<and>
      eos_of (rd_kafka_timers.extend no_timers (rd_kafka_timers.more s)) = e" for s c
  proof -
    have "idemp_state s = RD_KAFKA_IDEMP_STATE_WAIT_PID" using that(2) unfolding eos_of_extend by (auto simp: eos_of_eq)
    then show ?thesis using that by (simp add: rd_kafka_idemp_request_pid_tmr_cb_def request_pid_waiting timers_fresh_def)
  qed
qed (simp_all add: ticking_mono ticking_pos)

text \<open>What can lead to another request: the timer, new metadata, and the failure of a request.\<close>

inductive idemp_retry :: "(nat \<Rightarrow> int) \<Rightarrow> rd_kafka \<Rightarrow> rd_kafka \<Rightarrow> bool" for clk where
  retry_timers: "rd_kafka_timers_run clk (rd_kafka_idemp_request_pid_tmr_cb clk env) terminating wait 0 rk
    = Some (Return (rk', fired)) \<Longrightarrow> idemp_retry clk rk rk'"
| retry_metadata: "rd_kafka_idemp_request_pid clk env rk (Some rkb) = Return (rk', b) \<Longrightarrow> idemp_retry clk rk rk'"
| retry_failed: "err \<noteq> 0 \<Longrightarrow> rd_kafka_handle_InitProducerId clk rk err rkbuf = Return rk' \<Longrightarrow> idemp_retry clk rk rk'"

lemma retry_waiting:
  assumes clk: "mono clk" "\<And>n. 0 < clk n" and rk: "timers_inv rk" "idemp_state rk = RD_KAFKA_IDEMP_STATE_WAIT_PID"
    and step: "idemp_retry clk rk rk'"
  shows "timers_inv rk' \<and> eos_of rk' = eos_of rk"
  using step
proof cases
  case (retry_timers env terminating wait fired)
  have tick: "ticking (clk 0) (\<lambda>i. clk (Suc i) - clk i) = clk" by (rule ticking_all [OF clk, symmetric])
  have "\<exists>s' fs. rd_kafka_timers_run clk (rd_kafka_idemp_request_pid_tmr_cb clk env) terminating wait 0 rk = Some (Return (s', fs)) \<and>
      timers_inv s' \<and> eos_of s' = eos_of rk"
    using waiting.run_nowait [OF rk(1), of "eos_of rk" "clk 0" "\<lambda>i. clk (Suc i) - clk i" env terminating wait] rk(2)
    unfolding tick eos_of_extend by (fastforce simp: eos_of_eq [of rk])
  then show ?thesis using retry_timers by auto
next
  case (retry_metadata env rkb b)
  then show ?thesis using request_pid_waiting [OF rk(2)] rk(1) by auto
next
  case (retry_failed err rkbuf)
  then show ?thesis using restart_tmr_fresh [OF clk rk(1), of False] rk(1)
    by (auto simp: rd_kafka_handle_InitProducerId_def rd_kafka_idemp_request_pid_failed_def timers_fresh_def split: if_splits)
qed

text \<open>
  C34. A failed request for the producer id is never repeated: the failure starts the timer for
  another request, but the producer stays in the state in which it awaits an id, and in that state
  the timer and new metadata request none. However often they come, no request is made and no id
  is handed out.
\<close>

theorem idemp_failed_request_stuck:
  assumes clk: "mono clk" "\<forall>n. 0 < clk n"
    and rk: "idemp_reach clk rk ps fl" "idemp_state rk = RD_KAFKA_IDEMP_STATE_WAIT_PID"
    and failed: "err \<noteq> 0" "rd_kafka_handle_InitProducerId clk rk err rkbuf = Return rk'"
    and later: "(idemp_retry clk)\<^sup>*\<^sup>* rk' rk''"
  shows "idemp_state rk'' = RD_KAFKA_IDEMP_STATE_WAIT_PID \<and> rk_pid_requests rk'' = rk_pid_requests rk \<and>
    \<not> rd_kafka_pid_valid (rd_kafka_idemp_get_pid rk'')"
proof -
  have pos: "\<And>n. 0 < clk n" using clk(2) by blast
  have inv: "timers_inv rk" using reach_inv [OF clk(1) pos rk(1)] by (simp add: idemp_inv_def)
  have "(idemp_retry clk)\<^sup>*\<^sup>* rk rk''"
    using retry_failed [OF failed] later by (rule converse_rtranclp_into_rtranclp)
  then have "timers_inv rk'' \<and> eos_of rk'' = eos_of rk"
  proof (induction rule: rtranclp_induct)
    case (step y z)
    then have "idemp_state y = RD_KAFKA_IDEMP_STATE_WAIT_PID" using rk(2) by (simp add: eos_of_eq)
    then show ?case using retry_waiting [OF clk(1) pos _ _ step(2)] step.IH by auto
  qed (use inv in simp)
  then show ?thesis using rk(2)
    by (simp add: eos_of_eq rd_kafka_idemp_get_pid_def rd_kafka_pid_valid_def rd_kafka_pid_reset_def)
qed

theorem idemp_failed_request_stuck_witness:
  "\<exists>rk rk'. idemp_state rk = RD_KAFKA_IDEMP_STATE_WAIT_PID \<and>
     rd_kafka_handle_InitProducerId clock rk (- 185) (Inl 0) = Return rk' \<and> idemp_state rk' = RD_KAFKA_IDEMP_STATE_WAIT_PID"
proof -
  obtain rk where rk: "idemp_reach clock rk [] []" "idemp_state rk = RD_KAFKA_IDEMP_STATE_WAIT_PID" by (rule waiting_reached)
  have "idemp_inv [] rk" by (rule reach_inv [OF _ _ rk(1)]) simp_all
  then obtain rk' where rk': "rd_kafka_handle_InitProducerId clock rk (- 185) (Inl 0) = Return rk'"
    using response_inv [OF clock_simps] by blast
  have "idemp_state rk' = RD_KAFKA_IDEMP_STATE_WAIT_PID"
    using idemp_failed_request_stuck [OF clock_simps(1) _ rk _ rk' rtranclp.rtrancl_refl] by simp
  then show ?thesis using rk(2) rk' by blast
qed

end
