(* ===== verification/Avl.thy ===== *)
theory Avl
  imports Prelude
begin

text \<open>
  The balanced search trees of \<open>rdavl.c\<close> and \<open>rdavl.h\<close>. A node that a pointer refers to is a value:
  every node has one owner, its parent or the root. A new node has height 0, like no node
  at all, and gets its height only when it is balanced as an inner node.

  Balancing calls itself on trees of the same size after a rotation. The number of nested calls is
  bounded by a fuel, and running out of it is None, like running for ever; trees that the
  operations build never do.
\<close>

section \<open>Nodes and balancing\<close>

datatype rd_avl_dir = RD_AVL_LEFT | RD_AVL_RIGHT

datatype 'a rd_avl_node =
    Null
  | Node (ran_left: "'a rd_avl_node") (ran_height: int) (ran_elm: 'a) (ran_right: "'a rd_avl_node")

fun RD_AVL_NODE_HEIGHT :: "'a rd_avl_node \<Rightarrow> int" where
  "RD_AVL_NODE_HEIGHT Null = 0"
| "RD_AVL_NODE_HEIGHT (Node l h x r) = h"

text \<open>The node is dereferenced.\<close>

fun RD_AVL_NODE_DELTA :: "'a rd_avl_node \<Rightarrow> int outcome" where
  "RD_AVL_NODE_DELTA Null = Undefined"
| "RD_AVL_NODE_DELTA (Node l h x r) = Return (RD_AVL_NODE_HEIGHT l - RD_AVL_NODE_HEIGHT r)"

definition RD_DELTA_MAX :: int where "RD_DELTA_MAX = 1"

fun rd_avl_rotate :: "nat \<Rightarrow> 'a rd_avl_node \<Rightarrow> rd_avl_dir \<Rightarrow> 'a rd_avl_node outcome option"
  and rd_avl_balance_node :: "nat \<Rightarrow> 'a rd_avl_node \<Rightarrow> 'a rd_avl_node outcome option" where
  "rd_avl_rotate 0 rn dir = None"
| "rd_avl_rotate (Suc fuel) (Node l h x (Node nl nh y nr)) RD_AVL_LEFT =
     xbind (rd_avl_balance_node fuel (Node l h x nl)) (\<lambda>rn.
       rd_avl_balance_node fuel (Node rn nh y nr))"
| "rd_avl_rotate (Suc fuel) (Node (Node nl nh y nr) h x r) RD_AVL_RIGHT =
     xbind (rd_avl_balance_node fuel (Node nr h x r)) (\<lambda>rn.
       rd_avl_balance_node fuel (Node nl nh y rn))"
| "rd_avl_rotate (Suc fuel) _ _ = Some Undefined"
| "rd_avl_balance_node 0 rn = None"
| "rd_avl_balance_node (Suc fuel) Null = Some Undefined"
| "rd_avl_balance_node (Suc fuel) (Node l h x r) =
     (let d = RD_AVL_NODE_HEIGHT l - RD_AVL_NODE_HEIGHT r
      in if d < - RD_DELTA_MAX
         then xbind (xbind (Some (RD_AVL_NODE_DELTA r)) (\<lambda>rd.
                       if 0 < rd then rd_avl_rotate fuel r RD_AVL_RIGHT else Some (Return r))) (\<lambda>r1.
                rd_avl_rotate fuel (Node l h x r1) RD_AVL_LEFT)
         else if RD_DELTA_MAX < d
         then xbind (xbind (Some (RD_AVL_NODE_DELTA l)) (\<lambda>ld.
                       if ld < 0 then rd_avl_rotate fuel l RD_AVL_LEFT else Some (Return l))) (\<lambda>l1.
                rd_avl_rotate fuel (Node l1 h x r) RD_AVL_RIGHT)
         else (let h0 = 0;
                   h1 = (if h0 < RD_AVL_NODE_HEIGHT l then RD_AVL_NODE_HEIGHT l else h0);
                   h2 = (if h1 < RD_AVL_NODE_HEIGHT r then RD_AVL_NODE_HEIGHT r else h1)
               in Some (Return (Node l (h2 + 1) x r))))"

text \<open>The fuel grows with the difference of the heights.\<close>

definition balance_fuel :: "'a rd_avl_node \<Rightarrow> nat" where
  "balance_fuel rn = 5 + 2 * nat \<bar>RD_AVL_NODE_HEIGHT (ran_left rn) - RD_AVL_NODE_HEIGHT (ran_right rn)\<bar>"

definition rd_avl_balance :: "'a rd_avl_node \<Rightarrow> 'a rd_avl_node outcome option" where
  "rd_avl_balance rn = rd_avl_balance_node (balance_fuel rn) rn"

section \<open>Operations on nodes\<close>

text \<open>The tree, and the node that was replaced.\<close>

fun rd_avl_insert_node ::
  "('a \<Rightarrow> 'a \<Rightarrow> int) \<Rightarrow> 'a rd_avl_node \<Rightarrow> 'a rd_avl_node \<Rightarrow> ('a rd_avl_node \<times> 'a rd_avl_node option) outcome option" where
  "rd_avl_insert_node cmp Null rn = Some (Return (rn, None))"
| "rd_avl_insert_node cmp (Node l h x r) rn =
     (let d = cmp (ran_elm rn) x
      in if d = 0 then Some (Return (Node l h (ran_elm rn) r, Some (Node l h x r)))
         else if d < 0
         then xbind (rd_avl_insert_node cmp l rn) (\<lambda>(l1, existing).
                xbind (rd_avl_balance (Node l1 h x r)) (\<lambda>t. Some (Return (t, existing))))
         else xbind (rd_avl_insert_node cmp r rn) (\<lambda>(r1, existing).
                xbind (rd_avl_balance (Node l h x r1)) (\<lambda>t. Some (Return (t, existing)))))"

fun rd_avl_move :: "'a rd_avl_node \<Rightarrow> 'a rd_avl_node \<Rightarrow> rd_avl_dir \<Rightarrow> 'a rd_avl_node outcome option" where
  "rd_avl_move Null src dir = Some (Return src)"
| "rd_avl_move (Node l h x r) src RD_AVL_LEFT =
     xbind (rd_avl_move l src RD_AVL_LEFT) (\<lambda>l1. rd_avl_balance (Node l1 h x r))"
| "rd_avl_move (Node l h x r) src RD_AVL_RIGHT =
     xbind (rd_avl_move r src RD_AVL_RIGHT) (\<lambda>r1. rd_avl_balance (Node l h x r1))"

definition rd_avl_remove_node0 :: "'a rd_avl_node \<Rightarrow> 'a rd_avl_node outcome option" where
  "rd_avl_remove_node0 rn = rd_avl_move (ran_left rn) (ran_right rn) RD_AVL_RIGHT"

fun rd_avl_remove_elm0 :: "('a \<Rightarrow> 'a \<Rightarrow> int) \<Rightarrow> 'a rd_avl_node \<Rightarrow> 'a \<Rightarrow> 'a rd_avl_node outcome option" where
  "rd_avl_remove_elm0 cmp Null elm = Some (Return Null)"
| "rd_avl_remove_elm0 cmp (Node l h x r) elm =
     (let d = cmp elm x
      in if d = 0 then rd_avl_remove_node0 (Node l h x r)
         else if d < 0
         then xbind (rd_avl_remove_elm0 cmp l elm) (\<lambda>l1. rd_avl_balance (Node l1 h x r))
         else xbind (rd_avl_remove_elm0 cmp r elm) (\<lambda>r1. rd_avl_balance (Node l h x r1)))"

fun rd_avl_find_node :: "('a \<Rightarrow> 'a \<Rightarrow> int) \<Rightarrow> 'a rd_avl_node \<Rightarrow> 'a \<Rightarrow> 'a rd_avl_node" where
  "rd_avl_find_node cmp Null elm = Null"
| "rd_avl_find_node cmp (Node l h x r) elm =
     (let d = cmp elm x
      in if d = 0 then Node l h x r else if d < 0 then rd_avl_find_node cmp l elm else rd_avl_find_node cmp r elm)"

section \<open>Trees\<close>

record 'a rd_avl =
  ravl_root :: "'a rd_avl_node"
  ravl_cmp :: "'a \<Rightarrow> 'a \<Rightarrow> int"
  ravl_flags :: nat

definition RD_AVL_F_OWNER :: nat where "RD_AVL_F_OWNER = 2"

text \<open>\<open>given\<close> tells whether the caller passes a tree to be initialised, or one is allocated.\<close>

definition rd_avl_init :: "bool \<Rightarrow> ('a \<Rightarrow> 'a \<Rightarrow> int) \<Rightarrow> nat \<Rightarrow> 'a rd_avl" where
  "rd_avl_init given cmp flags =
     \<lparr>ravl_root = Null, ravl_cmp = cmp, ravl_flags = (if given then flags else flags OR RD_AVL_F_OWNER)\<rparr>"

text \<open>The tree, and the element that was replaced.\<close>

definition rd_avl_insert :: "'a rd_avl \<Rightarrow> 'a \<Rightarrow> ('a rd_avl \<times> 'a option) outcome option" where
  "rd_avl_insert ravl elm =
     xbind (rd_avl_insert_node (ravl_cmp ravl) (ravl_root ravl) (Node Null 0 elm Null)) (\<lambda>(root, existing).
       Some (Return (ravl\<lparr>ravl_root := root\<rparr>, map_option ran_elm existing)))"

definition rd_avl_remove_elm :: "'a rd_avl \<Rightarrow> 'a \<Rightarrow> 'a rd_avl outcome option" where
  "rd_avl_remove_elm ravl elm =
     xbind (rd_avl_remove_elm0 (ravl_cmp ravl) (ravl_root ravl) elm) (\<lambda>root. Some (Return (ravl\<lparr>ravl_root := root\<rparr>)))"

definition rd_avl_find :: "'a rd_avl \<Rightarrow> 'a \<Rightarrow> 'a option" where
  "rd_avl_find ravl elm =
     (case rd_avl_find_node (ravl_cmp ravl) (ravl_root ravl) elm of Null \<Rightarrow> None | Node l h x r \<Rightarrow> Some x)"

section \<open>Contents\<close>

fun inorder :: "'a rd_avl_node \<Rightarrow> 'a list" where
  "inorder Null = []"
| "inorder (Node l h x r) = inorder l @ x # inorder r"

lemma inorder_rotate_balance:
  "(rd_avl_rotate fuel t dir = Some (Return t') \<longrightarrow> inorder t' = inorder t) \<and>
   (rd_avl_balance_node fuel u = Some (Return u') \<longrightarrow> inorder u' = inorder u)" for t u :: "'a rd_avl_node"
proof (induction fuel arbitrary: t dir t' u u')
  case (Suc fuel)
  have rot: "rd_avl_rotate fuel t dir = Some (Return t') \<Longrightarrow> inorder t' = inorder t"
    and bal: "rd_avl_balance_node fuel u = Some (Return u') \<Longrightarrow> inorder u' = inorder u"
    for t dir and t' u u' :: "'a rd_avl_node" using Suc.IH by blast+
  have "rd_avl_rotate (Suc fuel) t dir = Some (Return t') \<longrightarrow> inorder t' = inorder t"
    by (cases "(Suc fuel, t, dir)" rule: rd_avl_rotate.cases) (auto simp: xbind_eq_Return dest!: bal)
  moreover have "rd_avl_balance_node (Suc fuel) u = Some (Return u') \<longrightarrow> inorder u' = inorder u"
  proof (cases u)
    case (Node l h x r)
    have side: "inorder s' = inorder s"
      if "xbind (Some (RD_AVL_NODE_DELTA s)) (\<lambda>d. if P d then rd_avl_rotate fuel s dr else Some (Return s)) = Some (Return s')"
      for s s' :: "'a rd_avl_node" and P dr using that by (auto simp: xbind_eq_Return dest: rot split: if_splits)
    show ?thesis unfolding Node
      by (auto simp: Let_def xbind_eq_Return [of "xbind a b" for a b] dest!: rot side split: if_splits)
  qed simp
  ultimately show ?case by blast
qed simp

section \<open>Balance\<close>

text \<open>
  The stored heights of children differ by at most one, and the height of a node is one more than the
  larger of them; but a node without children has the height 0 or 1.
\<close>

fun avl :: "'a rd_avl_node \<Rightarrow> bool" where
  "avl Null = True"
| "avl (Node l h x r) \<longleftrightarrow> avl l \<and> avl r \<and> \<bar>RD_AVL_NODE_HEIGHT l - RD_AVL_NODE_HEIGHT r\<bar> \<le> 1 \<and>
     (h = max (RD_AVL_NODE_HEIGHT l) (RD_AVL_NODE_HEIGHT r) + 1 \<or> l = Null \<and> r = Null \<and> h = 0)"

abbreviation ht :: "'a rd_avl_node \<Rightarrow> int" where "ht \<equiv> RD_AVL_NODE_HEIGHT"

lemma avl_ht_nonneg: "avl t \<Longrightarrow> 0 \<le> ht t"
  by (induction t) auto

definition node :: "'a rd_avl_node \<Rightarrow> 'a \<Rightarrow> 'a rd_avl_node \<Rightarrow> 'a rd_avl_node" where
  "node l x r = Node l (max (ht l) (ht r) + 1) x r"

lemma ht_node [simp]: "ht (node l x r) = max (ht l) (ht r) + 1"
  by (simp add: node_def)

lemma avl_node [simp]: "avl (node l x r) \<longleftrightarrow> avl l \<and> avl r \<and> \<bar>ht l - ht r\<bar> \<le> 1"
  by (auto simp: node_def)

text \<open>From a fuel on, balancing a node with these children gives a tree.\<close>

definition bal_to :: "nat \<Rightarrow> 'a rd_avl_node \<Rightarrow> 'a \<Rightarrow> 'a rd_avl_node \<Rightarrow> 'a rd_avl_node \<Rightarrow> bool" where
  "bal_to n l x r t \<longleftrightarrow> (\<forall>m \<ge> n. \<forall>h. rd_avl_balance_node m (Node l h x r) = Some (Return t))"

lemma bal_to_mono: "bal_to n l x r t \<Longrightarrow> n \<le> n' \<Longrightarrow> bal_to n' l x r t"
  by (simp add: bal_to_def)

lemma bal_to_same:
  assumes "avl l" "avl r" "\<bar>ht l - ht r\<bar> \<le> 1"
  shows "bal_to 1 l x r (node l x r)"
proof -
  have "rd_avl_balance_node m (Node l h x r) = Some (Return (node l x r))" if "1 \<le> m" for m h
    using that assms(3) avl_ht_nonneg [OF assms(1)] avl_ht_nonneg [OF assms(2)]
    by (cases m) (auto simp: Let_def RD_DELTA_MAX_def node_def max_def)
  then show ?thesis by (simp add: bal_to_def)
qed

lemma fuel_Suc_Suc: "n + 2 \<le> m \<Longrightarrow> \<exists>k \<ge> n. m = Suc (Suc k)"
  by (rule exI [of _ "m - 2"]) linarith

lemma bal_to_single:
  assumes "r = Node rl rh y rr" "ht l + 1 < ht r" "ht rl \<le> ht rr" "bal_to n l x rl t" "bal_to n t y rr t'" "n + 2 \<le> n'"
  shows "bal_to n' l x r t'"
proof -
  have "rd_avl_balance_node m (Node l h x r) = Some (Return t')" if "n' \<le> m" for m h
    using fuel_Suc_Suc [of n m] that assms by (auto simp: Let_def RD_DELTA_MAX_def bal_to_def)
  then show ?thesis by (simp add: bal_to_def)
qed

lemma bal_to_double:
  assumes "r = Node rl rh y rr" "rl = Node a ah z b" "s = Node sl sh w sr" "ht l + 1 < ht r" "ht rr < ht rl"
    "bal_to n b y rr c" "bal_to n a z c s" "bal_to n l x sl t" "bal_to n t w sr t'" "n + 2 \<le> n'"
  shows "bal_to n' l x r t'"
proof -
  have "rd_avl_balance_node m (Node l h x r) = Some (Return t')" if "n' \<le> m" for m h
    using fuel_Suc_Suc [of n m] that assms by (auto simp: Let_def RD_DELTA_MAX_def bal_to_def)
  then show ?thesis by (simp add: bal_to_def)
qed

text \<open>The code is symmetric.\<close>

fun mirror :: "'a rd_avl_node \<Rightarrow> 'a rd_avl_node" where
  "mirror Null = Null"
| "mirror (Node l h x r) = Node (mirror r) h x (mirror l)"

lemma mirror_ht [simp]: "ht (mirror t) = ht t"
  by (cases t) auto

lemma mirror_simps [simp]: "mirror (mirror t) = t" "avl (mirror t) = avl t" "mirror t = Null \<longleftrightarrow> t = Null"
proof -
  show n: "mirror t = Null \<longleftrightarrow> t = Null" for t :: "'a rd_avl_node" by (cases t) auto
  show "mirror (mirror t) = t" "avl (mirror t) = avl t" by (induction t) (auto simp: n max.commute abs_minus_commute)
qed

lemma mirror_node [simp]: "mirror (node l x r) = node (mirror r) x (mirror l)"
  by (simp add: node_def max.commute)

abbreviation mirrored :: "'a rd_avl_node outcome option \<Rightarrow> 'a rd_avl_node outcome option" where
  "mirrored \<equiv> map_option (map_outcome mirror)"

lemma mirrored_xbind: "mirrored (xbind m f) = xbind (mirrored m) (\<lambda>t. mirrored (f (mirror t)))"
  by (auto simp: xbind_def split: option.splits outcome.splits)

lemma mirrored_xbind_if:
  "mirrored (xbind m (\<lambda>d. if P d then f else g)) = xbind m (\<lambda>d. if P d then mirrored f else mirrored g)"
  by (auto simp: xbind_def split: option.splits outcome.splits)

definition opposite :: "rd_avl_dir \<Rightarrow> rd_avl_dir" where
  "opposite dir = (case dir of RD_AVL_LEFT \<Rightarrow> RD_AVL_RIGHT | RD_AVL_RIGHT \<Rightarrow> RD_AVL_LEFT)"

lemma opposite_dir [simp]: "opposite RD_AVL_LEFT = RD_AVL_RIGHT" "opposite RD_AVL_RIGHT = RD_AVL_LEFT"
  by (simp_all add: opposite_def)

lemma mirror_rotate_balance:
  "rd_avl_rotate fuel (mirror t) (opposite dir) = mirrored (rd_avl_rotate fuel t dir) \<and>
   rd_avl_balance_node fuel (mirror u) = mirrored (rd_avl_balance_node fuel u)" for t u :: "'a rd_avl_node"
proof (induction fuel arbitrary: t dir u)
  case (Suc fuel)
  have rot: "mirrored (rd_avl_rotate fuel t dir) = rd_avl_rotate fuel (mirror t) (opposite dir)"
    and bal: "mirrored (rd_avl_balance_node fuel t) = rd_avl_balance_node fuel (mirror t)"
    for t :: "'a rd_avl_node" and dir using Suc.IH by simp_all
  have "rd_avl_rotate (Suc fuel) (mirror t) (opposite dir) = mirrored (rd_avl_rotate (Suc fuel) t dir)"
    by (cases "(Suc fuel, t, dir)" rule: rd_avl_rotate.cases) (auto simp: mirrored_xbind bal opposite_def split: rd_avl_dir.splits)
  moreover have "rd_avl_balance_node (Suc fuel) (mirror u) = mirrored (rd_avl_balance_node (Suc fuel) u)"
  proof (cases u)
    case (Node l h x r)
    have side: "mirrored (xbind (Some (RD_AVL_NODE_DELTA s)) (\<lambda>d. if P d then rd_avl_rotate fuel s dr else Some (Return s)))
        = xbind (Some (RD_AVL_NODE_DELTA (mirror s)))
            (\<lambda>d. if P (- d) then rd_avl_rotate fuel (mirror s) (opposite dr) else Some (Return (mirror s)))"
      for s :: "'a rd_avl_node" and P dr by (cases s) (simp_all add: rot)
    note sides = side [where dr = RD_AVL_LEFT, unfolded opposite_dir] side [where dr = RD_AVL_RIGHT, unfolded opposite_dir]
    show ?thesis unfolding Node
      by (simp add: Let_def mirrored_xbind [of "xbind a b" for a b] sides rot RD_DELTA_MAX_def del: xbind_simps)
  qed simp
  ultimately show ?case by blast
qed simp

lemma bal_to_mirror: "bal_to n l x r t \<Longrightarrow> bal_to n (mirror r) x (mirror l) (mirror t)"
proof -
  assume "bal_to n l x r t"
  then have "mirrored (rd_avl_balance_node m (Node l h x r)) = Some (Return (mirror t))" if "n \<le> m" for m h
    using that by (simp add: bal_to_def)
  then have "rd_avl_balance_node m (mirror (Node l h x r)) = Some (Return (mirror t))" if "n \<le> m" for m h
    using that mirror_rotate_balance by metis
  then show ?thesis by (simp add: bal_to_def)
qed

section \<open>Balancing nodes whose children are balanced\<close>

text \<open>
  The result is as high as the higher child, or one higher. A difference of two is first
  treated alone. In its last case the first rotation is undone by the balancing within it, and the
  tree is rotated three more times.
\<close>

definition balanced :: "nat \<Rightarrow> 'a rd_avl_node \<Rightarrow> 'a \<Rightarrow> 'a rd_avl_node \<Rightarrow> bool" where
  "balanced n l x r \<longleftrightarrow> (\<exists>t. bal_to n l x r t \<and> avl t \<and> ht t \<in> {max (ht l) (ht r), max (ht l) (ht r) + 1})"

lemma balancedI: "bal_to n l x r t \<Longrightarrow> avl t \<Longrightarrow> ht t = max (ht l) (ht r) \<or> ht t = max (ht l) (ht r) + 1 \<Longrightarrow> balanced n l x r"
  by (auto simp: balanced_def)

lemma balanced_mirror: "balanced n l x r \<Longrightarrow> balanced n (mirror r) x (mirror l)"
proof -
  assume "balanced n l x r"
  then obtain t where t: "bal_to n l x r t" "avl t" "ht t = max (ht l) (ht r) \<or> ht t = max (ht l) (ht r) + 1"
    by (auto simp: balanced_def)
  show ?thesis by (rule balancedI [OF bal_to_mirror [OF t(1)]]) (use t(2,3) in \<open>auto simp: max.commute\<close>)
qed

lemma balanced_same: "avl l \<Longrightarrow> avl r \<Longrightarrow> \<bar>ht l - ht r\<bar> \<le> 1 \<Longrightarrow> balanced 1 l x r"
  by (rule balancedI [OF bal_to_same]) simp_all

lemma bal_to_undone:
  assumes "avl a" "avl b" "avl rr" "ht b = ht rr" "ht a = ht rr - 1"
  shows "bal_to 3 a z (node b y rr) (node (node a z b) y rr)"
proof -
  have same: "bal_to 1 a z b (node a z b)" "bal_to 1 (node a z b) y rr (node (node a z b) y rr)"
    by (rule bal_to_same; use assms in simp)+
  show ?thesis by (rule bal_to_single [OF node_def _ _ same]) (use assms in simp_all)
qed

lemma bal_to_twisted:
  assumes "avl l" "avl a" "avl b" "avl rr" "ht l = ht rr" "ht b = ht rr" "ht a = ht rr - 1"
  shows "bal_to 5 l x (node (node a z b) y rr) (node (node l x a) z (node b y rr))"
proof -
  let ?c = "node b y rr" and ?rl = "node a z b" and ?l = "node l x a"
  have same: "bal_to 1 b y rr ?c" "bal_to 1 a z b ?rl" "bal_to 1 ?rl y rr (node ?rl y rr)" "bal_to 1 l x ?rl (node l x ?rl)"
    by (rule bal_to_same; use assms in simp)+
  have undo: "bal_to 3 a z ?c (node ?rl y rr)" by (rule bal_to_undone) (use assms in simp_all)
  have m: "bal_to 1 (mirror a) x (mirror l) (mirror ?l)" "bal_to 1 (mirror b) z (mirror ?l) (mirror (node ?l z b))"
    "bal_to 1 (mirror rr) y (mirror b) (mirror ?c)" "bal_to 1 (mirror ?c) z (mirror ?l) (mirror (node ?l z ?c))"
    unfolding mirror_node by (rule bal_to_same; use assms in simp)+
  have "bal_to 3 (mirror rr) y (mirror (node l x ?rl)) (mirror (node ?l z ?c))"
    unfolding mirror_node [of l x ?rl]
    by (rule bal_to_double [OF node_def _ _ _ _ m(1,2,3,4)]) (use assms in \<open>simp_all add: node_def\<close>)
  from bal_to_mirror [OF this] have again: "bal_to 3 (node l x ?rl) y rr (node ?l z ?c)" by simp
  show ?thesis
    by (rule bal_to_double [OF node_def node_def node_def _ _ bal_to_mono [OF same(1)] undo bal_to_mono [OF same(4)] again])
      (use assms in simp_all)
qed

lemma avl_higher:
  assumes "avl r" "0 < ht r"
  obtains rl y rr where "r = node rl y rr" "avl rl" "avl rr" "ht r = max (ht rl) (ht rr) + 1" "\<bar>ht rl - ht rr\<bar> \<le> 1"
  using assms by (cases r) (auto simp: node_def)

text \<open>The steps of the induction: single and double rotation, and a double rotation that is undone.\<close>

lemma balanced_single:
  assumes "avl rl" "avl rr" "ht l < ht rr" "ht rr - 1 \<le> ht rl" "ht rl \<le> ht rr" "1 \<le> n" and IH: "balanced n l x rl"
  shows "balanced (n + 2) l x (node rl y rr)"
proof -
  obtain t where t: "bal_to n l x rl t" "avl t" "ht t \<in> {max (ht l) (ht rl), max (ht l) (ht rl) + 1}"
    using IH by (auto simp: balanced_def)
  have same: "bal_to 1 t y rr (node t y rr)" by (rule bal_to_same) (use t(2,3) assms in auto)
  have "bal_to (n + 2) l x (node rl y rr) (node t y rr)"
    by (rule bal_to_single [OF node_def _ _ t(1) bal_to_mono [OF same]]) (use assms in auto)
  then show ?thesis by (rule balancedI) (use t(2,3) assms in auto)
qed

lemma balanced_double:
  assumes "avl a" "avl b" "avl rr" "ht l \<le> ht rr" "ht a = ht rr" "ht rr - 1 \<le> ht b" "ht b \<le> ht rr" "1 \<le> n"
    and IH: "balanced n l x a"
  shows "balanced (n + 2) l x (node (node a z b) y rr)"
proof -
  let ?c = "node b y rr"
  obtain t where t: "bal_to n l x a t" "avl t" "ht t \<in> {max (ht l) (ht a), max (ht l) (ht a) + 1}"
    using IH by (auto simp: balanced_def)
  have same: "bal_to 1 b y rr ?c" "bal_to 1 a z ?c (node a z ?c)" "bal_to 1 t z ?c (node t z ?c)"
    by (rule bal_to_same; use t(2,3) assms in auto)+
  have "bal_to (n + 2) l x (node (node a z b) y rr) (node t z ?c)"
    by (rule bal_to_double [OF node_def node_def node_def _ _ bal_to_mono [OF same(1)] bal_to_mono [OF same(2)] t(1)
          bal_to_mono [OF same(3)]]) (use assms in auto)
  then show ?thesis by (rule balancedI) (use t(2,3) assms in auto)
qed

lemma balanced_undone:
  assumes "avl a" "avl b" "avl rr" "ht l < ht rr" "ht a = ht rr - 1" "ht b = ht rr" "3 \<le> n"
    and IH: "balanced n l x (node a z b)" and two: "\<And>t. avl t \<Longrightarrow> ht t = ht rr + 2 \<Longrightarrow> balanced n t y rr"
  shows "balanced (n + 2) l x (node (node a z b) y rr)"
proof -
  let ?c = "node b y rr" and ?rl = "node a z b"
  obtain t where t: "bal_to n l x ?rl t" "avl t" "ht t = ht rr + 1 \<or> ht t = ht rr + 2"
    using IH assms(4-6) by (auto simp: balanced_def)
  have "\<exists>u. bal_to n t y rr u \<and> avl u \<and> (ht u = ht rr + 2 \<or> ht u = ht rr + 3)"
  proof (cases "ht t = ht rr + 1")
    case True
    have "bal_to 1 t y rr (node t y rr)" by (rule bal_to_same) (use t(2) True assms in auto)
    then show ?thesis using t(2) True assms by (intro exI [of _ "node t y rr"]) (auto intro: bal_to_mono)
  next
    case False
    then show ?thesis using t(3) two [OF t(2)] by (auto simp: balanced_def)
  qed
  then obtain u where u: "bal_to n t y rr u" "avl u" "ht u = ht rr + 2 \<or> ht u = ht rr + 3" by blast
  have c: "bal_to 1 b y rr ?c" by (rule bal_to_same) (use assms in auto)
  have undo: "bal_to 3 a z ?c (node ?rl y rr)" by (rule bal_to_undone) (use assms in simp_all)
  have "bal_to (n + 2) l x (node ?rl y rr) u"
    by (rule bal_to_double [OF node_def node_def node_def _ _ bal_to_mono [OF c] bal_to_mono [OF undo] t(1) u(1)]) (use assms in auto)
  then show ?thesis by (rule balancedI) (use u(2,3) assms in auto)
qed

lemma balanced_twisted:
  assumes "avl l" "avl a" "avl b" "avl rr" "ht l = ht rr" "ht a = ht rr - 1" "ht b = ht rr"
  shows "balanced 5 l x (node (node a z b) y rr)"
  by (rule balancedI [OF bal_to_twisted]) (use assms in auto)

lemma balanced_mono: "balanced n l x r \<Longrightarrow> n \<le> n' \<Longrightarrow> balanced n' l x r"
  by (auto simp: balanced_def intro: bal_to_mono)

lemma balanced_inner:
  assumes avl: "avl l" "avl rl" "avl rr" and h: "ht rl = ht rr + 1" "ht rr + 2 - ht l = int k" "2 \<le> k"
    and IH: "\<And>(l' :: 'a rd_avl_node) r' x'. avl l' \<Longrightarrow> avl r' \<Longrightarrow> ht l' \<le> ht r' \<Longrightarrow> ht r' - ht l' < int k \<Longrightarrow>
      balanced (3 + 2 * k) l' x' r'"
  shows "balanced (3 + 2 * k + 2) l (x :: 'a) (node rl y rr)"
proof -
  have "0 < ht rl" using h(1) avl_ht_nonneg [OF avl(3)] by linarith
  then obtain a z b where rl: "rl = node a z b" "avl a" "avl b" "ht rl = max (ht a) (ht b) + 1" "\<bar>ht a - ht b\<bar> \<le> 1"
    using avl_higher [OF avl(2)] by blast
  consider "ht b \<le> ht a" | "ht a < ht b" "k = 2" | "ht a < ht b" "3 \<le> k" using h(3) by linarith
  then show ?thesis
  proof cases
    case 1
    show ?thesis unfolding rl(1)
      by (rule balanced_double [OF rl(2,3) avl(3) _ _ _ _ _ IH]) (use 1 avl h rl(2-5) in auto)
  next
    case 2
    show ?thesis unfolding rl(1)
      by (rule balanced_mono [OF balanced_twisted [OF avl(1) rl(2,3) avl(3)]]) (use 2 h rl(4,5) in auto)
  next
    case 3
    have inner: "balanced (3 + 2 * k) l x (node a z b)" by (rule IH) (use avl(1) h rl(2-5) in auto)
    have two: "balanced (3 + 2 * k) t y rr" if "avl t" "ht t = ht rr + 2" for t
      using balanced_mirror [OF IH [of "mirror rr" "mirror t" y]] that avl(3) 3(2) by simp
    show ?thesis unfolding rl(1)
      by (rule balanced_undone [OF rl(2,3) avl(3) _ _ _ _ inner two]) (use 3 h rl(4,5) in auto)
  qed
qed

lemma balanced_right:
  "avl l \<Longrightarrow> avl r \<Longrightarrow> ht r - ht l = int k \<Longrightarrow> balanced (5 + 2 * k) l x r"
proof (induction k arbitrary: l x r rule: less_induct)
  case (less k)
  show ?case
  proof (cases "k \<le> 1")
    case True
    show ?thesis by (rule balanced_mono [OF balanced_same [OF less.prems(1,2)]]) (use True less.prems(3) in auto)
  next
    case False
    have IH: "balanced (3 + 2 * k) l' x' r'" if "avl l'" "avl r'" "ht l' \<le> ht r'" "ht r' - ht l' < int k" for l' r' :: "'a rd_avl_node" and x'
      by (rule balanced_mono [OF less.IH [of "nat (ht r' - ht l')"]]) (use that in auto)
    have "0 < ht r" using False less.prems(3) avl_ht_nonneg [OF less.prems(1)] by linarith
    then obtain rl y rr where r: "r = node rl y rr" "avl rl" "avl rr" "ht r = max (ht rl) (ht rr) + 1" "\<bar>ht rl - ht rr\<bar> \<le> 1"
      using avl_higher [OF less.prems(2)] by blast
    show ?thesis
    proof (cases "ht rl \<le> ht rr")
      case True
      have "balanced (3 + 2 * k + 2) l x r" unfolding r(1)
        by (rule balanced_single [OF r(2,3) _ _ _ _ IH]) (use True False less.prems r(2-5) in auto)
      then show ?thesis by (simp add: add.commute)
    next
      case gt: False
      have "balanced (3 + 2 * k + 2) l x r" unfolding r(1)
        by (rule balanced_inner [OF less.prems(1) r(2,3)]) (use gt False less.prems(3) r(4,5) IH in auto)
      then show ?thesis by (simp add: add.commute)
    qed
  qed
qed

lemma balanced_any: "avl l \<Longrightarrow> avl r \<Longrightarrow> balanced (5 + 2 * nat \<bar>ht l - ht r\<bar>) l x r"
proof (cases "ht l \<le> ht r")
  case True
  then show "avl l \<Longrightarrow> avl r \<Longrightarrow> ?thesis" using balanced_right [of l r "nat (ht r - ht l)" x] by simp
next
  case False
  then show "avl l \<Longrightarrow> avl r \<Longrightarrow> ?thesis"
    using balanced_mirror [OF balanced_right [of "mirror r" "mirror l" "nat (ht l - ht r)" x]] by simp
qed

lemma rd_avl_balance_ok:
  assumes "avl l" "avl r"
  shows "\<exists>t. rd_avl_balance (Node l h x r) = Some (Return t) \<and> avl t \<and> inorder t = inorder l @ x # inorder r"
proof -
  obtain t where t: "bal_to (5 + 2 * nat \<bar>ht l - ht r\<bar>) l x r t" "avl t"
    using balanced_any [OF assms, of x] by (auto simp: balanced_def)
  then have "rd_avl_balance (Node l h x r) = Some (Return t)" by (simp add: rd_avl_balance_def balance_fuel_def bal_to_def)
  moreover from this have "inorder t = inorder (Node l h x r)"
    unfolding rd_avl_balance_def using inorder_rotate_balance by blast
  ultimately show ?thesis using t(2) by simp
qed

section \<open>Search trees\<close>

text \<open>The comparator orders elements by a key.\<close>

definition cmp_key :: "('a \<Rightarrow> 'a \<Rightarrow> int) \<Rightarrow> ('a \<Rightarrow> 'k :: linorder) \<Rightarrow> bool" where
  "cmp_key cmp key \<longleftrightarrow> (\<forall>a b. (cmp a b < 0 \<longleftrightarrow> key a < key b) \<and> (cmp a b = 0 \<longleftrightarrow> key a = key b))"

definition lookup :: "('a \<Rightarrow> 'k) \<Rightarrow> 'k \<Rightarrow> 'a list \<Rightarrow> 'a option" where
  "lookup key k xs = find (\<lambda>y. key y = k) xs"

lemma lookup_simps [simp]:
  "lookup key k [] = None" "lookup key k (x # xs) = (if key x = k then Some x else lookup key k xs)"
  by (simp_all add: lookup_def)

lemma lookup_append: "lookup key k (xs @ ys) = (case lookup key k xs of None \<Rightarrow> lookup key k ys | Some y \<Rightarrow> Some y)"
  by (induction xs) auto

lemma lookup_None: "lookup key k xs = None \<longleftrightarrow> k \<notin> key ` set xs"
  by (induction xs) auto

lemma lookup_Some: "lookup key k xs = Some y \<Longrightarrow> y \<in> set xs \<and> key y = k"
  by (induction xs) (auto split: if_splits)

lemma lookup_filter: "(\<And>y. key y = k \<Longrightarrow> P y) \<Longrightarrow> lookup key k (filter P xs) = lookup key k xs"
  by (induction xs) auto

lemma lookup_filter_None: "(\<And>y. key y = k \<Longrightarrow> \<not> P y) \<Longrightarrow> lookup key k (filter P xs) = None"
  by (auto simp: lookup_None)

inductive avl_reach :: "('a \<Rightarrow> 'a \<Rightarrow> int) \<Rightarrow> 'a rd_avl \<Rightarrow> bool" for cmp where
  reach_init: "avl_reach cmp (rd_avl_init given cmp flags)"
| reach_insert: "avl_reach cmp ravl \<Longrightarrow> rd_avl_insert ravl e = Some (Return (ravl', old)) \<Longrightarrow> avl_reach cmp ravl'"
| reach_remove: "avl_reach cmp ravl \<Longrightarrow> rd_avl_remove_elm ravl e = Some (Return ravl') \<Longrightarrow> avl_reach cmp ravl'"

text \<open>What a comparator that orders by a key gives.\<close>

locale avl_order =
  fixes cmp :: "'a \<Rightarrow> 'a \<Rightarrow> int" and key :: "'a \<Rightarrow> 'k :: linorder"
  assumes cmp_ordered: "cmp_key cmp key"
begin

lemma cmp_neg [simp]: "cmp a b < 0 \<longleftrightarrow> key a < key b"
  and cmp_zero [simp]: "cmp a b = 0 \<longleftrightarrow> key a = key b"
  using cmp_ordered by (auto simp: cmp_key_def)

definition search :: "'a rd_avl_node \<Rightarrow> bool" where
  "search t \<longleftrightarrow> avl t \<and> sorted_wrt (<) (map key (inorder t))"

lemma search_Null [simp]: "search Null"
  by (simp add: search_def)

lemma search_Node:
  assumes "search (Node l h x r)"
  shows "search l" "search r" "avl l" "avl r" "\<forall>y \<in> set (inorder l). key y < key x" "\<forall>y \<in> set (inorder r). key x < key y"
  using assms by (auto simp: search_def sorted_wrt_append)

text \<open>Searching follows the order.\<close>

lemma find_node_lookup:
  "search t \<Longrightarrow> (case rd_avl_find_node cmp t e of Null \<Rightarrow> None | Node l h x r \<Rightarrow> Some x) = lookup key (key e) (inorder t)"
proof (induction t)
  case (Node l h x r)
  note s = search_Node [OF Node.prems]
  have "lookup key (key e) (inorder l) = None" if "\<not> key e < key x" using s(5) that by (auto simp: lookup_None)
  moreover have "lookup key (key e) (inorder r) = None" if "\<not> key x < key e" using s(6) that by (auto simp: lookup_None)
  ultimately show ?case
    using Node.IH(1) [OF s(1)] Node.IH(2) [OF s(2)] by (auto simp: Let_def lookup_append split: option.splits)
qed simp

text \<open>Inserting puts an element into its place, and gives the one that had it.\<close>

definition inserted :: "'a \<Rightarrow> 'a list \<Rightarrow> 'a list" where
  "inserted e xs = filter (\<lambda>y. key y < key e) xs @ e # filter (\<lambda>y. key e < key y) xs"

lemma insert_node_ok:
  "search t \<Longrightarrow> \<exists>t' old. rd_avl_insert_node cmp t (Node Null 0 e Null) = Some (Return (t', old)) \<and> avl t' \<and>
     inorder t' = inserted e (inorder t) \<and> map_option ran_elm old = lookup key (key e) (inorder t)"
proof (induction t)
  case Null
  then show ?case by (simp add: inserted_def)
next
  case (Node l h x r)
  note s = search_Node [OF Node.prems]
  consider (eq) "key e = key x" | (less) "key e < key x" | (greater) "key x < key e" by (rule linorder_cases)
  then show ?case
  proof cases
    case eq
    then have "filter (\<lambda>y. key y < key e) (inorder l) = inorder l" "filter (\<lambda>y. key e < key y) (inorder r) = inorder r"
      "filter (\<lambda>y. key e < key y) (inorder l) = []" "filter (\<lambda>y. key y < key e) (inorder r) = []"
      "lookup key (key e) (inorder l) = None"
      using s(5,6) by (auto simp: filter_id_conv filter_empty_conv lookup_None)
    then show ?thesis using eq Node.prems by (auto simp: inserted_def search_def lookup_append)
  next
    case less
    obtain l' old where l': "rd_avl_insert_node cmp l (Node Null 0 e Null) = Some (Return (l', old))" "avl l'"
      "inorder l' = inserted e (inorder l)" "map_option ran_elm old = lookup key (key e) (inorder l)"
      using Node.IH(1) [OF s(1)] by blast
    obtain t where t: "rd_avl_balance (Node l' h x r) = Some (Return t)" "avl t" "inorder t = inorder l' @ x # inorder r"
      using rd_avl_balance_ok [OF l'(2) s(4)] by blast
    have "filter (\<lambda>y. key y < key e) (inorder r) = []" "filter (\<lambda>y. key e < key y) (inorder r) = inorder r"
      "lookup key (key e) (inorder r) = None"
      using less s(6) by (auto simp: filter_id_conv filter_empty_conv lookup_None)
    then show ?thesis using less l' t by (auto simp: inserted_def lookup_append split: option.splits)
  next
    case greater
    obtain r' old where r': "rd_avl_insert_node cmp r (Node Null 0 e Null) = Some (Return (r', old))" "avl r'"
      "inorder r' = inserted e (inorder r)" "map_option ran_elm old = lookup key (key e) (inorder r)"
      using Node.IH(2) [OF s(2)] by blast
    obtain t where t: "rd_avl_balance (Node l h x r') = Some (Return t)" "avl t" "inorder t = inorder l @ x # inorder r'"
      using rd_avl_balance_ok [OF s(3) r'(2)] by blast
    have "filter (\<lambda>y. key y < key e) (inorder l) = inorder l" "filter (\<lambda>y. key e < key y) (inorder l) = []"
      "lookup key (key e) (inorder l) = None"
      using greater s(5) by (auto simp: filter_id_conv filter_empty_conv lookup_None)
    then show ?thesis using greater r' t by (auto simp: inserted_def lookup_append)
  qed
qed

lemma inserted_sorted: "sorted_wrt (<) (map key xs) \<Longrightarrow> sorted_wrt (<) (map key (inserted e xs))"
  by (auto simp: inserted_def sorted_wrt_append sorted_wrt_map sorted_wrt_filter intro: less_trans)

lemma lookup_inserted: "lookup key k (inserted e xs) = (if k = key e then Some e else lookup key k xs)"
proof (cases k "key e" rule: linorder_cases)
  case less
  then show ?thesis
    by (auto simp: inserted_def lookup_append lookup_filter lookup_filter_None split: option.splits)
next
  case equal
  then show ?thesis by (simp add: inserted_def lookup_append lookup_filter_None)
next
  case greater
  then show ?thesis by (simp add: inserted_def lookup_append lookup_filter lookup_filter_None)
qed

text \<open>Removing takes the element out; the subtrees of a removed node are joined.\<close>

lemma move_ok:
  "avl dst \<Longrightarrow> avl src \<Longrightarrow> \<exists>t. rd_avl_move dst src RD_AVL_RIGHT = Some (Return t) \<and> avl t \<and> inorder t = inorder dst @ inorder src"
proof (induction dst)
  case (Node l h x r)
  then obtain r' where r': "rd_avl_move r src RD_AVL_RIGHT = Some (Return r')" "avl r'" "inorder r' = inorder r @ inorder src" by auto
  obtain t where "rd_avl_balance (Node l h x r') = Some (Return t)" "avl t" "inorder t = inorder l @ x # inorder r'"
    using rd_avl_balance_ok [of l r' h x] Node.prems(1) r'(2) by auto
  then show ?case using r' by simp
qed simp

lemma remove_elm0_ok:
  "search t \<Longrightarrow> \<exists>t'. rd_avl_remove_elm0 cmp t e = Some (Return t') \<and> avl t' \<and>
     inorder t' = filter (\<lambda>y. key y \<noteq> key e) (inorder t)"
proof (induction t)
  case (Node l h x r)
  note s = search_Node [OF Node.prems]
  have l: "filter (\<lambda>y. key y \<noteq> key e) (inorder l) = inorder l" if "\<not> key e < key x" using s(5) that by (auto simp: filter_id_conv)
  have r: "filter (\<lambda>y. key y \<noteq> key e) (inorder r) = inorder r" if "\<not> key x < key e" using s(6) that by (auto simp: filter_id_conv)
  obtain l' where l': "rd_avl_remove_elm0 cmp l e = Some (Return l')" "avl l'" "inorder l' = filter (\<lambda>y. key y \<noteq> key e) (inorder l)"
    using Node.IH(1) [OF s(1)] by blast
  obtain r' where r': "rd_avl_remove_elm0 cmp r e = Some (Return r')" "avl r'" "inorder r' = filter (\<lambda>y. key y \<noteq> key e) (inorder r)"
    using Node.IH(2) [OF s(2)] by blast
  note bal = rd_avl_balance_ok [OF l'(2) s(4), of h x] rd_avl_balance_ok [OF s(3) r'(2), of h x]
  show ?case
    using l r l' r' bal move_ok [OF s(3,4)] by (cases "key e" "key x" rule: linorder_cases) (auto simp: rd_avl_remove_node0_def)
qed simp

lemma insert_ok:
  assumes "search (ravl_root ravl)" "ravl_cmp ravl = cmp"
  shows "\<exists>ravl' old. rd_avl_insert ravl e = Some (Return (ravl', old)) \<and> search (ravl_root ravl') \<and> ravl_cmp ravl' = cmp \<and>
    inorder (ravl_root ravl') = inserted e (inorder (ravl_root ravl)) \<and> old = lookup key (key e) (inorder (ravl_root ravl))"
  using insert_node_ok [OF assms(1), of e] inserted_sorted assms by (auto simp: rd_avl_insert_def search_def)

lemma remove_ok:
  assumes "search (ravl_root ravl)" "ravl_cmp ravl = cmp"
  shows "\<exists>ravl'. rd_avl_remove_elm ravl e = Some (Return ravl') \<and> search (ravl_root ravl') \<and> ravl_cmp ravl' = cmp \<and>
    inorder (ravl_root ravl') = filter (\<lambda>y. key y \<noteq> key e) (inorder (ravl_root ravl))"
  using remove_elm0_ok [OF assms(1), of e] assms by (auto simp: rd_avl_remove_elm_def search_def sorted_wrt_map sorted_wrt_filter)

lemma find_ok: "search (ravl_root ravl) \<Longrightarrow> ravl_cmp ravl = cmp \<Longrightarrow> rd_avl_find ravl e = lookup key (key e) (inorder (ravl_root ravl))"
  by (simp add: rd_avl_find_def find_node_lookup)

lemma reach_search: "avl_reach cmp ravl \<Longrightarrow> search (ravl_root ravl) \<and> ravl_cmp ravl = cmp"
proof (induction rule: avl_reach.induct)
  case (reach_insert ravl e ravl' old)
  then show ?case using insert_ok [of ravl e] by auto
next
  case (reach_remove ravl e ravl')
  then show ?case using remove_ok [of ravl e] by auto
qed (simp add: rd_avl_init_def)

lemma lookup_removed: "lookup key k (filter (\<lambda>y. key y \<noteq> c) xs) = (if k = c then None else lookup key k xs)"
  by (auto simp: lookup_filter lookup_filter_None)

lemma reach_insert_find:
  assumes "avl_reach cmp ravl"
  shows "\<exists>ravl'. rd_avl_insert ravl e = Some (Return (ravl', rd_avl_find ravl e)) \<and>
    (\<forall>x. rd_avl_find ravl' x = (if key x = key e then Some e else rd_avl_find ravl x))"
  using reach_search [OF assms] insert_ok [of ravl e] by (auto simp: find_ok lookup_inserted)

lemma reach_remove_find:
  assumes "avl_reach cmp ravl"
  shows "\<exists>ravl'. rd_avl_remove_elm ravl e = Some (Return ravl') \<and>
    (\<forall>x. rd_avl_find ravl' x = (if key x = key e then None else rd_avl_find ravl x))"
  using reach_search [OF assms] remove_ok [of ravl e] by (auto simp: find_ok lookup_removed)

end

section \<open>Correctness of the trees\<close>

text \<open>
  C12. A tree is a map from keys to elements: whatever elements were inserted and removed before,
  inserting and removing return (no node that is not there is dereferenced, and the rotations
  end), an insertion gives the element that it replaces, and every search then finds what it
  should, for every comparator that orders the elements by a key.
\<close>

theorem avl_is_map:
  assumes "cmp_key cmp key" "avl_reach cmp ravl"
  shows "(\<exists>ravl'. rd_avl_insert ravl e = Some (Return (ravl', rd_avl_find ravl e)) \<and>
      (\<forall>x. rd_avl_find ravl' x = (if key x = key e then Some e else rd_avl_find ravl x))) \<and>
    (\<exists>ravl'. rd_avl_remove_elm ravl e = Some (Return ravl') \<and>
      (\<forall>x. rd_avl_find ravl' x = (if key x = key e then None else rd_avl_find ravl x)))"
  using avl_order.reach_insert_find [OF avl_order.intro [OF assms(1)] assms(2)]
    avl_order.reach_remove_find [OF avl_order.intro [OF assms(1)] assms(2)] by blast

text \<open>The number of comparisons of a search.\<close>

fun find_compares :: "('a \<Rightarrow> 'a \<Rightarrow> int) \<Rightarrow> 'a rd_avl_node \<Rightarrow> 'a \<Rightarrow> nat" where
  "find_compares cmp Null elm = 0"
| "find_compares cmp (Node l h x r) elm =
     (if cmp elm x = 0 then 1 else if cmp elm x < 0 then 1 + find_compares cmp l elm else 1 + find_compares cmp r elm)"

text \<open>The search with a counter of the calls of the comparator: it finds what the code finds.\<close>

fun find_counted :: "('a \<Rightarrow> 'a \<Rightarrow> int) \<Rightarrow> 'a rd_avl_node \<Rightarrow> 'a \<Rightarrow> nat \<Rightarrow> 'a rd_avl_node \<times> nat" where
  "find_counted cmp Null elm calls = (Null, calls)"
| "find_counted cmp (Node l h x r) elm calls =
     (let d = cmp elm x; calls' = calls + 1
      in if d = 0 then (Node l h x r, calls')
         else if d < 0 then find_counted cmp l elm calls' else find_counted cmp r elm calls')"

lemma find_counted_eq:
  "find_counted cmp t elm calls = (rd_avl_find_node cmp t elm, calls + find_compares cmp t elm)"
  by (induction t arbitrary: calls) (simp_all add: Let_def)

lemma find_compares_ht: "avl t \<Longrightarrow> int (find_compares cmp t e) \<le> ht t + 1"
  by (induction t) (auto dest: avl_ht_nonneg)

lemma avl_size: "avl t \<Longrightarrow> int n \<le> ht t \<Longrightarrow> 2 ^ (n div 2) \<le> length (inorder t) + 1"
proof (induction t arbitrary: n)
  case (Node l h x r)
  show ?case
  proof (cases "n < 2")
    case False
    then obtain m where n: "n = m + 2" using le_Suc_ex [of 2 n] by auto
    have "2 ^ (m div 2) \<le> length (inorder l) + 1" "2 ^ (m div 2) \<le> length (inorder r) + 1"
      by (rule Node.IH; use Node.prems n in auto)+
    then show ?thesis by (simp add: n)
  qed simp
qed simp

text \<open>
  C36. Searching is fast: in a tree of \<open>n\<close> elements, however it was built, a search makes at
  most \<open>2 log2 (n + 1) + 2\<close> comparisons, although the heights that are stored can be one too small.
\<close>

theorem avl_search_logarithmic:
  assumes "cmp_key cmp key" "avl_reach cmp ravl"
  shows "2 ^ ((find_compares cmp (ravl_root ravl) e - 1) div 2) \<le> length (inorder (ravl_root ravl)) + 1"
proof -
  have avl: "avl (ravl_root ravl)"
    using avl_order.reach_search [OF avl_order.intro [OF assms(1)] assms(2)]
    unfolding avl_order.search_def [OF avl_order.intro [OF assms(1)]] by blast
  then show ?thesis using find_compares_ht [of "ravl_root ravl" cmp e] avl_ht_nonneg [of "ravl_root ravl"]
    by (intro avl_size) linarith+
qed

section \<open>Examples\<close>

text \<open>Numbers, ordered by themselves.\<close>

definition cmp_int :: "int \<Rightarrow> int \<Rightarrow> int" where "cmp_int a b = a - b"

lemma cmp_int_key: "cmp_key cmp_int id"
  by (auto simp: cmp_key_def cmp_int_def)

text \<open>
  Three numbers in increasing order: the tree is a chain, whose root has no left child and a
  right subtree of two levels, and no rotation takes place.
\<close>

definition chain :: "int rd_avl_node" where
  "chain = Node Null 2 1 (Node Null 1 2 (Node Null 0 3 Null))"

definition example_avl :: "int rd_avl_node \<Rightarrow> int rd_avl" where
  "example_avl t = \<lparr>ravl_root = t, ravl_cmp = cmp_int, ravl_flags = 0\<rparr>"

lemmas avl_eval = rd_avl_insert_def rd_avl_remove_elm_def rd_avl_balance_def balance_fuel_def RD_DELTA_MAX_def cmp_int_def
  example_avl_def eval_nat_numeral

lemma avl_chain: "avl_reach cmp_int (example_avl chain)"
proof -
  have "rd_avl_init True cmp_int 0 = example_avl Null" by (simp add: rd_avl_init_def example_avl_def)
  then have "avl_reach cmp_int (example_avl Null)" by (metis reach_init)
  moreover have "rd_avl_insert (example_avl Null) 1 = Some (Return (example_avl (Node Null 0 1 Null), None))"
    by (simp add: avl_eval)
  ultimately have "avl_reach cmp_int (example_avl (Node Null 0 1 Null))" by (rule reach_insert)
  moreover have "rd_avl_insert (example_avl (Node Null 0 1 Null)) 2
      = Some (Return (example_avl (Node Null 1 1 (Node Null 0 2 Null)), None))" by (simp add: avl_eval)
  ultimately have "avl_reach cmp_int (example_avl (Node Null 1 1 (Node Null 0 2 Null)))" by (rule reach_insert)
  moreover have "rd_avl_insert (example_avl (Node Null 1 1 (Node Null 0 2 Null))) 3 = Some (Return (example_avl chain, None))"
    by (simp add: avl_eval chain_def)
  ultimately show ?thesis by (rule reach_insert)
qed

theorem avl_is_map_witness:
  "(\<exists>ravl'. rd_avl_insert (example_avl chain) 4 = Some (Return (ravl', rd_avl_find (example_avl chain) 4)) \<and>
      (\<forall>x. rd_avl_find ravl' x = (if id x = id 4 then Some 4 else rd_avl_find (example_avl chain) x))) \<and>
    (\<exists>ravl'. rd_avl_remove_elm (example_avl chain) 4 = Some (Return ravl') \<and>
      (\<forall>x. rd_avl_find ravl' x = (if id x = id 4 then None else rd_avl_find (example_avl chain) x)))"
  by (rule avl_is_map [OF cmp_int_key avl_chain])

theorem avl_search_logarithmic_witness:
  "2 ^ ((find_compares cmp_int (ravl_root (example_avl chain)) 3 - 1) div 2) \<le> length (inorder (ravl_root (example_avl chain))) + 1"
  by (rule avl_search_logarithmic [OF cmp_int_key avl_chain])

lemma avl_chain_unbalanced:
  "find_compares cmp_int (ravl_root (example_avl chain)) 0 = 1" "find_compares cmp_int (ravl_root (example_avl chain)) 3 = 3"
  by (simp_all add: example_avl_def chain_def cmp_int_def)

end
