(* ===== verification/Metacache.thy ===== *)
theory Metacache
  imports Avl Parlist Kbuf Timer_Run "HOL-Library.List_Lexorder"
begin

text \<open>
  The cache of topic metadata (\<open>rdkafka_metadata_cache.c\<close>): a search tree by topic name and a queue
  in which the entries wait to expire, with a timer for the first of them.

  An entry is a value with an address; the tree and the queue hold the same entries, which
  do not change once they are inserted. An allocation gives an address that was not given
  before. The client instance embeds the timer engine. \<open>rkmc_changes\<close> counts the broadcasts to those
  who wait for a change. Functions are called with the locks they document. Lists of topic names
  are lists of strings, and \<open>partition_cnt\<close> is the length of the list of partitions; the copy of the
  metadata in the memory of the entry is the metadata.
\<close>

section \<open>Entries and the cache\<close>

record rd_kafka_metadata_partition =
  mp_id :: int
  mp_err :: int
  mp_leader :: int
  mp_replicas :: "int list"
  mp_isrs :: "int list"

record metadata_topic =
  mdt_topic :: string
  mdt_partitions :: "rd_kafka_metadata_partition list"
  mdt_err :: int

record rd_kafka_metadata_cache_entry =
  rkmce_addr :: nat
  rkmce_ts_expires :: int
  rkmce_ts_insert :: int
  rkmce_mtopic :: metadata_topic

record rd_kafka_metadata_cache = rd_kafka_timers +
  rkmc_avl :: "rd_kafka_metadata_cache_entry rd_avl"
  rkmc_expiry :: "rd_kafka_metadata_cache_entry list"
  rkmc_cnt :: int
  rkmc_allocs :: nat
  rkmc_changes :: nat

definition RD_KAFKA_RESP_ERR__WAIT_CACHE :: int where "RD_KAFKA_RESP_ERR__WAIT_CACHE = - 164"

definition RD_KAFKA_METADATA_CACHE_VALID :: "rd_kafka_metadata_cache_entry \<Rightarrow> bool" where
  "RD_KAFKA_METADATA_CACHE_VALID rkmce \<longleftrightarrow> mdt_err (rkmce_mtopic rkmce) \<noteq> RD_KAFKA_RESP_ERR__WAIT_CACHE"

text \<open>The timers, and the number of the callback.\<close>

definition rkmc_expiry_tmr :: nat where "rkmc_expiry_tmr = 1"
definition rkmc_query_tmr :: nat where "rkmc_query_tmr = 2"
definition evict_tmr_cb_no :: nat where "evict_tmr_cb_no = 1"

definition rd_kafka_metadata_cache_entry_cmp ::
  "rd_kafka_metadata_cache_entry \<Rightarrow> rd_kafka_metadata_cache_entry \<Rightarrow> int" where
  "rd_kafka_metadata_cache_entry_cmp a b = strcmp (mdt_topic (rkmce_mtopic a)) (mdt_topic (rkmce_mtopic b))"

text \<open>The difference of two \<open>int32_t\<close> numbers as an \<open>int\<close>, wrapped around where it overflows.\<close>

definition rd_kafka_metadata_partition_id_cmp ::
  "rd_kafka_metadata_partition \<Rightarrow> rd_kafka_metadata_partition \<Rightarrow> int" where
  "rd_kafka_metadata_partition_id_cmp a b = int32_cast (mp_id a - mp_id b)"

definition rd_kafka_metadata_cache_propagate_changes :: "rd_kafka_metadata_cache \<Rightarrow> rd_kafka_metadata_cache" where
  "rd_kafka_metadata_cache_propagate_changes rk = rk\<lparr>rkmc_changes := rkmc_changes rk + 1\<rparr>"

section \<open>Deleting and finding entries\<close>

text \<open>Unlinking an entry from a queue that does not hold it is undefined.\<close>

definition rd_kafka_metadata_cache_delete ::
  "rd_kafka_metadata_cache \<Rightarrow> rd_kafka_metadata_cache_entry \<Rightarrow> bool \<Rightarrow> rd_kafka_metadata_cache outcome option" where
  "rd_kafka_metadata_cache_delete rk rkmce unlink_avl =
     xbind (if unlink_avl
            then xbind (rd_avl_remove_elm (rkmc_avl rk) rkmce) (\<lambda>avl1. Some (Return (rk\<lparr>rkmc_avl := avl1\<rparr>)))
            else Some (Return rk)) (\<lambda>rk1.
       if rkmce_addr rkmce \<notin> set (map rkmce_addr (rkmc_expiry rk1)) then Some Undefined
       else Some (obind (rd_assert (0 < rkmc_cnt rk1)) (\<lambda>_.
              Return (rk1\<lparr>rkmc_expiry := filter (\<lambda>e. rkmce_addr e \<noteq> rkmce_addr rkmce) (rkmc_expiry rk1),
                          rkmc_cnt := rkmc_cnt rk1 - 1\<rparr>))))"

text \<open>The entry that only has a name, to search with.\<close>

definition skel :: "string \<Rightarrow> rd_kafka_metadata_cache_entry" where
  "skel topic = \<lparr>rkmce_addr = 0, rkmce_ts_expires = 0, rkmce_ts_insert = 0,
     rkmce_mtopic = \<lparr>mdt_topic = topic, mdt_partitions = [], mdt_err = 0\<rparr>\<rparr>"

definition rd_kafka_metadata_cache_find ::
  "rd_kafka_metadata_cache \<Rightarrow> string \<Rightarrow> bool \<Rightarrow> rd_kafka_metadata_cache_entry option" where
  "rd_kafka_metadata_cache_find rk topic valid =
     (case rd_avl_find (rkmc_avl rk) (skel topic) of
        Some rkmce \<Rightarrow> if \<not> valid \<or> RD_KAFKA_METADATA_CACHE_VALID rkmce then Some rkmce else None
      | None \<Rightarrow> None)"

definition rd_kafka_metadata_cache_delete_by_name ::
  "rd_kafka_metadata_cache \<Rightarrow> string \<Rightarrow> (rd_kafka_metadata_cache \<times> bool) outcome option" where
  "rd_kafka_metadata_cache_delete_by_name rk topic =
     (case rd_kafka_metadata_cache_find rk topic True of
        Some rkmce \<Rightarrow> xbind (rd_kafka_metadata_cache_delete rk rkmce True) (\<lambda>rk1. Some (Return (rk1, True)))
      | None \<Rightarrow> Some (Return (rk, False)))"

text \<open>Entries are deleted from the front of the queue up to the first that has not expired.\<close>

fun evict_loop ::
  "int \<Rightarrow> nat \<Rightarrow> rd_kafka_metadata_cache \<Rightarrow> int \<Rightarrow> (rd_kafka_metadata_cache \<times> int) outcome option" where
  "evict_loop now 0 rk cnt = Some (Return (rk, cnt))"
| "evict_loop now (Suc n) rk cnt =
     (case rkmc_expiry rk of
        [] \<Rightarrow> Some (Return (rk, cnt))
      | rkmce # _ \<Rightarrow>
          if rkmce_ts_expires rkmce \<le> now
          then xbind (rd_kafka_metadata_cache_delete rk rkmce True) (\<lambda>rk1. evict_loop now n rk1 (cnt + 1))
          else Some (Return (rk, cnt)))"

definition rd_kafka_metadata_cache_evict ::
  "(nat \<Rightarrow> int) \<Rightarrow> rd_kafka_metadata_cache \<Rightarrow> (rd_kafka_metadata_cache \<times> int) outcome option" where
  "rd_kafka_metadata_cache_evict clk rk =
     (let (now, rk0) = rd_clock clk rk
      in xbind (evict_loop now (length (rkmc_expiry rk0)) rk0 0) (\<lambda>(rk1, cnt).
           xbind (case rkmc_expiry rk1 of
                    rkmce # _ \<Rightarrow> Some (rd_kafka_timer_start clk rk1 rkmc_expiry_tmr (rkmce_ts_expires rkmce - now) evict_tmr_cb_no)
                  | [] \<Rightarrow> Some (obind (rd_kafka_timer_stop rk1 rkmc_expiry_tmr) (\<lambda>(rk2, _). Return rk2))) (\<lambda>rk2.
             Some (Return (if cnt \<noteq> 0 then rd_kafka_metadata_cache_propagate_changes rk2 else rk2, cnt)))))"

section \<open>Inserting entries\<close>

text \<open>The copy of the metadata: without replicas, with the partitions in order.\<close>

definition cached_topic :: "metadata_topic \<Rightarrow> metadata_topic" where
  "cached_topic mtopic =
     mtopic\<lparr>mdt_partitions := qsort rd_kafka_metadata_partition_id_cmp
       (map (\<lambda>p. p\<lparr>mp_replicas := [], mp_isrs := []\<rparr>) (mdt_partitions mtopic))\<rparr>"

definition rd_kafka_metadata_cache_insert ::
  "rd_kafka_metadata_cache \<Rightarrow> metadata_topic \<Rightarrow> int \<Rightarrow> int \<Rightarrow> rd_kafka_metadata_cache outcome option" where
  "rd_kafka_metadata_cache_insert rk mtopic now ts_expires =
     (let rkmce = \<lparr>rkmce_addr = rkmc_allocs rk, rkmce_ts_expires = ts_expires, rkmce_ts_insert = now,
                   rkmce_mtopic = cached_topic mtopic\<rparr>;
          rk1 = rk\<lparr>rkmc_allocs := rkmc_allocs rk + 1, rkmc_expiry := rkmc_expiry rk @ [rkmce], rkmc_cnt := rkmc_cnt rk + 1\<rparr>
      in xbind (rd_avl_insert (rkmc_avl rk1) rkmce) (\<lambda>(avl1, old).
           let rk2 = rk1\<lparr>rkmc_avl := avl1\<rparr>
           in case old of None \<Rightarrow> Some (Return rk2) | Some e \<Rightarrow> rd_kafka_metadata_cache_delete rk2 e False))"

fun purge_loop :: "nat \<Rightarrow> rd_kafka_metadata_cache \<Rightarrow> rd_kafka_metadata_cache outcome option" where
  "purge_loop 0 rk = Some (Return rk)"
| "purge_loop (Suc n) rk =
     (case rkmc_expiry rk of
        [] \<Rightarrow> Some (Return rk)
      | rkmce # _ \<Rightarrow> xbind (rd_kafka_metadata_cache_delete rk rkmce True) (\<lambda>rk1. purge_loop n rk1))"

definition rd_kafka_metadata_cache_purge :: "rd_kafka_metadata_cache \<Rightarrow> rd_kafka_metadata_cache outcome option" where
  "rd_kafka_metadata_cache_purge rk =
     (let was_empty = (rkmc_expiry rk = [])
      in xbind (purge_loop (length (rkmc_expiry rk)) rk) (\<lambda>rk1.
           xbind (Some (rd_kafka_timer_stop rk1 rkmc_expiry_tmr)) (\<lambda>(rk2, _).
             Some (Return (if \<not> was_empty then rd_kafka_metadata_cache_propagate_changes rk2 else rk2)))))"

definition rd_kafka_metadata_cache_expiry_start ::
  "(nat \<Rightarrow> int) \<Rightarrow> rd_kafka_metadata_cache \<Rightarrow> rd_kafka_metadata_cache outcome" where
  "rd_kafka_metadata_cache_expiry_start clk rk =
     (case rkmc_expiry rk of
        rkmce # _ \<Rightarrow>
          let (now, rk1) = rd_clock clk rk
          in rd_kafka_timer_start clk rk1 rkmc_expiry_tmr (rkmce_ts_expires rkmce - now) evict_tmr_cb_no
      | [] \<Rightarrow> Return rk)"

text \<open>\<open>metadata_max_age_ms * 1000\<close> is a multiplication of \<open>int\<close>.\<close>

definition rd_kafka_metadata_cache_topic_update ::
  "(nat \<Rightarrow> int) \<Rightarrow> int \<Rightarrow> rd_kafka_metadata_cache \<Rightarrow> metadata_topic \<Rightarrow> rd_kafka_metadata_cache outcome option" where
  "rd_kafka_metadata_cache_topic_update clk metadata_max_age_ms rk mdt =
     (let (now, rk0) = rd_clock clk rk
      in xbind (Some (int_mul metadata_max_age_ms 1000)) (\<lambda>age.
           xbind (if mdt_err mdt = 0
                  then xbind (rd_kafka_metadata_cache_insert rk0 mdt now (now + age)) (\<lambda>rk1. Some (Return (rk1, True)))
                  else rd_kafka_metadata_cache_delete_by_name rk0 (mdt_topic mdt)) (\<lambda>(rk1, changed).
             Some (Return (if changed then rd_kafka_metadata_cache_propagate_changes rk1 else rk1)))))"

fun insert_topics :: "rd_kafka_metadata_cache \<Rightarrow> metadata_topic list \<Rightarrow> int \<Rightarrow> int \<Rightarrow> rd_kafka_metadata_cache outcome option" where
  "insert_topics rk [] now ts_expires = Some (Return rk)"
| "insert_topics rk (t # ts) now ts_expires =
     xbind (rd_kafka_metadata_cache_insert rk t now ts_expires) (\<lambda>rk1. insert_topics rk1 ts now ts_expires)"

definition rd_kafka_metadata_cache_update ::
  "(nat \<Rightarrow> int) \<Rightarrow> int \<Rightarrow> rd_kafka_metadata_cache \<Rightarrow> metadata_topic list \<Rightarrow> bool \<Rightarrow> rd_kafka_metadata_cache outcome option" where
  "rd_kafka_metadata_cache_update clk metadata_max_age_ms rk topics abs_update =
     (let (now, rk0) = rd_clock clk rk
      in xbind (Some (int_mul metadata_max_age_ms 1000)) (\<lambda>age.
           xbind (if abs_update then rd_kafka_metadata_cache_purge rk0 else Some (Return rk0)) (\<lambda>rk1.
           xbind (insert_topics rk1 topics now (now + age)) (\<lambda>rk2.
           xbind (case rkmc_expiry rk2 of
                    rkmce # _ \<Rightarrow> Some (rd_kafka_timer_start clk rk2 rkmc_expiry_tmr (rkmce_ts_expires rkmce - now) evict_tmr_cb_no)
                  | [] \<Rightarrow> Some (Return rk2)) (\<lambda>rk3.
             Some (Return (if topics \<noteq> [] then rd_kafka_metadata_cache_propagate_changes rk3 else rk3)))))))"

section \<open>Hints\<close>

fun purge_hints_loop ::
  "rd_kafka_metadata_cache \<Rightarrow> string list \<Rightarrow> int \<Rightarrow> (rd_kafka_metadata_cache \<times> int) outcome option" where
  "purge_hints_loop rk [] cnt = Some (Return (rk, cnt))"
| "purge_hints_loop rk (topic # topics) cnt =
     (case rd_kafka_metadata_cache_find rk topic False of
        None \<Rightarrow> purge_hints_loop rk topics cnt
      | Some rkmce \<Rightarrow>
          if RD_KAFKA_METADATA_CACHE_VALID rkmce then purge_hints_loop rk topics cnt
          else xbind (rd_kafka_metadata_cache_delete rk rkmce True) (\<lambda>rk1. purge_hints_loop rk1 topics (cnt + 1)))"

definition rd_kafka_metadata_cache_purge_hints ::
  "rd_kafka_metadata_cache \<Rightarrow> string list \<Rightarrow> rd_kafka_metadata_cache outcome option" where
  "rd_kafka_metadata_cache_purge_hints rk topics =
     xbind (purge_hints_loop rk topics 0) (\<lambda>(rk1, cnt).
       Some (Return (if 0 < cnt then rd_kafka_metadata_cache_propagate_changes rk1 else rk1)))"

text \<open>The list \<open>dst\<close> is None for NULL.\<close>

fun hint_loop ::
  "int \<Rightarrow> int \<Rightarrow> bool \<Rightarrow> rd_kafka_metadata_cache \<Rightarrow> string list \<Rightarrow> string list option \<Rightarrow> int \<Rightarrow>
   (rd_kafka_metadata_cache \<times> string list option \<times> int) outcome option" where
  "hint_loop now ts_expires replace rk [] dst cnt = Some (Return (rk, dst, cnt))"
| "hint_loop now ts_expires replace rk (topic # topics) dst cnt =
     (if \<not> replace \<and> (case rd_kafka_metadata_cache_find rk topic False of
                          Some rkmce \<Rightarrow> RD_KAFKA_METADATA_CACHE_VALID rkmce \<or> dst \<noteq> None
                        | None \<Rightarrow> False)
      then hint_loop now ts_expires replace rk topics dst cnt
      else xbind (rd_kafka_metadata_cache_insert rk
                    \<lparr>mdt_topic = topic, mdt_partitions = [], mdt_err = RD_KAFKA_RESP_ERR__WAIT_CACHE\<rparr> now ts_expires) (\<lambda>rk1.
             hint_loop now ts_expires replace rk1 topics (map_option (\<lambda>d. d @ [topic]) dst) (cnt + 1)))"

definition rd_kafka_metadata_cache_hint ::
  "(nat \<Rightarrow> int) \<Rightarrow> int \<Rightarrow> rd_kafka_metadata_cache \<Rightarrow> string list \<Rightarrow> string list option \<Rightarrow> bool \<Rightarrow>
   (rd_kafka_metadata_cache \<times> string list option \<times> int) outcome option" where
  "rd_kafka_metadata_cache_hint clk socket_timeout_ms rk topics dst replace =
     (let (now, rk0) = rd_clock clk rk
      in xbind (Some (int_mul socket_timeout_ms 1000)) (\<lambda>t. hint_loop now (now + t) replace rk0 topics dst 0))"

definition rd_kafka_metadata_cache_hint_rktparlist ::
  "(nat \<Rightarrow> int) \<Rightarrow> int \<Rightarrow> rd_kafka_metadata_cache \<Rightarrow> rd_kafka_topic_partition_list \<Rightarrow> string list option \<Rightarrow> bool \<Rightarrow>
   (rd_kafka_metadata_cache \<times> string list option \<times> int) outcome option" where
  "rd_kafka_metadata_cache_hint_rktparlist clk socket_timeout_ms rk rktparlist dst replace =
     rd_kafka_metadata_cache_hint clk socket_timeout_ms rk
       (fst (rd_kafka_topic_partition_list_get_topic_names rktparlist [] False)) dst replace"

section \<open>Creation, destruction and queries\<close>

definition rd_kafka_metadata_cache_init :: "rd_kafka_metadata_cache \<Rightarrow> rd_kafka_metadata_cache" where
  "rd_kafka_metadata_cache_init rk =
     rk\<lparr>rkmc_avl := rd_avl_init True rd_kafka_metadata_cache_entry_cmp 0, rkmc_expiry := []\<rparr>"

definition rd_kafka_metadata_cache_destroy :: "rd_kafka_metadata_cache \<Rightarrow> rd_kafka_metadata_cache outcome option" where
  "rd_kafka_metadata_cache_destroy rk =
     xbind (Some (rd_kafka_timer_stop rk rkmc_query_tmr)) (\<lambda>(rk1, _). rd_kafka_metadata_cache_purge rk1)"

definition rd_kafka_metadata_cache_topic_get ::
  "rd_kafka_metadata_cache \<Rightarrow> string \<Rightarrow> bool \<Rightarrow> metadata_topic option" where
  "rd_kafka_metadata_cache_topic_get rk topic valid = map_option rkmce_mtopic (rd_kafka_metadata_cache_find rk topic valid)"

text \<open>The return value, the topic and the partition.\<close>

definition rd_kafka_metadata_cache_topic_partition_get ::
  "rd_kafka_metadata_cache \<Rightarrow> string \<Rightarrow> int \<Rightarrow> bool \<Rightarrow> int \<times> metadata_topic option \<times> rd_kafka_metadata_partition option" where
  "rd_kafka_metadata_cache_topic_partition_get rk topic part valid =
     (case rd_kafka_metadata_cache_topic_get rk topic valid of
        None \<Rightarrow> (- 1, None, None)
      | Some mtopic \<Rightarrow>
          (case bsearch rd_kafka_metadata_partition_id_cmp
                  \<lparr>mp_id = part, mp_err = 0, mp_leader = 0, mp_replicas = [], mp_isrs = []\<rparr>
                  (mdt_partitions mtopic) 0 (length (mdt_partitions mtopic)) of
             None \<Rightarrow> (0, Some mtopic, None)
           | Some i \<Rightarrow> (1, Some mtopic, Some (mdt_partitions mtopic ! i))))"

text \<open>The number of topics in the cache, and the age of the oldest in milliseconds.\<close>

fun count_exists_loop ::
  "(nat \<Rightarrow> int) \<Rightarrow> rd_kafka_metadata_cache \<Rightarrow> string list \<Rightarrow> int \<Rightarrow> int \<Rightarrow> rd_kafka_metadata_cache \<times> int \<times> int" where
  "count_exists_loop clk rk [] cnt max_age = (rk, cnt, max_age)"
| "count_exists_loop clk rk (topic # topics) cnt max_age =
     (case rd_kafka_metadata_cache_find rk topic True of
        None \<Rightarrow> count_exists_loop clk rk topics cnt max_age
      | Some rkmce \<Rightarrow>
          let (now, rk1) = rd_clock clk rk;
              us = now - rkmce_ts_insert rkmce;
              age = int32_cast (if us < 0 then - (- us div 1000) else us div 1000)
          in count_exists_loop clk rk1 topics (cnt + 1) (max max_age age))"

definition rd_kafka_metadata_cache_topics_count_exists where
  "rd_kafka_metadata_cache_topics_count_exists clk rk topics = count_exists_loop clk rk topics 0 (- 1)"

definition rd_kafka_metadata_cache_topics_filter_hinted ::
  "rd_kafka_metadata_cache \<Rightarrow> string list \<Rightarrow> string list \<Rightarrow> string list \<times> int" where
  "rd_kafka_metadata_cache_topics_filter_hinted rk dst src =
     (let copied = filter (\<lambda>t. case rd_kafka_metadata_cache_find rk t False of
                                 Some rkmce \<Rightarrow> RD_KAFKA_METADATA_CACHE_VALID rkmce | None \<Rightarrow> True) src
      in (dst @ copied, int (length copied)))"

end
