(* ===== verification/Metacache_Proofs.thy ===== *)
theory Metacache_Proofs
  imports Metacache
begin

text \<open>
  What the metadata cache of \<open>Metacache\<close> guarantees. The tree of \<open>Avl\<close> is interpreted for the
  comparator of the cache; the tree and the queue of expiring entries hold the same entries.
\<close>

section \<open>The order of topic names\<close>

abbreviation entry_topic :: "rd_kafka_metadata_cache_entry \<Rightarrow> string" where
  "entry_topic e \<equiv> mdt_topic (rkmce_mtopic e)"

definition topic_key :: "string \<Rightarrow> nat list" where
  "topic_key s = map of_char s"

definition entry_key :: "rd_kafka_metadata_cache_entry \<Rightarrow> nat list" where
  "entry_key e = topic_key (entry_topic e)"

lemma topic_key_eq [simp]: "topic_key s = topic_key t \<longleftrightarrow> s = t"
  unfolding topic_key_def by (intro inj_eq) (simp add: inj_def)

lemma strcmp_less: "strcmp s t < 0 \<longleftrightarrow> topic_key s < topic_key t"
  by (induction s t rule: strcmp.induct) (auto simp: topic_key_def)

lemma entry_cmp_key: "cmp_key rd_kafka_metadata_cache_entry_cmp entry_key"
  by (simp add: cmp_key_def rd_kafka_metadata_cache_entry_cmp_def entry_key_def strcmp_less)

interpretation mc: avl_order rd_kafka_metadata_cache_entry_cmp entry_key
  by unfold_locales (rule entry_cmp_key)

section \<open>The invariant\<close>

definition cache_ok :: "rd_kafka_metadata_cache \<Rightarrow> bool" where
  "cache_ok rk \<longleftrightarrow> mc.search (ravl_root (rkmc_avl rk)) \<and> ravl_cmp (rkmc_avl rk) = rd_kafka_metadata_cache_entry_cmp \<and>
     set (inorder (ravl_root (rkmc_avl rk))) = set (rkmc_expiry rk) \<and> distinct (map rkmce_addr (rkmc_expiry rk)) \<and>
     rkmc_cnt rk = int (length (rkmc_expiry rk)) \<and> (\<forall>e \<in> set (rkmc_expiry rk). rkmce_addr e < rkmc_allocs rk)"

lemma search_distinct: "mc.search t \<Longrightarrow> distinct (map entry_key (inorder t))"
  by (simp add: mc.search_def strict_sorted_iff)

lemma same_topic:
  assumes "cache_ok rk" "e \<in> set (rkmc_expiry rk)" "e' \<in> set (rkmc_expiry rk)" "entry_topic e = entry_topic e'"
  shows "e = e'"
proof -
  let ?t = "ravl_root (rkmc_avl rk)"
  have "inj_on entry_key (set (inorder ?t))" using search_distinct [of ?t] assms(1) by (simp add: cache_ok_def distinct_map)
  moreover have "entry_key e = entry_key e'" using assms(4) by (simp add: entry_key_def)
  ultimately show ?thesis using assms(1-3) by (auto simp: cache_ok_def dest: inj_onD)
qed

text \<open>Finding an entry by its name.\<close>

lemma find_entry:
  assumes "cache_ok rk"
  shows "rd_kafka_metadata_cache_find rk topic False = Some e \<longleftrightarrow> e \<in> set (rkmc_expiry rk) \<and> entry_topic e = topic"
proof -
  let ?es = "inorder (ravl_root (rkmc_avl rk))"
  have es: "set ?es = set (rkmc_expiry rk)" using assms by (simp add: cache_ok_def)
  have f: "rd_kafka_metadata_cache_find rk topic False = lookup entry_key (topic_key topic) ?es"
    using assms mc.find_ok [of "rkmc_avl rk" "skel topic"]
    by (auto simp: cache_ok_def rd_kafka_metadata_cache_find_def entry_key_def skel_def split: option.splits)
  have eq: "e' = e" if "e' \<in> set ?es" "e \<in> set ?es" "entry_topic e = entry_topic e'" for e'
    using same_topic [OF assms] that unfolding es by metis
  show ?thesis unfolding f es [symmetric]
  proof
    assume "lookup entry_key (topic_key topic) ?es = Some e"
    then show "e \<in> set ?es \<and> entry_topic e = topic" by (auto dest!: lookup_Some simp: entry_key_def)
  next
    assume e: "e \<in> set ?es \<and> entry_topic e = topic"
    then have "lookup entry_key (topic_key topic) ?es \<noteq> None" by (auto simp: lookup_None entry_key_def)
    then obtain e' where e': "lookup entry_key (topic_key topic) ?es = Some e'" by blast
    then have "e' \<in> set ?es" "entry_topic e' = topic" by (auto dest!: lookup_Some simp: entry_key_def)
    then show "lookup entry_key (topic_key topic) ?es = Some e" using e e' eq by auto
  qed
qed

lemma find_valid:
  assumes "cache_ok rk"
  shows "rd_kafka_metadata_cache_find rk topic True = Some e \<longleftrightarrow>
    e \<in> set (rkmc_expiry rk) \<and> entry_topic e = topic \<and> RD_KAFKA_METADATA_CACHE_VALID e"
proof -
  have "rd_kafka_metadata_cache_find rk topic True = Some e \<longleftrightarrow>
      rd_kafka_metadata_cache_find rk topic False = Some e \<and> RD_KAFKA_METADATA_CACHE_VALID e"
    by (auto simp: rd_kafka_metadata_cache_find_def split: option.splits)
  then show ?thesis unfolding find_entry [OF assms] by blast
qed

section \<open>Deleting and inserting\<close>

lemma filter_addr:
  assumes "distinct (map rkmce_addr xs)" "e \<in> set xs"
  shows "filter (\<lambda>x. rkmce_addr x \<noteq> rkmce_addr e) xs = remove1 e xs"
  using assms
proof (induction xs)
  case (Cons x xs)
  then have "rkmce_addr y \<noteq> rkmce_addr x" if "y \<in> set xs" for y using that by (metis distinct.simps(2) image_eqI list.map(2) set_map)
  then show ?case using Cons by (cases "x = e") (auto simp: filter_id_conv)
qed simp

lemma remove1_length: "e \<in> set xs \<Longrightarrow> int (length (remove1 e xs)) = int (length xs) - 1"
  by (auto simp: length_remove1 int_ops(6))

lemma delete_ok:
  assumes ok: "cache_ok rk" and e: "e \<in> set (rkmc_expiry rk)"
  shows "\<exists>a. rd_kafka_metadata_cache_delete rk e True
      = Some (Return (rk\<lparr>rkmc_avl := a, rkmc_expiry := remove1 e (rkmc_expiry rk), rkmc_cnt := rkmc_cnt rk - 1\<rparr>)) \<and>
    cache_ok (rk\<lparr>rkmc_avl := a, rkmc_expiry := remove1 e (rkmc_expiry rk), rkmc_cnt := rkmc_cnt rk - 1\<rparr>)"
proof -
  have t: "mc.search (ravl_root (rkmc_avl rk))" "ravl_cmp (rkmc_avl rk) = rd_kafka_metadata_cache_entry_cmp"
    and c: "set (inorder (ravl_root (rkmc_avl rk))) = set (rkmc_expiry rk)" "distinct (map rkmce_addr (rkmc_expiry rk))"
      "rkmc_cnt rk = int (length (rkmc_expiry rk))" "\<forall>e \<in> set (rkmc_expiry rk). rkmce_addr e < rkmc_allocs rk"
    using ok by (simp_all add: cache_ok_def)
  obtain a where a: "rd_avl_remove_elm (rkmc_avl rk) e = Some (Return a)" "mc.search (ravl_root a)"
    "ravl_cmp a = rd_kafka_metadata_cache_entry_cmp" "inorder (ravl_root a) = filter (\<lambda>y. entry_key y \<noteq> entry_key e) (inorder (ravl_root (rkmc_avl rk)))"
    using mc.remove_ok [OF t] by blast
  let ?rk = "rk\<lparr>rkmc_avl := a, rkmc_expiry := remove1 e (rkmc_expiry rk), rkmc_cnt := rkmc_cnt rk - 1\<rparr>"
  have pos: "0 < rkmc_cnt rk" using c(3) e by (cases "rkmc_expiry rk") auto
  have "rd_kafka_metadata_cache_delete rk e True = Some (Return ?rk)"
    using a(1) e pos filter_addr [OF c(2) e] by (simp add: rd_kafka_metadata_cache_delete_def)
  moreover have "cache_ok ?rk" unfolding cache_ok_def
  proof (intro conjI; simp)
    have d: "distinct (rkmc_expiry rk)" using c(2) by (simp add: distinct_map)
    show "mc.search (ravl_root a)" "ravl_cmp a = rd_kafka_metadata_cache_entry_cmp" by (fact a)+
    have "entry_key y = entry_key e \<longleftrightarrow> y = e" if "y \<in> set (rkmc_expiry rk)" for y
      using same_topic [OF ok that e] by (auto simp: entry_key_def)
    then show "set (inorder (ravl_root a)) = set (remove1 e (rkmc_expiry rk))"
      unfolding a(4) set_filter c(1) set_remove1_eq [OF d] by auto
    show "distinct (map rkmce_addr (remove1 e (rkmc_expiry rk)))"
      unfolding filter_addr [OF c(2) e, symmetric] using c(2) by (rule distinct_map_filter)
    show "rkmc_cnt rk - 1 = int (length (remove1 e (rkmc_expiry rk)))"
      using remove1_length [OF e] c(3) by simp
    show "\<forall>e \<in> set (remove1 e (rkmc_expiry rk)). rkmce_addr e < rkmc_allocs rk" using c(4) notin_set_remove1 by fastforce
  qed
  ultimately show ?thesis by blast
qed

text \<open>The new entry takes the place of the one with its name.\<close>

definition new_entry :: "rd_kafka_metadata_cache \<Rightarrow> metadata_topic \<Rightarrow> int \<Rightarrow> int \<Rightarrow> rd_kafka_metadata_cache_entry" where
  "new_entry rk mtopic now ts_expires = \<lparr>rkmce_addr = rkmc_allocs rk, rkmce_ts_expires = ts_expires, rkmce_ts_insert = now,
     rkmce_mtopic = cached_topic mtopic\<rparr>"

lemma new_entry_sel [simp]:
  "rkmce_addr (new_entry rk mt now ts) = rkmc_allocs rk" "rkmce_mtopic (new_entry rk mt now ts) = cached_topic mt"
  "rkmce_ts_expires (new_entry rk mt now ts) = ts" "mdt_topic (cached_topic mt) = mdt_topic mt"
  by (simp_all add: new_entry_def cached_topic_def)

lemma insert_entries:
  assumes ok: "cache_ok rk"
  shows "\<exists>a c. rd_kafka_metadata_cache_insert rk mt now ts = Some (Return (rk\<lparr>rkmc_avl := a, rkmc_cnt := c, rkmc_allocs := rkmc_allocs rk + 1,
      rkmc_expiry := filter (\<lambda>e. entry_topic e \<noteq> mdt_topic mt) (rkmc_expiry rk) @ [new_entry rk mt now ts]\<rparr>)) \<and>
    mc.search (ravl_root a) \<and> ravl_cmp a = rd_kafka_metadata_cache_entry_cmp \<and>
    set (inorder (ravl_root a)) = {e \<in> set (rkmc_expiry rk). entry_topic e \<noteq> mdt_topic mt} \<union> {new_entry rk mt now ts} \<and>
    c = int (length (filter (\<lambda>e. entry_topic e \<noteq> mdt_topic mt) (rkmc_expiry rk))) + 1"
proof -
  let ?e = "new_entry rk mt now ts" and ?es = "inorder (ravl_root (rkmc_avl rk))" and ?q = "rkmc_expiry rk"
  let ?keep = "filter (\<lambda>e. entry_topic e \<noteq> mdt_topic mt) (rkmc_expiry rk)"
  have t: "mc.search (ravl_root (rkmc_avl rk))" "ravl_cmp (rkmc_avl rk) = rd_kafka_metadata_cache_entry_cmp"
    and c: "set ?es = set ?q" "distinct (map rkmce_addr ?q)"
      "rkmc_cnt rk = int (length ?q)" "\<forall>e \<in> set ?q. rkmce_addr e < rkmc_allocs rk"
    using ok by (simp_all add: cache_ok_def)
  obtain a where a: "rd_avl_insert (rkmc_avl rk) ?e = Some (Return (a, lookup entry_key (entry_key ?e) ?es))"
    "mc.search (ravl_root a)" "ravl_cmp a = rd_kafka_metadata_cache_entry_cmp" "inorder (ravl_root a) = mc.inserted ?e ?es"
    using mc.insert_ok [OF t] by blast
  have elems: "set (inorder (ravl_root a)) = {e \<in> set ?q. entry_topic e \<noteq> mdt_topic mt} \<union> {?e}"
    unfolding a(4) mc.inserted_def by (auto simp: c(1) entry_key_def) (metis linorder_neqE topic_key_eq)
  have unfold: "rd_kafka_metadata_cache_insert rk mt now ts =
      (let rk2 = rk\<lparr>rkmc_allocs := rkmc_allocs rk + 1, rkmc_expiry := ?q @ [?e], rkmc_cnt := rkmc_cnt rk + 1, rkmc_avl := a\<rparr>
       in case lookup entry_key (entry_key ?e) ?es of None \<Rightarrow> Some (Return rk2) | Some e \<Rightarrow> rd_kafka_metadata_cache_delete rk2 e False)"
    using a(1) by (simp add: rd_kafka_metadata_cache_insert_def new_entry_def Let_def)
  show ?thesis
  proof (cases "lookup entry_key (entry_key ?e) ?es")
    case None
    then have "\<forall>x \<in> set ?q. entry_topic x \<noteq> mdt_topic mt" unfolding lookup_None c(1) entry_key_def by (auto intro: rev_image_eqI)
    then have "?keep = ?q" by (simp add: filter_id_conv)
    then show ?thesis using unfold None a(2,3) elems c(3) by (intro exI [of _ a] exI [of _ "rkmc_cnt rk + 1"]) (simp add: Let_def)
  next
    case (Some old)
    then have old: "old \<in> set ?q" "entry_topic old = mdt_topic mt" using lookup_Some [OF Some] by (auto simp: c(1) entry_key_def)
    have topic: "entry_topic e \<noteq> mdt_topic mt \<longleftrightarrow> rkmce_addr e \<noteq> rkmce_addr old" if "e \<in> set ?q" for e
      using same_topic [OF ok that old(1)] old(2) that old(1) c(2) by (auto simp: distinct_map inj_on_def)
    then have keep: "?keep = filter (\<lambda>e. rkmce_addr e \<noteq> rkmce_addr old) ?q" by (intro filter_cong) auto
    have len: "int (length ?keep) + 1 = rkmc_cnt rk"
      unfolding keep filter_addr [OF c(2) old(1)] using remove1_length [OF old(1)] c(3) by simp
    have "rkmce_addr old \<noteq> rkmc_allocs rk" using c(4) old(1) by auto
    then have "rd_kafka_metadata_cache_insert rk mt now ts = Some (Return (rk\<lparr>rkmc_avl := a, rkmc_cnt := rkmc_cnt rk,
        rkmc_allocs := rkmc_allocs rk + 1, rkmc_expiry := ?keep @ [?e]\<rparr>))"
      using unfold Some old(1) c(3) keep by (auto simp: rd_kafka_metadata_cache_delete_def Let_def)
    then show ?thesis using a(2,3) elems len by (intro exI [of _ a] exI [of _ "rkmc_cnt rk"]) simp
  qed
qed

lemma cache_insert_ok:
  assumes ok: "cache_ok rk"
  shows "\<exists>rk'. rd_kafka_metadata_cache_insert rk mt now ts = Some (Return rk') \<and> cache_ok rk' \<and>
    rkmc_expiry rk' = filter (\<lambda>e. entry_topic e \<noteq> mdt_topic mt) (rkmc_expiry rk) @ [new_entry rk mt now ts] \<and>
    rd_kafka_timers.truncate rk' = rd_kafka_timers.truncate rk \<and> rkmc_changes rk' = rkmc_changes rk"
proof -
  obtain a c where ac: "rd_kafka_metadata_cache_insert rk mt now ts = Some (Return (rk\<lparr>rkmc_avl := a, rkmc_cnt := c, rkmc_allocs := rkmc_allocs rk + 1,
      rkmc_expiry := filter (\<lambda>e. entry_topic e \<noteq> mdt_topic mt) (rkmc_expiry rk) @ [new_entry rk mt now ts]\<rparr>))"
    (is "_ = Some (Return ?rk)") "mc.search (ravl_root a)" "ravl_cmp a = rd_kafka_metadata_cache_entry_cmp"
    "set (inorder (ravl_root a)) = {e \<in> set (rkmc_expiry rk). entry_topic e \<noteq> mdt_topic mt} \<union> {new_entry rk mt now ts}"
    "c = int (length (filter (\<lambda>e. entry_topic e \<noteq> mdt_topic mt) (rkmc_expiry rk))) + 1"
    using insert_entries [OF ok] by blast
  have "cache_ok ?rk"
    using ok ac(2-5) by (auto simp: cache_ok_def distinct_map_filter less_Suc_eq)
  then show ?thesis using ac(1) by (intro exI [of _ ?rk]) (simp add: rd_kafka_timers.defs)
qed

section \<open>Whole operations\<close>

text \<open>The cache without the timers.\<close>

lemma cache_ok_more:
  assumes "rd_kafka_timers.more rk' = rd_kafka_timers.more rk"
  shows "cache_ok rk' = cache_ok rk" "rkmc_expiry rk' = rkmc_expiry rk" "rkmc_changes rk' = rkmc_changes rk"
  using assms by (cases rk; cases rk'; simp add: cache_ok_def)+

lemma cache_ok_clock [simp]: "cache_ok (rk\<lparr>rkts_reads := n\<rparr>) = cache_ok rk"
  by (rule cache_ok_more) (cases rk, simp)

lemma cache_ok_changes [simp]:
  "cache_ok (rd_kafka_metadata_cache_propagate_changes rk) = cache_ok rk"
  "rkmc_expiry (rd_kafka_metadata_cache_propagate_changes rk) = rkmc_expiry rk"
  by (simp_all add: cache_ok_def rd_kafka_metadata_cache_propagate_changes_def)

text \<open>
  The queue of timers, in which the interval of the expiry timer can be negative when an entry that
  should have expired is still there: stopping and starting a timer does not corrupt it.
\<close>

definition timers_wf :: "'a rd_kafka_timers_scheme \<Rightarrow> bool" where
  "timers_wf s \<longleftrightarrow> distinct (rkts_timers s) \<and> (\<forall>t. t \<in> queued s \<longleftrightarrow> next_of s t \<noteq> 0) \<and> (\<forall>t \<in> queued s. interval_of s t \<noteq> 0)"

lemma stop_wf:
  assumes "timers_wf s"
  shows "\<exists>s' b. rd_kafka_timer_stop s t = Return (s', b) \<and> timers_wf s' \<and> t \<notin> queued s' \<and> rkts_reads s' = rkts_reads s"
proof (cases "interval_of s t \<noteq> 0 \<and> next_of s t \<noteq> 0")
  case True
  then have "t \<in> queued s" using assms by (simp add: timers_wf_def)
  then show ?thesis using True assms
    by (auto simp: timers_wf_def rd_kafka_timer_stop_def rd_kafka_timer_unschedule_def rd_kafka_timer_started_def
        rd_kafka_timer_scheduled_def set_remove1_eq)
next
  case False
  then have "t \<notin> queued s" using assms by (auto simp: timers_wf_def)
  then show ?thesis using False assms
    by (auto simp: timers_wf_def rd_kafka_timer_stop_def rd_kafka_timer_started_def rd_kafka_timer_scheduled_def)
qed

lemma start_wf:
  assumes "timers_wf s" "clk (rkts_reads s) + interval \<noteq> 0"
  shows "\<exists>s'. rd_kafka_timer_start clk s t interval cb = Return s' \<and> timers_wf s' \<and> rkts_reads s \<le> rkts_reads s'"
proof -
  obtain s1 b where s1: "rd_kafka_timer_stop s t = Return (s1, b)" "timers_wf s1" "t \<notin> queued s1" "rkts_reads s1 = rkts_reads s"
    using stop_wf [OF assms(1)] by blast
  have "next_of s1 t = 0" using s1(2,3) by (auto simp: timers_wf_def)
  then show ?thesis using s1 assms(2)
    by (auto simp: rd_kafka_timer_start_def rd_kafka_timer_start0_def rd_kafka_timer_schedule_def rd_clock_def timers_wf_def Let_def
        split: list.splits)
qed

definition cache_inv :: "rd_kafka_metadata_cache \<Rightarrow> bool" where
  "cache_inv rk \<longleftrightarrow> cache_ok rk \<and> timers_wf rk \<and> (\<forall>e \<in> set (rkmc_expiry rk). 0 < rkmce_ts_expires e)"

lemma cache_inv_ok: "cache_inv rk \<Longrightarrow> cache_ok rk"
  by (simp add: cache_inv_def)

lemma cache_inv_sel [simp]:
  "cache_inv (rk\<lparr>rkts_reads := n\<rparr>) = cache_inv rk"
  "cache_inv (rd_kafka_metadata_cache_propagate_changes rk) = cache_inv rk"
  by (simp_all add: cache_inv_def timers_wf_def) (simp_all add: rd_kafka_metadata_cache_propagate_changes_def)

lemma delete_inv:
  assumes "cache_inv rk" "e \<in> set (rkmc_expiry rk)"
  shows "\<exists>rk'. rd_kafka_metadata_cache_delete rk e True = Some (Return rk') \<and> cache_inv rk' \<and>
    rkmc_expiry rk' = remove1 e (rkmc_expiry rk) \<and> rkts_reads rk' = rkts_reads rk"
  using delete_ok [OF cache_inv_ok [OF assms(1)] assms(2)] assms(1) notin_set_remove1
  by (fastforce simp: cache_inv_def timers_wf_def)

lemma insert_inv:
  assumes "cache_inv rk" "0 < ts"
  shows "\<exists>rk'. rd_kafka_metadata_cache_insert rk mt now ts = Some (Return rk') \<and> cache_inv rk' \<and>
    rkmc_expiry rk' = filter (\<lambda>e. entry_topic e \<noteq> mdt_topic mt) (rkmc_expiry rk) @ [new_entry rk mt now ts] \<and>
    rkts_reads rk' = rkts_reads rk"
proof -
  obtain rk' where rk': "rd_kafka_metadata_cache_insert rk mt now ts = Some (Return rk')" "cache_ok rk'"
    "rkmc_expiry rk' = filter (\<lambda>e. entry_topic e \<noteq> mdt_topic mt) (rkmc_expiry rk) @ [new_entry rk mt now ts]"
    "rd_kafka_timers.truncate rk' = rd_kafka_timers.truncate rk"
    using cache_insert_ok [OF cache_inv_ok [OF assms(1)]] by blast
  from rk'(4) have "rkts_reads rk' = rkts_reads rk" "timers_wf rk' = timers_wf rk"
    by (simp_all add: rd_kafka_timers.defs timers_wf_def)
  then show ?thesis using rk'(1-3) assms by (auto simp: cache_inv_def)
qed

lemma stop_inv:
  assumes "cache_inv rk"
  shows "\<exists>rk' b. rd_kafka_timer_stop rk t = Return (rk', b) \<and> cache_inv rk' \<and> rkmc_expiry rk' = rkmc_expiry rk \<and>
    rkts_reads rk' = rkts_reads rk"
  using stop_wf [of rk t] assms cache_ok_more [OF stop_more] by (fastforce simp: cache_inv_def)

lemma start_inv:
  assumes "cache_inv rk" "clk (rkts_reads rk) + interval \<noteq> 0"
  shows "\<exists>rk'. rd_kafka_timer_start clk rk t interval cb = Return rk' \<and> cache_inv rk' \<and> rkmc_expiry rk' = rkmc_expiry rk \<and>
    rkts_reads rk \<le> rkts_reads rk'"
  using start_wf [of rk clk interval t cb] assms cache_ok_more [OF start_more [folded rd_kafka_timer_start_def]]
  by (fastforce simp: cache_inv_def rd_kafka_timer_start_def dest: start_more)

text \<open>The expiry timer is started for an entry, some time after \<open>now\<close>.\<close>

lemma expiry_inv:
  assumes "mono clk" "n \<le> rkts_reads rk" "cache_inv rk" "e \<in> set (rkmc_expiry rk)"
  shows "\<exists>rk'. rd_kafka_timer_start clk rk t (rkmce_ts_expires e - clk n) cb = Return rk' \<and> cache_inv rk' \<and>
    rkmc_expiry rk' = rkmc_expiry rk \<and> rkts_reads rk \<le> rkts_reads rk'"
proof -
  have "clk n \<le> clk (rkts_reads rk)" using assms(1,2) by (rule monoD)
  moreover have "0 < rkmce_ts_expires e" using assms(3,4) by (simp add: cache_inv_def)
  ultimately show ?thesis by (intro start_inv [OF assms(3)]) linarith
qed

section \<open>Loops\<close>

lemma remove1_hd: "xs = x # ys \<Longrightarrow> remove1 x xs = ys"
  by simp

lemma evict_loop_inv:
  "cache_inv rk \<Longrightarrow> n = length (rkmc_expiry rk) \<Longrightarrow>
   \<exists>rk'. evict_loop now n rk cnt = Some (Return (rk', cnt + int (length (rkmc_expiry rk)) - int (length (rkmc_expiry rk')))) \<and>
     cache_inv rk' \<and> rkmc_expiry rk' = dropWhile (\<lambda>e. rkmce_ts_expires e \<le> now) (rkmc_expiry rk) \<and> rkts_reads rk' = rkts_reads rk"
proof (induction n arbitrary: rk cnt)
  case (Suc n)
  then obtain e es where e: "rkmc_expiry rk = e # es" by (cases "rkmc_expiry rk") auto
  show ?case
  proof (cases "rkmce_ts_expires e \<le> now")
    case True
    obtain rk1 where rk1: "rd_kafka_metadata_cache_delete rk e True = Some (Return rk1)" "cache_inv rk1" "rkmc_expiry rk1 = es"
      "rkts_reads rk1 = rkts_reads rk"
      using delete_inv [OF Suc.prems(1), of e] e by auto
    then show ?thesis using Suc.IH [OF rk1(2), of "cnt + 1"] Suc.prems(2) e True by auto
  next
    case False
    then show ?thesis using Suc.prems(1) e by auto
  qed
qed auto

lemma purge_loop_inv:
  "cache_inv rk \<Longrightarrow> n = length (rkmc_expiry rk) \<Longrightarrow>
   \<exists>rk'. purge_loop n rk = Some (Return rk') \<and> cache_inv rk' \<and> rkmc_expiry rk' = [] \<and> rkts_reads rk' = rkts_reads rk"
proof (induction n arbitrary: rk)
  case (Suc n)
  then obtain e es where e: "rkmc_expiry rk = e # es" by (cases "rkmc_expiry rk") auto
  then obtain rk1 where rk1: "rd_kafka_metadata_cache_delete rk e True = Some (Return rk1)" "cache_inv rk1" "rkmc_expiry rk1 = es"
    "rkts_reads rk1 = rkts_reads rk"
    using delete_inv [OF Suc.prems(1), of e] by auto
  then show ?case using Suc.IH [OF rk1(2)] Suc.prems(2) e by auto
qed auto

text \<open>What the cache knows of a topic, hints included.\<close>

definition cached :: "rd_kafka_metadata_cache \<Rightarrow> string \<Rightarrow> metadata_topic option" where
  "cached rk topic = rd_kafka_metadata_cache_topic_get rk topic False"

lemma cached_eq:
  "cache_inv rk \<Longrightarrow> cached rk topic = Some mt \<longleftrightarrow> (\<exists>e \<in> set (rkmc_expiry rk). entry_topic e = topic \<and> rkmce_mtopic e = mt)"
  using find_entry [OF cache_inv_ok] by (auto simp: cached_def rd_kafka_metadata_cache_topic_get_def)

lemma cached_same:
  assumes "cache_inv rk" "cache_inv rk'" "set (rkmc_expiry rk') = set (rkmc_expiry rk)"
  shows "cached rk' = cached rk"
proof
  show "cached rk' topic = cached rk topic" for topic
    using cached_eq [OF assms(1), of topic] cached_eq [OF assms(2), of topic] unfolding assms(3) by (metis option.exhaust)
qed

lemma insert_cached:
  assumes "cache_inv rk" "0 < ts" "rd_kafka_metadata_cache_insert rk mt now ts = Some (Return rk')"
  shows "cached rk' = (cached rk)(mdt_topic mt \<mapsto> cached_topic mt)"
proof -
  have inv: "cache_inv rk'" and q: "rkmc_expiry rk' = filter (\<lambda>e. entry_topic e \<noteq> mdt_topic mt) (rkmc_expiry rk) @ [new_entry rk mt now ts]"
    using insert_inv [OF assms(1,2), of mt now] assms(3) by auto
  show ?thesis
  proof
    fix t
    have "cached rk' t = Some m \<longleftrightarrow> ((cached rk)(mdt_topic mt \<mapsto> cached_topic mt)) t = Some m" for m
      using cached_eq [OF inv, of t m] cached_eq [OF assms(1), of t m] unfolding q by auto
    then show "cached rk' t = ((cached rk)(mdt_topic mt \<mapsto> cached_topic mt)) t" by (metis option.exhaust)
  qed
qed

lemma insert_topics_inv:
  "cache_inv rk \<Longrightarrow> 0 < ts \<Longrightarrow>
   \<exists>rk'. insert_topics rk mts now ts = Some (Return rk') \<and> cache_inv rk' \<and> rkts_reads rk' = rkts_reads rk \<and>
     cached rk' = cached rk ++ map_of (rev (map (\<lambda>mt. (mdt_topic mt, cached_topic mt)) mts))"
proof (induction mts arbitrary: rk)
  case (Cons mt mts)
  obtain rk1 where rk1: "rd_kafka_metadata_cache_insert rk mt now ts = Some (Return rk1)" "cache_inv rk1" "rkts_reads rk1 = rkts_reads rk"
    using insert_inv [OF Cons.prems] by blast
  note c = insert_cached [OF Cons.prems rk1(1)]
  obtain rk' where rk': "insert_topics rk1 mts now ts = Some (Return rk')" "cache_inv rk'" "rkts_reads rk' = rkts_reads rk1"
    "cached rk' = cached rk1 ++ map_of (rev (map (\<lambda>mt. (mdt_topic mt, cached_topic mt)) mts))"
    using Cons.IH [OF rk1(2) Cons.prems(2)] by blast
  have "cached rk' = cached rk ++ map_of (rev (map (\<lambda>mt. (mdt_topic mt, cached_topic mt)) (mt # mts)))"
    unfolding rk'(4) c by simp
  then show ?case using rk'(1-3) rk1(1,3) by simp
qed simp

lemma purge_hints_loop_inv:
  "cache_inv rk \<Longrightarrow>
   \<exists>rk' n. purge_hints_loop rk topics cnt = Some (Return (rk', n)) \<and> cache_inv rk' \<and> rkts_reads rk' = rkts_reads rk \<and>
     set (rkmc_expiry rk') = {e \<in> set (rkmc_expiry rk). entry_topic e \<in> set topics \<longrightarrow> RD_KAFKA_METADATA_CACHE_VALID e}"
proof (induction topics arbitrary: rk cnt)
  case (Cons topic topics)
  let ?f = "rd_kafka_metadata_cache_find rk topic False"
  show ?case
  proof (cases "\<exists>e. ?f = Some e \<and> \<not> RD_KAFKA_METADATA_CACHE_VALID e")
    case True
    then obtain e where e: "?f = Some e" "\<not> RD_KAFKA_METADATA_CACHE_VALID e" by blast
    then have m: "e \<in> set (rkmc_expiry rk)" "entry_topic e = topic" using find_entry [OF cache_inv_ok [OF Cons.prems]] by auto
    obtain rk1 where rk1: "rd_kafka_metadata_cache_delete rk e True = Some (Return rk1)" "cache_inv rk1"
      "rkmc_expiry rk1 = remove1 e (rkmc_expiry rk)" "rkts_reads rk1 = rkts_reads rk"
      using delete_inv [OF Cons.prems m(1)] by blast
    have d: "distinct (rkmc_expiry rk)" using Cons.prems by (auto simp: cache_inv_def cache_ok_def distinct_map)
    have only: "x = e" if "x \<in> set (rkmc_expiry rk)" "entry_topic x = topic" for x
      using same_topic [OF cache_inv_ok [OF Cons.prems] that(1) m(1)] that(2) m(2) by simp
    obtain rk' n where rk': "purge_hints_loop rk1 topics (cnt + 1) = Some (Return (rk', n))" "cache_inv rk'" "rkts_reads rk' = rkts_reads rk1"
      "set (rkmc_expiry rk') = {e \<in> set (rkmc_expiry rk1). entry_topic e \<in> set topics \<longrightarrow> RD_KAFKA_METADATA_CACHE_VALID e}"
      using Cons.IH [OF rk1(2)] by blast
    have "set (rkmc_expiry rk') = {e \<in> set (rkmc_expiry rk). entry_topic e \<in> set (topic # topics) \<longrightarrow> RD_KAFKA_METADATA_CACHE_VALID e}"
      unfolding rk'(4) rk1(3) set_remove1_eq [OF d] using only e(2) m(2) by auto
    then show ?thesis using rk'(1-3) rk1(1,4) e by simp
  next
    case False
    then have keep: "RD_KAFKA_METADATA_CACHE_VALID e" if "e \<in> set (rkmc_expiry rk)" "entry_topic e = topic" for e
      using find_entry [OF cache_inv_ok [OF Cons.prems], of topic e] that by blast
    have "purge_hints_loop rk (topic # topics) cnt = purge_hints_loop rk topics cnt" using False by (auto split: option.splits)
    then show ?thesis using Cons.IH [OF Cons.prems, of cnt] keep by auto
  qed
qed auto

lemma hint_loop_inv:
  "cache_inv rk \<Longrightarrow> 0 < ts \<Longrightarrow>
   \<exists>rk' d n. hint_loop now ts replace rk topics dst cnt = Some (Return (rk', d, n)) \<and> cache_inv rk' \<and> rkts_reads rk' = rkts_reads rk \<and>
     (\<forall>t. t \<in> set topics \<longrightarrow> cached rk' t \<noteq> None) \<and> (\<forall>t. cached rk t \<noteq> None \<longrightarrow> cached rk' t \<noteq> None)"
proof (induction topics arbitrary: rk dst cnt)
  case (Cons topic topics)
  let ?mt = "\<lparr>mdt_topic = topic, mdt_partitions = [], mdt_err = RD_KAFKA_RESP_ERR__WAIT_CACHE\<rparr>"
  let ?skip = "\<not> replace \<and> (case rd_kafka_metadata_cache_find rk topic False of
      Some rkmce \<Rightarrow> RD_KAFKA_METADATA_CACHE_VALID rkmce \<or> dst \<noteq> None | None \<Rightarrow> False)"
  show ?case
  proof (cases ?skip)
    case True
    then have "cached rk topic \<noteq> None" by (auto simp: cached_def rd_kafka_metadata_cache_topic_get_def split: option.splits)
    then show ?thesis using True Cons.IH [OF Cons.prems, of dst cnt] by (auto simp: if_P)
  next
    case False
    obtain rk1 where rk1: "rd_kafka_metadata_cache_insert rk ?mt now ts = Some (Return rk1)" "cache_inv rk1" "rkts_reads rk1 = rkts_reads rk"
      using insert_inv [OF Cons.prems] by blast
    have c: "cached rk1 topic \<noteq> None" "\<forall>t. cached rk t \<noteq> None \<longrightarrow> cached rk1 t \<noteq> None"
      using insert_cached [OF Cons.prems rk1(1)] by auto
    have "hint_loop now ts replace rk (topic # topics) dst cnt
        = hint_loop now ts replace rk1 topics (map_option (\<lambda>d. d @ [topic]) dst) (cnt + 1)"
      unfolding hint_loop.simps(2) if_not_P [OF False] rk1(1) by simp
    then show ?thesis using Cons.IH [OF rk1(2) Cons.prems(2), of "map_option (\<lambda>d. d @ [topic]) dst" "cnt + 1"] rk1(3) c by auto
  qed
qed simp

section \<open>The operations\<close>

text \<open>The clock does not go back and starts after 0, and the configured times fit into an \<open>int\<close>.\<close>

definition clock_ok :: "(nat \<Rightarrow> int) \<Rightarrow> bool" where
  "clock_ok clk \<longleftrightarrow> mono clk \<and> (\<forall>n. 0 < clk n)"

definition ms_ok :: "int \<Rightarrow> bool" where
  "ms_ok ms \<longleftrightarrow> 0 \<le> ms \<and> ms * 1000 < 2 ^ 31"

lemma ms_mul: "ms_ok ms \<Longrightarrow> int_mul ms 1000 = Return (ms * 1000)"
  by (auto simp: ms_ok_def int_mul_def)

lemma ms_expires: "clock_ok clk \<Longrightarrow> ms_ok ms \<Longrightarrow> 0 < clk n + ms * 1000"
  by (auto simp: clock_ok_def ms_ok_def intro: add_pos_nonneg)

lemma tick_inv:
  assumes "cache_inv rk"
  shows "cache_inv (rk\<lparr>rkts_reads := n\<rparr>)" "cached (rk\<lparr>rkts_reads := n\<rparr>) = cached rk"
  using assms cached_same [OF assms, of "rk\<lparr>rkts_reads := n\<rparr>"] by simp_all

lemma propagate_inv:
  assumes "cache_inv rk"
  shows "cached (rd_kafka_metadata_cache_propagate_changes rk) = cached rk"
  by (rule cached_same) (use assms in simp_all)

lemma topic_update_ok:
  assumes clk: "clock_ok clk" "ms_ok ms" and inv: "cache_inv rk" and err: "mdt_err mdt = 0"
  shows "\<exists>rk'. rd_kafka_metadata_cache_topic_update clk ms rk mdt = Some (Return rk') \<and> cache_inv rk' \<and>
    cached rk' = (cached rk)(mdt_topic mdt \<mapsto> cached_topic mdt)"
proof -
  let ?rk = "rk\<lparr>rkts_reads := rkts_reads rk + 1\<rparr>" and ?now = "clk (rkts_reads rk)"
  note inv0 = tick_inv [OF inv, of "rkts_reads rk + 1"]
  have pos: "0 < ?now + ms * 1000" by (rule ms_expires [OF clk])
  obtain rk1 where rk1: "rd_kafka_metadata_cache_insert ?rk mdt ?now (?now + ms * 1000) = Some (Return rk1)" "cache_inv rk1"
    using insert_inv [OF inv0(1) pos] by blast
  have "rd_kafka_metadata_cache_topic_update clk ms rk mdt = Some (Return (rd_kafka_metadata_cache_propagate_changes rk1))"
    using err rk1(1) by (simp add: rd_kafka_metadata_cache_topic_update_def rd_clock_def ms_mul [OF clk(2)])
  moreover have "cached (rd_kafka_metadata_cache_propagate_changes rk1) = (cached rk)(mdt_topic mdt \<mapsto> cached_topic mdt)"
    unfolding propagate_inv [OF rk1(2)] insert_cached [OF inv0(1) pos rk1(1)] inv0(2) by (rule refl)
  ultimately show ?thesis using rk1(2) by (metis cache_inv_sel(2))
qed

lemma delete_by_name_inv:
  assumes inv: "cache_inv rk"
  shows "\<exists>rk' b. rd_kafka_metadata_cache_delete_by_name rk topic = Some (Return (rk', b)) \<and> cache_inv rk' \<and>
    set (rkmc_expiry rk') = {e \<in> set (rkmc_expiry rk). entry_topic e \<noteq> topic \<or> \<not> RD_KAFKA_METADATA_CACHE_VALID e}"
proof (cases "rd_kafka_metadata_cache_find rk topic True")
  case None
  then have "\<forall>e \<in> set (rkmc_expiry rk). entry_topic e \<noteq> topic \<or> \<not> RD_KAFKA_METADATA_CACHE_VALID e"
    using find_valid [OF cache_inv_ok [OF inv], of topic] by auto
  then show ?thesis using None inv by (auto simp: rd_kafka_metadata_cache_delete_by_name_def)
next
  case (Some e)
  then have e: "e \<in> set (rkmc_expiry rk)" "entry_topic e = topic" "RD_KAFKA_METADATA_CACHE_VALID e"
    using find_valid [OF cache_inv_ok [OF inv], of topic e] by auto
  obtain rk1 where rk1: "rd_kafka_metadata_cache_delete rk e True = Some (Return rk1)" "cache_inv rk1"
    "rkmc_expiry rk1 = remove1 e (rkmc_expiry rk)" using delete_inv [OF inv e(1)] by auto
  have d: "distinct (rkmc_expiry rk)" using inv by (auto simp: cache_inv_def cache_ok_def distinct_map)
  have only: "x = e" if "x \<in> set (rkmc_expiry rk)" "entry_topic x = topic" for x
    using same_topic [OF cache_inv_ok [OF inv] that(1) e(1)] that(2) e(2) by simp
  have "set (rkmc_expiry rk1) = {e \<in> set (rkmc_expiry rk). entry_topic e \<noteq> topic \<or> \<not> RD_KAFKA_METADATA_CACHE_VALID e}"
    unfolding rk1(3) set_remove1_eq [OF d] using only e(2,3) by auto
  then show ?thesis using Some rk1(1,2) by (auto simp: rd_kafka_metadata_cache_delete_by_name_def)
qed

lemma topic_update_err:
  assumes clk: "ms_ok ms" and inv: "cache_inv rk" and err: "mdt_err mdt \<noteq> 0"
  shows "\<exists>rk'. rd_kafka_metadata_cache_topic_update clk ms rk mdt = Some (Return rk') \<and> cache_inv rk' \<and>
    set (rkmc_expiry rk') = {e \<in> set (rkmc_expiry rk). entry_topic e \<noteq> mdt_topic mdt \<or> \<not> RD_KAFKA_METADATA_CACHE_VALID e}"
proof -
  let ?rk = "rk\<lparr>rkts_reads := rkts_reads rk + 1\<rparr>"
  obtain rk1 b where rk1: "rd_kafka_metadata_cache_delete_by_name ?rk (mdt_topic mdt) = Some (Return (rk1, b))" "cache_inv rk1"
    "set (rkmc_expiry rk1) = {e \<in> set (rkmc_expiry rk). entry_topic e \<noteq> mdt_topic mdt \<or> \<not> RD_KAFKA_METADATA_CACHE_VALID e}"
    using delete_by_name_inv [OF tick_inv(1) [OF inv], of "rkts_reads rk + 1" "mdt_topic mdt"] by auto
  have "rd_kafka_metadata_cache_topic_update clk ms rk mdt
      = Some (Return (if b then rd_kafka_metadata_cache_propagate_changes rk1 else rk1))"
    using err rk1(1) by (simp add: rd_kafka_metadata_cache_topic_update_def rd_clock_def ms_mul [OF clk])
  then show ?thesis using rk1(2,3) by (cases b) simp_all
qed

lemma purge_inv:
  assumes "cache_inv rk"
  shows "\<exists>rk'. rd_kafka_metadata_cache_purge rk = Some (Return rk') \<and> cache_inv rk' \<and> rkmc_expiry rk' = [] \<and> rkts_reads rk' = rkts_reads rk"
proof -
  obtain rk1 where rk1: "purge_loop (length (rkmc_expiry rk)) rk = Some (Return rk1)" "cache_inv rk1" "rkmc_expiry rk1 = []"
    "rkts_reads rk1 = rkts_reads rk" using purge_loop_inv [OF assms refl] by blast
  obtain rk2 b where "rd_kafka_timer_stop rk1 rkmc_expiry_tmr = Return (rk2, b)" "cache_inv rk2" "rkmc_expiry rk2 = []"
    "rkts_reads rk2 = rkts_reads rk" using stop_inv [OF rk1(2), of rkmc_expiry_tmr] rk1(3,4) by auto
  then show ?thesis using rk1(1)
    by (auto simp: rd_kafka_metadata_cache_purge_def Let_def) (simp_all add: rd_kafka_metadata_cache_propagate_changes_def)
qed

lemma update_inv:
  assumes clk: "clock_ok clk" "ms_ok ms" and inv: "cache_inv rk"
  shows "\<exists>rk'. rd_kafka_metadata_cache_update clk ms rk mts abs_up = Some (Return rk') \<and> cache_inv rk' \<and>
    cached rk' = (if abs_up then Map.empty else cached rk) ++ map_of (rev (map (\<lambda>mt. (mdt_topic mt, cached_topic mt)) mts))"
proof -
  let ?rk = "rk\<lparr>rkts_reads := rkts_reads rk + 1\<rparr>" and ?now = "clk (rkts_reads rk)"
  let ?m = "map_of (rev (map (\<lambda>mt. (mdt_topic mt, cached_topic mt)) mts))"
  note inv0 = tick_inv [OF inv, of "rkts_reads rk + 1"]
  have "\<exists>rk1. (if abs_up then rd_kafka_metadata_cache_purge ?rk else Some (Return ?rk)) = Some (Return rk1) \<and> cache_inv rk1 \<and>
      rkts_reads rk1 = rkts_reads rk + 1 \<and> cached rk1 = (if abs_up then Map.empty else cached rk)"
  proof (cases abs_up)
    case True
    obtain rk1 where rk1: "rd_kafka_metadata_cache_purge ?rk = Some (Return rk1)" "cache_inv rk1" "rkmc_expiry rk1 = []"
      "rkts_reads rk1 = rkts_reads rk + 1" using purge_inv [OF inv0(1)] by auto
    have "cached rk1 t = None" for t using cached_eq [OF rk1(2), of t] rk1(3) by (cases "cached rk1 t") auto
    then show ?thesis using True rk1 by auto
  qed (use inv0 in simp)
  then obtain rk1 where rk1: "(if abs_up then rd_kafka_metadata_cache_purge ?rk else Some (Return ?rk)) = Some (Return rk1)" "cache_inv rk1"
      "rkts_reads rk1 = rkts_reads rk + 1" "cached rk1 = (if abs_up then Map.empty else cached rk)" by blast
  obtain rk2 where rk2: "insert_topics rk1 mts ?now (?now + ms * 1000) = Some (Return rk2)" "cache_inv rk2" "rkts_reads rk2 = rkts_reads rk1"
    "cached rk2 = cached rk1 ++ ?m" using insert_topics_inv [OF rk1(2) ms_expires [OF clk]] by blast
  obtain rk3 where rk3: "(case rkmc_expiry rk2 of
      rkmce # _ \<Rightarrow> Some (rd_kafka_timer_start clk rk2 rkmc_expiry_tmr (rkmce_ts_expires rkmce - ?now) evict_tmr_cb_no)
    | [] \<Rightarrow> Some (Return rk2)) = Some (Return rk3)" "cache_inv rk3" "rkmc_expiry rk3 = rkmc_expiry rk2"
    using expiry_inv [of clk "rkts_reads rk" rk2 _ rkmc_expiry_tmr evict_tmr_cb_no] clk(1) rk1(3) rk2(2,3)
    by (cases "rkmc_expiry rk2") (auto simp: clock_ok_def)
  let ?fin = "if mts \<noteq> [] then rd_kafka_metadata_cache_propagate_changes rk3 else rk3"
  have "rd_kafka_metadata_cache_update clk ms rk mts abs_up = Some (Return ?fin)"
    unfolding rd_kafka_metadata_cache_update_def rd_clock_def Let_def prod.case ms_mul [OF clk(2)] xbind_simps(1) rk1(1) rk2(1) rk3(1)
    by (rule refl)
  moreover have "cached ?fin = cached rk2" by (rule cached_same) (use rk2(2) rk3(2,3) in simp_all)
  ultimately show ?thesis using rk2(4) rk1(4) rk3(2) by (intro exI [of _ ?fin]) simp
qed

lemma evict_inv:
  assumes clk: "clock_ok clk" and inv: "cache_inv rk"
  shows "\<exists>rk'. rd_kafka_metadata_cache_evict clk rk
      = Some (Return (rk', int (length (rkmc_expiry rk)) - int (length (rkmc_expiry rk')))) \<and> cache_inv rk' \<and>
    rkmc_expiry rk' = dropWhile (\<lambda>e. rkmce_ts_expires e \<le> clk (rkts_reads rk)) (rkmc_expiry rk)"
proof -
  let ?rk = "rk\<lparr>rkts_reads := rkts_reads rk + 1\<rparr>" and ?now = "clk (rkts_reads rk)"
  let ?gone = "\<lambda>rk'. int (length (rkmc_expiry rk)) - int (length (rkmc_expiry rk'))"
  obtain rk1 where rk1: "evict_loop ?now (length (rkmc_expiry ?rk)) ?rk 0 = Some (Return (rk1, ?gone rk1))"
    "cache_inv rk1" "rkmc_expiry rk1 = dropWhile (\<lambda>e. rkmce_ts_expires e \<le> ?now) (rkmc_expiry rk)" "rkts_reads rk1 = rkts_reads rk + 1"
    using evict_loop_inv [OF tick_inv(1) [OF inv] refl, of ?now "rkts_reads rk + 1" 0] by auto
  obtain rk2 where rk2: "(case rkmc_expiry rk1 of
      rkmce # _ \<Rightarrow> Some (rd_kafka_timer_start clk rk1 rkmc_expiry_tmr (rkmce_ts_expires rkmce - ?now) evict_tmr_cb_no)
    | [] \<Rightarrow> Some (obind (rd_kafka_timer_stop rk1 rkmc_expiry_tmr) (\<lambda>(rk2, _). Return rk2))) = Some (Return rk2)"
    "cache_inv rk2" "rkmc_expiry rk2 = rkmc_expiry rk1"
    using expiry_inv [of clk "rkts_reads rk" rk1 _ rkmc_expiry_tmr evict_tmr_cb_no] clk rk1(2,4) stop_inv [OF rk1(2), of rkmc_expiry_tmr]
    by (cases "rkmc_expiry rk1") (auto simp: clock_ok_def)
  let ?fin = "if ?gone rk1 \<noteq> 0 then rd_kafka_metadata_cache_propagate_changes rk2 else rk2"
  have q: "rkmc_expiry ?fin = rkmc_expiry rk1" using rk2(3) by simp
  have "rd_kafka_metadata_cache_evict clk rk = Some (Return (?fin, ?gone rk1))"
    using rk1(1) rk2(1) by (simp add: rd_kafka_metadata_cache_evict_def rd_clock_def)
  then show ?thesis using rk2(2) rk1(3) q by (intro exI [of _ ?fin]) simp
qed

lemma purge_hints_inv:
  assumes "cache_inv rk"
  shows "\<exists>rk'. rd_kafka_metadata_cache_purge_hints rk topics = Some (Return rk') \<and> cache_inv rk' \<and>
    set (rkmc_expiry rk') = {e \<in> set (rkmc_expiry rk). entry_topic e \<in> set topics \<longrightarrow> RD_KAFKA_METADATA_CACHE_VALID e}"
proof -
  obtain rk1 n where "purge_hints_loop rk topics 0 = Some (Return (rk1, n))" "cache_inv rk1"
    "set (rkmc_expiry rk1) = {e \<in> set (rkmc_expiry rk). entry_topic e \<in> set topics \<longrightarrow> RD_KAFKA_METADATA_CACHE_VALID e}"
    using purge_hints_loop_inv [OF assms] by blast
  then show ?thesis by (cases "0 < n") (simp_all add: rd_kafka_metadata_cache_purge_hints_def)
qed

lemma hint_inv:
  assumes clk: "clock_ok clk" "ms_ok ms" and inv: "cache_inv rk"
  shows "\<exists>rk' d n. rd_kafka_metadata_cache_hint clk ms rk topics dst replace = Some (Return (rk', d, n)) \<and> cache_inv rk' \<and>
    (\<forall>t. t \<in> set topics \<longrightarrow> cached rk' t \<noteq> None)"
  using hint_loop_inv [OF tick_inv(1) [OF inv] ms_expires [OF clk, of "rkts_reads rk"], of "clk (rkts_reads rk)" replace
      "rkts_reads rk + 1" topics dst 0]
  by (auto simp: rd_kafka_metadata_cache_hint_def rd_clock_def ms_mul [OF clk(2)])

lemma expiry_start_inv:
  assumes clk: "clock_ok clk" and inv: "cache_inv rk"
  shows "\<exists>rk'. rd_kafka_metadata_cache_expiry_start clk rk = Return rk' \<and> cache_inv rk' \<and> rkmc_expiry rk' = rkmc_expiry rk"
  using expiry_inv [of clk "rkts_reads rk" "rk\<lparr>rkts_reads := rkts_reads rk + 1\<rparr>" _ rkmc_expiry_tmr evict_tmr_cb_no] clk inv
  by (cases "rkmc_expiry rk") (auto simp: rd_kafka_metadata_cache_expiry_start_def rd_clock_def clock_ok_def)

lemma destroy_inv:
  assumes "cache_inv rk"
  shows "\<exists>rk'. rd_kafka_metadata_cache_destroy rk = Some (Return rk') \<and> cache_inv rk' \<and> rkmc_expiry rk' = []"
proof -
  obtain rk1 b where "rd_kafka_timer_stop rk rkmc_query_tmr = Return (rk1, b)" "cache_inv rk1" using stop_inv [OF assms] by blast
  then show ?thesis using purge_inv [of rk1] by (auto simp: rd_kafka_metadata_cache_destroy_def)
qed

section \<open>Runs of the cache\<close>

text \<open>
  The cache is created in a client without timers of its own; then its operations are called in any order,
  and other parts of the client read the clock and use the timers.
\<close>

inductive cache_reach :: "(nat \<Rightarrow> int) \<Rightarrow> int \<Rightarrow> int \<Rightarrow> rd_kafka_metadata_cache \<Rightarrow> bool" for clk age timeout where
  cache_new: "rkmc_cnt rk = 0 \<Longrightarrow> timers_wf rk \<Longrightarrow> cache_reach clk age timeout (rd_kafka_metadata_cache_init rk)"
| cache_other: "cache_reach clk age timeout rk \<Longrightarrow> timers_wf rk' \<Longrightarrow> rd_kafka_timers.more rk' = rd_kafka_timers.more rk \<Longrightarrow>
    cache_reach clk age timeout rk'"
| cache_topic_update: "cache_reach clk age timeout rk \<Longrightarrow>
    rd_kafka_metadata_cache_topic_update clk age rk mdt = Some (Return rk') \<Longrightarrow> cache_reach clk age timeout rk'"
| cache_update: "cache_reach clk age timeout rk \<Longrightarrow>
    rd_kafka_metadata_cache_update clk age rk mts abs_update = Some (Return rk') \<Longrightarrow> cache_reach clk age timeout rk'"
| cache_hint: "cache_reach clk age timeout rk \<Longrightarrow>
    rd_kafka_metadata_cache_hint clk timeout rk topics dst replace = Some (Return (rk', d, n)) \<Longrightarrow> cache_reach clk age timeout rk'"
| cache_purge_hints: "cache_reach clk age timeout rk \<Longrightarrow>
    rd_kafka_metadata_cache_purge_hints rk topics = Some (Return rk') \<Longrightarrow> cache_reach clk age timeout rk'"
| cache_evict: "cache_reach clk age timeout rk \<Longrightarrow>
    rd_kafka_metadata_cache_evict clk rk = Some (Return (rk', n)) \<Longrightarrow> cache_reach clk age timeout rk'"
| cache_expiry_start: "cache_reach clk age timeout rk \<Longrightarrow>
    rd_kafka_metadata_cache_expiry_start clk rk = Return rk' \<Longrightarrow> cache_reach clk age timeout rk'"
| cache_destroy: "cache_reach clk age timeout rk \<Longrightarrow>
    rd_kafka_metadata_cache_destroy rk = Some (Return rk') \<Longrightarrow> cache_reach clk age timeout rk'"

lemma cache_reach_inv:
  assumes clk: "clock_ok clk" "ms_ok age" "ms_ok timeout"
  shows "cache_reach clk age timeout rk \<Longrightarrow> cache_inv rk"
proof (induction rule: cache_reach.induct)
  case (cache_new rk)
  then show ?case by (simp add: cache_inv_def cache_ok_def rd_kafka_metadata_cache_init_def rd_avl_init_def timers_wf_def)
next
  case (cache_other rk rk')
  then show ?case using cache_ok_more [OF cache_other.hyps(3)] by (simp add: cache_inv_def)
next
  case (cache_topic_update rk mdt rk')
  then show ?case
    using topic_update_ok [OF clk(1,2) cache_topic_update.IH, of mdt] topic_update_err [OF clk(2) cache_topic_update.IH, of mdt clk]
    by (cases "mdt_err mdt = 0") auto
next
  case (cache_update rk mts abs_update rk')
  then show ?case using update_inv [OF clk(1,2) cache_update.IH, of mts abs_update] by auto
next
  case (cache_hint rk topics dst replace rk' d n)
  then show ?case using hint_inv [OF clk(1,3) cache_hint.IH, of topics dst replace] by auto
next
  case (cache_purge_hints rk topics rk')
  then show ?case using purge_hints_inv [OF cache_purge_hints.IH, of topics] by auto
next
  case (cache_evict rk rk' n)
  then show ?case using evict_inv [OF clk(1) cache_evict.IH] by auto
next
  case (cache_expiry_start rk rk')
  then show ?case using expiry_start_inv [OF clk(1) cache_expiry_start.IH] by auto
next
  case (cache_destroy rk rk')
  then show ?case using destroy_inv [OF cache_destroy.IH] by auto
qed

text \<open>
  C13. The metadata cache is a map from topic names to metadata, in every run: an update for a topic
  returns, and afterwards the cache gives the new metadata for this topic and for every other
  what it gave before; an absolute update replaces everything (the last entry for a name counts);
  eviction removes the entries at the front of the queue that have expired, and returns their
  number; and the tree, the queue and the counter agree, with one entry for each name.
\<close>

theorem metadata_cache_is_map:
  assumes "clock_ok clk" "ms_ok age" "ms_ok timeout" "cache_reach clk age timeout rk" "mdt_err mdt = 0"
  shows "(\<exists>rk'. rd_kafka_metadata_cache_topic_update clk age rk mdt = Some (Return rk') \<and>
      (\<forall>t. rd_kafka_metadata_cache_topic_get rk' t False =
         (if t = mdt_topic mdt then Some (cached_topic mdt) else rd_kafka_metadata_cache_topic_get rk t False))) \<and>
    (\<exists>rk'. rd_kafka_metadata_cache_update clk age rk mts True = Some (Return rk') \<and>
      (\<forall>t. rd_kafka_metadata_cache_topic_get rk' t False = map_of (rev (map (\<lambda>mt. (mdt_topic mt, cached_topic mt)) mts)) t)) \<and>
    (\<exists>rk' n. rd_kafka_metadata_cache_evict clk rk = Some (Return (rk', n)) \<and>
      rkmc_expiry rk' = dropWhile (\<lambda>e. rkmce_ts_expires e \<le> clk (rkts_reads rk)) (rkmc_expiry rk) \<and>
      n = int (length (rkmc_expiry rk)) - int (length (rkmc_expiry rk'))) \<and>
    set (inorder (ravl_root (rkmc_avl rk))) = set (rkmc_expiry rk) \<and> rkmc_cnt rk = int (length (rkmc_expiry rk)) \<and>
    inj_on entry_topic (set (rkmc_expiry rk))"
proof -
  note inv = cache_reach_inv [OF assms(1-4)]
  have "inj_on entry_topic (set (rkmc_expiry rk))" using same_topic [OF cache_inv_ok [OF inv]] by (auto intro: inj_onI)
  then show ?thesis
    using topic_update_ok [OF assms(1,2) inv assms(5)] update_inv [OF assms(1,2) inv, of mts True] evict_inv [OF assms(1) inv] inv
    by (auto simp: cached_def fun_eq_iff cache_inv_def cache_ok_def)
qed

section \<open>Looking up a partition\<close>

text \<open>
  The comparator is the difference of the numbers as long as that fits an \<open>int\<close>: for the numbers that
  partitions can have, and for looking up -1, which stands for no partition.
\<close>

definition id_diff :: "rd_kafka_metadata_partition \<Rightarrow> rd_kafka_metadata_partition \<Rightarrow> int" where
  "id_diff a b = mp_id a - mp_id b"

lemma id_diff_cmp_ok: "cmp_ok id_diff"
  by (auto simp: cmp_ok_def id_diff_def)

lemma partition_id_cmp_eq:
  "- 1 \<le> mp_id a \<Longrightarrow> mp_id a < 2 ^ 31 \<Longrightarrow> 0 \<le> mp_id b \<Longrightarrow> mp_id b < 2 ^ 31 \<Longrightarrow>
   rd_kafka_metadata_partition_id_cmp a b = id_diff a b"
  by (simp add: rd_kafka_metadata_partition_id_cmp_def id_diff_def int32_cast_def)

definition partition_ids_ok :: "metadata_topic \<Rightarrow> bool" where
  "partition_ids_ok mdt \<longleftrightarrow> (\<forall>p \<in> set (mdt_partitions mdt). 0 \<le> mp_id p \<and> mp_id p < 2 ^ 31)"

definition stripped :: "rd_kafka_metadata_partition \<Rightarrow> rd_kafka_metadata_partition" where
  "stripped p = p\<lparr>mp_replicas := [], mp_isrs := []\<rparr>"

lemma cached_partitions: "set (mdt_partitions (cached_topic mdt)) = stripped ` set (mdt_partitions mdt)"
  unfolding cached_topic_def stripped_def
  by (simp add: mset_eq_setD [OF mset_qsort])

lemma cached_partition_ids: "mp_id ` set (mdt_partitions (cached_topic mdt)) = mp_id ` set (mdt_partitions mdt)"
  unfolding cached_partitions image_image by (simp add: stripped_def)

lemma partition_bsearch:
  assumes "key = \<lparr>mp_id = p, mp_err = 0, mp_leader = 0, mp_replicas = [], mp_isrs = []\<rparr>" "ps = mdt_partitions (cached_topic mdt)"
    and "partition_ids_ok mdt" "- 1 \<le> p" "p < 2 ^ 31"
  shows "case bsearch rd_kafka_metadata_partition_id_cmp key ps 0 (length ps) of
      Some i \<Rightarrow> i < length ps \<and> mp_id (ps ! i) = p
    | None \<Rightarrow> p \<notin> mp_id ` set (mdt_partitions mdt)"
proof -
  have ids: "mp_id ` set ps = mp_id ` set (mdt_partitions mdt)" unfolding assms(2) by (rule cached_partition_ids)
  have range: "0 \<le> mp_id x \<and> mp_id x < 2 ^ 31" if "x \<in> set ps" for x
  proof -
    have "mp_id x \<in> mp_id ` set (mdt_partitions mdt)" using that ids by blast
    then show ?thesis using assms(3) by (auto simp: partition_ids_ok_def)
  qed
  have "ps = qsort id_diff (map stripped (mdt_partitions mdt))"
  proof -
    have "rd_kafka_metadata_partition_id_cmp a b = id_diff a b"
      if "a \<in> set (map stripped (mdt_partitions mdt))" "b \<in> set (map stripped (mdt_partitions mdt))" for a b
      using that assms(3) by (intro partition_id_cmp_eq) (auto simp: partition_ids_ok_def stripped_def)
    then have "qsort rd_kafka_metadata_partition_id_cmp (map stripped (mdt_partitions mdt))
        = qsort id_diff (map stripped (mdt_partitions mdt))" by (rule qsort_cong)
    then show ?thesis by (simp add: assms(2) cached_topic_def stripped_def [abs_def])
  qed
  then have srt: "sorted_wrt (\<lambda>a b. id_diff a b \<le> 0) (take (length ps) ps)"
    using sorted_qsort [OF id_diff_cmp_ok] by simp
  have eq: "bsearch rd_kafka_metadata_partition_id_cmp key ps 0 (length ps) = bsearch id_diff key ps 0 (length ps)"
    using range assms(1,4,5) by (intro bsearch_cong partition_id_cmp_eq) auto
  have zero: "id_diff key x = 0 \<longleftrightarrow> mp_id x = p" for x
    by (auto simp: assms(1) id_diff_def)
  have none: "p \<notin> mp_id ` set ps" if "\<forall>i. i < length ps \<longrightarrow> mp_id (ps ! i) \<noteq> p" using that by (auto simp: in_set_conv_nth)
  show ?thesis
    using bsearch_spec [OF id_diff_cmp_ok srt le_refl le_refl, where key = key and lo = 0] none
    unfolding ids eq by (auto simp: zero split: option.splits)
qed

text \<open>
  C37. After the metadata of a topic was stored, looking up a partition gives what the metadata says of it
  (its leader and its error, without the replicas), and the number 1, for every partition of the
  metadata, in whatever order they came; and 0 with no partition for every other number. The numbers of
  the partitions are those that partitions have, 0 to \<open>INT32_MAX\<close>, and the one looked up may also be -1;
  for others the difference that the comparator forms can overflow.
\<close>

theorem metadata_partition_lookup:
  assumes "clock_ok clk" "ms_ok age" "ms_ok timeout" "cache_reach clk age timeout rk" "mdt_err mdt = 0"
    and "distinct (map mp_id (mdt_partitions mdt))" "partition_ids_ok mdt"
  shows "\<exists>rk'. rd_kafka_metadata_cache_topic_update clk age rk mdt = Some (Return rk') \<and>
    (\<forall>p \<in> set (mdt_partitions mdt). rd_kafka_metadata_cache_topic_partition_get rk' (mdt_topic mdt) (mp_id p) True
       = (1, Some (cached_topic mdt), Some (p\<lparr>mp_replicas := [], mp_isrs := []\<rparr>))) \<and>
    (\<forall>i. i \<notin> mp_id ` set (mdt_partitions mdt) \<longrightarrow> - 1 \<le> i \<longrightarrow> i < 2 ^ 31 \<longrightarrow>
       rd_kafka_metadata_cache_topic_partition_get rk' (mdt_topic mdt) i True = (0, Some (cached_topic mdt), None))"
proof -
  note inv = cache_reach_inv [OF assms(1-4)]
  obtain rk' where rk': "rd_kafka_metadata_cache_topic_update clk age rk mdt = Some (Return rk')" "cache_inv rk'"
    "cached rk' (mdt_topic mdt) = Some (cached_topic mdt)" using topic_update_ok [OF assms(1,2) inv assms(5)] by auto
  then obtain e where e: "e \<in> set (rkmc_expiry rk')" "entry_topic e = mdt_topic mdt" "rkmce_mtopic e = cached_topic mdt"
    using cached_eq [OF rk'(2)] by blast
  have "RD_KAFKA_METADATA_CACHE_VALID e"
    using e(3) assms(5) by (simp add: RD_KAFKA_METADATA_CACHE_VALID_def cached_topic_def RD_KAFKA_RESP_ERR__WAIT_CACHE_def)
  then have "rd_kafka_metadata_cache_find rk' (mdt_topic mdt) True = Some e" using find_valid [OF cache_inv_ok [OF rk'(2)]] e by blast
  then have get: "rd_kafka_metadata_cache_topic_get rk' (mdt_topic mdt) True = Some (cached_topic mdt)"
    by (simp add: rd_kafka_metadata_cache_topic_get_def e(3))
  have range: "- 1 \<le> mp_id p" "mp_id p < 2 ^ 31" if "p \<in> set (mdt_partitions mdt)" for p
    using assms(7) that by (auto simp: partition_ids_ok_def)
  let ?ps = "mdt_partitions (cached_topic mdt)"
  let ?found = "\<lambda>i. bsearch rd_kafka_metadata_partition_id_cmp \<lparr>mp_id = i, mp_err = 0, mp_leader = 0, mp_replicas = [], mp_isrs = []\<rparr> ?ps 0 (length ?ps)"
  have eq: "rd_kafka_metadata_cache_topic_partition_get rk' (mdt_topic mdt) i True =
      (case ?found i of None \<Rightarrow> (0, Some (cached_topic mdt), None) | Some j \<Rightarrow> (1, Some (cached_topic mdt), Some (?ps ! j)))" for i
    by (simp add: rd_kafka_metadata_cache_topic_partition_get_def get)
  have "rd_kafka_metadata_cache_topic_partition_get rk' (mdt_topic mdt) (mp_id p) True
      = (1, Some (cached_topic mdt), Some (stripped p))" if p: "p \<in> set (mdt_partitions mdt)" for p
  proof (cases "?found (mp_id p)")
    case None
    then show ?thesis using partition_bsearch [OF refl refl assms(7), of "mp_id p"] range [OF p] p by auto
  next
    case (Some j)
    then have j: "?ps ! j \<in> set ?ps" "mp_id (?ps ! j) = mp_id p"
      using partition_bsearch [OF refl refl assms(7), of "mp_id p"] range [OF p] by auto
    then obtain q where q: "q \<in> set (mdt_partitions mdt)" "?ps ! j = stripped q" unfolding cached_partitions by blast
    then have "mp_id q = mp_id p" using j(2) by (simp add: stripped_def)
    then have "q = p" using assms(6) p q(1) by (auto simp: distinct_map dest: inj_onD)
    then show ?thesis unfolding eq Some using q(2) by simp
  qed
  moreover have "rd_kafka_metadata_cache_topic_partition_get rk' (mdt_topic mdt) i True = (0, Some (cached_topic mdt), None)"
    if i: "i \<notin> mp_id ` set (mdt_partitions mdt)" "- 1 \<le> i" "i < 2 ^ 31" for i
  proof (cases "?found i")
    case (Some j)
    then have "?ps ! j \<in> set ?ps" "mp_id (?ps ! j) = i" using partition_bsearch [OF refl refl assms(7) i(2,3)] by auto
    then have "i \<in> mp_id ` set ?ps" by blast
    then show ?thesis using i(1) unfolding cached_partition_ids by blast
  qed (simp add: eq)
  ultimately show ?thesis using rk'(1) unfolding stripped_def by blast
qed

section \<open>Examples\<close>

text \<open>A client without timers, and metadata of a topic with two partitions.\<close>

definition example_rk :: rd_kafka_metadata_cache where
  "example_rk = \<lparr>rkts_timers = [], rkts_enabled = True,
     rkts_store = (\<lambda>_. \<lparr>rtmr_next = 0, rtmr_interval = 0, rtmr_oneshot = False, rtmr_callback = 0\<rparr>), rkts_reads = 0,
     rkmc_avl = rd_avl_init True rd_kafka_metadata_cache_entry_cmp 0, rkmc_expiry = [], rkmc_cnt = 0, rkmc_allocs = 0, rkmc_changes = 0\<rparr>"

definition example_mdt :: metadata_topic where
  "example_mdt = \<lparr>mdt_topic = ''t'', mdt_partitions =
     [\<lparr>mp_id = 1, mp_err = 0, mp_leader = 7, mp_replicas = [7, 8], mp_isrs = [7]\<rparr>,
      \<lparr>mp_id = 0, mp_err = 0, mp_leader = 8, mp_replicas = [8], mp_isrs = [8]\<rparr>], mdt_err = 0\<rparr>"

lemma example_cache:
  "clock_ok (\<lambda>n. int n + 1)" "ms_ok 1000" "cache_reach (\<lambda>n. int n + 1) 1000 1000 (rd_kafka_metadata_cache_init example_rk)"
  "mdt_err example_mdt = 0" "distinct (map mp_id (mdt_partitions example_mdt))"
  "partition_ids_ok example_mdt"
proof -
  show "clock_ok (\<lambda>n. int n + 1)" "ms_ok 1000" by (simp_all add: clock_ok_def ms_ok_def mono_def)
  show "cache_reach (\<lambda>n. int n + 1) 1000 1000 (rd_kafka_metadata_cache_init example_rk)"
    by (rule cache_new) (simp_all add: example_rk_def timers_wf_def)
qed (simp_all add: example_mdt_def partition_ids_ok_def)

theorem metadata_cache_is_map_witness:
  "\<exists>rk'. rd_kafka_metadata_cache_topic_update (\<lambda>n. int n + 1) 1000 (rd_kafka_metadata_cache_init example_rk) example_mdt = Some (Return rk') \<and>
     rd_kafka_metadata_cache_topic_get rk' ''t'' False = Some (cached_topic example_mdt)"
  using metadata_cache_is_map [OF example_cache(1,2,2,3,4), of "[]"] by (auto simp: example_mdt_def)

theorem metadata_partition_lookup_witness:
  "\<exists>rk'. rd_kafka_metadata_cache_topic_update (\<lambda>n. int n + 1) 1000 (rd_kafka_metadata_cache_init example_rk) example_mdt = Some (Return rk') \<and>
     rd_kafka_metadata_cache_topic_partition_get rk' ''t'' 0 True =
       (1, Some (cached_topic example_mdt), Some \<lparr>mp_id = 0, mp_err = 0, mp_leader = 8, mp_replicas = [], mp_isrs = []\<rparr>) \<and>
     rd_kafka_metadata_cache_topic_partition_get rk' ''t'' 5 True = (0, Some (cached_topic example_mdt), None)"
  using metadata_partition_lookup [OF example_cache(1,2,2,3,4,5,6)] by (auto simp: example_mdt_def)

section \<open>What eviction misses\<close>

text \<open>
  Entries are evicted in the order of insertion. A hint, which expires with the request, stays in the cache
  behind metadata that is kept for longer.
\<close>

lemma expired_hint_stays:
  assumes "clock_ok clk" "cache_inv rk" "rkmc_expiry rk = e # es" "clk (rkts_reads rk) < rkmce_ts_expires e"
  shows "\<exists>rk'. rd_kafka_metadata_cache_evict clk rk = Some (Return (rk', 0)) \<and> rkmc_expiry rk' = rkmc_expiry rk"
  using evict_inv [OF assms(1,2)] assms(3,4) by auto

text \<open>An entry that expires at the very time at which the timer is started is not waited for.\<close>

lemma expiry_timer_not_scheduled:
  assumes "timers_wf s"
  shows "\<exists>s'. rd_kafka_timer_start clk s t 0 cb = Return s' \<and> t \<notin> queued s'"
proof -
  obtain s1 b where "rd_kafka_timer_stop s t = Return (s1, b)" "t \<notin> queued s1" using stop_wf [OF assms] by blast
  then show ?thesis by (simp add: rd_kafka_timer_start_def rd_kafka_timer_start0_def rd_kafka_timer_schedule_def)
qed

text \<open>The multiplication overflows for the times that the configuration allows, from 2147484 ms on.\<close>

lemma max_age_overflow: "rd_kafka_metadata_cache_topic_update clk (24 * 3600 * 1000) rk mdt = Some Undefined"
  by (simp add: rd_kafka_metadata_cache_topic_update_def rd_clock_def int_mul_def)

end
