(* ===== verification/Msgq.thy ===== *)
theory Msgq
  imports Tailq
begin

text \<open>
  Messages of the producer and their queues (\<open>rdkafka_msg.h\<close>, \<open>rdkafka_msg.c\<close>), and the queue of a
  partition (\<open>rdkafka_partition.c\<close>): enqueuing, time-outs, acknowledgements, retries.

  A queue is a list, and a pointer to a message in it is a position. Message ids are 64-bit
  counters that start at 1, and they and the counters of the queue stay in their ranges. A comparator of
  messages is \<open>rd_kafka_msg_cmp_msgid\<close> or \<open>rd_kafka_msg_cmp_msgid_lifo\<close> (topic configuration).
\<close>

section \<open>Messages and queues\<close>

datatype rd_kafka_msg_status =
    RD_KAFKA_MSG_STATUS_NOT_PERSISTED
  | RD_KAFKA_MSG_STATUS_POSSIBLY_PERSISTED
  | RD_KAFKA_MSG_STATUS_PERSISTED

record rd_kafka_msg =
  rkm_len :: int
  rkm_key_len :: int
  rkm_key :: "byte list option"
  rkm_partition :: int
  rkm_offset :: int
  rkm_timestamp :: int
  rkm_tstype :: int
  rkm_status :: rd_kafka_msg_status
  rkm_ts_timeout :: int
  rkm_ts_backoff :: int
  rkm_msgid :: nat
  rkm_last_msgid :: nat
  rkm_retries :: int

record rd_kafka_msgq =
  rkmq_msgs :: "rd_kafka_msg list"
  rkmq_msg_cnt :: int
  rkmq_msg_bytes :: int

definition RD_KAFKA_MSG_ATTR_LOG_APPEND_TIME :: int where
  "RD_KAFKA_MSG_ATTR_LOG_APPEND_TIME = 8"

definition RD_KAFKA_TIMESTAMP_LOG_APPEND_TIME :: int where
  "RD_KAFKA_TIMESTAMP_LOG_APPEND_TIME = 2"

definition rd_kafka_msgq_len :: "rd_kafka_msgq \<Rightarrow> int" where
  "rd_kafka_msgq_len rkmq = rkmq_msg_cnt rkmq"

definition rd_kafka_msgq_size :: "rd_kafka_msgq \<Rightarrow> int" where
  "rd_kafka_msgq_size rkmq = rkmq_msg_bytes rkmq"

definition rd_kafka_msgq_init :: rd_kafka_msgq where
  "rd_kafka_msgq_init = \<lparr>rkmq_msgs = [], rkmq_msg_cnt = 0, rkmq_msg_bytes = 0\<rparr>"

text \<open>The functions of two queues return the destination and the source.\<close>

definition rd_kafka_msgq_concat :: "rd_kafka_msgq \<Rightarrow> rd_kafka_msgq \<Rightarrow> rd_kafka_msgq \<times> rd_kafka_msgq" where
  "rd_kafka_msgq_concat dst src =
     (\<lparr>rkmq_msgs = rkmq_msgs dst @ rkmq_msgs src, rkmq_msg_cnt = rkmq_msg_cnt dst + rkmq_msg_cnt src,
       rkmq_msg_bytes = rkmq_msg_bytes dst + rkmq_msg_bytes src\<rparr>, rd_kafka_msgq_init)"

definition rd_kafka_msgq_move :: "rd_kafka_msgq \<Rightarrow> rd_kafka_msgq \<Rightarrow> rd_kafka_msgq \<times> rd_kafka_msgq" where
  "rd_kafka_msgq_move dst src =
     (dst\<lparr>rkmq_msgs := rkmq_msgs src, rkmq_msg_cnt := rkmq_msg_cnt src, rkmq_msg_bytes := rkmq_msg_bytes src\<rparr>,
      rd_kafka_msgq_init)"

definition rd_kafka_msgq_prepend :: "rd_kafka_msgq \<Rightarrow> rd_kafka_msgq \<Rightarrow> rd_kafka_msgq \<times> rd_kafka_msgq" where
  "rd_kafka_msgq_prepend dst src =
     (let (src1, dst1) = rd_kafka_msgq_concat src dst in rd_kafka_msgq_move dst1 src1)"

text \<open>The messages that are destroyed, and the empty queue.\<close>

definition rd_kafka_msgq_purge :: "rd_kafka_msgq \<Rightarrow> rd_kafka_msg list \<times> rd_kafka_msgq" where
  "rd_kafka_msgq_purge rkmq = (rkmq_msgs rkmq, rd_kafka_msgq_init)"

definition rd_kafka_msgq_deq :: "rd_kafka_msgq \<Rightarrow> nat \<Rightarrow> bool \<Rightarrow> (rd_kafka_msg \<times> rd_kafka_msgq) outcome" where
  "rd_kafka_msgq_deq rkmq i do_count =
     (if length (rkmq_msgs rkmq) \<le> i then Undefined
      else let rkm = rkmq_msgs rkmq ! i;
               sz = rkm_len rkm + rkm_key_len rkm;
               rest = take i (rkmq_msgs rkmq) @ drop (i + 1) (rkmq_msgs rkmq)
           in if do_count
              then obind (rd_assert (0 < rkmq_msg_cnt rkmq)) (\<lambda>_.
                   obind (rd_assert (sz \<le> rkmq_msg_bytes rkmq)) (\<lambda>_.
                     Return (rkm, \<lparr>rkmq_msgs = rest, rkmq_msg_cnt = rkmq_msg_cnt rkmq - 1,
                                   rkmq_msg_bytes = rkmq_msg_bytes rkmq - sz\<rparr>)))
              else Return (rkm, rkmq\<lparr>rkmq_msgs := rest\<rparr>))"

definition rd_kafka_msgq_pop :: "rd_kafka_msgq \<Rightarrow> (rd_kafka_msg option \<times> rd_kafka_msgq) outcome" where
  "rd_kafka_msgq_pop rkmq =
     (if rkmq_msgs rkmq = [] then Return (None, rkmq)
      else obind (rd_kafka_msgq_deq rkmq 0 True) (\<lambda>(rkm, q). Return (Some rkm, q)))"

definition rd_kafka_msgq_first :: "rd_kafka_msgq \<Rightarrow> rd_kafka_msg option" where
  "rd_kafka_msgq_first rkmq = (case rkmq_msgs rkmq of [] \<Rightarrow> None | m # _ \<Rightarrow> Some m)"

definition rd_kafka_msgq_last :: "rd_kafka_msgq \<Rightarrow> rd_kafka_msg option" where
  "rd_kafka_msgq_last rkmq = (if rkmq_msgs rkmq = [] then None else Some (last (rkmq_msgs rkmq)))"

definition rd_kafka_msgq_first_msgid :: "rd_kafka_msgq \<Rightarrow> nat" where
  "rd_kafka_msgq_first_msgid rkmq = (case rd_kafka_msgq_first rkmq of None \<Rightarrow> 0 | Some m \<Rightarrow> rkm_msgid m)"

definition rd_kafka_msg_cmp_msgid :: "rd_kafka_msg \<Rightarrow> rd_kafka_msg \<Rightarrow> int" where
  "rd_kafka_msg_cmp_msgid a b =
     (if rkm_msgid b < rkm_msgid a then 1 else if rkm_msgid a < rkm_msgid b then - 1 else 0)"

definition rd_kafka_msg_cmp_msgid_lifo :: "rd_kafka_msg \<Rightarrow> rd_kafka_msg \<Rightarrow> int" where
  "rd_kafka_msg_cmp_msgid_lifo a b =
     (if rkm_msgid a < rkm_msgid b then 1 else if rkm_msgid b < rkm_msgid a then - 1 else 0)"

definition rd_kafka_msgq_enq_sorted0 ::
  "rd_kafka_msgq \<Rightarrow> rd_kafka_msg \<Rightarrow> (rd_kafka_msg \<Rightarrow> rd_kafka_msg \<Rightarrow> int) \<Rightarrow> rd_kafka_msgq" where
  "rd_kafka_msgq_enq_sorted0 rkmq rkm order_cmp =
     \<lparr>rkmq_msgs = TAILQ_INSERT_SORTED order_cmp rkm (rkmq_msgs rkmq), rkmq_msg_cnt = rkmq_msg_cnt rkmq + 1,
      rkmq_msg_bytes = rkmq_msg_bytes rkmq + (rkm_len rkm + rkm_key_len rkm)\<rparr>"

definition rd_kafka_msgq_insert :: "rd_kafka_msgq \<Rightarrow> rd_kafka_msg \<Rightarrow> rd_kafka_msgq" where
  "rd_kafka_msgq_insert rkmq rkm =
     \<lparr>rkmq_msgs = rkm # rkmq_msgs rkmq, rkmq_msg_cnt = rkmq_msg_cnt rkmq + 1,
      rkmq_msg_bytes = rkmq_msg_bytes rkmq + (rkm_len rkm + rkm_key_len rkm)\<rparr>"

definition rd_kafka_msgq_enq :: "rd_kafka_msgq \<Rightarrow> rd_kafka_msg \<Rightarrow> rd_kafka_msgq" where
  "rd_kafka_msgq_enq rkmq rkm =
     \<lparr>rkmq_msgs = rkmq_msgs rkmq @ [rkm], rkmq_msg_cnt = rkmq_msg_cnt rkmq + 1,
      rkmq_msg_bytes = rkmq_msg_bytes rkmq + (rkm_len rkm + rkm_key_len rkm)\<rparr>"

definition rd_kafka_msgq_overlap :: "rd_kafka_msgq \<Rightarrow> rd_kafka_msgq \<Rightarrow> bool" where
  "rd_kafka_msgq_overlap a b \<longleftrightarrow>
     rkmq_msgs a \<noteq> [] \<and> rkmq_msgs b \<noteq> [] \<and>
     rkm_msgid (hd (rkmq_msgs a)) \<le> rkm_msgid (last (rkmq_msgs b)) \<and>
     rkm_msgid (hd (rkmq_msgs b)) \<le> rkm_msgid (last (rkmq_msgs a))"

text \<open>The loop stops at the first message that has not timed out.\<close>

fun age_scan_loop ::
  "int \<Rightarrow> nat \<Rightarrow> rd_kafka_msgq \<Rightarrow> rd_kafka_msgq \<Rightarrow> (rd_kafka_msgq \<times> rd_kafka_msgq) outcome" where
  "age_scan_loop now 0 rkmq timedout = Return (rkmq, timedout)"
| "age_scan_loop now (Suc n) rkmq timedout =
     (if now < rkm_ts_timeout (hd (rkmq_msgs rkmq)) then Return (rkmq, timedout)
      else obind (rd_kafka_msgq_deq rkmq 0 True) (\<lambda>(rkm, rkmq1).
             age_scan_loop now n rkmq1 (rd_kafka_msgq_enq timedout rkm)))"

definition rd_kafka_msgq_age_scan ::
  "rd_kafka_msgq \<Rightarrow> rd_kafka_msgq \<Rightarrow> int \<Rightarrow> (rd_kafka_msgq \<times> rd_kafka_msgq \<times> int) outcome" where
  "rd_kafka_msgq_age_scan rkmq timedout now =
     obind (age_scan_loop now (length (rkmq_msgs rkmq)) rkmq timedout) (\<lambda>(rkmq1, timedout1).
       Return (rkmq1, timedout1, rkmq_msg_cnt timedout1 - rkmq_msg_cnt timedout))"

text \<open>The position after which the message belongs, or None for the head.\<close>

fun find_pos_from ::
  "(rd_kafka_msg \<Rightarrow> rd_kafka_msg \<Rightarrow> int) \<Rightarrow> rd_kafka_msg \<Rightarrow> rd_kafka_msg list \<Rightarrow> nat \<Rightarrow> nat option \<Rightarrow> nat option" where
  "find_pos_from cmp rkm [] i prev = prev"
| "find_pos_from cmp rkm (cur # rest) i prev =
     (if cmp rkm cur < 0 then prev else find_pos_from cmp rkm rest (i + 1) (Some i))"

definition rd_kafka_msgq_find_pos ::
  "rd_kafka_msgq \<Rightarrow> rd_kafka_msg \<Rightarrow> (rd_kafka_msg \<Rightarrow> rd_kafka_msg \<Rightarrow> int) \<Rightarrow> nat option" where
  "rd_kafka_msgq_find_pos rkmq rkm cmp = find_pos_from cmp rkm (rkmq_msgs rkmq) 0 None"

text \<open>A status is not set back from persisted to not persisted.\<close>

definition upgrade_status :: "rd_kafka_msg_status \<Rightarrow> rd_kafka_msg \<Rightarrow> rd_kafka_msg" where
  "upgrade_status status rkm =
     (if status = RD_KAFKA_MSG_STATUS_NOT_PERSISTED \<and> rkm_status rkm \<noteq> RD_KAFKA_MSG_STATUS_NOT_PERSISTED
      then rkm else rkm\<lparr>rkm_status := status\<rparr>)"

fun set_metadata_loop ::
  "int \<Rightarrow> int \<Rightarrow> rd_kafka_msg_status \<Rightarrow> rd_kafka_msg list \<Rightarrow> rd_kafka_msg list" where
  "set_metadata_loop base_offset timestamp status [] = []"
| "set_metadata_loop base_offset timestamp status (rkm # rest) =
     (let rkm1 = rkm\<lparr>rkm_offset := base_offset\<rparr>;
          rkm2 = (if timestamp \<noteq> - 1
                  then rkm1\<lparr>rkm_timestamp := timestamp, rkm_tstype := RD_KAFKA_MSG_ATTR_LOG_APPEND_TIME\<rparr> else rkm1)
      in upgrade_status status rkm2 # set_metadata_loop (base_offset + 1) timestamp status rest)"

definition rd_kafka_msgq_set_metadata ::
  "rd_kafka_msgq \<Rightarrow> int \<Rightarrow> int \<Rightarrow> rd_kafka_msg_status \<Rightarrow> rd_kafka_msgq" where
  "rd_kafka_msgq_set_metadata rkmq base_offset timestamp status =
     rkmq\<lparr>rkmq_msgs := set_metadata_loop base_offset timestamp status (rkmq_msgs rkmq)\<rparr>"

fun move_acked_loop ::
  "nat \<Rightarrow> nat \<Rightarrow> rd_kafka_msg_status \<Rightarrow> rd_kafka_msgq \<Rightarrow> rd_kafka_msgq \<Rightarrow> (rd_kafka_msgq \<times> rd_kafka_msgq) outcome" where
  "move_acked_loop 0 last_msgid status dest src = Return (dest, src)"
| "move_acked_loop (Suc n) last_msgid status dest src =
     (case rkmq_msgs src of
        [] \<Rightarrow> Return (dest, src)
      | rkm # _ \<Rightarrow>
          if rkm_msgid rkm \<le> last_msgid
          then obind (rd_kafka_msgq_deq src 0 True) (\<lambda>(m, src1).
                 move_acked_loop n last_msgid status (rd_kafka_msgq_enq dest (m\<lparr>rkm_status := status\<rparr>)) src1)
          else Return (dest, src))"

definition rd_kafka_msgq_move_acked ::
  "rd_kafka_msgq \<Rightarrow> rd_kafka_msgq \<Rightarrow> nat \<Rightarrow> rd_kafka_msg_status \<Rightarrow> (rd_kafka_msgq \<times> rd_kafka_msgq) outcome" where
  "rd_kafka_msgq_move_acked dest src last_msgid status =
     move_acked_loop (length (rkmq_msgs src)) last_msgid status dest src"

definition rd_kafka_seq_wrap :: "int \<Rightarrow> int" where
  "rd_kafka_seq_wrap seq = seq AND 2147483647"

section \<open>Merging queues\<close>

fun insert_msgq_sort_loop ::
  "rd_kafka_msgq \<Rightarrow> rd_kafka_msg list \<Rightarrow> (rd_kafka_msg \<Rightarrow> rd_kafka_msg \<Rightarrow> int) \<Rightarrow> rd_kafka_msgq" where
  "insert_msgq_sort_loop destq [] cmp = destq"
| "insert_msgq_sort_loop destq (rkm # rest) cmp =
     insert_msgq_sort_loop (rd_kafka_msgq_enq_sorted0 destq rkm cmp) rest cmp"

definition rd_kafka_msgq_insert_msgq_sort ::
  "rd_kafka_msgq \<Rightarrow> rd_kafka_msgq \<Rightarrow> (rd_kafka_msg \<Rightarrow> rd_kafka_msg \<Rightarrow> int) \<Rightarrow> rd_kafka_msgq \<times> rd_kafka_msgq" where
  "rd_kafka_msgq_insert_msgq_sort destq srcq cmp =
     (insert_msgq_sort_loop destq (rkmq_msgs srcq) cmp, rd_kafka_msgq_init)"

definition rd_kafka_msgq_insert_msgq ::
  "rd_kafka_msgq \<Rightarrow> rd_kafka_msgq \<Rightarrow> (rd_kafka_msg \<Rightarrow> rd_kafka_msg \<Rightarrow> int) \<Rightarrow> (rd_kafka_msgq \<times> rd_kafka_msgq) outcome" where
  "rd_kafka_msgq_insert_msgq destq srcq cmp =
     (case rkmq_msgs srcq of
        [] \<Rightarrow> Return (destq, srcq)
      | first # _ \<Rightarrow>
          (case rkmq_msgs destq of
             [] \<Rightarrow> Return (rd_kafka_msgq_move destq srcq)
           | dest_first # _ \<Rightarrow>
               if rd_kafka_msgq_overlap destq srcq then Return (rd_kafka_msgq_insert_msgq_sort destq srcq cmp)
               else if cmp first dest_first < 0 then Return (rd_kafka_msgq_prepend destq srcq)
               else if 0 < cmp first (last (rkmq_msgs destq)) then Return (rd_kafka_msgq_concat destq srcq)
               else (case rd_kafka_msgq_find_pos destq first cmp of
                       None \<Rightarrow> Assert_Failed
                     | Some at \<Rightarrow>
                         Return (\<lparr>rkmq_msgs = TAILQ_INSERT_LIST (rkmq_msgs destq) at (rkmq_msgs srcq),
                                  rkmq_msg_cnt = rkmq_msg_cnt destq + rkmq_msg_cnt srcq,
                                  rkmq_msg_bytes = rkmq_msg_bytes destq + rkmq_msg_bytes srcq\<rparr>,
                                 rd_kafka_msgq_init))))"

text \<open>A message that is retried; the loop goes over the positions of the source queue.\<close>

definition retried :: "int \<Rightarrow> int \<Rightarrow> rd_kafka_msg_status \<Rightarrow> rd_kafka_msg \<Rightarrow> rd_kafka_msg" where
  "retried incr_retry backoff status rkm =
     upgrade_status status (rkm\<lparr>rkm_ts_backoff := backoff, rkm_retries := rkm_retries rkm + incr_retry\<rparr>)"

fun retry_msgq_loop ::
  "int \<Rightarrow> int \<Rightarrow> int \<Rightarrow> rd_kafka_msg_status \<Rightarrow> nat \<Rightarrow> nat \<Rightarrow> rd_kafka_msgq \<Rightarrow> rd_kafka_msgq \<Rightarrow>
   (rd_kafka_msgq \<times> rd_kafka_msgq) outcome" where
  "retry_msgq_loop incr_retry max_retries backoff status 0 i srcq retryable = Return (srcq, retryable)"
| "retry_msgq_loop incr_retry max_retries backoff status (Suc n) i srcq retryable =
     (if max_retries < rkm_retries (rkmq_msgs srcq ! i) + incr_retry
      then retry_msgq_loop incr_retry max_retries backoff status n (i + 1) srcq retryable
      else obind (rd_kafka_msgq_deq srcq i True) (\<lambda>(rkm, srcq1).
             retry_msgq_loop incr_retry max_retries backoff status n i srcq1
               (rd_kafka_msgq_enq retryable (retried incr_retry backoff status rkm))))"

text \<open>The destination, the source with what was not retried, and the return value.\<close>

definition rd_kafka_retry_msgq ::
  "rd_kafka_msgq \<Rightarrow> rd_kafka_msgq \<Rightarrow> int \<Rightarrow> int \<Rightarrow> int \<Rightarrow> rd_kafka_msg_status \<Rightarrow>
   (rd_kafka_msg \<Rightarrow> rd_kafka_msg \<Rightarrow> int) \<Rightarrow> (rd_kafka_msgq \<times> rd_kafka_msgq \<times> int) outcome" where
  "rd_kafka_retry_msgq destq srcq incr_retry max_retries backoff status cmp =
     obind (retry_msgq_loop incr_retry max_retries backoff status (length (rkmq_msgs srcq)) 0 srcq rd_kafka_msgq_init)
       (\<lambda>(srcq1, retryable).
         if rkmq_msgs retryable = [] then Return (destq, srcq1, 0)
         else obind (rd_kafka_msgq_insert_msgq destq retryable cmp) (\<lambda>(destq1, _). Return (destq1, srcq1, 1)))"

section \<open>The queue of a partition\<close>

datatype queuing_strategy = RD_KAFKA_QUEUE_FIFO | RD_KAFKA_QUEUE_LIFO

record rd_kafka_toppar =
  rktp_partition :: int
  rktp_msgq :: rd_kafka_msgq
  rktp_xmit_msgq :: rd_kafka_msgq
  rktp_msgid :: nat
  rktp_wakeup :: bool

text \<open>The comparator that the topic configuration sets for the queuing strategy.\<close>

definition msg_order_cmp :: "queuing_strategy \<Rightarrow> rd_kafka_msg \<Rightarrow> rd_kafka_msg \<Rightarrow> int" where
  "msg_order_cmp strategy =
     (case strategy of RD_KAFKA_QUEUE_FIFO \<Rightarrow> rd_kafka_msg_cmp_msgid | RD_KAFKA_QUEUE_LIFO \<Rightarrow> rd_kafka_msg_cmp_msgid_lifo)"

definition rd_kafka_msgq_enq_sorted :: "queuing_strategy \<Rightarrow> rd_kafka_msgq \<Rightarrow> rd_kafka_msg \<Rightarrow> rd_kafka_msgq" where
  "rd_kafka_msgq_enq_sorted strategy rkmq rkm = rd_kafka_msgq_enq_sorted0 rkmq rkm (msg_order_cmp strategy)"

definition RD_KAFKA_PARTITION_UA :: int where "RD_KAFKA_PARTITION_UA = - 1"

text \<open>The partition, and whether the queue to be woken up is signalled.\<close>

definition rd_kafka_toppar_enq_msg :: "queuing_strategy \<Rightarrow> rd_kafka_toppar \<Rightarrow> rd_kafka_msg \<Rightarrow> rd_kafka_toppar \<times> bool" where
  "rd_kafka_toppar_enq_msg strategy rktp rkm =
     (let (rkm1, rktp1) = (if rkm_msgid rkm = 0 \<and> rktp_partition rktp \<noteq> RD_KAFKA_PARTITION_UA
                           then (rkm\<lparr>rkm_msgid := rktp_msgid rktp + 1\<rparr>, rktp\<lparr>rktp_msgid := rktp_msgid rktp + 1\<rparr>)
                           else (rkm, rktp));
          q = (if rktp_partition rktp = RD_KAFKA_PARTITION_UA \<or> strategy = RD_KAFKA_QUEUE_FIFO
               then rd_kafka_msgq_enq (rktp_msgq rktp1) rkm1
               else rd_kafka_msgq_enq_sorted strategy (rktp_msgq rktp1) rkm1)
      in (rktp1\<lparr>rktp_msgq := q\<rparr>, rkmq_msg_cnt q = 1 \<and> rktp_wakeup rktp))"

text \<open>\<open>retry_backoff_ms * 1000\<close> is added to the time; a terminating instance retries nothing.\<close>

definition rd_kafka_toppar_retry_msgq ::
  "bool \<Rightarrow> int \<Rightarrow> int \<Rightarrow> int \<Rightarrow> queuing_strategy \<Rightarrow> rd_kafka_toppar \<Rightarrow> rd_kafka_msgq \<Rightarrow> int \<Rightarrow> rd_kafka_msg_status \<Rightarrow>
   (rd_kafka_toppar \<times> rd_kafka_msgq \<times> int) outcome" where
  "rd_kafka_toppar_retry_msgq terminating now retry_backoff_ms max_retries strategy rktp rkmq incr_retry status =
     (if terminating then Return (rktp, rkmq, 1)
      else obind (rd_kafka_retry_msgq (rktp_msgq rktp) rkmq incr_retry max_retries (now + retry_backoff_ms * 1000) status
                    (msg_order_cmp strategy)) (\<lambda>(q, rest, r). Return (rktp\<lparr>rktp_msgq := q\<rparr>, rest, r)))"

definition rd_kafka_toppar_insert_msgq ::
  "queuing_strategy \<Rightarrow> rd_kafka_toppar \<Rightarrow> rd_kafka_msgq \<Rightarrow> (rd_kafka_toppar \<times> rd_kafka_msgq) outcome" where
  "rd_kafka_toppar_insert_msgq strategy rktp rkmq =
     obind (rd_kafka_msgq_insert_msgq (rktp_msgq rktp) rkmq (msg_order_cmp strategy)) (\<lambda>(q, rest).
       Return (rktp\<lparr>rktp_msgq := q\<rparr>, rest))"

section \<open>Building a batch\<close>

text \<open>
  The loop of \<open>rd_kafka_msgset_writer_write_msgq\<close> that moves messages from the transmit queue of the
  partition to the batch: up to the last message of a batch that is repeated, a number of messages, a
  size, and a message that is to wait. \<open>wire_size\<close> is \<open>rd_kafka_msg_wire_size\<close> for the message
  version, \<open>written\<close> is what \<open>rd_kafka_msgset_writer_write_msg\<close> returns, and \<open>n\<close> is the length of
  the queue.
\<close>

fun write_msgq_loop ::
  "(rd_kafka_msg \<Rightarrow> int) \<Rightarrow> (rd_kafka_msg \<Rightarrow> int) \<Rightarrow> int \<Rightarrow> int \<Rightarrow> int \<Rightarrow> nat \<Rightarrow> nat \<Rightarrow> int \<Rightarrow> int \<Rightarrow>
   rd_kafka_msgq \<Rightarrow> rd_kafka_msgq \<Rightarrow> (rd_kafka_msgq \<times> rd_kafka_msgq) outcome" where
  "write_msgq_loop wire_size written msgcntmax max_msg_size now last_msgid 0 msgcnt len rkmq batch = Return (rkmq, batch)"
| "write_msgq_loop wire_size written msgcntmax max_msg_size now last_msgid (Suc n) msgcnt len rkmq batch =
     (let rkm = hd (rkmq_msgs rkmq)
      in if last_msgid \<noteq> 0 \<and> last_msgid < rkm_msgid rkm then Return (rkmq, batch)
         else if msgcnt = msgcntmax \<or> max_msg_size < len + wire_size rkm then Return (rkmq, batch)
         else if now < rkm_ts_backoff rkm then Return (rkmq, batch)
         else obind (rd_kafka_msgq_deq rkmq 0 True) (\<lambda>(m, rkmq1).
                write_msgq_loop wire_size written msgcntmax max_msg_size now last_msgid n (msgcnt + 1) (len + written m)
                  rkmq1 (rd_kafka_msgq_enq batch m)))"

end
