(* ===== verification/Msgq_Proofs.thy ===== *)
theory Msgq_Proofs
  imports Msgq
begin

text \<open>
  The queues of \<open>Msgq\<close>: merging keeps the order of message ids, and in every run of a partition
  messages leave its queue in the order in which they were produced, retried ones included, and
  none is lost or duplicated.
\<close>

section \<open>Well-formed queues\<close>

abbreviation msg_size :: "rd_kafka_msg \<Rightarrow> int" where
  "msg_size m \<equiv> rkm_len m + rkm_key_len m"

abbreviation ids :: "rd_kafka_msgq \<Rightarrow> nat list" where
  "ids q \<equiv> map rkm_msgid (rkmq_msgs q)"

definition msgq_ok :: "rd_kafka_msgq \<Rightarrow> bool" where
  "msgq_ok q \<longleftrightarrow> rkmq_msg_cnt q = int (length (rkmq_msgs q)) \<and> rkmq_msg_bytes q = sum_list (map msg_size (rkmq_msgs q)) \<and>
     (\<forall>m \<in> set (rkmq_msgs q). 0 \<le> msg_size m)"

definition msgq_ordered :: "rd_kafka_msgq \<Rightarrow> bool" where
  "msgq_ordered q \<longleftrightarrow> sorted (ids q) \<and> distinct (ids q)"

lemma msgq_init_ok [simp]: "msgq_ok rd_kafka_msgq_init" "msgq_ordered rd_kafka_msgq_init" "rkmq_msgs rd_kafka_msgq_init = []"
  by (simp_all add: msgq_ok_def msgq_ordered_def rd_kafka_msgq_init_def)

lemma msgq_empty: "msgq_ok q \<Longrightarrow> rkmq_msgs q = [] \<Longrightarrow> q = rd_kafka_msgq_init"
  by (simp add: msgq_ok_def rd_kafka_msgq_init_def)

lemma enq_ok:
  assumes "msgq_ok q" "0 \<le> msg_size m"
  shows "msgq_ok (rd_kafka_msgq_enq q m)" "rkmq_msgs (rd_kafka_msgq_enq q m) = rkmq_msgs q @ [m]"
  using assms by (auto simp: msgq_ok_def rd_kafka_msgq_enq_def)

lemma deq_ok:
  assumes "msgq_ok q" "i < length (rkmq_msgs q)"
  obtains q' where "rd_kafka_msgq_deq q i True = Return (rkmq_msgs q ! i, q')" "msgq_ok q'"
    "rkmq_msgs q' = take i (rkmq_msgs q) @ drop (i + 1) (rkmq_msgs q)"
proof -
  let ?ms = "rkmq_msgs q" and ?m = "rkmq_msgs q ! i"
  have split: "?ms = take i ?ms @ ?m # drop (i + 1) ?ms" using id_take_nth_drop [OF assms(2)] by simp
  have sum: "sum_list (map msg_size ?ms) = sum_list (map msg_size (take i ?ms @ drop (i + 1) ?ms)) + msg_size ?m"
    by (subst split) simp
  have nonneg: "0 \<le> sum_list (map msg_size (take i ?ms @ drop (i + 1) ?ms))"
    using assms(1) by (intro sum_list_nonneg) (auto simp: msgq_ok_def dest: in_set_takeD in_set_dropD)
  let ?q = "\<lparr>rkmq_msgs = take i ?ms @ drop (i + 1) ?ms, rkmq_msg_cnt = rkmq_msg_cnt q - 1,
      rkmq_msg_bytes = rkmq_msg_bytes q - msg_size ?m\<rparr>"
  have "msgq_ok ?q"
    using assms sum by (auto simp: msgq_ok_def dest: in_set_takeD in_set_dropD)
  moreover have "rd_kafka_msgq_deq q i True = Return (?m, ?q)"
    using assms sum nonneg by (auto simp: rd_kafka_msgq_deq_def msgq_ok_def Let_def)
  ultimately show thesis by (intro that [of ?q]) simp_all
qed

lemma deq_first:
  assumes "msgq_ok q" "rkmq_msgs q = m # ms"
  obtains q' where "rd_kafka_msgq_deq q 0 True = Return (m, q')" "msgq_ok q'" "rkmq_msgs q' = ms"
  by (rule deq_ok [OF assms(1), of 0]) (use assms(2) that in auto)

section \<open>Merging\<close>

lemma cmp_msgid_neg: "rd_kafka_msg_cmp_msgid a b < 0 \<longleftrightarrow> rkm_msgid a < rkm_msgid b"
  and cmp_msgid_pos: "0 < rd_kafka_msg_cmp_msgid a b \<longleftrightarrow> rkm_msgid b < rkm_msgid a"
  by (simp_all add: rd_kafka_msg_cmp_msgid_def)

lemma insert_sort_loop_spec:
  "sorted (ids q) \<Longrightarrow> sorted (ids (insert_msgq_sort_loop q ms rd_kafka_msg_cmp_msgid)) \<and>
   mset (rkmq_msgs (insert_msgq_sort_loop q ms rd_kafka_msg_cmp_msgid)) = mset (rkmq_msgs q) + mset ms \<and>
   rkmq_msg_cnt (insert_msgq_sort_loop q ms rd_kafka_msg_cmp_msgid) = rkmq_msg_cnt q + int (length ms) \<and>
   rkmq_msg_bytes (insert_msgq_sort_loop q ms rd_kafka_msg_cmp_msgid) = rkmq_msg_bytes q + sum_list (map msg_size ms)"
proof (induction ms arbitrary: q)
  case (Cons m ms)
  let ?q = "rd_kafka_msgq_enq_sorted0 q m rd_kafka_msg_cmp_msgid"
  have "sorted (ids ?q)"
    using Cons.prems sorted_insert_sorted [of "rkmq_msgs q" rd_kafka_msg_cmp_msgid m rkm_msgid]
    by (simp add: rd_kafka_msgq_enq_sorted0_def cmp_msgid_neg)
  note ih = Cons.IH [OF this]
  show ?case using ih by (simp add: rd_kafka_msgq_enq_sorted0_def)
qed simp

lemma msgq_ok_mset:
  assumes "mset (rkmq_msgs q) = mset (rkmq_msgs a) + mset (rkmq_msgs b)" "msgq_ok a" "msgq_ok b"
    "rkmq_msg_cnt q = rkmq_msg_cnt a + rkmq_msg_cnt b" "rkmq_msg_bytes q = rkmq_msg_bytes a + rkmq_msg_bytes b"
  shows "msgq_ok q"
proof -
  have ms: "mset (rkmq_msgs q) = mset (rkmq_msgs a @ rkmq_msgs b)" using assms(1) by simp
  have "sum_list (map msg_size (rkmq_msgs q)) = sum_list (map msg_size (rkmq_msgs a @ rkmq_msgs b))"
    unfolding sum_mset_sum_list [symmetric] mset_map ms by (rule refl)
  moreover have "length (rkmq_msgs q) = length (rkmq_msgs a @ rkmq_msgs b)" unfolding size_mset [symmetric] ms by (rule refl)
  ultimately show ?thesis using assms(2-5) mset_eq_setD [OF ms] by (auto simp: msgq_ok_def)
qed

lemma sorted_hd: "sorted xs \<Longrightarrow> x \<in> set xs \<Longrightarrow> hd xs \<le> x"
  by (cases xs) auto

lemma sorted_last: "sorted xs \<Longrightarrow> x \<in> set xs \<Longrightarrow> x \<le> last xs"
  by (induction xs) auto

lemma sorted_append_less: "sorted xs \<Longrightarrow> sorted ys \<Longrightarrow> last xs \<le> hd ys \<Longrightarrow> sorted (xs @ ys)"
  for xs ys :: "'a :: linorder list"
  unfolding sorted_append using sorted_hd sorted_last by (blast intro: order_trans)

text \<open>
  For first-in-first-out queues, of which one has only messages that the other has not, all branches
  give the messages of both in the order of their ids. The search for a position is never reached.
\<close>

lemma move_eq: "rd_kafka_msgq_move a b = (b, rd_kafka_msgq_init)"
  by (cases a; cases b) (simp add: rd_kafka_msgq_move_def)

definition merged :: "rd_kafka_msgq \<Rightarrow> rd_kafka_msgq \<Rightarrow> rd_kafka_msgq \<Rightarrow> bool" where
  "merged a b q \<longleftrightarrow> rd_kafka_msgq_insert_msgq a b rd_kafka_msg_cmp_msgid = Return (q, rd_kafka_msgq_init) \<and>
     sorted (ids q) \<and> mset (rkmq_msgs q) = mset (rkmq_msgs a) + mset (rkmq_msgs b) \<and>
     rkmq_msg_cnt q = rkmq_msg_cnt a + rkmq_msg_cnt b \<and> rkmq_msg_bytes q = rkmq_msg_bytes a + rkmq_msg_bytes b"

lemma merged_nonempty:
  assumes ok: "msgq_ok b" and srt: "sorted (ids a)" "sorted (ids b)" and f: "rkmq_msgs b = f # bs" "rkmq_msgs a = g # as"
  shows "\<exists>q. merged a b q"
proof -
  let ?a = "rkmq_msgs a" and ?b = "rkmq_msgs b"
  have ends: "hd (ids a) = rkm_msgid g" "hd (ids b) = rkm_msgid f" "last (ids a) = rkm_msgid (last ?a)"
    "last (ids b) = rkm_msgid (last ?b)" using f by (simp_all add: last_map)
  have le: "rkm_msgid g \<le> rkm_msgid (last ?a)" "rkm_msgid f \<le> rkm_msgid (last ?b)"
    using sorted_last [OF srt(1), of "rkm_msgid g"] sorted_last [OF srt(2), of "rkm_msgid f"] ends f by auto
  have overlap: "rd_kafka_msgq_overlap a b \<longleftrightarrow> rkm_msgid g \<le> rkm_msgid (last ?b) \<and> rkm_msgid f \<le> rkm_msgid (last ?a)"
    using f by (simp add: rd_kafka_msgq_overlap_def)
  consider (lap) "rd_kafka_msgq_overlap a b" | (pre) "rkm_msgid (last ?b) < rkm_msgid g" "\<not> rd_kafka_msgq_overlap a b"
    | (post) "rkm_msgid (last ?a) < rkm_msgid f" "\<not> rd_kafka_msgq_overlap a b"
    using overlap not_le by blast
  then show ?thesis
  proof cases
    case lap
    then have "rd_kafka_msgq_insert_msgq a b rd_kafka_msg_cmp_msgid
        = Return (insert_msgq_sort_loop a ?b rd_kafka_msg_cmp_msgid, rd_kafka_msgq_init)"
      using f by (simp add: rd_kafka_msgq_insert_msgq_def rd_kafka_msgq_insert_msgq_sort_def)
    then show ?thesis
      using insert_sort_loop_spec [OF srt(1), of ?b] ok unfolding merged_def msgq_ok_def by metis
  next
    case pre
    have "sorted (ids b @ ids a)" by (rule sorted_append_less) (use srt pre ends in simp_all)
    moreover have "rkm_msgid f < rkm_msgid g" using pre(1) le(2) by linarith
    ultimately have "merged a b (fst (rd_kafka_msgq_prepend a b))"
      using f pre(2) by (simp add: merged_def rd_kafka_msgq_insert_msgq_def cmp_msgid_neg rd_kafka_msgq_prepend_def
          rd_kafka_msgq_concat_def rd_kafka_msgq_move_def)
    then show ?thesis by blast
  next
    case post
    have "sorted (ids a @ ids b)" by (rule sorted_append_less) (use srt post ends in simp_all)
    moreover have "\<not> rkm_msgid f < rkm_msgid g" using post(1) le(1) by linarith
    ultimately have "merged a b (fst (rd_kafka_msgq_concat a b))"
      using f post by (simp add: merged_def rd_kafka_msgq_insert_msgq_def cmp_msgid_neg cmp_msgid_pos rd_kafka_msgq_concat_def)
    then show ?thesis by blast
  qed
qed

lemma merged_exists:
  assumes "msgq_ok a" "msgq_ok b" "sorted (ids a)" "sorted (ids b)"
  shows "\<exists>q. merged a b q"
proof -
  consider "rkmq_msgs b = []" | "rkmq_msgs a = []" "rkmq_msgs b \<noteq> []" | "rkmq_msgs a \<noteq> []" "rkmq_msgs b \<noteq> []" by blast
  then show ?thesis
  proof cases
    case 1
    then have "b = rd_kafka_msgq_init" by (rule msgq_empty [OF assms(2)])
    then have "merged a b a" using assms(3) by (simp add: merged_def rd_kafka_msgq_insert_msgq_def rd_kafka_msgq_init_def)
    then show ?thesis by blast
  next
    case 2
    then have a: "a = rd_kafka_msgq_init" by (intro msgq_empty [OF assms(1)])
    obtain f bs where "rkmq_msgs b = f # bs" using 2(2) by (cases "rkmq_msgs b") auto
    then have "merged a b b" using assms(4) move_eq [of a b]
      unfolding a by (simp add: merged_def rd_kafka_msgq_insert_msgq_def rd_kafka_msgq_init_def)
    then show ?thesis by blast
  next
    case 3
    then obtain f bs g as where f: "rkmq_msgs b = f # bs" "rkmq_msgs a = g # as" by (auto simp: neq_Nil_conv)
    show ?thesis by (rule merged_nonempty [OF assms(2-4) f])
  qed
qed

lemma insert_msgq_spec:
  assumes ok: "msgq_ok a" "msgq_ok b" "msgq_ordered a" "msgq_ordered b" and disj: "set (ids a) \<inter> set (ids b) = {}"
  shows "\<exists>q. rd_kafka_msgq_insert_msgq a b rd_kafka_msg_cmp_msgid = Return (q, rd_kafka_msgq_init) \<and>
    msgq_ok q \<and> msgq_ordered q \<and> mset (rkmq_msgs q) = mset (rkmq_msgs a) + mset (rkmq_msgs b)"
proof -
  obtain q where q: "merged a b q" using merged_exists [OF ok(1,2)] ok(3,4) by (auto simp: msgq_ordered_def)
  then have ms: "mset (rkmq_msgs q) = mset (rkmq_msgs a) + mset (rkmq_msgs b)" by (simp add: merged_def)
  have "mset (ids q) = mset (ids a @ ids b)" by (simp add: ms)
  then have "distinct (ids q)"
    using ok(3,4) disj mset_eq_imp_distinct_iff [of "ids q" "ids a @ ids b"] by (simp add: msgq_ordered_def)
  moreover have "msgq_ok q" by (rule msgq_ok_mset [OF ms ok(1,2)]) (use q in \<open>simp_all add: merged_def\<close>)
  ultimately show ?thesis using q by (auto simp: merged_def msgq_ordered_def)
qed

text \<open>
  C17. Merging two message queues gives all their messages in the order of their ids: for
  first-in-first-out queues that are ordered and have no id in common, inserting one into the other
  returns, whichever of its shortcuts it takes, the list that sorting all messages by id gives, with
  the right counters, and leaves the other queue empty.
\<close>

theorem msgq_insert_merges:
  assumes "msgq_ok destq" "msgq_ok srcq" "msgq_ordered destq" "msgq_ordered srcq"
    and "set (ids destq) \<inter> set (ids srcq) = {}"
  shows "\<exists>q. rd_kafka_msgq_insert_msgq destq srcq rd_kafka_msg_cmp_msgid = Return (q, rd_kafka_msgq_init) \<and>
    rkmq_msgs q = sort_key rkm_msgid (rkmq_msgs destq @ rkmq_msgs srcq) \<and>
    rd_kafka_msgq_len q = int (length (rkmq_msgs q)) \<and> rd_kafka_msgq_size q = sum_list (map msg_size (rkmq_msgs q))"
proof -
  obtain q where q: "rd_kafka_msgq_insert_msgq destq srcq rd_kafka_msg_cmp_msgid = Return (q, rd_kafka_msgq_init)"
    "msgq_ok q" "msgq_ordered q" "mset (rkmq_msgs q) = mset (rkmq_msgs destq) + mset (rkmq_msgs srcq)"
    using insert_msgq_spec [OF assms] by blast
  have ms: "mset (rkmq_msgs destq @ rkmq_msgs srcq) = mset (rkmq_msgs q)" using q(4) by simp
  have "inj_on rkm_msgid (set (rkmq_msgs q))" "sorted (ids q)" using q(3) by (simp_all add: msgq_ordered_def distinct_map)
  then have "sort_key rkm_msgid (rkmq_msgs destq @ rkmq_msgs srcq) = rkmq_msgs q"
    unfolding mset_eq_setD [OF ms, symmetric] by (intro sort_key_inj_key_eq [OF ms])
  then show ?thesis using q(1,2) by (auto simp: msgq_ok_def rd_kafka_msgq_len_def rd_kafka_msgq_size_def)
qed

section \<open>Moving messages between queues\<close>

lemma upgrade_status_sel [simp]:
  "rkm_msgid (upgrade_status st m) = rkm_msgid m" "rkm_len (upgrade_status st m) = rkm_len m"
  "rkm_key_len (upgrade_status st m) = rkm_key_len m"
  by (simp_all add: upgrade_status_def)

lemma retried_sel [simp]:
  "rkm_msgid (retried i b st m) = rkm_msgid m" "rkm_len (retried i b st m) = rkm_len m"
  "rkm_key_len (retried i b st m) = rkm_key_len m"
  by (simp_all add: retried_def)

lemma msg_size_nonneg: "msgq_ok q \<Longrightarrow> m \<in> set (rkmq_msgs q) \<Longrightarrow> 0 \<le> msg_size m"
  by (simp add: msgq_ok_def)

text \<open>Loops that move messages from the front of one queue to the end of another.\<close>

lemma age_scan_spec:
  "msgq_ok q \<Longrightarrow> msgq_ok t \<Longrightarrow> n = length (rkmq_msgs q) \<Longrightarrow>
   \<exists>q' t' ms. age_scan_loop now n q t = Return (q', t') \<and> msgq_ok q' \<and> msgq_ok t' \<and>
     rkmq_msgs q = ms @ rkmq_msgs q' \<and> rkmq_msgs t' = rkmq_msgs t @ ms"
proof (induction n arbitrary: q t)
  case (Suc n)
  then obtain m ms where m: "rkmq_msgs q = m # ms" by (cases "rkmq_msgs q") auto
  show ?case
  proof (cases "now < rkm_ts_timeout m")
    case True
    then show ?thesis using Suc.prems(1,2) m by simp
  next
    case False
    obtain q1 where q1: "rd_kafka_msgq_deq q 0 True = Return (m, q1)" "msgq_ok q1" "rkmq_msgs q1 = ms"
      by (rule deq_first [OF Suc.prems(1) m])
    note t1 = enq_ok [OF Suc.prems(2) msg_size_nonneg [OF Suc.prems(1)], of m]
    obtain q' t' ms' where ih: "age_scan_loop now n q1 (rd_kafka_msgq_enq t m) = Return (q', t')" "msgq_ok q'" "msgq_ok t'"
      "rkmq_msgs q1 = ms' @ rkmq_msgs q'" "rkmq_msgs t' = rkmq_msgs (rd_kafka_msgq_enq t m) @ ms'"
      using Suc.IH [OF q1(2) t1(1)] m Suc.prems(3) q1(3) by auto
    have "age_scan_loop now (Suc n) q t = Return (q', t')" using False m q1(1) ih(1) by simp
    then show ?thesis using ih(2-5) m q1(3) t1(2) by (intro exI [of _ q'] exI [of _ t'] exI [of _ "m # ms'"]) simp
  qed
qed simp

lemma write_msgq_spec:
  "msgq_ok q \<Longrightarrow> msgq_ok b \<Longrightarrow> n = length (rkmq_msgs q) \<Longrightarrow>
   \<exists>q' b' ms. write_msgq_loop wire_size written cmax smax now lm n cnt len q b = Return (q', b') \<and> msgq_ok q' \<and> msgq_ok b' \<and>
     rkmq_msgs q = ms @ rkmq_msgs q' \<and> rkmq_msgs b' = rkmq_msgs b @ ms"
proof (induction n arbitrary: q b cnt len)
  case (Suc n)
  then obtain m ms where m: "rkmq_msgs q = m # ms" by (cases "rkmq_msgs q") auto
  show ?case
  proof (cases "lm \<noteq> 0 \<and> lm < rkm_msgid m \<or> cnt = cmax \<or> smax < len + wire_size m \<or> now < rkm_ts_backoff m")
    case True
    then have "write_msgq_loop wire_size written cmax smax now lm (Suc n) cnt len q b = Return (q, b)" using m by auto
    then show ?thesis using Suc.prems(1,2) by simp
  next
    case False
    obtain q1 where q1: "rd_kafka_msgq_deq q 0 True = Return (m, q1)" "msgq_ok q1" "rkmq_msgs q1 = ms"
      by (rule deq_first [OF Suc.prems(1) m])
    have mem: "m \<in> set (rkmq_msgs q)" "n = length (rkmq_msgs q1)" using m q1(3) Suc.prems(3) by simp_all
    note b1 = enq_ok [OF Suc.prems(2) msg_size_nonneg [OF Suc.prems(1) mem(1)]]
    obtain q' b' ms' where ih: "write_msgq_loop wire_size written cmax smax now lm n (cnt + 1) (len + written m) q1
        (rd_kafka_msgq_enq b m) = Return (q', b')" "msgq_ok q'" "msgq_ok b'"
      "rkmq_msgs q1 = ms' @ rkmq_msgs q'" "rkmq_msgs b' = rkmq_msgs (rd_kafka_msgq_enq b m) @ ms'"
      using Suc.IH [OF q1(2) b1(1) mem(2), of "cnt + 1" "len + written m"] by blast
    have "write_msgq_loop wire_size written cmax smax now lm (Suc n) cnt len q b = Return (q', b')"
      using False m q1(1) ih(1) by auto
    then show ?thesis using ih(2-5) m q1(3) b1(2) by (intro exI [of _ q'] exI [of _ b'] exI [of _ "m # ms'"]) simp
  qed
qed simp

lemma retry_loop_spec:
  "msgq_ok src \<Longrightarrow> msgq_ok r \<Longrightarrow> rkmq_msgs src = pre @ rest \<Longrightarrow>
   \<exists>src' r'. retry_msgq_loop incr mx backoff st (length rest) (length pre) src r = Return (src', r') \<and> msgq_ok src' \<and> msgq_ok r' \<and>
     rkmq_msgs src' = pre @ filter (\<lambda>m. mx < rkm_retries m + incr) rest \<and>
     rkmq_msgs r' = rkmq_msgs r @ map (retried incr backoff st) (filter (\<lambda>m. \<not> mx < rkm_retries m + incr) rest)"
proof (induction rest arbitrary: src r pre)
  case (Cons m rest)
  have at: "rkmq_msgs src ! length pre = m" "length pre < length (rkmq_msgs src)" using Cons.prems(3) by simp_all
  show ?case
  proof (cases "mx < rkm_retries m + incr")
    case True
    then show ?thesis using Cons.IH [OF Cons.prems(1,2), of "pre @ [m]"] Cons.prems(3) at by simp
  next
    case False
    obtain s1 where s1: "rd_kafka_msgq_deq src (length pre) True = Return (m, s1)" "msgq_ok s1" "rkmq_msgs s1 = pre @ rest"
      by (rule deq_ok [OF Cons.prems(1) at(2)]) (use at Cons.prems(3) in auto)
    have "0 \<le> msg_size (retried incr backoff st m)" using msg_size_nonneg [OF Cons.prems(1), of m] Cons.prems(3) by simp
    note r1 = enq_ok [OF Cons.prems(2) this]
    show ?thesis using Cons.IH [OF s1(2) r1(1) s1(3)] False at s1(1) r1(2) by simp
  qed
qed simp

lemma mset_map_filter_split: "mset (map f (filter (\<lambda>x. \<not> P x) xs)) + mset (map f (filter P xs)) = mset (map f xs)"
  by (induction xs) auto

lemma retry_spec:
  assumes ok: "msgq_ok dst" "msgq_ordered dst" "msgq_ok src" "msgq_ordered src" and disj: "set (ids dst) \<inter> set (ids src) = {}"
  shows "\<exists>dst' src' r. rd_kafka_retry_msgq dst src incr mx backoff st rd_kafka_msg_cmp_msgid = Return (dst', src', r) \<and>
    msgq_ok dst' \<and> msgq_ordered dst' \<and> mset (ids dst') + mset (ids src') = mset (ids dst) + mset (ids src)"
proof -
  obtain src' r where l: "retry_msgq_loop incr mx backoff st (length (rkmq_msgs src)) 0 src rd_kafka_msgq_init = Return (src', r)"
    "msgq_ok src'" "msgq_ok r" "rkmq_msgs src' = filter (\<lambda>m. mx < rkm_retries m + incr) (rkmq_msgs src)"
    "rkmq_msgs r = map (retried incr backoff st) (filter (\<lambda>m. \<not> mx < rkm_retries m + incr) (rkmq_msgs src))"
    using retry_loop_spec [OF ok(3) msgq_init_ok(1), of "[]" "rkmq_msgs src" incr mx backoff st] by auto
  have rids: "ids r = map rkm_msgid (filter (\<lambda>m. \<not> mx < rkm_retries m + incr) (rkmq_msgs src))" by (simp add: l(5) comp_def)
  have ord: "msgq_ordered r" unfolding msgq_ordered_def rids
    using ok(4) sorted_filter [of rkm_msgid "rkmq_msgs src"] by (simp add: msgq_ordered_def distinct_map_filter)
  have sum: "mset (ids r) + mset (ids src') = mset (ids src)"
    unfolding rids l(4) by (rule mset_map_filter_split)
  have "set (ids r) \<subseteq> set (ids src)" unfolding rids by auto
  then have "set (ids dst) \<inter> set (ids r) = {}" using disj by blast
  then obtain q where q: "rd_kafka_msgq_insert_msgq dst r rd_kafka_msg_cmp_msgid = Return (q, rd_kafka_msgq_init)"
    "msgq_ok q" "msgq_ordered q" "mset (rkmq_msgs q) = mset (rkmq_msgs dst) + mset (rkmq_msgs r)"
    using insert_msgq_spec [OF ok(1) l(3) ok(2) ord] by blast
  show ?thesis
  proof (cases "rkmq_msgs r = []")
    case True
    then have "mset (ids src') = mset (ids src)" using sum by simp
    moreover have "rd_kafka_retry_msgq dst src incr mx backoff st rd_kafka_msg_cmp_msgid = Return (dst, src', 0)"
      using True l(1) by (simp add: rd_kafka_retry_msgq_def)
    ultimately show ?thesis using ok(1,2) by metis
  next
    case False
    have "mset (ids q) = mset (ids dst) + mset (ids r)" by (simp add: q(4))
    then have "mset (ids q) + mset (ids src') = mset (ids dst) + mset (ids src)" by (simp only: add.assoc sum)
    moreover have "rd_kafka_retry_msgq dst src incr mx backoff st rd_kafka_msg_cmp_msgid = Return (q, src', 1)"
      using False l(1) q(1) by (simp add: rd_kafka_retry_msgq_def)
    ultimately show ?thesis using q(2,3) by metis
  qed
qed

section \<open>Runs of a partition\<close>

text \<open>
  The steps of a partition with first-in-first-out queues: a message is produced; the queue of new
  messages is merged into the transmit queue; a batch is taken from the transmit queue; the messages
  of a batch are retried, and those that cannot be are reported; a batch is acknowledged or fails;
  messages time out in one of the queues. \<open>fl\<close> are the batches in flight, \<open>gone\<close> the ids of the
  messages that were reported.
\<close>

inductive partition_reach :: "rd_kafka_toppar \<Rightarrow> rd_kafka_msgq list \<Rightarrow> nat list \<Rightarrow> bool" where
  part_new: "rktp_partition rktp \<noteq> RD_KAFKA_PARTITION_UA \<Longrightarrow> rktp_msgq rktp = rd_kafka_msgq_init \<Longrightarrow>
    rktp_xmit_msgq rktp = rd_kafka_msgq_init \<Longrightarrow> rktp_msgid rktp = 0 \<Longrightarrow> partition_reach rktp [] []"
| part_produce: "partition_reach rktp fl gone \<Longrightarrow> rkm_msgid m = 0 \<Longrightarrow> 0 \<le> msg_size m \<Longrightarrow>
    rd_kafka_toppar_enq_msg RD_KAFKA_QUEUE_FIFO rktp m = (rktp', w) \<Longrightarrow> partition_reach rktp' fl gone"
| part_xmit: "partition_reach rktp fl gone \<Longrightarrow>
    rd_kafka_msgq_insert_msgq (rktp_xmit_msgq rktp) (rktp_msgq rktp) (msg_order_cmp RD_KAFKA_QUEUE_FIFO) = Return (x, q) \<Longrightarrow>
    partition_reach (rktp\<lparr>rktp_xmit_msgq := x, rktp_msgq := q\<rparr>) fl gone"
| part_batch: "partition_reach rktp fl gone \<Longrightarrow>
    write_msgq_loop wire_size written msgcntmax max_msg_size now last_msgid (length (rkmq_msgs (rktp_xmit_msgq rktp))) 0 len
      (rktp_xmit_msgq rktp) rd_kafka_msgq_init = Return (x, b) \<Longrightarrow>
    partition_reach (rktp\<lparr>rktp_xmit_msgq := x\<rparr>) (fl @ [b]) gone"
| part_retry: "partition_reach rktp (fl @ b # fl') gone \<Longrightarrow>
    rd_kafka_toppar_retry_msgq False now backoff max_retries RD_KAFKA_QUEUE_FIFO rktp b incr status = Return (rktp', rest, r) \<Longrightarrow>
    partition_reach rktp' (fl @ fl') (gone @ ids rest)"
| part_report: "partition_reach rktp (fl @ b # fl') gone \<Longrightarrow> partition_reach rktp (fl @ fl') (gone @ ids b)"
| part_timeout: "partition_reach rktp fl gone \<Longrightarrow>
    rd_kafka_msgq_age_scan (rktp_msgq rktp) rd_kafka_msgq_init now = Return (q, t, n) \<Longrightarrow>
    partition_reach (rktp\<lparr>rktp_msgq := q\<rparr>) fl (gone @ ids t)"
| part_xmit_timeout: "partition_reach rktp fl gone \<Longrightarrow>
    rd_kafka_msgq_age_scan (rktp_xmit_msgq rktp) rd_kafka_msgq_init now = Return (x, t, n) \<Longrightarrow>
    partition_reach (rktp\<lparr>rktp_xmit_msgq := x\<rparr>) fl (gone @ ids t)"

text \<open>Every id that was given out is in one place, and all queues are ordered.\<close>

definition all_ids :: "rd_kafka_toppar \<Rightarrow> rd_kafka_msgq list \<Rightarrow> nat list \<Rightarrow> nat multiset" where
  "all_ids rktp fl gone = mset (ids (rktp_xmit_msgq rktp)) + mset (ids (rktp_msgq rktp)) + mset (concat (map ids fl)) + mset gone"

definition queue_ok :: "rd_kafka_msgq \<Rightarrow> bool" where
  "queue_ok q \<longleftrightarrow> msgq_ok q \<and> msgq_ordered q"

definition partition_inv :: "rd_kafka_toppar \<Rightarrow> rd_kafka_msgq list \<Rightarrow> nat list \<Rightarrow> bool" where
  "partition_inv rktp fl gone \<longleftrightarrow> rktp_partition rktp \<noteq> RD_KAFKA_PARTITION_UA \<and>
     queue_ok (rktp_msgq rktp) \<and> queue_ok (rktp_xmit_msgq rktp) \<and> (\<forall>b \<in> set fl. queue_ok b) \<and>
     all_ids rktp fl gone = mset [1..<Suc (rktp_msgid rktp)]"

text \<open>No two places hold the same id.\<close>

lemma all_ids_disjoint:
  assumes "partition_inv rktp fl gone"
  shows "set (ids (rktp_xmit_msgq rktp)) \<inter> set (ids (rktp_msgq rktp)) = {}"
    "b \<in> set fl \<Longrightarrow> set (ids (rktp_msgq rktp)) \<inter> set (ids b) = {}"
    "i \<in> set (ids (rktp_msgq rktp)) \<Longrightarrow> i \<le> rktp_msgid rktp"
proof -
  let ?all = "ids (rktp_xmit_msgq rktp) @ ids (rktp_msgq rktp) @ concat (map ids fl) @ gone"
  have ms: "mset ?all = mset [1..<Suc (rktp_msgid rktp)]"
    using assms by (simp add: partition_inv_def all_ids_def ac_simps del: upt_Suc)
  have d: "distinct ?all" using mset_eq_imp_distinct_iff [OF ms] by (simp del: upt_Suc)
  then show "set (ids (rktp_xmit_msgq rktp)) \<inter> set (ids (rktp_msgq rktp)) = {}" by auto
  show "set (ids (rktp_msgq rktp)) \<inter> set (ids b) = {}" if "b \<in> set fl" using d that by auto
  show "i \<le> rktp_msgid rktp" if "i \<in> set (ids (rktp_msgq rktp))"
  proof -
    have "i \<in> set ?all" using that by simp
    then show ?thesis unfolding mset_eq_setD [OF ms] by auto
  qed
qed

lemma queue_split:
  assumes "queue_ok q" "rkmq_msgs q = rkmq_msgs a @ rkmq_msgs b" "msgq_ok a" "msgq_ok b"
  shows "queue_ok a" "queue_ok b" "\<forall>i \<in> set (ids a). \<forall>j \<in> set (ids b). i < j"
proof -
  have s: "sorted (ids a @ ids b)" "distinct (ids a @ ids b)" using assms(1,2) by (simp_all add: queue_ok_def msgq_ordered_def)
  then show "queue_ok a" "queue_ok b" using assms(3,4) by (simp_all add: queue_ok_def msgq_ordered_def sorted_append)
  show "\<forall>i \<in> set (ids a). \<forall>j \<in> set (ids b). i < j"
    using s by (auto simp: sorted_append less_le simp del: set_map)
qed

lemma part_new_inv:
  "rktp_partition rktp \<noteq> RD_KAFKA_PARTITION_UA \<Longrightarrow> rktp_msgq rktp = rd_kafka_msgq_init \<Longrightarrow>
   rktp_xmit_msgq rktp = rd_kafka_msgq_init \<Longrightarrow> rktp_msgid rktp = 0 \<Longrightarrow> partition_inv rktp [] []"
  by (simp add: partition_inv_def queue_ok_def all_ids_def)

lemma part_produce_inv:
  assumes inv: "partition_inv rktp fl gone" and m: "rkm_msgid m = 0" "0 \<le> msg_size m"
    and enq: "rd_kafka_toppar_enq_msg RD_KAFKA_QUEUE_FIFO rktp m = (rktp', w)"
  shows "partition_inv rktp' fl gone"
proof -
  let ?m = "m\<lparr>rkm_msgid := rktp_msgid rktp + 1\<rparr>"
  let ?q = "rd_kafka_msgq_enq (rktp_msgq rktp) ?m"
  have q: "msgq_ok ?q" "rkmq_msgs ?q = rkmq_msgs (rktp_msgq rktp) @ [?m]"
    using enq_ok [of "rktp_msgq rktp" ?m] inv m(2) by (simp_all add: partition_inv_def queue_ok_def)
  have "msgq_ordered ?q" using inv all_ids_disjoint(3) [OF inv] q(2)
    by (fastforce simp: partition_inv_def queue_ok_def msgq_ordered_def sorted_append)
  moreover have "rktp' = rktp\<lparr>rktp_msgid := rktp_msgid rktp + 1, rktp_msgq := ?q\<rparr>"
    using enq m(1) inv by (auto simp: rd_kafka_toppar_enq_msg_def partition_inv_def Let_def)
  ultimately show ?thesis using inv q by (simp add: partition_inv_def queue_ok_def all_ids_def)
qed

lemma part_xmit_inv:
  assumes inv: "partition_inv rktp fl gone"
    and ins: "rd_kafka_msgq_insert_msgq (rktp_xmit_msgq rktp) (rktp_msgq rktp) (msg_order_cmp RD_KAFKA_QUEUE_FIFO) = Return (x, q)"
  shows "partition_inv (rktp\<lparr>rktp_xmit_msgq := x, rktp_msgq := q\<rparr>) fl gone"
proof -
  have ok: "msgq_ok (rktp_xmit_msgq rktp)" "msgq_ok (rktp_msgq rktp)" "msgq_ordered (rktp_xmit_msgq rktp)" "msgq_ordered (rktp_msgq rktp)"
    using inv by (simp_all add: partition_inv_def queue_ok_def)
  have "q = rd_kafka_msgq_init \<and> queue_ok x \<and>
      mset (rkmq_msgs x) = mset (rkmq_msgs (rktp_xmit_msgq rktp)) + mset (rkmq_msgs (rktp_msgq rktp))"
    using insert_msgq_spec [OF ok all_ids_disjoint(1) [OF inv]] ins by (auto simp: msg_order_cmp_def queue_ok_def)
  then show ?thesis using inv by (simp add: partition_inv_def all_ids_def queue_ok_def)
qed

lemma part_batch_split:
  assumes inv: "partition_inv rktp fl gone"
    and w: "write_msgq_loop wire_size written cmax smax now lm (length (rkmq_msgs (rktp_xmit_msgq rktp))) cnt len
      (rktp_xmit_msgq rktp) rd_kafka_msgq_init = Return (x, b)"
  shows "queue_ok x" "queue_ok b" "rkmq_msgs (rktp_xmit_msgq rktp) = rkmq_msgs b @ rkmq_msgs x"
    "\<forall>i \<in> set (ids b). \<forall>j \<in> set (ids x). i < j"
proof -
  have q: "queue_ok (rktp_xmit_msgq rktp)" "msgq_ok (rktp_xmit_msgq rktp)" using inv by (simp_all add: partition_inv_def queue_ok_def)
  have s: "msgq_ok x" "msgq_ok b" "rkmq_msgs (rktp_xmit_msgq rktp) = rkmq_msgs b @ rkmq_msgs x"
    using write_msgq_spec [OF q(2) msgq_init_ok(1) refl, of wire_size written cmax smax now lm cnt len] w by auto
  note split = queue_split [OF q(1) s(3,2,1)]
  show "queue_ok x" "queue_ok b" "rkmq_msgs (rktp_xmit_msgq rktp) = rkmq_msgs b @ rkmq_msgs x"
    "\<forall>i \<in> set (ids b). \<forall>j \<in> set (ids x). i < j" by (fact split s)+
qed

lemma part_batch_inv:
  assumes inv: "partition_inv rktp fl gone"
    and w: "write_msgq_loop wire_size written cmax smax now lm (length (rkmq_msgs (rktp_xmit_msgq rktp))) 0 len
      (rktp_xmit_msgq rktp) rd_kafka_msgq_init = Return (x, b)"
  shows "partition_inv (rktp\<lparr>rktp_xmit_msgq := x\<rparr>) (fl @ [b]) gone"
  using inv part_batch_split [OF inv w] by (auto simp: partition_inv_def all_ids_def ac_simps)

lemma part_retry_inv:
  assumes inv: "partition_inv rktp (fl @ b # fl') gone"
    and retry: "rd_kafka_toppar_retry_msgq False now backoff mx RD_KAFKA_QUEUE_FIFO rktp b incr status = Return (rktp', rest, r)"
  shows "partition_inv rktp' (fl @ fl') (gone @ ids rest)"
proof -
  have ok: "msgq_ok (rktp_msgq rktp)" "msgq_ordered (rktp_msgq rktp)" "msgq_ok b" "msgq_ordered b"
    using inv by (simp_all add: partition_inv_def queue_ok_def)
  have disj: "set (ids (rktp_msgq rktp)) \<inter> set (ids b) = {}" by (rule all_ids_disjoint(2) [OF inv]) simp
  obtain q where q: "rktp' = rktp\<lparr>rktp_msgq := q\<rparr>" "msgq_ok q" "msgq_ordered q"
    "mset (ids q) + mset (ids rest) = mset (ids (rktp_msgq rktp)) + mset (ids b)"
    using retry_spec [OF ok disj, of incr mx "now + backoff * 1000" status] retry
    by (auto simp: rd_kafka_toppar_retry_msgq_def msg_order_cmp_def)
  have "all_ids rktp' (fl @ fl') (gone @ ids rest) = all_ids rktp (fl @ b # fl') gone"
    unfolding all_ids_def using q(4) by (simp add: q(1) ac_simps)
  then show ?thesis using inv q by (simp add: partition_inv_def queue_ok_def)
qed

lemma part_report_inv: "partition_inv rktp (fl @ b # fl') gone \<Longrightarrow> partition_inv rktp (fl @ fl') (gone @ ids b)"
  by (simp add: partition_inv_def all_ids_def ac_simps)

lemma age_scan_split:
  assumes "queue_ok q" "rd_kafka_msgq_age_scan q rd_kafka_msgq_init now = Return (q', t, n)"
  shows "queue_ok q'" "mset (ids q) = mset (ids q') + mset (ids t)"
proof -
  have "msgq_ok q" using assms(1) by (simp add: queue_ok_def)
  then have s: "msgq_ok q'" "msgq_ok t" "rkmq_msgs q = rkmq_msgs t @ rkmq_msgs q'"
    using age_scan_spec [OF _ msgq_init_ok(1) refl, of q now] assms(2) by (auto simp: rd_kafka_msgq_age_scan_def)
  show "queue_ok q'" by (rule queue_split(2) [OF assms(1) s(3,2,1)])
  show "mset (ids q) = mset (ids q') + mset (ids t)" by (simp add: s(3))
qed

lemma partition_reach_inv: "partition_reach rktp fl gone \<Longrightarrow> partition_inv rktp fl gone"
proof (induction rule: partition_reach.induct)
  case (part_timeout rktp fl gone now q t n)
  then have "queue_ok (rktp_msgq rktp)" by (simp add: partition_inv_def)
  from age_scan_split [OF this part_timeout.hyps(2)] show ?case
    using part_timeout.IH by (simp add: partition_inv_def all_ids_def ac_simps)
next
  case (part_xmit_timeout rktp fl gone now x t n)
  then have "queue_ok (rktp_xmit_msgq rktp)" by (simp add: partition_inv_def)
  from age_scan_split [OF this part_xmit_timeout.hyps(2)] show ?case
    using part_xmit_timeout.IH by (simp add: partition_inv_def all_ids_def ac_simps)
qed (blast intro: part_new_inv part_produce_inv part_xmit_inv part_batch_inv part_retry_inv part_report_inv)+

text \<open>
  C11. A partition keeps its messages, and their order, in every run: whatever the order of producing,
  merging, batching, retrying and timing out, every id that was given out is in exactly one of the two
  queues, a batch in flight or the reported messages, the counters of the queues are right, and
  the next merge and batch, whatever its limits, return (no assertion fails) a batch that is the
  beginning of the waiting ids in increasing order: a retried message goes before all younger ones.
\<close>

theorem producer_queue_ordered:
  assumes "partition_reach rktp fl gone"
  shows "mset (ids (rktp_xmit_msgq rktp) @ ids (rktp_msgq rktp) @ concat (map ids fl) @ gone) = mset [1..<Suc (rktp_msgid rktp)] \<and>
    rd_kafka_msgq_len (rktp_msgq rktp) = int (length (rkmq_msgs (rktp_msgq rktp))) \<and>
    rd_kafka_msgq_len (rktp_xmit_msgq rktp) = int (length (rkmq_msgs (rktp_xmit_msgq rktp))) \<and>
    (\<exists>x x' b. rd_kafka_msgq_insert_msgq (rktp_xmit_msgq rktp) (rktp_msgq rktp) (msg_order_cmp RD_KAFKA_QUEUE_FIFO)
        = Return (x, rd_kafka_msgq_init) \<and>
      write_msgq_loop wire_size written msgcntmax max_msg_size now last_msgid (length (rkmq_msgs x)) 0 len x rd_kafka_msgq_init
        = Return (x', b) \<and>
      ids b @ ids x' = sort (ids (rktp_xmit_msgq rktp) @ ids (rktp_msgq rktp)))"
proof -
  note inv = partition_reach_inv [OF assms]
  have ok: "msgq_ok (rktp_xmit_msgq rktp)" "msgq_ok (rktp_msgq rktp)" "msgq_ordered (rktp_xmit_msgq rktp)" "msgq_ordered (rktp_msgq rktp)"
    using inv by (simp_all add: partition_inv_def queue_ok_def)
  obtain x where x: "rd_kafka_msgq_insert_msgq (rktp_xmit_msgq rktp) (rktp_msgq rktp) rd_kafka_msg_cmp_msgid = Return (x, rd_kafka_msgq_init)"
    "msgq_ok x" "msgq_ordered x" "mset (rkmq_msgs x) = mset (rkmq_msgs (rktp_xmit_msgq rktp)) + mset (rkmq_msgs (rktp_msgq rktp))"
    using insert_msgq_spec [OF ok all_ids_disjoint(1) [OF inv]] by blast
  obtain x' b where b: "write_msgq_loop wire_size written msgcntmax max_msg_size now last_msgid (length (rkmq_msgs x)) 0 len x
      rd_kafka_msgq_init = Return (x', b)" "rkmq_msgs x = rkmq_msgs b @ rkmq_msgs x'"
    using write_msgq_spec [OF x(2) msgq_init_ok(1) refl, of wire_size written msgcntmax max_msg_size now last_msgid 0 len] by auto
  have "mset (ids x) = mset (ids (rktp_xmit_msgq rktp) @ ids (rktp_msgq rktp))" by (simp add: x(4))
  then have "mset (ids b @ ids x') = mset (ids (rktp_xmit_msgq rktp) @ ids (rktp_msgq rktp))" by (simp add: b(2))
  moreover have "sorted (ids b @ ids x')" using x(3) by (simp add: b(2) msgq_ordered_def)
  ultimately have "ids b @ ids x' = sort (ids (rktp_xmit_msgq rktp) @ ids (rktp_msgq rktp))" by (metis properties_for_sort)
  moreover have "mset (ids (rktp_xmit_msgq rktp) @ ids (rktp_msgq rktp) @ concat (map ids fl) @ gone) = mset [1..<Suc (rktp_msgid rktp)]"
    using inv by (simp add: partition_inv_def all_ids_def ac_simps del: upt_Suc)
  ultimately show ?thesis using x(1) b(1) ok(1,2)
    by (auto simp: msgq_ok_def rd_kafka_msgq_len_def msg_order_cmp_def simp del: upt_Suc)
qed

section \<open>Examples\<close>

definition example_msg :: "nat \<Rightarrow> rd_kafka_msg" where
  "example_msg i = \<lparr>rkm_len = 10, rkm_key_len = 2, rkm_key = None, rkm_partition = 0, rkm_offset = 0, rkm_timestamp = 0, rkm_tstype = 0,
     rkm_status = RD_KAFKA_MSG_STATUS_NOT_PERSISTED, rkm_ts_timeout = 1000, rkm_ts_backoff = 0, rkm_msgid = i,
     rkm_last_msgid = 0, rkm_retries = 0\<rparr>"

definition example_msgq :: "nat list \<Rightarrow> rd_kafka_msgq" where
  "example_msgq is = \<lparr>rkmq_msgs = map example_msg is, rkmq_msg_cnt = int (length is), rkmq_msg_bytes = 12 * int (length is)\<rparr>"

definition example_rktp :: "nat \<Rightarrow> rd_kafka_msgq \<Rightarrow> rd_kafka_msgq \<Rightarrow> rd_kafka_toppar" where
  "example_rktp n q x = \<lparr>rktp_partition = 0, rktp_msgq = q, rktp_xmit_msgq = x, rktp_msgid = n, rktp_wakeup = True\<rparr>"

lemmas example_defs = example_msg_def example_msgq_def example_rktp_def RD_KAFKA_PARTITION_UA_def rd_kafka_msgq_init_def

text \<open>Three messages, of which the first two are sent and retried while the third waits.\<close>

lemma example_run:
  "\<exists>rktp. partition_reach rktp [] [] \<and> ids (rktp_msgq rktp) = [1, 2] \<and> ids (rktp_xmit_msgq rktp) = [3]"
proof -
  have "partition_reach (example_rktp 0 (example_msgq []) (example_msgq [])) [] []"
    by (rule part_new) (simp_all add: example_defs)
  then have "partition_reach (example_rktp 1 (example_msgq [1]) (example_msgq [])) [] []"
    by (rule part_produce [of _ _ _ "example_msg 0" _ True])
       (simp_all add: example_defs rd_kafka_toppar_enq_msg_def rd_kafka_msgq_enq_def)
  then have "partition_reach (example_rktp 2 (example_msgq [1, 2]) (example_msgq [])) [] []"
    by (rule part_produce [of _ _ _ "example_msg 0" _ False])
       (simp_all add: example_defs rd_kafka_toppar_enq_msg_def rd_kafka_msgq_enq_def)
  then have "partition_reach (example_rktp 3 (example_msgq [1, 2, 3]) (example_msgq [])) [] []"
    by (rule part_produce [of _ _ _ "example_msg 0" _ False])
       (simp_all add: example_defs rd_kafka_toppar_enq_msg_def rd_kafka_msgq_enq_def)
  then have "partition_reach (example_rktp 3 (example_msgq []) (example_msgq [1, 2, 3])) [] []"
    using part_xmit [of _ "[]" "[]" "example_msgq [1, 2, 3]" "example_msgq []"]
    by (fastforce simp: example_defs rd_kafka_msgq_insert_msgq_def rd_kafka_msgq_move_def)
  then have "partition_reach (example_rktp 3 (example_msgq []) (example_msgq [3])) [example_msgq [1, 2]] []"
    using part_batch [of _ "[]" "[]" "\<lambda>_. 12" "\<lambda>_. 12" 2 100 0 0 0 "example_msgq [3]" "example_msgq [1, 2]"]
    by (fastforce simp: example_defs rd_kafka_msgq_deq_def rd_kafka_msgq_enq_def rd_assert_def eval_nat_numeral)
  then show ?thesis
    using part_retry [of _ "[]" "example_msgq [1, 2]" "[]" "[]" 0 0 5 0 RD_KAFKA_MSG_STATUS_NOT_PERSISTED
        "example_rktp 3 (example_msgq [1, 2]) (example_msgq [3])" "example_msgq []" 1]
    by (fastforce simp: example_defs rd_kafka_toppar_retry_msgq_def rd_kafka_retry_msgq_def retried_def upgrade_status_def
        rd_kafka_msgq_deq_def rd_kafka_msgq_enq_def rd_assert_def rd_kafka_msgq_insert_msgq_def rd_kafka_msgq_move_def)
qed

theorem producer_queue_ordered_witness:
  "\<exists>rktp x x' b. partition_reach rktp [] [] \<and> ids (rktp_xmit_msgq rktp) = [3] \<and> ids (rktp_msgq rktp) = [1, 2] \<and>
     rd_kafka_msgq_insert_msgq (rktp_xmit_msgq rktp) (rktp_msgq rktp) (msg_order_cmp RD_KAFKA_QUEUE_FIFO) = Return (x, rd_kafka_msgq_init) \<and>
     write_msgq_loop (\<lambda>_. 12) (\<lambda>_. 12) 2 100 0 0 (length (rkmq_msgs x)) 0 0 x rd_kafka_msgq_init = Return (x', b) \<and>
     ids b @ ids x' = [1, 2, 3]"
proof -
  obtain rktp where r: "partition_reach rktp [] []" "ids (rktp_msgq rktp) = [1, 2]" "ids (rktp_xmit_msgq rktp) = [3]"
    using example_run by (elim exE conjE) (rule that)
  have srt: "sort (ids (rktp_xmit_msgq rktp) @ ids (rktp_msgq rktp)) = [1, 2, 3]" unfolding r(2,3) by simp
  show ?thesis
    using r producer_queue_ordered [OF r(1), of "\<lambda>_. 12" "\<lambda>_. 12" 2 100 0 0 0, unfolded srt]
    by (elim conjE exE) (intro exI conjI; assumption)
qed

theorem msgq_insert_merges_witness:
  "\<exists>q. rd_kafka_msgq_insert_msgq (example_msgq [2, 5]) (example_msgq [1, 3, 4]) rd_kafka_msg_cmp_msgid
         = Return (q, rd_kafka_msgq_init) \<and>
       rkmq_msgs q = sort_key rkm_msgid (rkmq_msgs (example_msgq [2, 5]) @ rkmq_msgs (example_msgq [1, 3, 4])) \<and>
       rd_kafka_msgq_len q = int (length (rkmq_msgs q)) \<and> rd_kafka_msgq_size q = sum_list (map msg_size (rkmq_msgs q))"
  by (rule msgq_insert_merges) (simp_all add: example_defs msgq_ok_def msgq_ordered_def)

text \<open>
  With the comparator of last-in-first-out queues the test for an overlap, which is written for
  increasing ids, misses one, and merging does not give an ordered queue.
\<close>

lemma lifo_merge_unordered:
  "\<exists>q. rd_kafka_msgq_insert_msgq (example_msgq [9, 5, 3]) (example_msgq [6, 4]) (msg_order_cmp RD_KAFKA_QUEUE_LIFO)
     = Return (q, rd_kafka_msgq_init) \<and> ids q = [9, 6, 4, 5, 3]"
  by (simp add: example_defs msg_order_cmp_def rd_kafka_msg_cmp_msgid_lifo_def rd_kafka_msgq_insert_msgq_def
      rd_kafka_msgq_overlap_def rd_kafka_msgq_find_pos_def TAILQ_INSERT_LIST_def)

text \<open>A retry returns 1 when something was put back and 0 when nothing was.\<close>

lemma retry_return_value:
  "rd_kafka_retry_msgq rd_kafka_msgq_init (example_msgq [1]) 1 5 0 RD_KAFKA_MSG_STATUS_NOT_PERSISTED rd_kafka_msg_cmp_msgid
     = Return (\<lparr>rkmq_msgs = [(example_msg 1)\<lparr>rkm_retries := 1\<rparr>], rkmq_msg_cnt = 1, rkmq_msg_bytes = 12\<rparr>, rd_kafka_msgq_init, 1)"
  "rd_kafka_retry_msgq rd_kafka_msgq_init (example_msgq [1]) 1 0 0 RD_KAFKA_MSG_STATUS_NOT_PERSISTED rd_kafka_msg_cmp_msgid
     = Return (rd_kafka_msgq_init, example_msgq [1], 0)"
  by (simp_all add: example_defs rd_kafka_retry_msgq_def retried_def upgrade_status_def rd_kafka_msgq_deq_def rd_kafka_msgq_enq_def
      rd_assert_def rd_kafka_msgq_insert_msgq_def rd_kafka_msgq_move_def)

text \<open>The timestamp type that is stored is the bit of the attributes, not the value of the API.\<close>

lemma set_metadata_tstype:
  "map rkm_tstype (rkmq_msgs (rd_kafka_msgq_set_metadata (example_msgq [1]) 0 100 RD_KAFKA_MSG_STATUS_PERSISTED))
     \<noteq> [RD_KAFKA_TIMESTAMP_LOG_APPEND_TIME]"
  by (simp add: example_defs rd_kafka_msgq_set_metadata_def upgrade_status_def RD_KAFKA_MSG_ATTR_LOG_APPEND_TIME_def
      RD_KAFKA_TIMESTAMP_LOG_APPEND_TIME_def)

end
