(* ===== verification/Produce.thy ===== *)
theory Produce
  imports Msgq_Proofs Crc32 Parlist
begin

text \<open>
  Producing a message: the hash function of keys (\<open>rdmurmur2.c\<close>), the partitioners, the creation of a
  message with the accounting of its size, and its way to the queue of a partition (\<open>rdkafka_msg.c\<close>,
  \<open>rdkafka_int.h\<close>, \<open>rdkafka_topic.c\<close>).

  A key is the list of its bytes, or None for NULL. The array \<open>rkt_p\<close> has \<open>rkt_partition_cnt\<close>
  entries, which are not NULL. The partitioner that is configured, the numbers that \<open>rand\<close> gives and which
  partitions have a leader are arguments. A call that waits on the condition variable gives None.
\<close>

section \<open>The hash function\<close>

definition MM_MIX :: "u32 \<Rightarrow> u32 \<Rightarrow> u32 \<Rightarrow> u32" where
  "MM_MIX h k m = (let k1 = k * m; k2 = k1 XOR drop_bit 24 k1; k3 = k2 * m in (h * m) XOR k3)"

text \<open>
  A 32-bit word in memory and \<open>htole32\<close>, on a big-endian and a little-endian machine; and the word
  that the code for addresses that are not aligned puts together.
\<close>

definition load32 :: "bool \<Rightarrow> byte \<Rightarrow> byte \<Rightarrow> byte \<Rightarrow> byte \<Rightarrow> u32" where
  "load32 big a b c d =
     (if big then ((push_bit 24 (ucast a) OR push_bit 16 (ucast b)) OR push_bit 8 (ucast c)) OR ucast d
      else ((push_bit 24 (ucast d) OR push_bit 16 (ucast c)) OR push_bit 8 (ucast b)) OR ucast a)"

definition htole32 :: "bool \<Rightarrow> u32 \<Rightarrow> u32" where
  "htole32 big x =
     (if big
      then ((push_bit 24 (x AND 0xff) OR push_bit 8 (x AND 0xff00)) OR drop_bit 8 (x AND 0xff0000)) OR drop_bit 24 (x AND 0xff000000)
      else x)"

definition bytes32 :: "byte \<Rightarrow> byte \<Rightarrow> byte \<Rightarrow> byte \<Rightarrow> u32" where
  "bytes32 a b c d = ((ucast a OR push_bit 8 (ucast b)) OR push_bit 16 (ucast c)) OR push_bit 24 (ucast d)"

text \<open>The loop over whole words, with the hash and the tail.\<close>

fun murmur2_loop :: "(byte \<Rightarrow> byte \<Rightarrow> byte \<Rightarrow> byte \<Rightarrow> u32) \<Rightarrow> u32 \<Rightarrow> u32 \<Rightarrow> byte list \<Rightarrow> u32 \<times> byte list" where
  "murmur2_loop word m h (a # b # c # d # rest) = murmur2_loop word m (MM_MIX h (word a b c d) m) rest"
| "murmur2_loop word m h tail = (h, tail)"

definition murmur2_tail :: "u32 \<Rightarrow> u32 \<Rightarrow> byte list \<Rightarrow> u32" where
  "murmur2_tail m h tail =
     (if length tail = 3 then ((h XOR push_bit 16 (ucast (tail ! 2))) XOR push_bit 8 (ucast (tail ! 1)) XOR ucast (tail ! 0)) * m
      else if length tail = 2 then (h XOR push_bit 8 (ucast (tail ! 1)) XOR ucast (tail ! 0)) * m
      else if length tail = 1 then (h XOR ucast (tail ! 0)) * m
      else h)"

text \<open>\<open>aligned\<close> tells whether the address of the key is a multiple of 4.\<close>

definition rd_murmur2 :: "bool \<Rightarrow> bool \<Rightarrow> byte list \<Rightarrow> u32" where
  "rd_murmur2 big aligned key =
     (let seed = 0x9747b28c; m = 0x5bd1e995; h0 = seed XOR of_nat (length key);
          (h1, tail) = murmur2_loop (if aligned then (\<lambda>a b c d. htole32 big (load32 big a b c d)) else bytes32) m h0 key;
          h2 = murmur2_tail m h1 tail;
          h3 = h2 XOR drop_bit 13 h2;
          h4 = h3 * m
      in h4 XOR drop_bit 15 h4)"

section \<open>Partitioners\<close>

definition rd_jitter :: "int \<Rightarrow> int \<Rightarrow> int \<Rightarrow> int" where
  "rd_jitter rnd low high = low + rnd mod (high - low + 1)"

text \<open>\<open>rnd1\<close> and \<open>rnd2\<close> are the numbers from \<open>rand\<close>; \<open>avail\<close> is \<open>rd_kafka_topic_partition_available\<close>.\<close>

definition rd_kafka_msg_partitioner_random :: "int \<Rightarrow> int \<Rightarrow> (int \<Rightarrow> bool) \<Rightarrow> int \<Rightarrow> int" where
  "rd_kafka_msg_partitioner_random rnd1 rnd2 avail partition_cnt =
     (let p = rd_jitter rnd1 0 (partition_cnt - 1)
      in if \<not> avail p then rd_jitter rnd2 0 (partition_cnt - 1) else p)"

text \<open>The remainder is that of unsigned numbers.\<close>

definition rd_kafka_msg_partitioner_consistent :: "byte list \<Rightarrow> int \<Rightarrow> int" where
  "rd_kafka_msg_partitioner_consistent key partition_cnt = uint (rd_crc32 key mod word_of_int partition_cnt)"

definition rd_kafka_msg_partitioner_consistent_random ::
  "int \<Rightarrow> int \<Rightarrow> (int \<Rightarrow> bool) \<Rightarrow> byte list \<Rightarrow> int \<Rightarrow> int" where
  "rd_kafka_msg_partitioner_consistent_random rnd1 rnd2 avail key partition_cnt =
     (if length key = 0 then rd_kafka_msg_partitioner_random rnd1 rnd2 avail partition_cnt
      else rd_kafka_msg_partitioner_consistent key partition_cnt)"

definition rd_kafka_msg_partitioner_murmur2 :: "bool \<Rightarrow> bool \<Rightarrow> byte list \<Rightarrow> int \<Rightarrow> int" where
  "rd_kafka_msg_partitioner_murmur2 big aligned key partition_cnt =
     uint ((rd_murmur2 big aligned key AND 0x7fffffff) mod word_of_int partition_cnt)"

definition rd_kafka_msg_partitioner_murmur2_random ::
  "int \<Rightarrow> int \<Rightarrow> (int \<Rightarrow> bool) \<Rightarrow> bool \<Rightarrow> bool \<Rightarrow> byte list option \<Rightarrow> int \<Rightarrow> int" where
  "rd_kafka_msg_partitioner_murmur2_random rnd1 rnd2 avail big aligned key partition_cnt =
     (case key of
        None \<Rightarrow> rd_kafka_msg_partitioner_random rnd1 rnd2 avail partition_cnt
      | Some k \<Rightarrow> rd_kafka_msg_partitioner_murmur2 big aligned k partition_cnt)"

section \<open>Accounting\<close>

record rd_kafka_curr_msgs =
  cm_cnt :: nat
  cm_size :: nat
  cm_max_cnt :: nat
  cm_max_size :: nat

definition RD_KAFKA_RESP_ERR__QUEUE_FULL :: int where "RD_KAFKA_RESP_ERR__QUEUE_FULL = - 184"
definition RD_KAFKA_RESP_ERR__UNKNOWN_TOPIC :: int where "RD_KAFKA_RESP_ERR__UNKNOWN_TOPIC = - 188"
definition RD_KAFKA_RESP_ERR_MSG_SIZE_TOO_LARGE :: int where "RD_KAFKA_RESP_ERR_MSG_SIZE_TOO_LARGE = 10"

text \<open>The count is an \<open>unsigned int\<close>, the size a \<open>size_t\<close>.\<close>

definition rd_kafka_curr_msgs_add ::
  "rd_kafka_curr_msgs \<Rightarrow> nat \<Rightarrow> nat \<Rightarrow> bool \<Rightarrow> (rd_kafka_curr_msgs \<times> int) option" where
  "rd_kafka_curr_msgs_add cm cnt sz block =
     (if cm_max_cnt cm < (cm_cnt cm + cnt) mod 2 ^ 32 \<or> cm_max_size cm < size_add (cm_size cm) sz
      then if \<not> block then Some (cm, RD_KAFKA_RESP_ERR__QUEUE_FULL) else None
      else Some (cm\<lparr>cm_cnt := (cm_cnt cm + cnt) mod 2 ^ 32, cm_size := size_add (cm_size cm) sz\<rparr>, 0))"

text \<open>The state, and whether those who wait are woken up.\<close>

definition rd_kafka_curr_msgs_sub :: "rd_kafka_curr_msgs \<Rightarrow> nat \<Rightarrow> nat \<Rightarrow> (rd_kafka_curr_msgs \<times> bool) outcome" where
  "rd_kafka_curr_msgs_sub cm cnt sz =
     obind (rd_assert (cnt \<le> cm_cnt cm \<and> sz \<le> cm_size cm)) (\<lambda>_.
       Return (cm\<lparr>cm_cnt := cm_cnt cm - cnt, cm_size := cm_size cm - sz\<rparr>,
               cm_max_cnt cm \<le> cm_cnt cm \<and> cm_cnt cm - cnt < cm_max_cnt cm \<or>
               cm_max_size cm \<le> cm_size cm \<and> cm_size cm - sz < cm_max_size cm))"

section \<open>Topics and partitions\<close>

datatype rkt_state_enum = RD_KAFKA_TOPIC_S_UNKNOWN | RD_KAFKA_TOPIC_S_EXISTS | RD_KAFKA_TOPIC_S_NOTEXISTS

record rd_kafka_itopic =
  rkt_ua :: rd_kafka_toppar
  rkt_p :: "rd_kafka_toppar list"
  rkt_state :: rkt_state_enum
  rkt_queuing_strategy :: queuing_strategy
  rkt_message_timeout_ms :: int

definition rkt_partition_cnt :: "rd_kafka_itopic \<Rightarrow> int" where
  "rkt_partition_cnt rkt = int (length (rkt_p rkt))"

text \<open>The number of the partition that is found, -1 for the unassigned one.\<close>

definition rd_kafka_toppar_get :: "rd_kafka_itopic \<Rightarrow> int \<Rightarrow> bool \<Rightarrow> int option" where
  "rd_kafka_toppar_get rkt part ua_on_miss =
     (if 0 \<le> part \<and> part < rkt_partition_cnt rkt then Some part
      else if part = RD_KAFKA_PARTITION_UA \<or> ua_on_miss then Some RD_KAFKA_PARTITION_UA
      else None)"

definition toppar_at :: "rd_kafka_itopic \<Rightarrow> int \<Rightarrow> rd_kafka_toppar" where
  "toppar_at rkt part = (if part = RD_KAFKA_PARTITION_UA then rkt_ua rkt else rkt_p rkt ! nat part)"

definition set_toppar :: "rd_kafka_itopic \<Rightarrow> int \<Rightarrow> rd_kafka_toppar \<Rightarrow> rd_kafka_itopic" where
  "set_toppar rkt part rktp =
     (if part = RD_KAFKA_PARTITION_UA then rkt\<lparr>rkt_ua := rktp\<rparr> else rkt\<lparr>rkt_p := (rkt_p rkt)[nat part := rktp]\<rparr>)"

definition enq_at :: "rd_kafka_itopic \<Rightarrow> int \<Rightarrow> rd_kafka_msg \<Rightarrow> rd_kafka_itopic" where
  "enq_at rkt p rkm = set_toppar rkt p (fst (rd_kafka_toppar_enq_msg (rkt_queuing_strategy rkt) (toppar_at rkt p) rkm))"

text \<open>The topic and the return value. \<open>partitioner\<close> gets the key and the number of partitions.\<close>

definition rd_kafka_msg_partitioner ::
  "(byte list option \<Rightarrow> int \<Rightarrow> int) \<Rightarrow> rd_kafka_itopic \<Rightarrow> rd_kafka_msg \<Rightarrow> rd_kafka_itopic \<times> int" where
  "rd_kafka_msg_partitioner partitioner rkt rkm =
     (let chosen =
        (case rkt_state rkt of
           RD_KAFKA_TOPIC_S_UNKNOWN \<Rightarrow> Inr RD_KAFKA_PARTITION_UA
         | RD_KAFKA_TOPIC_S_NOTEXISTS \<Rightarrow> Inl RD_KAFKA_RESP_ERR__UNKNOWN_TOPIC
         | RD_KAFKA_TOPIC_S_EXISTS \<Rightarrow>
             if rkt_partition_cnt rkt = 0 then Inr RD_KAFKA_PARTITION_UA
             else let part = (if rkm_partition rkm = RD_KAFKA_PARTITION_UA
                              then partitioner (rkm_key rkm) (rkt_partition_cnt rkt) else rkm_partition rkm)
                  in if rkt_partition_cnt rkt \<le> part then Inl RD_KAFKA_RESP_ERR__UNKNOWN_PARTITION else Inr part)
      in case chosen of
           Inl err \<Rightarrow> (rkt, err)
         | Inr part \<Rightarrow>
             (case rd_kafka_toppar_get rkt part False of
                None \<Rightarrow> (rkt, if rkt_state rkt = RD_KAFKA_TOPIC_S_NOTEXISTS then RD_KAFKA_RESP_ERR__UNKNOWN_TOPIC
                              else RD_KAFKA_RESP_ERR__UNKNOWN_PARTITION)
              | Some p \<Rightarrow>
                  let rkm1 = (if rkm_partition rkm = RD_KAFKA_PARTITION_UA then rkm\<lparr>rkm_partition := part\<rparr> else rkm)
                  in (enq_at rkt p rkm1, 0)))"

section \<open>Producing a message\<close>

text \<open>
  The message that is created; \<open>uclock\<close> is the wall clock in milliseconds. The payload is given by
  its length, NULL by None.
\<close>

definition rd_kafka_msg_new00 :: "int \<Rightarrow> nat \<Rightarrow> byte list option \<Rightarrow> rd_kafka_msg" where
  "rd_kafka_msg_new00 part len key =
     \<lparr>rkm_len = int len, rkm_key_len = (case key of Some k \<Rightarrow> int (length k) | None \<Rightarrow> 0), rkm_key = key, rkm_partition = part,
      rkm_offset = - 1001, rkm_timestamp = 0, rkm_tstype = 0, rkm_status = RD_KAFKA_MSG_STATUS_NOT_PERSISTED,
      rkm_ts_timeout = 0, rkm_ts_backoff = 0, rkm_msgid = 0, rkm_last_msgid = 0, rkm_retries = 0\<rparr>"

definition rd_kafka_msg_new0 ::
  "nat \<Rightarrow> int \<Rightarrow> rd_kafka_curr_msgs \<Rightarrow> rd_kafka_itopic \<Rightarrow> int \<Rightarrow> bool \<Rightarrow> nat option \<Rightarrow> byte list option \<Rightarrow> nat \<Rightarrow> int \<Rightarrow> int \<Rightarrow>
   (rd_kafka_curr_msgs \<times> (int + rd_kafka_msg)) option" where
  "rd_kafka_msg_new0 max_msg_size uclock cm rkt force_partition block payload key hdrs_size timestamp now =
     (let len = (case payload of Some n \<Rightarrow> n | None \<Rightarrow> 0);
          keylen = (case key of Some k \<Rightarrow> length k | None \<Rightarrow> 0)
      in if max_msg_size < size_add (size_add len keylen) hdrs_size \<or> 2147483647 < keylen
         then Some (cm, Inl RD_KAFKA_RESP_ERR_MSG_SIZE_TOO_LARGE)
         else (case rd_kafka_curr_msgs_add cm 1 len block of
                 None \<Rightarrow> None
               | Some (cm1, err) \<Rightarrow>
                   if err \<noteq> 0 then Some (cm1, Inl err)
                   else Some (cm1, Inr ((rd_kafka_msg_new00 force_partition len key)
                          \<lparr>rkm_timestamp := (if timestamp \<noteq> 0 then timestamp else uclock), rkm_tstype := 1,
                           rkm_ts_timeout := (if rkt_message_timeout_ms rkt = 0 then 2 ^ 63 - 1
                                              else now + rkt_message_timeout_ms rkt * 1000)\<rparr>))))"

text \<open>A message that is destroyed was accounted for.\<close>

definition rd_kafka_msg_destroy :: "rd_kafka_curr_msgs \<Rightarrow> rd_kafka_msg \<Rightarrow> (rd_kafka_curr_msgs \<times> bool) outcome" where
  "rd_kafka_msg_destroy cm rkm = rd_kafka_curr_msgs_sub cm 1 (nat (rkm_len rkm))"

text \<open>The counters, the topic, and the error, 0 for none; \<open>fatal\<close> is the fatal error of the client.\<close>

definition rd_kafka_msg_new ::
  "(byte list option \<Rightarrow> int \<Rightarrow> int) \<Rightarrow> int \<Rightarrow> nat \<Rightarrow> int \<Rightarrow> rd_kafka_curr_msgs \<Rightarrow> rd_kafka_itopic \<Rightarrow> int \<Rightarrow> bool \<Rightarrow> nat option \<Rightarrow>
   byte list option \<Rightarrow> int \<Rightarrow> (rd_kafka_curr_msgs \<times> rd_kafka_itopic \<times> int) outcome option" where
  "rd_kafka_msg_new partitioner fatal max_msg_size uclock cm rkt force_partition block payload key now =
     (if fatal \<noteq> 0 then Some (Return (cm, rkt, fatal))
      else (case rd_kafka_msg_new0 max_msg_size uclock cm rkt force_partition block payload key 0 0 now of
              None \<Rightarrow> None
            | Some (cm1, Inl err) \<Rightarrow> Some (Return (cm1, rkt, err))
            | Some (cm1, Inr rkm) \<Rightarrow>
                let (rkt1, err) = rd_kafka_msg_partitioner partitioner rkt rkm
                in if err = 0 then Some (Return (cm1, rkt1, 0))
                   else Some (obind (rd_kafka_msg_destroy cm1 rkm) (\<lambda>(cm2, _). Return (cm2, rkt1, err)))))"

section \<open>Messages that wait for a partition\<close>

fun assign_uas_loop ::
  "(byte list option \<Rightarrow> int \<Rightarrow> int) \<Rightarrow> rd_kafka_itopic \<Rightarrow> rd_kafka_msg list \<Rightarrow> rd_kafka_msgq \<Rightarrow> rd_kafka_itopic \<times> rd_kafka_msgq" where
  "assign_uas_loop partitioner rkt [] failed = (rkt, failed)"
| "assign_uas_loop partitioner rkt (rkm # rest) failed =
     (if rkm_partition rkm \<noteq> RD_KAFKA_PARTITION_UA \<and> rkt_partition_cnt rkt \<le> rkm_partition rkm \<and> rkt_state rkt \<noteq> RD_KAFKA_TOPIC_S_UNKNOWN
      then assign_uas_loop partitioner rkt rest (rd_kafka_msgq_enq failed rkm)
      else let (rkt1, err) = rd_kafka_msg_partitioner partitioner rkt rkm
           in assign_uas_loop partitioner rkt1 rest (if err \<noteq> 0 then rd_kafka_msgq_enq failed rkm else failed))"

text \<open>The topic, the messages that failed, and the error that they are reported with.\<close>

definition rd_kafka_topic_assign_uas ::
  "(byte list option \<Rightarrow> int \<Rightarrow> int) \<Rightarrow> rd_kafka_itopic \<Rightarrow> int \<Rightarrow> rd_kafka_itopic \<times> rd_kafka_msgq \<times> int" where
  "rd_kafka_topic_assign_uas partitioner rkt err =
     (let (uas, q) = rd_kafka_msgq_move rd_kafka_msgq_init (rktp_msgq (rkt_ua rkt));
          rkt1 = rkt\<lparr>rkt_ua := (rkt_ua rkt)\<lparr>rktp_msgq := q\<rparr>\<rparr>;
          (rkt2, failed) = assign_uas_loop partitioner rkt1 (rkmq_msgs uas) rd_kafka_msgq_init
      in (rkt2, failed, if rkt_state rkt = RD_KAFKA_TOPIC_S_NOTEXISTS then err else RD_KAFKA_RESP_ERR__UNKNOWN_PARTITION))"

section \<open>Producing a batch\<close>

text \<open>The partition that is found, or the error. The code does not use \<open>ua_on_miss\<close>.\<close>

definition rd_kafka_toppar_get_avail :: "rd_kafka_itopic \<Rightarrow> int \<Rightarrow> bool \<Rightarrow> int + int" where
  "rd_kafka_toppar_get_avail rkt part ua_on_miss =
     (let found = (\<lambda>p. case rd_kafka_toppar_get rkt p False of
                          None \<Rightarrow> Inl RD_KAFKA_RESP_ERR__UNKNOWN_PARTITION | Some q \<Rightarrow> Inr q)
      in case rkt_state rkt of
           RD_KAFKA_TOPIC_S_UNKNOWN \<Rightarrow> found RD_KAFKA_PARTITION_UA
         | RD_KAFKA_TOPIC_S_NOTEXISTS \<Rightarrow> Inl RD_KAFKA_RESP_ERR__UNKNOWN_TOPIC
         | RD_KAFKA_TOPIC_S_EXISTS \<Rightarrow>
             if rkt_partition_cnt rkt = 0 then found RD_KAFKA_PARTITION_UA
             else if rkt_partition_cnt rkt \<le> part then Inl RD_KAFKA_RESP_ERR__UNKNOWN_PARTITION
             else found part)"

record rd_kafka_message =
  m_partition :: int
  m_payload :: "nat option"
  m_key :: "byte list option"

text \<open>The counters, the topic, the partition that was looked up last, and the variables \<open>all_err\<close> and \<open>good\<close>.\<close>

record batch_state =
  bs_cm :: rd_kafka_curr_msgs
  bs_rkt :: rd_kafka_itopic
  bs_s_rktp :: "int option"
  bs_all_err :: int
  bs_good :: nat

text \<open>The partition of the last message is used again if it is the same.\<close>

definition batch_lookup :: "rd_kafka_itopic \<Rightarrow> int option \<Rightarrow> int \<Rightarrow> int + int" where
  "batch_lookup rkt s_rktp part =
     (case s_rktp of
        None \<Rightarrow> rd_kafka_toppar_get_avail rkt part True
      | Some p \<Rightarrow> if part \<noteq> rktp_partition (toppar_at rkt p) then rd_kafka_toppar_get_avail rkt part True else Inr p)"

text \<open>One message of the batch: the new state, and the error that is stored in the message.\<close>

definition produce_batch_msg ::
  "(byte list option \<Rightarrow> int \<Rightarrow> int) \<Rightarrow> nat \<Rightarrow> int \<Rightarrow> int \<Rightarrow> bool \<Rightarrow> bool \<Rightarrow> int \<Rightarrow> batch_state \<Rightarrow> rd_kafka_message \<Rightarrow>
   (batch_state \<times> int) outcome option" where
  "produce_batch_msg partitioner max_msg_size utc_now now f_partition block part st msg =
     (let multiple_partitions = (part = RD_KAFKA_PARTITION_UA \<or> f_partition)
      in if bs_all_err st \<noteq> 0 then Some (Return (st, bs_all_err st))
         else (case rd_kafka_msg_new0 max_msg_size utc_now (bs_cm st) (bs_rkt st) (if f_partition then m_partition msg else part)
                      block (m_payload msg) (m_key msg) 0 utc_now now of
                 None \<Rightarrow> None
               | Some (cm1, Inl err) \<Rightarrow>
                   Some (Return (st\<lparr>bs_cm := cm1, bs_all_err := (if err = RD_KAFKA_RESP_ERR__QUEUE_FULL then err else 0)\<rparr>, err))
               | Some (cm1, Inr rkm) \<Rightarrow>
                   let st1 = st\<lparr>bs_cm := cm1\<rparr>
                   in if \<not> multiple_partitions
                      then (case bs_s_rktp st of
                              None \<Rightarrow> Some Undefined
                            | Some p \<Rightarrow> Some (Return (st1\<lparr>bs_rkt := enq_at (bs_rkt st) p rkm, bs_good := bs_good st + 1\<rparr>, 0)))
                      else if rkm_partition rkm = RD_KAFKA_PARTITION_UA
                      then let (rkt1, err) = rd_kafka_msg_partitioner partitioner (bs_rkt st) rkm
                           in if err \<noteq> 0
                              then Some (obind (rd_kafka_msg_destroy cm1 rkm) (\<lambda>(cm2, _). Return (st1\<lparr>bs_cm := cm2, bs_rkt := rkt1\<rparr>, err)))
                              else Some (Return (st1\<lparr>bs_rkt := rkt1, bs_good := bs_good st + 1\<rparr>, 0))
                      else (case batch_lookup (bs_rkt st) (bs_s_rktp st) (rkm_partition rkm) of
                              Inl err \<Rightarrow> Some (Return (st1\<lparr>bs_s_rktp := None\<rparr>, err))
                            | Inr p \<Rightarrow> Some (Return (st1\<lparr>bs_rkt := enq_at (bs_rkt st) p rkm, bs_s_rktp := Some p,
                                                         bs_good := bs_good st + 1\<rparr>, 0)))))"

fun produce_batch_loop ::
  "(byte list option \<Rightarrow> int \<Rightarrow> int) \<Rightarrow> nat \<Rightarrow> int \<Rightarrow> int \<Rightarrow> bool \<Rightarrow> bool \<Rightarrow> int \<Rightarrow> batch_state \<Rightarrow> rd_kafka_message list \<Rightarrow>
   (batch_state \<times> int list) outcome option" where
  "produce_batch_loop partitioner max_msg_size utc_now now f_partition block part st [] = Some (Return (st, []))"
| "produce_batch_loop partitioner max_msg_size utc_now now f_partition block part st (msg # rest) =
     xbind (produce_batch_msg partitioner max_msg_size utc_now now f_partition block part st msg) (\<lambda>(st1, err).
     xbind (produce_batch_loop partitioner max_msg_size utc_now now f_partition block part st1 rest) (\<lambda>(st2, errs).
       Some (Return (st2, err # errs))))"

text \<open>The counters and the topic, the errors of the messages, and the number of messages that were enqueued.\<close>

definition rd_kafka_produce_batch ::
  "(byte list option \<Rightarrow> int \<Rightarrow> int) \<Rightarrow> int \<Rightarrow> nat \<Rightarrow> int \<Rightarrow> int \<Rightarrow> bool \<Rightarrow> bool \<Rightarrow> int \<Rightarrow> rd_kafka_curr_msgs \<Rightarrow> rd_kafka_itopic \<Rightarrow>
   rd_kafka_message list \<Rightarrow> (rd_kafka_curr_msgs \<times> rd_kafka_itopic \<times> int list \<times> nat) outcome option" where
  "rd_kafka_produce_batch partitioner fatal max_msg_size utc_now now f_partition block part cm rkt rkmessages =
     (let multiple_partitions = (part = RD_KAFKA_PARTITION_UA \<or> f_partition);
          st = (if multiple_partitions
                then \<lparr>bs_cm = cm, bs_rkt = rkt, bs_s_rktp = None, bs_all_err = fatal, bs_good = 0\<rparr>
                else (case rd_kafka_toppar_get_avail rkt part True of
                        Inl err \<Rightarrow> \<lparr>bs_cm = cm, bs_rkt = rkt, bs_s_rktp = None, bs_all_err = err, bs_good = 0\<rparr>
                      | Inr p \<Rightarrow> \<lparr>bs_cm = cm, bs_rkt = rkt, bs_s_rktp = Some p, bs_all_err = fatal, bs_good = 0\<rparr>))
      in xbind (produce_batch_loop partitioner max_msg_size utc_now now f_partition block part st rkmessages) (\<lambda>(st1, errs).
           Some (Return (bs_cm st1, bs_rkt st1, errs, bs_good st1))))"

end
