(* ===== verification/Produce_Proofs.thy ===== *)
theory Produce_Proofs
  imports Produce
begin

text \<open>
  Properties of \<open>Produce\<close>: the hash of a key does not depend on the machine, the partitioners give partitions that
  exist, producing does all or nothing, and the counters of the client are those of its messages.
\<close>

section \<open>The hash function does not depend on the address\<close>

lemma byte_bit_high [simp]: "8 \<le> n \<Longrightarrow> \<not> bit (a :: byte) n"
  using bit_imp_le_length [of a n] by auto

lemma byte_masks:
  "(0xff :: u32) = push_bit 0 (mask 8)" "(0xff00 :: u32) = push_bit 8 (mask 8)"
  "(0xff0000 :: u32) = push_bit 16 (mask 8)" "(0xff000000 :: u32) = push_bit 24 (mask 8)"
  by (simp_all add: mask_eq_exp_minus_1 push_bit_eq_mult)

lemma aligned_word: "htole32 big (load32 big a b c d) = bytes32 a b c d"
proof (rule bit_word_eqI)
  fix n assume n: "n < LENGTH(32)"
  consider "n < 8" | "8 \<le> n" "n < 16" | "16 \<le> n" "n < 24" | "24 \<le> n" by linarith
  then show "bit (htole32 big (load32 big a b c d)) n = bit (bytes32 a b c d) n"
    unfolding htole32_def byte_masks
    by cases (use n in \<open>simp_all add: load32_def bytes32_def bit_mask_iff bit_or_iff bit_and_iff bit_drop_bit_eq bit_push_bit_iff
        bit_unsigned_iff\<close>, auto)
qed

lemma murmur2_loop_cong:
  "(\<And>a b c d. f a b c d = g a b c d) \<Longrightarrow> murmur2_loop f m h key = murmur2_loop g m h key"
  by (induction f m h key rule: murmur2_loop.induct) simp_all

text \<open>C38. On a little-endian and a big-endian machine, and at every address, the hash of a key is the same.\<close>

theorem murmur2_neutral: "rd_murmur2 big aligned key = rd_murmur2 big' aligned' key"
proof -
  have "rd_murmur2 big aligned key = rd_murmur2 False False key" for big aligned
    using murmur2_loop_cong [of "if aligned then (\<lambda>a b c d. htole32 big (load32 big a b c d)) else bytes32" bytes32]
    by (simp add: rd_murmur2_def aligned_word)
  then show ?thesis by metis
qed

text \<open>The values of the Java client that the unit test of the code has.\<close>

lemma murmur2_test:
  "rd_murmur2 False False (map (of_nat \<circ> of_char) ''kafka'') = 0xd067cf64"
  "rd_murmur2 True True (map (of_nat \<circ> of_char) ''giberish123456789'') = 0x8f552b0c"
  "rd_murmur2 False True [] = 0x106e08d9"
  by code_simp+

section \<open>Partitioners give partitions\<close>

lemma jitter_range: "0 < cnt \<Longrightarrow> rd_jitter rnd 0 (cnt - 1) \<in> {0..<cnt}"
  by (simp add: rd_jitter_def)

lemma random_range: "0 < cnt \<Longrightarrow> rd_kafka_msg_partitioner_random rnd1 rnd2 avail cnt \<in> {0..<cnt}"
  using jitter_range by (simp add: rd_kafka_msg_partitioner_random_def Let_def)

lemma unsigned_mod_range:
  fixes x :: u32
  assumes "0 < cnt" "cnt < 2 ^ 31"
  shows "uint (x mod word_of_int cnt) \<in> {0..<cnt}"
proof -
  have "uint (word_of_int cnt :: u32) = cnt" using assms by (simp add: uint_word_of_int_eq take_bit_int_eq_self)
  then have "uint (x mod word_of_int cnt) = uint x mod cnt" by (simp add: uint_mod)
  then show ?thesis using assms(1) by simp
qed

text \<open>
  C39. Each of the built-in partitioners gives, for every key, every state of the random number generator and
  every set of partitions with a leader, a number of an existing partition.
\<close>

theorem partitioners_in_range:
  assumes "0 < partition_cnt" "partition_cnt < 2 ^ 31"
  shows "rd_kafka_msg_partitioner_random rnd1 rnd2 avail partition_cnt \<in> {0..<partition_cnt} \<and>
    rd_kafka_msg_partitioner_consistent key partition_cnt \<in> {0..<partition_cnt} \<and>
    rd_kafka_msg_partitioner_consistent_random rnd1 rnd2 avail key partition_cnt \<in> {0..<partition_cnt} \<and>
    rd_kafka_msg_partitioner_murmur2 big aligned key partition_cnt \<in> {0..<partition_cnt} \<and>
    rd_kafka_msg_partitioner_murmur2_random rnd1 rnd2 avail big aligned key' partition_cnt \<in> {0..<partition_cnt}"
  using random_range [OF assms(1), of rnd1 rnd2 avail] unsigned_mod_range [OF assms]
  by (auto simp: rd_kafka_msg_partitioner_consistent_def rd_kafka_msg_partitioner_consistent_random_def
      rd_kafka_msg_partitioner_murmur2_def rd_kafka_msg_partitioner_murmur2_random_def split: option.split)

section \<open>Where a message goes\<close>

text \<open>The specification: the partition of a message, or the error.\<close>

definition wanted :: "(byte list option \<Rightarrow> int \<Rightarrow> int) \<Rightarrow> rd_kafka_itopic \<Rightarrow> rd_kafka_msg \<Rightarrow> int" where
  "wanted partitioner rkt m =
     (if rkm_partition m = RD_KAFKA_PARTITION_UA then partitioner (rkm_key m) (rkt_partition_cnt rkt) else rkm_partition m)"

definition destination :: "(byte list option \<Rightarrow> int \<Rightarrow> int) \<Rightarrow> rd_kafka_itopic \<Rightarrow> rd_kafka_msg \<Rightarrow> int + int" where
  "destination partitioner rkt m =
     (case rkt_state rkt of
        RD_KAFKA_TOPIC_S_UNKNOWN \<Rightarrow> Inr RD_KAFKA_PARTITION_UA
      | RD_KAFKA_TOPIC_S_NOTEXISTS \<Rightarrow> Inl RD_KAFKA_RESP_ERR__UNKNOWN_TOPIC
      | RD_KAFKA_TOPIC_S_EXISTS \<Rightarrow>
          if rkt_p rkt = [] then Inr RD_KAFKA_PARTITION_UA
          else if wanted partitioner rkt m = RD_KAFKA_PARTITION_UA \<or> wanted partitioner rkt m \<in> {0..<rkt_partition_cnt rkt}
          then Inr (wanted partitioner rkt m)
          else Inl RD_KAFKA_RESP_ERR__UNKNOWN_PARTITION)"

definition assigned :: "int \<Rightarrow> rd_kafka_msg \<Rightarrow> rd_kafka_msg" where
  "assigned p m = (if rkm_partition m = RD_KAFKA_PARTITION_UA then m\<lparr>rkm_partition := p\<rparr> else m)"

lemma msg_partitioner_spec:
  "rd_kafka_msg_partitioner partitioner rkt m =
     (case destination partitioner rkt m of Inl err \<Rightarrow> (rkt, err) | Inr p \<Rightarrow> (enq_at rkt p (assigned p m), 0))"
  by (cases "rkt_state rkt")
     (auto simp: rd_kafka_msg_partitioner_def destination_def wanted_def assigned_def rd_kafka_toppar_get_def rkt_partition_cnt_def
       RD_KAFKA_PARTITION_UA_def Let_def)

lemma destination_errors:
  "destination partitioner rkt m = Inl err \<Longrightarrow> err \<in> {RD_KAFKA_RESP_ERR__UNKNOWN_TOPIC, RD_KAFKA_RESP_ERR__UNKNOWN_PARTITION}"
  by (auto simp: destination_def split: rkt_state_enum.splits if_splits)

definition has_part :: "rd_kafka_itopic \<Rightarrow> int \<Rightarrow> bool" where
  "has_part rkt p \<longleftrightarrow> p = RD_KAFKA_PARTITION_UA \<or> 0 \<le> p \<and> nat p < length (rkt_p rkt)"

lemma destination_range:
  "destination partitioner rkt m = Inr p \<Longrightarrow> has_part rkt p"
  by (auto simp: has_part_def destination_def rkt_partition_cnt_def RD_KAFKA_PARTITION_UA_def split: rkt_state_enum.splits if_splits)

section \<open>The messages of a topic\<close>

text \<open>The messages in the queues of a topic, without the ids that they get in the queues.\<close>

definition no_id :: "rd_kafka_msg \<Rightarrow> rd_kafka_msg" where
  "no_id m = m\<lparr>rkm_msgid := 0\<rparr>"

definition contents :: "rd_kafka_toppar \<Rightarrow> rd_kafka_msg list" where
  "contents rktp = map no_id (rkmq_msgs (rktp_msgq rktp))"

definition queued :: "rd_kafka_itopic \<Rightarrow> rd_kafka_msg multiset" where
  "queued rkt = mset (contents (rkt_ua rkt)) + sum_list (map (\<lambda>rktp. mset (contents rktp)) (rkt_p rkt))"

lemma no_id_sel [simp]: "no_id (m\<lparr>rkm_msgid := i\<rparr>) = no_id m" "rkm_len (no_id m) = rkm_len m"
  by (simp_all add: no_id_def)

lemma enq_msg_contents:
  "mset (contents (fst (rd_kafka_toppar_enq_msg strategy rktp m))) = add_mset (no_id m) (mset (contents rktp))"
  "strategy = RD_KAFKA_QUEUE_FIFO \<Longrightarrow> contents (fst (rd_kafka_toppar_enq_msg strategy rktp m)) = contents rktp @ [no_id m]"
  "rktp_partition (fst (rd_kafka_toppar_enq_msg strategy rktp m)) = rktp_partition rktp"
  by (auto simp: contents_def rd_kafka_toppar_enq_msg_def rd_kafka_msgq_enq_def rd_kafka_msgq_enq_sorted_def rd_kafka_msgq_enq_sorted0_def
      Let_def no_id_def)

lemma sum_list_update_add:
  fixes f :: "'a \<Rightarrow> 'b :: comm_monoid_add"
  assumes "i < length xs" "f y = f (xs ! i) + d"
  shows "sum_list (map f (xs[i := y])) = sum_list (map f xs) + d"
  using assms by (induction xs arbitrary: i) (auto simp: ac_simps split: nat.splits)

lemma enq_at_queued:
  assumes "has_part rkt p"
  shows "queued (enq_at rkt p m) = add_mset (no_id m) (queued rkt)"
  using assms
  by (auto simp: has_part_def queued_def enq_at_def set_toppar_def toppar_at_def enq_msg_contents
      sum_list_update_add [where d = "{#no_id m#}"])

lemma enq_at_sel [simp]:
  "rkt_state (enq_at rkt p m) = rkt_state rkt" "length (rkt_p (enq_at rkt p m)) = length (rkt_p rkt)"
  "rkt_queuing_strategy (enq_at rkt p m) = rkt_queuing_strategy rkt" "rkt_message_timeout_ms (enq_at rkt p m) = rkt_message_timeout_ms rkt"
  "has_part (enq_at rkt p m) = has_part rkt"
  by (simp_all add: enq_at_def set_toppar_def has_part_def fun_eq_iff)

section \<open>Accounting\<close>

text \<open>
  The limits are those of the configuration: less than \<open>UINT_MAX\<close> messages, and a number of bytes that a
  payload cannot carry over the range of \<open>size_t\<close>.
\<close>

definition counters_ok :: "rd_kafka_curr_msgs \<Rightarrow> bool" where
  "counters_ok cm \<longleftrightarrow> cm_cnt cm \<le> cm_max_cnt cm \<and> cm_max_cnt cm < 2 ^ 32 - 1 \<and> cm_size cm \<le> cm_max_size cm \<and> cm_max_size cm < 2 ^ 62"

abbreviation payload_len :: "nat option \<Rightarrow> nat" where
  "payload_len payload \<equiv> case payload of Some n \<Rightarrow> n | None \<Rightarrow> 0"

abbreviation key_len :: "byte list option \<Rightarrow> nat" where
  "key_len key \<equiv> case key of Some k \<Rightarrow> length k | None \<Rightarrow> 0"

definition too_large :: "nat \<Rightarrow> nat option \<Rightarrow> byte list option \<Rightarrow> bool" where
  "too_large max_msg_size payload key \<longleftrightarrow> max_msg_size < payload_len payload + key_len key \<or> 2147483647 < key_len key"

definition full :: "rd_kafka_curr_msgs \<Rightarrow> nat \<Rightarrow> bool" where
  "full cm len \<longleftrightarrow> cm_cnt cm = cm_max_cnt cm \<or> cm_max_size cm < cm_size cm + len"

definition count_in :: "rd_kafka_curr_msgs \<Rightarrow> nat \<Rightarrow> rd_kafka_curr_msgs" where
  "count_in cm len = cm\<lparr>cm_cnt := cm_cnt cm + 1, cm_size := cm_size cm + len\<rparr>"

definition new_message :: "int \<Rightarrow> rd_kafka_itopic \<Rightarrow> int \<Rightarrow> nat option \<Rightarrow> byte list option \<Rightarrow> int \<Rightarrow> int \<Rightarrow> rd_kafka_msg" where
  "new_message uclock rkt force_partition payload key timestamp now =
     (rd_kafka_msg_new00 force_partition (payload_len payload) key)
       \<lparr>rkm_timestamp := (if timestamp \<noteq> 0 then timestamp else uclock), rkm_tstype := 1,
        rkm_ts_timeout := (if rkt_message_timeout_ms rkt = 0 then 2 ^ 63 - 1 else now + rkt_message_timeout_ms rkt * 1000)\<rparr>"

lemma new_message_sel [simp]:
  "rkm_len (new_message uclock rkt p payload key timestamp now) = int (payload_len payload)"
  "rkm_partition (new_message uclock rkt p payload key timestamp now) = p"
  by (simp_all add: new_message_def rd_kafka_msg_new00_def)

lemma msg_new0_spec:
  assumes "counters_ok cm" "payload_len payload < 2 ^ 62" "key_len key < 2 ^ 62"
  shows "rd_kafka_msg_new0 max_msg_size uclock cm rkt p block payload key 0 timestamp now =
    (if too_large max_msg_size payload key then Some (cm, Inl RD_KAFKA_RESP_ERR_MSG_SIZE_TOO_LARGE)
     else if full cm (payload_len payload) then if block then None else Some (cm, Inl RD_KAFKA_RESP_ERR__QUEUE_FULL)
     else Some (count_in cm (payload_len payload), Inr (new_message uclock rkt p payload key timestamp now)))"
proof -
  have add: "size_add (size_add (payload_len payload) (key_len key)) 0 = payload_len payload + key_len key"
    "size_add (cm_size cm) (payload_len payload) = cm_size cm + payload_len payload" "(cm_cnt cm + 1) mod 2 ^ 32 = cm_cnt cm + 1"
    using assms by (simp_all add: counters_ok_def)
  show ?thesis
    using assms(1)
    by (auto simp: rd_kafka_msg_new0_def Let_def add rd_kafka_curr_msgs_add_def too_large_def full_def count_in_def new_message_def
        counters_ok_def RD_KAFKA_RESP_ERR__QUEUE_FULL_def)
qed

lemma count_in_ok: "counters_ok cm \<Longrightarrow> \<not> full cm len \<Longrightarrow> counters_ok (count_in cm len)"
  by (auto simp: counters_ok_def full_def count_in_def)

lemma destroy_counted:
  "rd_kafka_msg_destroy (count_in cm (payload_len payload)) (new_message uclock rkt p payload key timestamp now) =
     Return (cm, cm_max_cnt cm \<le> cm_cnt cm + 1 \<and> cm_cnt cm < cm_max_cnt cm \<or>
       cm_max_size cm \<le> cm_size cm + payload_len payload \<and> cm_size cm < cm_max_size cm)"
  by (simp add: rd_kafka_msg_destroy_def rd_kafka_curr_msgs_sub_def count_in_def)

lemma msg_new_spec:
  assumes "counters_ok cm" "payload_len payload < 2 ^ 62" "key_len key < 2 ^ 62"
  shows "rd_kafka_msg_new partitioner fatal max_msg_size uclock cm rkt p block payload key now =
    (if fatal \<noteq> 0 then Some (Return (cm, rkt, fatal))
     else if too_large max_msg_size payload key then Some (Return (cm, rkt, RD_KAFKA_RESP_ERR_MSG_SIZE_TOO_LARGE))
     else if full cm (payload_len payload) then if block then None else Some (Return (cm, rkt, RD_KAFKA_RESP_ERR__QUEUE_FULL))
     else let m = new_message uclock rkt p payload key 0 now
          in case destination partitioner rkt m of
               Inl err \<Rightarrow> Some (Return (cm, rkt, err))
             | Inr q \<Rightarrow> Some (Return (count_in cm (payload_len payload), enq_at rkt q (assigned q m), 0)))"
  using destination_errors [of partitioner rkt "new_message uclock rkt p payload key 0 now"]
  by (auto simp: rd_kafka_msg_new_def msg_new0_spec [OF assms] msg_partitioner_spec destroy_counted Let_def
      RD_KAFKA_RESP_ERR__UNKNOWN_TOPIC_def RD_KAFKA_RESP_ERR__UNKNOWN_PARTITION_def split: sum.splits)

text \<open>The counters are those of the messages in the queues and of \<open>away\<close>, which left them and were not destroyed.\<close>

definition accounted :: "rd_kafka_curr_msgs \<Rightarrow> rd_kafka_itopic \<Rightarrow> rd_kafka_msg multiset \<Rightarrow> bool" where
  "accounted cm rkt away \<longleftrightarrow> counters_ok cm \<and> cm_cnt cm = size (queued rkt + away) \<and>
     int (cm_size cm) = (\<Sum>m \<in># queued rkt + away. rkm_len m)"

lemma assigned_len [simp]: "rkm_len (assigned p m) = rkm_len m"
  by (simp add: assigned_def)

lemma accounted_enq:
  assumes "accounted cm rkt away" "\<not> full cm len" "rkm_len m = int len" "has_part rkt p"
  shows "accounted (count_in cm len) (enq_at rkt p m) away"
  using assms count_in_ok [of cm len] by (simp add: accounted_def enq_at_queued) (simp add: count_in_def)


text \<open>
  C14. Producing a message does all or nothing. It waits only if the application asked for it and the queue is
  full; otherwise it returns. When it returns 0, exactly the new message is added to the queues, in the partition that
  is specified for it, and it is counted; when it returns an error, the topic and the counters are as before.
\<close>

theorem produce_all_or_nothing:
  assumes "accounted cm rkt away" "payload_len payload < 2 ^ 62" "key_len key < 2 ^ 62"
  shows "case rd_kafka_msg_new partitioner fatal max_msg_size uclock cm rkt p block payload key now of
      None \<Rightarrow> block \<and> fatal = 0 \<and> full cm (payload_len payload)
    | Some r \<Rightarrow> \<exists>cm' rkt' err. r = Return (cm', rkt', err) \<and> accounted cm' rkt' away \<and>
        (if err = 0
         then \<exists>q. destination partitioner rkt (new_message uclock rkt p payload key 0 now) = Inr q \<and>
                queued rkt' = add_mset (no_id (assigned q (new_message uclock rkt p payload key 0 now))) (queued rkt)
         else cm' = cm \<and> rkt' = rkt)"
proof -
  let ?m = "new_message uclock rkt p payload key 0 now"
  have ok: "counters_ok cm" using assms(1) by (simp add: accounted_def)
  have errs: "RD_KAFKA_RESP_ERR_MSG_SIZE_TOO_LARGE \<noteq> 0" "RD_KAFKA_RESP_ERR__QUEUE_FULL \<noteq> 0" "destination partitioner rkt ?m \<noteq> Inl 0"
    using destination_errors [of partitioner rkt ?m 0]
    by (auto simp: RD_KAFKA_RESP_ERR_MSG_SIZE_TOO_LARGE_def RD_KAFKA_RESP_ERR__QUEUE_FULL_def RD_KAFKA_RESP_ERR__UNKNOWN_TOPIC_def
        RD_KAFKA_RESP_ERR__UNKNOWN_PARTITION_def)
  show ?thesis
  proof (cases "destination partitioner rkt ?m")
    case (Inl err)
    then show ?thesis
      unfolding msg_new_spec [OF ok assms(2,3)] using assms(1) errs by (simp add: Let_def)
  next
    case (Inr q)
    then show ?thesis
      unfolding msg_new_spec [OF ok assms(2,3)]
      using assms(1) errs accounted_enq [OF assms(1), of "payload_len payload" "assigned q ?m" q] destination_range [OF Inr]
      by (simp add: Let_def enq_at_queued)
  qed
qed

section \<open>Waking up producers that wait\<close>

text \<open>
  C40. A producer that waits because of the number of messages is woken up by the call that brings the number below the
  limit. One that waits because of the size is woken up if the size was at the limit.
\<close>

theorem blocked_producer_woken:
  assumes "counters_ok cm" "full cm len" "\<not> full cm' len" "cnt \<le> cm_cnt cm" "sz \<le> cm_size cm"
    "rd_kafka_curr_msgs_sub cm cnt sz = Return (cm', broadcast)"
    "cm_cnt cm = cm_max_cnt cm \<or> 0 < sz \<and> cm_size cm = cm_max_size cm"
  shows broadcast
proof -
  have sub: "cm' = cm\<lparr>cm_cnt := cm_cnt cm - cnt, cm_size := cm_size cm - sz\<rparr>"
    "broadcast \<longleftrightarrow> cm_max_cnt cm \<le> cm_cnt cm \<and> cm_cnt cm - cnt < cm_max_cnt cm \<or>
       cm_max_size cm \<le> cm_size cm \<and> cm_size cm - sz < cm_max_size cm"
    using assms(4-6) by (simp_all add: rd_kafka_curr_msgs_sub_def)
  have "cm_cnt cm - cnt \<noteq> cm_max_cnt cm" using assms(3) by (simp add: sub(1) full_def)
  moreover have "cm_cnt cm - cnt \<le> cm_max_cnt cm" using assms(1) by (auto simp: counters_ok_def)
  ultimately show ?thesis using assms(5,7) unfolding sub(2) by (elim disjE) linarith+
qed

text \<open>But not if the size was below the limit: here the producer of 200 bytes waits for room that is there.\<close>

lemma blocked_producer_not_woken:
  "let cm = \<lparr>cm_cnt = 2, cm_size = 900, cm_max_cnt = 10, cm_max_size = 1000\<rparr>
   in rd_kafka_curr_msgs_add cm 1 200 True = None \<and>
      (\<exists>cm'. rd_kafka_curr_msgs_sub cm 1 500 = Return (cm', False) \<and> rd_kafka_curr_msgs_add cm' 1 200 True \<noteq> None)"
  by (simp add: rd_kafka_curr_msgs_add_def rd_kafka_curr_msgs_sub_def)

section \<open>Batches\<close>

text \<open>A message that is counted but not in a queue and not destroyed.\<close>

definition lost :: "int \<Rightarrow> bool \<Rightarrow> rd_kafka_message \<Rightarrow> int \<Rightarrow> bool" where
  "lost fatal f_partition msg err \<longleftrightarrow> fatal = 0 \<and> f_partition \<and> m_partition msg \<noteq> RD_KAFKA_PARTITION_UA \<and>
     err \<in> {RD_KAFKA_RESP_ERR__UNKNOWN_TOPIC, RD_KAFKA_RESP_ERR__UNKNOWN_PARTITION}"






lemma destination_cong:
  assumes "rkt_state rkt = rkt_state rkt'" "length (rkt_p rkt) = length (rkt_p rkt')"
  shows "destination partitioner rkt = destination partitioner rkt'"
proof -
  have empty: "rkt_p rkt = [] \<longleftrightarrow> rkt_p rkt' = []" using assms(2) by (metis length_0_conv)
  have want: "wanted partitioner rkt = wanted partitioner rkt'" by (simp add: fun_eq_iff wanted_def rkt_partition_cnt_def assms(2))
  show ?thesis by (rule ext) (simp only: destination_def rkt_partition_cnt_def assms empty want)
qed




lemmas err_defs = RD_KAFKA_RESP_ERR_MSG_SIZE_TOO_LARGE_def RD_KAFKA_RESP_ERR__QUEUE_FULL_def RD_KAFKA_RESP_ERR__UNKNOWN_TOPIC_def
  RD_KAFKA_RESP_ERR__UNKNOWN_PARTITION_def











text \<open>The messages that were enqueued, and those that were lost, for the errors that the messages got.\<close>

definition enqueued :: "(rd_kafka_message \<Rightarrow> rd_kafka_msg) \<Rightarrow> rd_kafka_message list \<Rightarrow> int list \<Rightarrow> rd_kafka_msg multiset" where
  "enqueued M msgs errs = mset (map (\<lambda>(msg, err). no_id (M msg)) (filter (\<lambda>(msg, err). err = 0) (zip msgs errs)))"

definition leaked ::
  "int \<Rightarrow> bool \<Rightarrow> (rd_kafka_message \<Rightarrow> rd_kafka_msg) \<Rightarrow> rd_kafka_message list \<Rightarrow> int list \<Rightarrow> rd_kafka_msg multiset" where
  "leaked fatal f_partition M msgs errs =
     mset (map (\<lambda>(msg, err). M msg) (filter (\<lambda>(msg, err). lost fatal f_partition msg err) (zip msgs errs)))"

lemma enqueued_simps [simp]:
  "enqueued M [] [] = {#}"
  "enqueued M (msg # msgs) (err # errs) = (if err = 0 then {#no_id (M msg)#} else {#}) + enqueued M msgs errs"
  "leaked fatal f_partition M [] [] = {#}"
  "leaked fatal f_partition M (msg # msgs) (err # errs) =
     (if lost fatal f_partition msg err then {#M msg#} else {#}) + leaked fatal f_partition M msgs errs"
  by (simp_all add: enqueued_def leaked_def)








section \<open>Messages that wait for a partition\<close>

lemma destination_enq_at [simp]: "destination partitioner (enq_at rkt q x) = destination partitioner rkt"
  by (rule destination_cong) simp_all

lemma enq_at_contents:
  assumes "rkt_queuing_strategy rkt = RD_KAFKA_QUEUE_FIFO" "has_part rkt p" "has_part rkt q"
  shows "contents (toppar_at (enq_at rkt q m) p) = contents (toppar_at rkt p) @ (if q = p then [no_id m] else [])"
  using assms by (auto simp: enq_at_def set_toppar_def toppar_at_def enq_msg_contents has_part_def nth_list_update RD_KAFKA_PARTITION_UA_def)

text \<open>The fast path fails a message that the partitioner fails too, unless the topic has no partitions yet.\<close>

lemma fast_path_fails:
  assumes "rkm_partition m \<noteq> RD_KAFKA_PARTITION_UA" "rkt_partition_cnt rkt \<le> rkm_partition m"
    "rkt_state rkt \<noteq> RD_KAFKA_TOPIC_S_UNKNOWN" "rkt_state rkt = RD_KAFKA_TOPIC_S_EXISTS \<longrightarrow> rkt_p rkt \<noteq> []"
  shows "destination partitioner rkt m \<noteq> Inr p"
  using assms by (cases "rkt_state rkt") (simp_all add: destination_def wanted_def)

definition goes_to :: "(byte list option \<Rightarrow> int \<Rightarrow> int) \<Rightarrow> rd_kafka_itopic \<Rightarrow> int \<Rightarrow> rd_kafka_msg list \<Rightarrow> rd_kafka_msg list" where
  "goes_to partitioner rkt p ms = map (\<lambda>m. no_id (assigned p m)) (filter (\<lambda>m. destination partitioner rkt m = Inr p) ms)"

definition fails :: "(byte list option \<Rightarrow> int \<Rightarrow> int) \<Rightarrow> rd_kafka_itopic \<Rightarrow> rd_kafka_msg list \<Rightarrow> rd_kafka_msg list" where
  "fails partitioner rkt ms = filter (\<lambda>m. isl (destination partitioner rkt m)) ms"

lemma assign_uas_loop_step:
  assumes "rkt_state rkt = RD_KAFKA_TOPIC_S_EXISTS \<longrightarrow> rkt_p rkt \<noteq> []"
  shows "assign_uas_loop partitioner rkt (m # ms) failed =
    (case destination partitioner rkt m of
       Inl _ \<Rightarrow> assign_uas_loop partitioner rkt ms (rd_kafka_msgq_enq failed m)
     | Inr p \<Rightarrow> assign_uas_loop partitioner (enq_at rkt p (assigned p m)) ms failed)"
proof (cases "destination partitioner rkt m")
  case (Inl err)
  then have "err \<noteq> 0" using destination_errors [OF Inl] by (auto simp: err_defs)
  then show ?thesis using Inl by (simp add: msg_partitioner_spec)
next
  case (Inr p)
  then have "\<not> (rkm_partition m \<noteq> RD_KAFKA_PARTITION_UA \<and> rkt_partition_cnt rkt \<le> rkm_partition m \<and> rkt_state rkt \<noteq> RD_KAFKA_TOPIC_S_UNKNOWN)"
    using fast_path_fails [OF _ _ _ assms] by blast
  then show ?thesis unfolding assign_uas_loop.simps msg_partitioner_spec Inr by (simp only: if_False sum.case Let_def prod.case if_cancel refl) simp
qed

lemma assign_uas_loop_spec:
  assumes "rkt_state rkt = RD_KAFKA_TOPIC_S_EXISTS \<longrightarrow> rkt_p rkt \<noteq> []" "rkt_queuing_strategy rkt = RD_KAFKA_QUEUE_FIFO"
    "assign_uas_loop partitioner rkt ms failed = (rkt', failed')"
  shows "(\<forall>p. has_part rkt p \<longrightarrow> contents (toppar_at rkt' p) = contents (toppar_at rkt p) @ goes_to partitioner rkt p ms) \<and>
    rkmq_msgs failed' = rkmq_msgs failed @ fails partitioner rkt ms"
  using assms
proof (induction ms arbitrary: rkt failed)
  case Nil
  then show ?case by (simp add: goes_to_def fails_def)
next
  case (Cons m ms)
  show ?case
  proof (cases "destination partitioner rkt m")
    case (Inl err)
    then show ?thesis
      using Cons.IH [OF Cons.prems(1,2), of "rd_kafka_msgq_enq failed m"] Cons.prems(3)
      by (simp add: assign_uas_loop_step [OF Cons.prems(1)] goes_to_def fails_def rd_kafka_msgq_enq_def del: assign_uas_loop.simps)
  next
    case (Inr q)
    let ?rkt = "enq_at rkt q (assigned q m)"
    have "rkt_p ?rkt = [] \<longleftrightarrow> rkt_p rkt = []" using enq_at_sel(2) by (metis length_0_conv)
    then have "rkt_state ?rkt = RD_KAFKA_TOPIC_S_EXISTS \<longrightarrow> rkt_p ?rkt \<noteq> []" using Cons.prems(1) by simp
    from Cons.IH [OF this] show ?thesis
      using Cons.prems Inr destination_range [OF Inr]
      by (simp add: assign_uas_loop_step [OF Cons.prems(1)] goes_to_def fails_def enq_at_contents del: assign_uas_loop.simps)
  qed
qed

text \<open>Of the messages that are away only the number and the lengths matter.\<close>

lemma accounted_lens:
  assumes "accounted cm rkt away" "size (queued rkt' + away') = size (queued rkt + away)"
    "image_mset rkm_len (queued rkt' + away') = image_mset rkm_len (queued rkt + away)"
  shows "accounted cm rkt' away'"
  using assms unfolding accounted_def by simp

lemma assign_uas_loop_accounted:
  assumes "assign_uas_loop partitioner rkt ms failed = (rkt', failed')" "accounted cm rkt (away + mset (rkmq_msgs failed) + mset ms)"
  shows "accounted cm rkt' (away + mset (rkmq_msgs failed'))"
  using assms
proof (induction partitioner rkt ms failed rule: assign_uas_loop.induct)
  case (1 partitioner rkt failed)
  then show ?case by simp
next
  case (2 partitioner rkt m ms failed)
  have enq: "accounted cm rkt (away + mset (rkmq_msgs (rd_kafka_msgq_enq failed m)) + mset ms)"
    using "2.prems"(2) by (simp add: rd_kafka_msgq_enq_def)
  have move: "accounted cm (enq_at rkt p (assigned p m)) (away + mset (rkmq_msgs failed) + mset ms)" if "has_part rkt p" for p
    by (rule accounted_lens [OF "2.prems"(2)]) (simp_all add: enq_at_queued [OF that])
  show ?case
  proof (cases "rkm_partition m \<noteq> RD_KAFKA_PARTITION_UA \<and> rkt_partition_cnt rkt \<le> rkm_partition m \<and> rkt_state rkt \<noteq> RD_KAFKA_TOPIC_S_UNKNOWN")
    case True
    then show ?thesis using "2.IH"(1) [OF True _ enq] "2.prems"(1) by simp
  next
    case False
    note ih = "2.IH"(2) [OF False refl]
    show ?thesis
    proof (cases "destination partitioner rkt m")
      case (Inl err)
      then have p: "rd_kafka_msg_partitioner partitioner rkt m = (rkt, err)" "err \<noteq> 0"
        using destination_errors [OF Inl] by (auto simp: msg_partitioner_spec err_defs)
      show ?thesis using ih [of rkt err] p enq "2.prems"(1) False by (simp only: assign_uas_loop.simps if_False) simp
    next
      case (Inr q)
      then have p: "rd_kafka_msg_partitioner partitioner rkt m = (enq_at rkt q (assigned q m), 0)" by (simp add: msg_partitioner_spec)
      show ?thesis using ih [of "enq_at rkt q (assigned q m)" 0] p move [OF destination_range [OF Inr]] "2.prems"(1) False
        by (simp only: assign_uas_loop.simps if_False) simp
    qed
  qed
qed

text \<open>
  C15. When the partitions of a topic become known, each message that waits goes, in the order of the queue, to the end of the queue
  of the partition that the partitioner or the application chose; those without such a partition, and only those, are
  reported as failed. No message is lost or counted twice.
\<close>

theorem assign_uas_partitions:
  assumes "rkt_state rkt = RD_KAFKA_TOPIC_S_EXISTS \<longrightarrow> rkt_p rkt \<noteq> []" "rkt_queuing_strategy rkt = RD_KAFKA_QUEUE_FIFO"
    "accounted cm rkt away" "rd_kafka_topic_assign_uas partitioner rkt err = (rkt', failed, reason)"
  shows "(\<forall>p. has_part rkt p \<longrightarrow> contents (toppar_at rkt' p) =
      (if p = RD_KAFKA_PARTITION_UA then [] else contents (toppar_at rkt p)) @ goes_to partitioner rkt p (rkmq_msgs (rktp_msgq (rkt_ua rkt)))) \<and>
    rkmq_msgs failed = fails partitioner rkt (rkmq_msgs (rktp_msgq (rkt_ua rkt))) \<and>
    accounted cm rkt' (away + mset (rkmq_msgs failed))"
proof -
  let ?uas = "rkmq_msgs (rktp_msgq (rkt_ua rkt))"
  let ?rkt = "rkt\<lparr>rkt_ua := (rkt_ua rkt)\<lparr>rktp_msgq := rd_kafka_msgq_init\<rparr>\<rparr>"
  have loop: "assign_uas_loop partitioner ?rkt ?uas rd_kafka_msgq_init = (rkt', failed)"
    using assms(4) by (auto simp: rd_kafka_topic_assign_uas_def move_eq Let_def split: prod.splits)
  have same: "destination partitioner ?rkt = destination partitioner rkt" "has_part ?rkt = has_part rkt"
    by (rule destination_cong) (simp_all add: fun_eq_iff has_part_def)
  have ua: "contents (toppar_at ?rkt p) = (if p = RD_KAFKA_PARTITION_UA then [] else contents (toppar_at rkt p))" for p
    by (simp add: toppar_at_def contents_def)
  have "accounted cm ?rkt (away + mset (rkmq_msgs rd_kafka_msgq_init) + mset ?uas)"
    by (rule accounted_lens [OF assms(3)]) (simp_all add: queued_def contents_def multiset.map_comp comp_def ac_simps)
  from assign_uas_loop_accounted [OF loop this] assign_uas_loop_spec [OF _ _ loop] assms(1,2) show ?thesis
    by (simp add: same ua goes_to_def fails_def)
qed

section \<open>Examples\<close>

definition example_topic :: "rkt_state_enum \<Rightarrow> rd_kafka_msg list \<Rightarrow> rd_kafka_itopic" where
  "example_topic state waiting =
     (let q = (\<lambda>ms. \<lparr>rkmq_msgs = ms, rkmq_msg_cnt = int (length ms), rkmq_msg_bytes = sum_list (map msg_size ms)\<rparr>);
          part = (\<lambda>i ms. \<lparr>rktp_partition = i, rktp_msgq = q ms, rktp_xmit_msgq = q [], rktp_msgid = 0, rktp_wakeup = False\<rparr>)
      in \<lparr>rkt_ua = part (- 1) waiting, rkt_p = (if state = RD_KAFKA_TOPIC_S_EXISTS then [part 0 [], part 1 []] else []),
          rkt_state = state, rkt_queuing_strategy = RD_KAFKA_QUEUE_FIFO, rkt_message_timeout_ms = 0\<rparr>)"

definition example_counters :: "nat \<Rightarrow> nat \<Rightarrow> rd_kafka_curr_msgs" where
  "example_counters cnt sz = \<lparr>cm_cnt = cnt, cm_size = sz, cm_max_cnt = 10, cm_max_size = 1000\<rparr>"

definition waiting_msg :: "int \<Rightarrow> rd_kafka_msg" where
  "waiting_msg p = (example_msg 0)\<lparr>rkm_partition := p\<rparr>"

lemmas produce_example_defs = example_topic_def example_counters_def waiting_msg_def example_msg_def accounted_def counters_ok_def
  queued_def contents_def no_id_def Let_def

theorem partitioners_in_range_witness:
  "rd_kafka_msg_partitioner_random 7 9 (\<lambda>_. False) 4 \<in> {0..<4} \<and>
   rd_kafka_msg_partitioner_consistent [107] 4 \<in> {0..<4} \<and>
   rd_kafka_msg_partitioner_consistent_random 7 9 (\<lambda>_. False) [107] 4 \<in> {0..<4} \<and>
   rd_kafka_msg_partitioner_murmur2 False True [107] 4 \<in> {0..<4} \<and>
   rd_kafka_msg_partitioner_murmur2_random 7 9 (\<lambda>_. False) False True None 4 \<in> {0..<4}"
  by (rule partitioners_in_range) simp_all

theorem produce_all_or_nothing_witness:
  "\<exists>cm' rkt'. rd_kafka_msg_new (\<lambda>_ _. 1) 0 1000 5 (example_counters 0 0) (example_topic RD_KAFKA_TOPIC_S_EXISTS []) (- 1) False
       (Some 100) (Some [1, 2]) 0 = Some (Return (cm', rkt', 0)) \<and> accounted cm' rkt' {#} \<and> size (queued rkt') = 1"
proof -
  let ?rkt = "example_topic RD_KAFKA_TOPIC_S_EXISTS []"
  have a: "accounted (example_counters 0 0) ?rkt {#}" and e: "queued ?rkt = {#}" by (simp_all add: produce_example_defs)
  have "\<exists>cm' rkt'. rd_kafka_msg_new (\<lambda>_ _. 1) 0 1000 5 (example_counters 0 0) ?rkt (- 1) False (Some 100) (Some [1, 2]) 0
      = Some (Return (cm', rkt', 0))"
    by (subst msg_new_spec) (simp_all add: too_large_def full_def destination_def wanted_def rkt_partition_cnt_def
        RD_KAFKA_PARTITION_UA_def produce_example_defs)
  then obtain cm' rkt' where r: "rd_kafka_msg_new (\<lambda>_ _. 1) 0 1000 5 (example_counters 0 0) ?rkt (- 1) False (Some 100) (Some [1, 2]) 0
      = Some (Return (cm', rkt', 0))" by (elim exE) (rule that)
  show ?thesis
    using produce_all_or_nothing [OF a, where payload = "Some 100" and key = "Some [1, 2]" and partitioner = "\<lambda>_ _. 1" and fatal = 0
        and max_msg_size = 1000 and uclock = 5 and p = "- 1" and block = False and now = 0] r
    by (auto simp: e)
qed

theorem blocked_producer_woken_witness:
  "full (example_counters 10 500) 100 \<and> rd_kafka_curr_msgs_sub (example_counters 10 500) 1 50 = Return (example_counters 9 450, True)"
proof -
  have "rd_kafka_curr_msgs_sub (example_counters 10 500) 1 50 = Return (example_counters 9 450, b) \<Longrightarrow> b" for b
    by (rule blocked_producer_woken [of "example_counters 10 500" 100 "example_counters 9 450" 1 50])
       (simp_all add: example_counters_def counters_ok_def full_def)
  moreover have "\<exists>b. rd_kafka_curr_msgs_sub (example_counters 10 500) 1 50 = Return (example_counters 9 450, b)"
    by (auto simp: rd_kafka_curr_msgs_sub_def example_counters_def)
  ultimately show ?thesis by (auto simp: full_def example_counters_def)
qed

text \<open>A batch for a topic that does not exist: both messages are counted for ever.\<close>

definition example_batch :: "rd_kafka_message list" where
  "example_batch = [\<lparr>m_partition = 0, m_payload = Some 100, m_key = None\<rparr>, \<lparr>m_partition = 1, m_payload = Some 50, m_key = None\<rparr>]"

lemma batch_counts_for_ever:
  "rd_kafka_produce_batch (\<lambda>_ _. 0) 0 1000 5 5 True False (- 1) (example_counters 0 0) (example_topic RD_KAFKA_TOPIC_S_NOTEXISTS []) example_batch =
     Some (Return (example_counters 2 150, example_topic RD_KAFKA_TOPIC_S_NOTEXISTS [], [- 188, - 188], 0))"
  by (simp add: rd_kafka_produce_batch_def produce_batch_msg_def rd_kafka_msg_new0_def rd_kafka_msg_new00_def rd_kafka_curr_msgs_add_def
      batch_lookup_def rd_kafka_toppar_get_avail_def example_batch_def example_counters_def example_topic_def Let_def err_defs
      RD_KAFKA_PARTITION_UA_def)


theorem assign_uas_partitions_witness:
  "let rkt = example_topic RD_KAFKA_TOPIC_S_EXISTS [waiting_msg (- 1), waiting_msg 7, waiting_msg 0, waiting_msg 1] in
     \<exists>rkt' failed reason. rd_kafka_topic_assign_uas (\<lambda>_ _. 1) rkt 0 = (rkt', failed, reason) \<and>
       contents (toppar_at rkt' 1) = [waiting_msg 1, waiting_msg 1] \<and> rkmq_msgs failed = [waiting_msg 7] \<and>
       accounted (example_counters 4 40) rkt' (mset (rkmq_msgs failed))"
proof -
  let ?ms = "[waiting_msg (- 1), waiting_msg 7, waiting_msg 0, waiting_msg 1]"
  let ?rkt = "example_topic RD_KAFKA_TOPIC_S_EXISTS ?ms"
  obtain rkt' failed reason where r: "rd_kafka_topic_assign_uas (\<lambda>_ _. 1) ?rkt 0 = (rkt', failed, reason)" by (metis prod_cases3)
  have a: "accounted (example_counters 4 40) ?rkt {#}" by (simp add: produce_example_defs)
  have p: "has_part ?rkt 1" by (simp add: has_part_def produce_example_defs)
  have "goes_to (\<lambda>_ _. 1) ?rkt 1 ?ms = [waiting_msg 1, waiting_msg 1]" "fails (\<lambda>_ _. 1) ?rkt ?ms = [waiting_msg 7]"
    "contents (toppar_at ?rkt 1) = []" "rkmq_msgs (rktp_msgq (rkt_ua ?rkt)) = ?ms"
    by (simp_all add: goes_to_def fails_def destination_def wanted_def assigned_def toppar_at_def rkt_partition_cnt_def
        RD_KAFKA_PARTITION_UA_def produce_example_defs)
  then show ?thesis
    using assign_uas_partitions [OF _ _ a r] p r
    by (auto simp: Let_def example_topic_def RD_KAFKA_PARTITION_UA_def)
qed

end
