(* ===== verification/Spec2Isabelle.thy ===== *)
theory Spec2Isabelle
  imports Assignor_Proofs Broker_Run Idempotence Metacache_Proofs Produce_Proofs
begin

text \<open>
  Verification of the C client library librdkafka in \<open>src/src/php73/librdkafka/src\<close>, the C program
  of this repository. Paths below are relative to that directory.

  \<^bold>\<open>The program.\<close> The library lets an application produce to and consume from Kafka brokers. Bytes
  are assembled in segmented buffers (\<open>rdbuf.c\<close>) and read back through slices. The protocol buffer
  (\<open>rdkafka_buf.h\<close>, \<open>rdkafka_buf.c\<close>) puts the fields of a Kafka request on such a buffer and parses
  a response through a slice; numbers are big-endian or varints (\<open>rdvarint.h\<close>), messages carry a
  CRC (\<open>rdcrc32.c\<close>), strings and byte arrays are those of \<open>rdkafka_proto.h\<close>. For each broker a
  thread owns an output queue of requests, a queue of those in flight and one of those waiting to
  be retried (\<open>rdkafka_broker.c\<close>). Lists of topic partitions (\<open>rdkafka_partition.c\<close>) carry
  subscriptions, assignments and offsets; when a consumer group rebalances, its leader computes the
  assignment of partitions to members from them (\<open>rdkafka_assignor.c\<close> and the two strategies). The
  main thread dispatches timers (\<open>rdkafka_timer.c\<close>), and one of them drives the acquisition of the
  producer id of an idempotent producer (\<open>rdkafka_idempotence.c\<close>), another the expiry of the cached
  metadata of topics (\<open>rdkafka_metadata_cache.c\<close>), which is a search tree (\<open>rdavl.c\<close>) and a queue.
  Messages to be produced wait in queues of their partition (\<open>rdkafka_msg.c\<close>, \<open>rdkafka_partition.c\<close>),
  from which batches are taken and to which failed ones return.

  \<^bold>\<open>Conventions.\<close> One HOL function stands for one C function and has its name; loops are helper
  functions next to it. A struct is a record with the C field names, an object that is changed is
  returned changed, and a pointer into an array is an index. A call returns an \<open>outcome\<close>: a value, a
  failed assertion, or undefined behaviour; where a loop may run for ever, an option of that. Code
  outside the repository and what the environment decides (the transport, regular expressions, the
  clock, other threads between two calls) are arguments of the definitions. Locks, log output and
  reference counts are left out. \<open>size_t\<close> is \<open>nat\<close> with the wrap-around written out where a
  caller's number enters, other integers are \<open>int\<close> with the conversions of the code written
  out, and bits are words.

  \<^bold>\<open>The theories.\<close>

  \<^item> \<open>Prelude\<close>: C types, outcomes, shared facts.
  \<^item> \<open>Varint\<close> (\<open>rdvarint.h\<close>): the encoders and the decoder of varints. The encoder
    never stores outside its destination (a store outside is undefined behaviour in the model) and needs
    at most the documented number of bytes, which decode to the same number; the decoder accepts more
    continuation bytes than it may shift for.
  \<^item> \<open>Rdbuf\<close> (\<open>rdbuf.h\<close>, \<open>rdbuf.c\<close>): segments and the write operations of the buffer.
    \<open>Rdbuf_Inv\<close> has its invariant, \<open>Rdbuf_Ops\<close> and \<open>Rdbuf_Room\<close> (contiguous blocks, stores into the
    free memory, writes without payload) that each operation keeps it and what it does to the bytes,
    \<open>Rdbuf_Reach\<close> the step relation: every reachable buffer holds the byte string that the same
    operations build, and every permitted operation returns. Two conditions of permission are not
    documented in the code: seeks do not end in a pushed segment, and a contiguous block is not
    allocated while there is free space. Without either, a write can loop for ever, which is proved too.
  \<^item> \<open>Slice\<close> (\<open>rdbuf.c\<close>, \<open>rdvarint.c\<close>): reading through a window on a buffer. What was written is
    read, over any segmentation; windows can be narrowed and widened; a length that wraps around
    passes a check.
  \<^item> \<open>Crc32\<close> (\<open>rdcrc32.c\<close>): the table-driven CRC is the division by the generator polynomial, over
    a slice too, and detects every burst of up to 32 bits, at any bit position.
  \<^item> \<open>Rdlist\<close> (\<open>rdlist.c\<close>): the growable array of pointers, with sorting and binary search
    (the order that \<open>qsort\<close> gives equal elements is open in C; the model keeps it).
  \<^item> \<open>Proto\<close> (\<open>rdkafka_proto.h\<close>): strings, byte arrays, header sizes, producer ids.
  \<^item> \<open>Kbuf\<close> (\<open>rdkafka_buf.h\<close>, \<open>rdkafka_buf.c\<close>): the protocol buffer. \<open>Kbuf_Proofs\<close> states what it
    relies on as the locales \<open>byte_sink\<close> and \<open>byte_source\<close>, interpreted by the buffer and the slice;
    \<open>Kbuf_Fields\<close> has the round trip of any sequence of fields, the error at every point where a
    response may be cut off, and the framing of a request; \<open>Kbuf_State\<close> the running CRC and the
    temporary buffer.
  \<^item> \<open>Broker\<close> (\<open>rdkafka_broker.c\<close>): queues, sending, responses, time-outs, purging, retries, failure
    of the connection. \<open>Broker_Inv\<close> has the invariant of the queues (locale \<open>keyed_queue\<close>),
    \<open>Broker_Steps\<close> that each operation keeps it, \<open>Broker_Wire\<close> what is on the wire, \<open>Broker_Run\<close> the
    step relation and its theorems: counters and correlation ids are consistent, no request is lost
    or called back twice, the bytes on a connection are whole requests and a part of one, a response
    reaches its request, sending ends.
  \<^item> \<open>Parlist\<close> (\<open>rdkafka_partition.c\<close>): the list of topic partitions is a map from partitions to
    offsets, as long as \<open>add\<close>, which does not look for duplicates, is given new partitions only.
  \<^item> \<open>Assignor\<close> (\<open>rdkafka_assignor.c\<close>, \<open>rdkafka_range_assignor.c\<close>, \<open>rdkafka_roundrobin_assignor.c\<close>):
    subscriptions and the two strategies. \<open>Assignor_Proofs\<close>: when members subscribe
    by name, the range strategy gives every partition to exactly one subscriber, fairly, and round robin
    deals out in turn when all subscriptions are the same. Examples show that round robin can read past
    the members otherwise, and that with patterns a topic can be left out.
  \<^item> \<open>Timer\<close> (\<open>rdkafka_timer.c\<close>): the timer engine. \<open>Timer_Run\<close>: the queue is ordered while the times in it
    are less than \<open>2^31\<close> microseconds apart, and a timer further away is put in front; a run returns for every callback that keeps the contract of
    the locale \<open>timer_callback\<close>, which callbacks that use timers do.
  \<^item> \<open>Idempotence\<close> (\<open>rdkafka_idempotence.c\<close>): the state machine of the producer id, whose timer
    callback interprets \<open>timer_callback\<close>. Broker threads send under a copy of the id that
    they make for a pass over their partitions, interleaved with all other steps: a partition whose copy
    was current when it sent keeps the current id while it is in flight, but a copy can be an epoch that
    has ended (\<open>stale_epoch_sent\<close>). A failed request for an id is never repeated.
  \<^item> \<open>Tailq\<close> (\<open>rdsysqueue.h\<close>): the tail queues with the macros that the code adds, which the timers
    and the message queues use.
  \<^item> \<open>Msgq\<close> (\<open>rdkafka_msg.h\<close>, \<open>rdkafka_msg.c\<close>, \<open>rdkafka_partition.c\<close>, \<open>rdkafka_msgset_writer.c\<close>): queues of
    messages, merging, retries, time-outs, the queues of a partition and the loop that takes a batch.
    \<open>Msgq_Proofs\<close>: merging gives the messages in the order of their ids, and in every run of a
    partition none is lost or duplicated and batches are in order, retried messages included.
  \<^item> \<open>Avl\<close> (\<open>rdavl.c\<close>, \<open>rdavl.h\<close>): the search trees. Balancing ends for all subtrees that are
    balanced, however different in height; for a comparator that orders by a key (locale
    \<open>avl_order\<close>) a tree is a map, and a search is logarithmic although new nodes have a wrong height.
  \<^item> \<open>Metacache\<close> (\<open>rdkafka_metadata_cache.c\<close>): the cache of topic metadata, on the trees and the
    timers. \<open>Metacache_Proofs\<close> interprets \<open>avl_order\<close> by the order of topic names: the cache is a map in
    every run, its tree, queue and counter agree, and partitions are found as they were stored, for
    partition numbers of which the difference that the comparator forms fits \<open>int32_t\<close>.
  \<^item> \<open>Produce\<close> (\<open>rdkafka_msg.c\<close>, \<open>rdmurmur2.c\<close>, \<open>rdkafka_int.h\<close>, \<open>rdkafka_topic.c\<close>): the hash of keys, the
    partitioners, creating and counting a message and its way to the queue of a partition, one by one
    and in batches, and the messages that wait until the partitions are known. \<open>Produce_Proofs\<close>: the hash
    does not depend on the machine, partitioners give existing partitions, producing does all or
    nothing, a batch adds exactly its messages without error, waiting messages reach their partitions in order, and the counters are those of the messages
    that exist, with two exceptions that are proved: some failed messages of a batch stay counted,
    and some waiting producers are not woken up.

  \<^bold>\<open>Bounds and fuel.\<close> Loops that the code bounds are structural or have a measure. The loops of
  \<open>rd_buf_write\<close>, of the slice readers and of the timers are \<open>partial_function\<close>s, and that they
  return is proved. The loop of \<open>rd_kafka_send\<close> has fuel, the length of the output queue and one:
  each round takes a request from the queue or ends, which \<open>send_returns\<close> shows. Balancing a tree has
  fuel for its nested calls, twice the difference of the heights and five: each rotation makes
  the difference smaller, with a fixed number of rotations at the end (\<open>balanced_any\<close>).

  \<^bold>\<open>Not modelled.\<close> The consumer group, topics and the requests for metadata, partition objects and offset
  storage, ops and queues between threads, message headers, the encoding of message sets, the functions that write one request each, configuration
  and the public interface: they are larger, mostly sequences of calls of the parts above, and
  remain to be done. Transport, TLS, SASL and compression call other libraries. Vendored code,
  portability code, the C++ binding, examples, tests and the container configuration are not part
  of the program's own logic.
\<close>

end
